(* ===== verification/Prelude.thy ===== *)
theory Prelude
  imports Main "HOL-Library.Multiset"
begin

text \<open>
  Shared vocabulary of the development: the JavaScript values, strings and array primitives
  that the modelled scripts use (\<^verbatim>\<open>slice\<close>, \<^verbatim>\<open>substring\<close>, \<^verbatim>\<open>indexOf\<close>), with the generic list
  lemmas the component theories share.  A JavaScript string is the list of its UTF-16 code
  units; \<open>str\<close> turns an ASCII literal into such a list.
\<close>

type_synonym code_unit = nat

type_synonym js_string = "code_unit list"

named_theorems js_simps \<open>definitions of JavaScript primitives, unfolded on demand\<close>

definition str :: "string \<Rightarrow> js_string" where
  [js_simps]: "str s = map of_char s"

definition is_unit :: "code_unit \<Rightarrow> bool" where
  "is_unit u \<longleftrightarrow> u < 65536"

definition units :: "js_string \<Rightarrow> bool" where
  "units s \<longleftrightarrow> list_all is_unit s"

text \<open>
  \<^verbatim>\<open>Array.prototype.slice\<close> and \<^verbatim>\<open>String.prototype.slice\<close>: a negative bound counts from the end,
  both bounds are clamped to the array.
\<close>

definition rel_index :: "nat \<Rightarrow> int \<Rightarrow> nat" where
  "rel_index n i = (if i < 0 then nat (max 0 (int n + i)) else min n (nat i))"

definition js_slice :: "'a list \<Rightarrow> int \<Rightarrow> int \<Rightarrow> 'a list" where
  "js_slice xs b e =
     (let b' = rel_index (length xs) b; e' = rel_index (length xs) e in take (e' - b') (drop b' xs))"

lemma js_slice_nat:
  "js_slice xs (int b) (int e) = take (e - b) (drop b xs)"
proof (cases "b \<le> length xs")
  case True
  then show ?thesis
    by (cases "e \<le> length xs") (auto simp: js_slice_def rel_index_def min_def)
next
  case False
  then show ?thesis
    by (simp add: js_slice_def rel_index_def min_def)
qed

lemma js_slice_all [simp]: "js_slice xs 0 (int (length xs)) = xs"
  using js_slice_nat [of xs 0 "length xs"] by simp

subsection \<open>Lists\<close>

lemma take_append_exact: "length xs = n \<Longrightarrow> take n (xs @ ys) = xs"
  by simp

lemma drop_append_exact: "length xs = n \<Longrightarrow> drop n (xs @ ys) = ys"
  by simp

lemma concat_map_append: "concat (map f (xs @ ys)) = concat (map f xs) @ concat (map f ys)"
  by simp


lemma concat_map_if: "concat (map (\<lambda>j. if P j then [] else [f j]) xs) = map f (filter (\<lambda>j. \<not> P j) xs)"
  by (induction xs) auto

lemma map_of_append_notin: "k \<notin> fst ` set xs \<Longrightarrow> map_of (xs @ (k, v) # ys) k = Some v"
  by (induction xs) auto

lemma notin_tl: "x \<notin> f ` set xs \<Longrightarrow> x \<notin> f ` set (tl xs)"
  by (cases xs) auto

subsection \<open>Errors\<close>

text \<open>
  What a script throws: the engine's \<^verbatim>\<open>TypeError\<close> (a property of \<^verbatim>\<open>null\<close> or \<^verbatim>\<open>undefined\<close>, a call of
  something that is not a function) or a value of its own.  A computation that can throw is a value
  of \<open>js_error + 'a\<close>.
\<close>

datatype js_error = TypeError | Thrown string | OutOfFuel

definition ebind :: "'e + 'a \<Rightarrow> ('a \<Rightarrow> 'e + 'b) \<Rightarrow> 'e + 'b" where
  "ebind m f = (case m of Inl e \<Rightarrow> Inl e | Inr x \<Rightarrow> f x)"

lemma ebind_simps [simp]: "ebind (Inl e) f = Inl e" "ebind (Inr x) f = f x"
  by (simp_all add: ebind_def)

lemma ebind_Inr: "ebind m f = Inr y \<longleftrightarrow> (\<exists>x. m = Inr x \<and> f x = Inr y)"
  by (cases m) auto

lemma ebind_InrE:
  assumes "ebind m f = Inr y"
  obtains x where "m = Inr x" "f x = Inr y"
  using assms by (auto simp: ebind_Inr)

definition deref :: "'a option \<Rightarrow> js_error + 'a" where
  "deref x = (case x of None \<Rightarrow> Inl TypeError | Some y \<Rightarrow> Inr y)"

lemma deref_simps [simp]: "deref None = Inl TypeError" "deref (Some x) = Inr x"
  by (simp_all add: deref_def)

subsection \<open>A codec and its clients\<close>

text \<open>
  The contract an encoder and its decoder keep, and what every client gets from it: an encoded text
  determines the value it came from.
\<close>

locale codec =
  fixes enc :: "'a \<Rightarrow> 'b" and dec :: "'b \<Rightarrow> 'a" and valid :: "'a \<Rightarrow> bool"
  assumes dec_enc: "valid x \<Longrightarrow> dec (enc x) = x"
begin

lemma enc_inject: "valid x \<Longrightarrow> valid y \<Longrightarrow> enc x = enc y \<Longrightarrow> x = y"
  using dec_enc by metis

lemma enc_map_inject:
  "list_all valid xs \<Longrightarrow> list_all valid ys \<Longrightarrow> map enc xs = map enc ys \<Longrightarrow> xs = ys"
proof -
  assume v: "list_all valid xs" "list_all valid ys" and e: "map enc xs = map enc ys"
  have "map dec (map enc zs) = zs" if "list_all valid zs" for zs
    using that by (induction zs) (auto simp: dec_enc)
  then show ?thesis using v e by metis
qed

end

end
