(* ===== verification/Base64.thy ===== *)
theory Base64
  imports Prelude
begin

text \<open>
  \<^verbatim>\<open>static/js/common/Base64.js\<close>: the console's Base64 codec, which works on arrays of bits.
  Characters are turned into UTF-8 bit patterns, the bit array is cut into groups of six, and
  the decoder reverses both steps.  Bits are the numbers 0 and 1, as in the script; indices and
  lengths are natural numbers.  The round trip and the refinement to the arithmetic definition of
  UTF-8 and Base64 are proved here.
\<close>

section \<open>The codec\<close>

text \<open>\<^verbatim>\<open>BASE64_MAPPING\<close>.\<close>

definition BASE64_MAPPING :: "code_unit list" where
  "BASE64_MAPPING =
     str ''ABCDEFGHIJKLMNOPQRSTUVWXYZabcdefghijklmnopqrstuvwxyz0123456789+/''"

text \<open>\<^verbatim>\<open>_toBinary\<close>: the loop pushes the low bit first, and the array is reversed at the end.\<close>

fun toBinary_loop :: "nat \<Rightarrow> nat list \<Rightarrow> nat list" where
  "toBinary_loop ascii binary =
     (if ascii > 0 then toBinary_loop (ascii div 2) (binary @ [ascii mod 2]) else binary)"

declare toBinary_loop.simps [simp del]

definition toBinary :: "nat \<Rightarrow> nat list" where
  "toBinary ascii = rev (toBinary_loop ascii [])"

text \<open>\<^verbatim>\<open>_toDecimal\<close>: the loop runs from the last bit to the first.\<close>

fun toDecimal_loop :: "nat list \<Rightarrow> nat \<Rightarrow> nat \<Rightarrow> nat" where
  "toDecimal_loop [] dec p = dec"
| "toDecimal_loop (b # bs) dec p =
     toDecimal_loop bs (if b = 1 then dec + 2 ^ p else dec) (Suc p)"

definition toDecimal :: "nat list \<Rightarrow> nat" where
  "toDecimal binary = toDecimal_loop (rev binary) 0 0"

text \<open>The \<^verbatim>\<open>unshift(0)\<close> loops: \<^verbatim>\<open>while(--diff >= 0) a.unshift(0)\<close>.\<close>

definition unshift_zeros :: "int \<Rightarrow> nat list \<Rightarrow> nat list" where
  "unshift_zeros diff a = replicate (nat diff) 0 @ a"

text \<open>
  \<^verbatim>\<open>_toUTF8Binary\<close>: \<open>c\<close> one-bits and a zero-bit, the first \<open>8 - (c + 1)\<close> payload bits, then
  \<open>c - 1\<close> groups of \<^verbatim>\<open>10\<close> and six payload bits.
\<close>

fun utf8_groups :: "nat \<Rightarrow> nat list \<Rightarrow> nat \<Rightarrow> nat list" where
  "utf8_groups 0 binaryArray i = []"
| "utf8_groups (Suc j) binaryArray i =
     [1, 0] @ take 6 (drop i binaryArray) @ utf8_groups j binaryArray (i + 6)"

definition toUTF8Binary :: "nat \<Rightarrow> nat list \<Rightarrow> nat list" where
  "toUTF8Binary c binaryArray =
     (let mustLen = (8 - (int c + 1)) + (int c - 1) * 6;
          fatLen = int (length binaryArray);
          padded = unshift_zeros (mustLen - fatLen) binaryArray;
          len = 8 - (c + 1)
      in replicate c 1 @ [0] @ take len padded @ utf8_groups (c - 1) padded len)"

text \<open>One step of the encoder's first loop: the bits appended for one code unit.\<close>

definition unit_bits :: "code_unit \<Rightarrow> nat list" where
  "unit_bits unicode =
     (let tmpBinary = toBinary unicode in
      if unicode < 0x80 then unshift_zeros (8 - int (length tmpBinary)) tmpBinary
      else if unicode \<ge> 0x80 \<and> unicode \<le> 0x7FF then toUTF8Binary 2 tmpBinary
      else if unicode \<ge> 0x800 \<and> unicode \<le> 0xFFFF then toUTF8Binary 3 tmpBinary
      else if unicode \<ge> 0x10000 \<and> unicode \<le> 0x1FFFFF then toUTF8Binary 4 tmpBinary
      else if unicode \<ge> 0x200000 \<and> unicode \<le> 0x3FFFFFF then toUTF8Binary 5 tmpBinary
      else if unicode \<ge> 4000000 \<and> unicode \<le> 0x7FFFFFFF then toUTF8Binary 6 tmpBinary
      else [])"

fun encoder_bits :: "js_string \<Rightarrow> nat list \<Rightarrow> nat list" where
  "encoder_bits [] binaryArray = binaryArray"
| "encoder_bits (u # us) binaryArray = encoder_bits us (binaryArray @ unit_bits u)"

text \<open>
  The encoder's second loop: \<open>len\<close> is the length before any padding; \<open>extra_Zero_Count\<close> is set on
  the last group and the zeros are pushed before the group is read.
\<close>

function encoder_groups ::
  "nat \<Rightarrow> nat \<Rightarrow> nat list \<Rightarrow> nat \<Rightarrow> nat list \<Rightarrow> nat list \<times> nat" where
  "encoder_groups i len binaryArray extra_Zero_Count base64_Index =
     (if i < len then
        (let diff = (int i + 6) - int len;
             extra = (if diff = 2 then 2 else if diff = 4 then 4 else extra_Zero_Count);
             arr = binaryArray @ replicate extra 0
         in encoder_groups (i + 6) len arr extra
              (base64_Index @ [toDecimal (take 6 (drop i arr))]))
      else (base64_Index, extra_Zero_Count))"
  by pat_completeness auto
termination
  by (relation "measure (\<lambda>(i, len, _). len - i)") auto

declare encoder_groups.simps [simp del]

text \<open>Reading \<^verbatim>\<open>BASE64_MAPPING[k]\<close> past the table appends the string \<^verbatim>\<open>undefined\<close>.\<close>

definition mapping_at :: "nat \<Rightarrow> js_string" where
  "mapping_at k = (if k < length BASE64_MAPPING then [BASE64_MAPPING ! k] else str ''undefined'')"

definition encoder :: "js_string \<Rightarrow> js_string" where
  "encoder s =
     (let binaryArray = encoder_bits s [];
          (base64_Index, extra_Zero_Count) =
            encoder_groups 0 (length binaryArray) binaryArray 0 []
      in concat (map mapping_at base64_Index) @ replicate (extra_Zero_Count div 2) (of_char CHR ''=''))"

text \<open>The decoder's first step: trailing \<^verbatim>\<open>=\<close> signs say how many zeros the encoder added.\<close>

definition decoder_padding :: "js_string \<Rightarrow> js_string \<times> nat" where
  "decoder_padding s =
     (let len = length s; eq = of_char CHR ''='' in
      if len \<ge> 1 \<and> s ! (len - 1) = eq then
        (if len \<ge> 2 \<and> s ! (len - 2) = eq then (take (len - 2) s, 4) else (take (len - 1) s, 2))
      else (s, 0))"

text \<open>The search of a character in \<^verbatim>\<open>BASE64_MAPPING\<close>; a character outside it adds no bits.\<close>

fun mapping_search :: "code_unit \<Rightarrow> nat \<Rightarrow> code_unit list \<Rightarrow> nat list" where
  "mapping_search c j [] = []"
| "mapping_search c j (m # ms) =
     (if c = m then
        (let tmp = toBinary j in unshift_zeros (6 - int (length tmp)) tmp)
      else mapping_search c (Suc j) ms)"

fun decoder_bits :: "js_string \<Rightarrow> nat list \<Rightarrow> nat list" where
  "decoder_bits [] binaryArray = binaryArray"
| "decoder_bits (c # cs) binaryArray =
     decoder_bits cs (binaryArray @ mapping_search c 0 BASE64_MAPPING)"

text \<open>The inner \<^verbatim>\<open>while(i < len)\<close> loop that counts the leading one-bits.\<close>

function count_ones :: "nat list \<Rightarrow> nat \<Rightarrow> nat \<Rightarrow> nat \<times> nat" where
  "count_ones binaryArray i sm =
     (if i < length binaryArray then
        (if binaryArray ! i = 1 then count_ones binaryArray (i + 1) (sm + 1) else (i, sm))
      else (i, sm))"
  by pat_completeness auto
termination
  by (relation "measure (\<lambda>(a, i, _). length a - i)") auto

declare count_ones.simps [simp del]

text \<open>The \<^verbatim>\<open>while(sum > 1)\<close> loop that collects the continuation groups.\<close>

fun continuation :: "nat list \<Rightarrow> nat \<Rightarrow> nat \<Rightarrow> nat list \<Rightarrow> nat list \<times> nat" where
  "continuation binaryArray i 0 acc = (acc, i)"
| "continuation binaryArray i (Suc 0) acc = (acc, i)"
| "continuation binaryArray i (Suc (Suc sm)) acc =
     continuation binaryArray (i + 8) (Suc sm)
       (acc @ js_slice binaryArray (int i + 2) (int i + 8))"

lemma count_ones_advance:
  "count_ones a i s = (i', s') \<Longrightarrow> s \<le> s' \<and> i' = i + (s' - s)"
proof (induction a i s arbitrary: i' s' rule: count_ones.induct)
  case (1 a i s)
  from "1.prems" show ?case
    by (subst (asm) count_ones.simps) (auto split: if_splits dest!: "1.IH")
qed

lemma count_ones_first:
  assumes "i < length a" "a ! i \<noteq> 0" "a ! i \<le> 1" "count_ones a i 0 = (i', s')"
  shows "1 \<le> s'"
proof -
  from assms have "count_ones a (i + 1) 1 = (i', s')"
    by (subst (asm) count_ones.simps) (auto split: if_splits)
  then show ?thesis by (auto dest: count_ones_advance)
qed

lemma continuation_index: "snd (continuation a i s acc) = i + 8 * (s - 1)"
  by (induction a i s acc rule: continuation.induct) auto

text \<open>
  The decoder's last loop.  A bit array holds only zeros and ones; an element that is neither (the
  script has none) is treated as the end of the one-bits, with at least one bit consumed.
\<close>

function decoder_units :: "nat list \<Rightarrow> nat \<Rightarrow> nat list \<Rightarrow> nat list" where
  "decoder_units binaryArray i unicode =
     (if i < length binaryArray then
        (if binaryArray ! i = 0 then
           decoder_units binaryArray (i + 8)
             (unicode @ [toDecimal (js_slice binaryArray (int i) (int i + 8))])
         else
           (let (i1, sm) = count_ones binaryArray i 0;
                first = js_slice binaryArray (int i1 + 1) (int i1 + 8 - int sm);
                (unicodeBinary, i2) = continuation binaryArray (i1 + 8 - sm) sm first
            in decoder_units binaryArray i2 (unicode @ [toDecimal unicodeBinary])))
      else unicode)"
  by pat_completeness auto
termination
proof (relation "measure (\<lambda>(a, i, _). length a - i)", goal_cases)
  case 1
  then show ?case by simp
next
  case 2
  then show ?case by simp
next
  case (3 a i unicode p i1 sm first q ub i2)
  from 3 have c: "count_ones a i 0 = (i1, sm)"
    and d: "continuation a (i1 + 8 - sm) sm first = (ub, i2)" by simp_all
  from c have "i1 = i + sm" by (auto dest: count_ones_advance)
  with d continuation_index [of a "i1 + 8 - sm" sm first]
  have "i2 = i + 8 + 8 * (sm - 1)" by simp
  with 3 show ?case by simp
qed

declare decoder_units.simps [simp del]

definition decoder :: "js_string \<Rightarrow> nat list" where
  "decoder base64Str =
     (let (s, extra_Zero_Count) = decoder_padding base64Str;
          bits = decoder_bits s [];
          binaryArray =
            (if extra_Zero_Count > 0
             then js_slice bits 0 (int (length bits) - int extra_Zero_Count) else bits)
      in decoder_units binaryArray 0 [])"


section \<open>Bits of fixed width\<close>

text \<open>\<open>nbits w n\<close> is the big-endian list of the low \<open>w\<close> bits of \<open>n\<close>.\<close>

fun nbits :: "nat \<Rightarrow> nat \<Rightarrow> nat list" where
  "nbits 0 n = []"
| "nbits (Suc w) n = nbits w (n div 2) @ [n mod 2]"

lemma length_nbits [simp]: "length (nbits w n) = w"
  by (induction w arbitrary: n) auto

lemma nbits_add: "nbits (a + b) n = nbits a (n div 2 ^ b) @ nbits b n"
  by (induction b arbitrary: n) (auto simp: div_mult2_eq)

lemma nbits_bit: "b \<in> set (nbits w n) \<Longrightarrow> b \<le> 1"
  by (induction w arbitrary: n) auto

lemma nbits_zero: "nbits w 0 = replicate w 0"
  by (induction w) (auto simp: replicate_append_same)

lemma nbits_mod: "nbits w (n mod 2 ^ w) = nbits w n"
proof (induction w arbitrary: n)
  case (Suc w)
  have "n mod 2 ^ Suc w div 2 = (n div 2) mod 2 ^ w"
    by (simp add: mod_mult2_eq)
  moreover have "n mod 2 ^ Suc w mod 2 = n mod 2"
    by (simp add: mod_mod_cancel)
  ultimately show ?case by (simp only: nbits.simps Suc.IH)
qed simp

lemma toBinary_loop_acc: "toBinary_loop n acc = acc @ toBinary_loop n []"
proof (induction n arbitrary: acc rule: less_induct)
  case (less n)
  show ?case
  proof (cases "n > 0")
    case True
    then have "n div 2 < n" by simp
    from less.IH [OF this, of "acc @ [n mod 2]"] less.IH [OF this, of "[n mod 2]"] True
    show ?thesis by (simp add: toBinary_loop.simps [of n])
  qed (simp add: toBinary_loop.simps)
qed

lemma toBinary_0 [simp]: "toBinary 0 = []"
  by (simp add: toBinary_def toBinary_loop.simps)

lemma toBinary_step: "n > 0 \<Longrightarrow> toBinary n = toBinary (n div 2) @ [n mod 2]"
  by (simp add: toBinary_def toBinary_loop.simps [of n] toBinary_loop_acc [of "n div 2" "[n mod 2]"])

lemma toBinary_nbits:
  "n < 2 ^ w \<Longrightarrow> unshift_zeros (int w - int (length (toBinary n))) (toBinary n) = nbits w n \<and>
     length (toBinary n) \<le> w"
proof (induction w arbitrary: n)
  case 0
  then show ?case by (simp add: unshift_zeros_def)
next
  case (Suc w)
  show ?case
  proof (cases "n = 0")
    case True
    then show ?thesis by (simp add: unshift_zeros_def nbits_zero replicate_append_same nat_add_distrib)
  next
    case False
    with Suc have "unshift_zeros (int w - int (length (toBinary (n div 2)))) (toBinary (n div 2))
        = nbits w (n div 2)" "length (toBinary (n div 2)) \<le> w" by auto
    with False show ?thesis by (auto simp: toBinary_step [of n] unshift_zeros_def)
  qed
qed

lemma toDecimal_loop_acc: "toDecimal_loop bs dec p = dec + 2 ^ p * toDecimal_loop bs 0 0"
proof (induction bs arbitrary: dec p)
  case (Cons b bs)
  have e: "toDecimal_loop bs d (Suc q) = d + 2 ^ Suc q * toDecimal_loop bs 0 0" for d q
    by (rule Cons.IH)
  show ?case
    by (simp only: toDecimal_loop.simps e) (simp add: algebra_simps)
qed simp

lemma toDecimal_Nil [simp]: "toDecimal [] = 0"
  by (simp add: toDecimal_def)

lemma toDecimal_snoc: "toDecimal (bs @ [b]) = 2 * toDecimal bs + (if b = 1 then 1 else 0)"
  by (simp add: toDecimal_def toDecimal_loop_acc [of _ _ "Suc 0"])

lemma toDecimal_nbits: "toDecimal (nbits w n) = n mod 2 ^ w"
proof (induction w arbitrary: n)
  case (Suc w)
  have e: "n mod 2 ^ Suc w = 2 * (n div 2 mod 2 ^ w) + n mod 2"
    by (simp add: mod_mult2_eq)
  have "(if n mod 2 = 1 then 1 else 0) = n mod 2"
    by auto
  with e show ?case by (simp only: nbits.simps toDecimal_snoc Suc.IH)
qed simp


section \<open>The arithmetic specification\<close>

text \<open>UTF-8 (up to four bytes) and the Base64 of a byte list, with the padding of RFC 4648.\<close>

definition utf8_bytes :: "nat \<Rightarrow> nat list" where
  "utf8_bytes u =
     (if u < 0x80 then [u]
      else if u < 0x800 then [0xC0 + u div 64, 0x80 + u mod 64]
      else if u < 0x10000 then [0xE0 + u div 4096, 0x80 + u div 64 mod 64, 0x80 + u mod 64]
      else [0xF0 + u div 262144, 0x80 + u div 4096 mod 64, 0x80 + u div 64 mod 64, 0x80 + u mod 64])"

text \<open>The alphabet of RFC 4648: capital letters, small letters, digits, plus and slash.\<close>

definition b64_char :: "nat \<Rightarrow> code_unit" where
  "b64_char k = (if k < 26 then 65 + k else if k < 52 then 97 + (k - 26) else if k < 62 then 48 + (k - 52)
     else if k = 62 then 43 else 47)"

fun b64_bytes :: "nat list \<Rightarrow> js_string" where
  "b64_bytes [] = []"
| "b64_bytes [a] = [b64_char (a div 4), b64_char (a mod 4 * 16)] @ str ''==''"
| "b64_bytes [a, b] =
     [b64_char (a div 4), b64_char (a mod 4 * 16 + b div 16), b64_char (b mod 16 * 4)] @ str ''=''"
| "b64_bytes (a # b # c # bs) =
     [b64_char (a div 4), b64_char (a mod 4 * 16 + b div 16), b64_char (b mod 16 * 4 + c div 64),
      b64_char (c mod 64)] @ b64_bytes bs"

definition bytes_bits :: "nat list \<Rightarrow> nat list" where
  "bytes_bits bs = concat (map (nbits 8) bs)"

lemma bytes_bits_simps [simp]:
  "bytes_bits [] = []" "bytes_bits (b # bs) = nbits 8 b @ bytes_bits bs"
  by (simp_all add: bytes_bits_def)

lemma bytes_bits_append [simp]: "bytes_bits (as @ bs) = bytes_bits as @ bytes_bits bs"
  by (simp add: bytes_bits_def)

lemma length_bytes_bits [simp]: "length (bytes_bits bs) = 8 * length bs"
  by (induction bs) auto

lemma utf8_bytes_byte: "u < 0x200000 \<Longrightarrow> b \<in> set (utf8_bytes u) \<Longrightarrow> b < 256"
  by (auto simp: utf8_bytes_def split: if_splits)

subsection \<open>Code units to bits\<close>

fun cont_groups :: "nat \<Rightarrow> nat \<Rightarrow> nat list" where
  "cont_groups 0 u = []"
| "cont_groups (Suc k) u = [1, 0] @ nbits 6 (u div 2 ^ (6 * k)) @ cont_groups k u"

lemma cont_groups_1: "cont_groups 1 u = [1, 0] @ nbits 6 u"
  using cont_groups.simps(2) [of 0 u] by simp

lemma cont_groups_2: "cont_groups 2 u = [1, 0] @ nbits 6 (u div 64) @ cont_groups 1 u"
  using cont_groups.simps(2) [of 1 u] by (simp only: Suc_1) simp

lemma cont_groups_3: "cont_groups 3 u = [1, 0] @ nbits 6 (u div 4096) @ cont_groups 2 u"
proof -
  have "Suc 2 = 3" by simp
  with cont_groups.simps(2) [of 2 u] show ?thesis by (simp only:) simp
qed

lemmas cont_groups_concrete = cont_groups_1 cont_groups_2 cont_groups_3

lemma replicate_concrete:
  "replicate 2 (1::nat) = [1, 1]" "replicate 3 (1::nat) = [1, 1, 1]" "replicate 4 (1::nat) = [1, 1, 1, 1]"
  by code_simp+

lemma utf8_groups_cont: "utf8_groups k (X @ nbits (6 * k) u) (length X) = cont_groups k u"
proof (induction k arbitrary: X)
  case (Suc k)
  have split: "nbits (6 * Suc k) u = nbits 6 (u div 2 ^ (6 * k)) @ nbits (6 * k) u"
    using nbits_add [of 6 "6 * k" u] by simp
  have "utf8_groups k ((X @ nbits 6 (u div 2 ^ (6 * k))) @ nbits (6 * k) u)
      (length (X @ nbits 6 (u div 2 ^ (6 * k)))) = cont_groups k u"
    by (rule Suc.IH)
  then show ?case by (simp only: utf8_groups.simps cont_groups.simps split) simp
qed simp

text \<open>The lead byte has \<open>c\<close> one-bits, a zero-bit and \<open>7 - c\<close> payload bits.\<close>

lemma toUTF8Binary_cont:
  assumes "1 \<le> c" "c \<le> 6" "u < 2 ^ (7 - c + 6 * (c - 1))"
  shows "toUTF8Binary c (toBinary u) =
    replicate c 1 @ [0] @ nbits (7 - c) (u div 2 ^ (6 * (c - 1))) @ cont_groups (c - 1) u"
proof -
  define m where "m = 7 - c + 6 * (c - 1)"
  have must: "(8 - (int c + 1)) + (int c - 1) * 6 = int m"
    using assms by (simp add: m_def)
  have pad': "unshift_zeros ((8 - (int c + 1)) + (int c - 1) * 6 - int (length (toBinary u)))
      (toBinary u) = nbits m u"
    using toBinary_nbits [of u m] assms by (simp only: must) (simp add: m_def)
  have len: "8 - (c + 1) = 7 - c" by simp
  have "utf8_groups (c - 1) (nbits m u) (7 - c) = cont_groups (c - 1) u"
    using utf8_groups_cont [of "c - 1" "nbits (7 - c) (u div 2 ^ (6 * (c - 1)))" u]
    by (simp add: m_def nbits_add)
  moreover have "take (7 - c) (nbits m u) = nbits (7 - c) (u div 2 ^ (6 * (c - 1)))"
    by (simp add: m_def nbits_add)
  ultimately show ?thesis
    by (simp only: toUTF8Binary_def Let_def pad' len)
qed

lemma nbits_split: "v < 2 ^ b \<Longrightarrow> nbits (a + b) (h * 2 ^ b + v) = nbits a h @ nbits b v"
proof -
  assume v: "v < 2 ^ b"
  then have "nbits b (h * 2 ^ b + v) = nbits b v"
    using nbits_mod [of b "h * 2 ^ b + v"] nbits_mod [of b v] by simp
  with v show ?thesis by (simp add: nbits_add)
qed

lemma nbits_concrete:
  "nbits 1 0 = [0]" "nbits 2 2 = [1, 0]" "nbits 3 6 = [1, 1, 0]" "nbits 4 14 = [1, 1, 1, 0]"
  "nbits 5 30 = [1, 1, 1, 1, 0]"
  by code_simp+

lemma nbits8_ascii: "u < 128 \<Longrightarrow> nbits 8 u = 0 # nbits 7 u"
  using nbits_split [of u 7 1 0] nbits_concrete(1) by simp

lemma nbits8_cont: "nbits 8 (128 + u mod 64) = [1, 0] @ nbits 6 u"
  using nbits_split [of "u mod 64" 6 2 2] nbits_mod [of 6 u]
  by (simp add: nbits_concrete)

lemma nbits8_lead2: "v < 32 \<Longrightarrow> nbits 8 (192 + v) = [1, 1, 0] @ nbits 5 v"
  using nbits_split [of v 5 3 6] by (simp add: nbits_concrete)

lemma nbits8_lead3: "v < 16 \<Longrightarrow> nbits 8 (224 + v) = [1, 1, 1, 0] @ nbits 4 v"
  using nbits_split [of v 4 4 14] by (simp add: nbits_concrete)

lemma nbits8_lead4: "v < 8 \<Longrightarrow> nbits 8 (240 + v) = [1, 1, 1, 1, 0] @ nbits 3 v"
  using nbits_split [of v 3 5 30] by (simp add: nbits_concrete)

lemma unit_bits_utf8: "u < 0x200000 \<Longrightarrow> unit_bits u = bytes_bits (utf8_bytes u)"
proof -
  assume u: "u < 0x200000"
  consider (one) "u < 0x80" | (two) "0x80 \<le> u" "u < 0x800" | (three) "0x800 \<le> u" "u < 0x10000"
    | (four) "0x10000 \<le> u" "u < 0x200000"
    using u by linarith
  then show ?thesis
  proof cases
    case one
    then have "unit_bits u = nbits 8 u"
      using toBinary_nbits [of u 8] by (simp add: unit_bits_def Let_def)
    with one show ?thesis by (simp add: utf8_bytes_def)
  next
    case two
    then have "unit_bits u = toUTF8Binary 2 (toBinary u)"
      by (simp add: unit_bits_def)
    also have "\<dots> = [1, 1, 0] @ nbits 5 (u div 64) @ [1, 0] @ nbits 6 u"
      using two toUTF8Binary_cont [of 2 u]
      by (simp add: cont_groups_concrete [unfolded One_nat_def] replicate_concrete [unfolded One_nat_def])
    finally show ?thesis
      using two nbits8_lead2 [of "u div 64"] nbits8_cont [of u] by (simp add: utf8_bytes_def)
  next
    case three
    then have "unit_bits u = toUTF8Binary 3 (toBinary u)"
      by (simp add: unit_bits_def)
    also have "\<dots> = [1, 1, 1, 0] @ nbits 4 (u div 4096) @ [1, 0] @ nbits 6 (u div 64) @
        [1, 0] @ nbits 6 u"
      using three toUTF8Binary_cont [of 3 u]
      by (simp add: cont_groups_concrete [unfolded One_nat_def] replicate_concrete [unfolded One_nat_def])
    finally show ?thesis
      using three nbits8_lead3 [of "u div 4096"] nbits8_cont [of u] nbits8_cont [of "u div 64"]
      by (simp add: utf8_bytes_def)
  next
    case four
    then have "unit_bits u = toUTF8Binary 4 (toBinary u)"
      by (simp add: unit_bits_def)
    also have "\<dots> = [1, 1, 1, 1, 0] @ nbits 3 (u div 262144) @ [1, 0] @ nbits 6 (u div 4096) @
        [1, 0] @ nbits 6 (u div 64) @ [1, 0] @ nbits 6 u"
      using four toUTF8Binary_cont [of 4 u]
      by (simp add: cont_groups_concrete [unfolded One_nat_def] replicate_concrete [unfolded One_nat_def])
    finally show ?thesis
      using four nbits8_lead4 [of "u div 262144"] nbits8_cont [of u] nbits8_cont [of "u div 64"]
        nbits8_cont [of "u div 4096"]
      by (simp add: utf8_bytes_def)
  qed
qed


subsection \<open>Groups of six bits\<close>

lemma encoder_bits_concat: "encoder_bits s acc = acc @ concat (map unit_bits s)"
  by (induction s arbitrary: acc) auto

text \<open>The groups of a bit list, the last one filled with zeros, and the number of zeros added.\<close>

function six :: "nat list \<Rightarrow> nat list list" where
  "six bs =
     (if bs = [] then []
      else if length bs < 6 then [bs @ replicate (6 - length bs) 0]
      else take 6 bs # six (drop 6 bs))"
  by pat_completeness auto
termination
  by (relation "measure length") auto

declare six.simps [simp del]

definition pad6 :: "nat list \<Rightarrow> nat" where
  "pad6 bs = (6 - length bs mod 6) mod 6"

lemma pad6_drop: "6 \<le> length bs \<Longrightarrow> pad6 (drop 6 bs) = pad6 bs"
  by (simp add: pad6_def mod_if [of "length bs" 6])

lemma pad6_short: "bs \<noteq> [] \<Longrightarrow> length bs < 6 \<Longrightarrow> pad6 bs = 6 - length bs"
  by (simp add: pad6_def)

lemma six_concat: "concat (six bs) = bs @ replicate (pad6 bs) 0"
proof (induction bs rule: six.induct)
  case (1 bs)
  consider "bs = []" | "bs \<noteq> []" "length bs < 6" | "bs \<noteq> []" "6 \<le> length bs" by linarith
  then show ?case
  proof cases
    case 1
    then show ?thesis by (simp add: six.simps pad6_def)
  next
    case 2
    then show ?thesis by (simp add: six.simps [of bs] pad6_short)
  next
    case 3
    with "1.IH" show ?thesis
      by (simp add: six.simps [of bs] pad6_drop not_less flip: append_assoc)
  qed
qed

lemma six_length: "g \<in> set (six bs) \<Longrightarrow> length g = 6"
proof (induction bs rule: six.induct)
  case (1 bs)
  then show ?case by (subst (asm) (2) six.simps) (auto split: if_splits)
qed

lemma encoder_groups_six:
  assumes "even (length bs)" "i = length pre"
  shows "encoder_groups i (i + length bs) (pre @ bs) 0 acc = (acc @ map toDecimal (six bs), pad6 bs)"
  using assms
proof (induction bs arbitrary: i pre acc rule: six.induct)
  case (1 bs)
  consider (nil) "bs = []" | (short) "bs \<noteq> []" "length bs < 6" | (long) "6 \<le> length bs"
    by linarith
  then show ?case
  proof cases
    case nil
    then show ?thesis by (simp add: encoder_groups.simps six.simps pad6_def)
  next
    case short
    then have "0 < length bs" by simp
    with short(2) "1.prems"(1) have len: "length bs = 2 \<or> length bs = 4"
      by presburger
    then have "encoder_groups i (i + length bs) (pre @ bs) 0 acc =
        encoder_groups (i + 6) (i + length bs) (pre @ bs @ replicate (pad6 bs) 0) (pad6 bs)
          (acc @ [toDecimal (bs @ replicate (pad6 bs) 0)])"
      using "1.prems" short pad6_short [of bs]
      by (subst encoder_groups.simps) (auto simp: Let_def)
    with short len show ?thesis
      by (auto simp: encoder_groups.simps [of "i + 6"] six.simps [of bs] pad6_short)
  next
    case long
    then have nb: "bs \<noteq> []" "\<not> length bs < 6" by auto
    have "i + 6 = length (pre @ take 6 bs)" using "1.prems" long by simp
    with "1.IH" [OF nb, of "i + 6" "pre @ take 6 bs" "acc @ [toDecimal (take 6 bs)]"] "1.prems"(1) long
    have "encoder_groups (i + 6) (i + length bs) (pre @ bs) 0 (acc @ [toDecimal (take 6 bs)]) =
        (acc @ [toDecimal (take 6 bs)] @ map toDecimal (six (drop 6 bs)), pad6 (drop 6 bs))"
      by simp
    moreover have "encoder_groups i (i + length bs) (pre @ bs) 0 acc =
        encoder_groups (i + 6) (i + length bs) (pre @ bs) 0 (acc @ [toDecimal (take 6 bs)])"
    proof (cases "length bs = 6")
      case False
      with long "1.prems" have "8 \<le> length bs" by presburger
      with nb "1.prems" have d: "int i + 6 - int (i + length bs) \<noteq> 2" "int i + 6 - int (i + length bs) \<noteq> 4"
        by auto
      show ?thesis
        using nb "1.prems"
        by (subst encoder_groups.simps) (simp only: Let_def d if_False, simp)
    qed (use nb "1.prems" in \<open>subst encoder_groups.simps, simp\<close>)
    ultimately show ?thesis
      using nb long by (simp add: six.simps [of bs] pad6_drop)
  qed
qed


subsection \<open>Encoding refines the byte specification\<close>

lemma length_mapping [simp]: "length BASE64_MAPPING = 64"
  by (simp add: BASE64_MAPPING_def str_def)

lemma mapping_distinct: "distinct BASE64_MAPPING"
  by (simp add: BASE64_MAPPING_def str_def)

lemma mapping_no_pad: "of_char CHR ''='' \<notin> set BASE64_MAPPING"
  by (simp add: BASE64_MAPPING_def str_def)

text \<open>The table of the script is that alphabet.\<close>

lemma mapping_alphabet: "BASE64_MAPPING = map b64_char [0..<64]"
  by code_simp

lemma mapping_at_char: "k < 64 \<Longrightarrow> mapping_at k = [b64_char k]"
  by (simp add: mapping_at_def mapping_alphabet)

lemma nbits_6_of_8:
  "nbits 8 a = nbits 6 (a div 4) @ nbits 2 a"
  "nbits 8 a = nbits 4 (a div 16) @ nbits 4 a"
  "nbits 8 a = nbits 2 (a div 64) @ nbits 6 a"
  using nbits_add [of 6 2 a] nbits_add [of 4 4 a] nbits_add [of 2 6 a] by simp_all

lemma bytes_bits_3:
  assumes "b < 256" "c < 256"
  shows "nbits 8 a @ nbits 8 b @ nbits 8 c =
    nbits 6 (a div 4) @ nbits 6 (a mod 4 * 16 + b div 16) @ nbits 6 (b mod 16 * 4 + c div 64) @
    nbits 6 (c mod 64)"
proof -
  have "nbits 6 (a mod 4 * 16 + b div 16) = nbits 2 (a mod 4) @ nbits 4 (b div 16)"
    using nbits_split [of "b div 16" 4 2 "a mod 4"] assms by simp
  moreover have "nbits 6 (b mod 16 * 4 + c div 64) = nbits 4 (b mod 16) @ nbits 2 (c div 64)"
    using nbits_split [of "c div 64" 2 4 "b mod 16"] assms by simp
  ultimately show ?thesis
    using nbits_mod [of 2 a] nbits_mod [of 4 b] nbits_mod [of 6 c]
    by (simp add: nbits_6_of_8(1) [of a] nbits_6_of_8(2) [of b] nbits_6_of_8(3) [of c])
qed

lemma six_group: "length g = 6 \<Longrightarrow> six (g @ bs) = g # six bs"
  by (subst six.simps) auto

lemma six_byte: "six (nbits 8 a) = [nbits 6 (a div 4), nbits 6 (a mod 4 * 16)]"
proof -
  have "nbits 2 a @ replicate 4 0 = nbits 6 (a mod 4 * 16)"
    using nbits_split [of 0 4 2 "a mod 4"] nbits_mod [of 2 a] by (simp add: nbits_zero)
  then show ?thesis
    by (simp add: nbits_6_of_8(1) six_group) (simp add: six.simps [of "nbits 2 a"] flip: length_0_conv)
qed

lemma six_byte2:
  assumes "b < 256"
  shows "six (nbits 8 a @ nbits 8 b) =
    [nbits 6 (a div 4), nbits 6 (a mod 4 * 16 + b div 16), nbits 6 (b mod 16 * 4)]"
proof -
  have "nbits 4 b @ replicate 2 0 = nbits 6 (b mod 16 * 4)"
    using nbits_split [of 0 2 4 "b mod 16"] nbits_mod [of 4 b] by (simp add: nbits_zero)
  moreover have "nbits 6 (a mod 4 * 16 + b div 16) = nbits 2 a @ nbits 4 (b div 16)"
    using nbits_split [of "b div 16" 4 2 "a mod 4"] nbits_mod [of 2 a] assms by simp
  moreover have "six (nbits 4 b) = [nbits 4 b @ replicate 2 0]"
    by (simp add: six.simps [of "nbits 4 b"] flip: length_0_conv)
  ultimately show ?thesis
    using six_group [of "nbits 2 a @ nbits 4 (b div 16)" "nbits 4 b"]
    by (simp add: nbits_6_of_8(1) [of a] nbits_6_of_8(2) [of b] six_group)
qed

lemma b64_bytes_six:
  "(\<And>b. b \<in> set bs \<Longrightarrow> b < 256) \<Longrightarrow>
     concat (map mapping_at (map toDecimal (six (bytes_bits bs)))) @
       replicate (pad6 (bytes_bits bs) div 2) (of_char CHR ''='') = b64_bytes bs"
proof (induction bs rule: b64_bytes.induct)
  case 1
  then show ?case by (simp add: six.simps pad6_def)
next
  case (2 a)
  then show ?case
    by (simp add: six_byte toDecimal_nbits mapping_at_char pad6_def str_def
        replicate_Suc [of 1 "61::nat", unfolded Suc_1])
next
  case (3 a b)
  then have "b < 256" "a < 256" by auto
  then show ?case
    by (simp add: six_byte2 toDecimal_nbits mapping_at_char pad6_def str_def)
next
  case (4 a b c bs)
  then have byte: "a < 256" "b < 256" "c < 256" by auto
  have bits: "bytes_bits (a # b # c # bs) = nbits 6 (a div 4) @ nbits 6 (a mod 4 * 16 + b div 16) @
      nbits 6 (b mod 16 * 4 + c div 64) @ nbits 6 (c mod 64) @ bytes_bits bs"
    using bytes_bits_3 [OF byte(2,3), of a] by (simp flip: append_assoc)
  have "(24 + 8 * length bs) mod 6 = 8 * length bs mod 6"
    using mod_mult_self4 [of 6 4 "8 * length bs"] by simp
  then have pad: "pad6 (bytes_bits (a # b # c # bs)) = pad6 (bytes_bits bs)"
    by (simp add: pad6_def)
  have "a mod 4 * 16 + b div 16 < 64" "b mod 16 * 4 + c div 64 < 64" using byte by linarith+
  moreover have "a div 4 < 64" using byte by simp
  moreover have "concat (map mapping_at (map toDecimal (six (bytes_bits bs)))) @
       replicate (pad6 (bytes_bits bs) div 2) (of_char CHR ''='') = b64_bytes bs"
    using "4" by simp
  ultimately show ?case
    by (simp only: pad) (simp only: bits six_group length_nbits, simp add: toDecimal_nbits mapping_at_char)
qed

lemma encoder_bytes:
  assumes "\<forall>u \<in> set s. u < 0x200000"
  shows "encoder s = b64_bytes (concat (map utf8_bytes s))"
proof -
  let ?bs = "concat (map utf8_bytes s)"
  from assms have bits: "encoder_bits s [] = bytes_bits ?bs"
    by (induction s) (auto simp: encoder_bits_concat unit_bits_utf8 bytes_bits_def)
  have groups: "encoder_groups 0 (length (bytes_bits ?bs)) (bytes_bits ?bs) 0 [] =
      (map toDecimal (six (bytes_bits ?bs)), pad6 (bytes_bits ?bs))"
    using encoder_groups_six [of "bytes_bits ?bs" 0 "[]" "[]"] by simp
  from assms have "\<And>b. b \<in> set ?bs \<Longrightarrow> b < 256"
    by (auto dest: utf8_bytes_byte)
  from b64_bytes_six [OF this, of ?bs] show ?thesis
    by (simp only: encoder_def bits groups Let_def prod.case)
qed


subsection \<open>Decoding\<close>

lemma mapping_search_at:
  "j < length ms \<Longrightarrow> distinct ms \<Longrightarrow>
     mapping_search (ms ! j) k ms =
       unshift_zeros (6 - int (length (toBinary (k + j)))) (toBinary (k + j))"
proof (induction ms arbitrary: j k)
  case (Cons m ms)
  then show ?case by (cases j) (auto simp: Let_def)
qed simp

lemma mapping_search_char: "k < 64 \<Longrightarrow> mapping_search (b64_char k) 0 BASE64_MAPPING = nbits 6 k"
  using mapping_search_at [of k BASE64_MAPPING 0] toBinary_nbits [of k 6] mapping_distinct arg_cong [OF mapping_alphabet, of "\<lambda>m. m ! k"]
  by simp

lemma decoder_bits_concat:
  "decoder_bits s acc = acc @ concat (map (\<lambda>c. mapping_search c 0 BASE64_MAPPING) s)"
  by (induction s arbitrary: acc) auto

lemma nbits_toDecimal: "(\<And>b. b \<in> set bs \<Longrightarrow> b \<le> 1) \<Longrightarrow> nbits (length bs) (toDecimal bs) = bs"
proof (induction bs rule: rev_induct)
  case (snoc b bs)
  then have "b = 0 \<or> b = 1" by fastforce
  with snoc show ?case by (auto simp: toDecimal_snoc)
qed simp

lemma toDecimal_bound: "toDecimal bs < 2 ^ length bs"
  by (induction bs rule: rev_induct) (auto simp: toDecimal_snoc)

text \<open>Decoding the characters of a list of six-bit groups gives back the bits.\<close>

lemma decoder_bits_groups:
  assumes "\<And>g. g \<in> set gs \<Longrightarrow> length g = 6 \<and> (\<forall>b \<in> set g. b \<le> 1)"
  shows "concat (map (\<lambda>c. mapping_search c 0 BASE64_MAPPING)
           (concat (map mapping_at (map toDecimal gs)))) = concat gs"
  using assms
proof (induction gs)
  case (Cons g gs)
  then have g: "length g = 6" "\<And>b. b \<in> set g \<Longrightarrow> b \<le> 1" by auto
  have "toDecimal g < 64" using toDecimal_bound [of g] g by simp
  moreover have "nbits 6 (toDecimal g) = g" using nbits_toDecimal [of g] g by simp
  moreover from Cons have "concat (map (\<lambda>c. mapping_search c 0 BASE64_MAPPING)
      (concat (map mapping_at (map toDecimal gs)))) = concat gs" by (metis list.set_intros(2))
  ultimately show ?case
    by (simp add: mapping_at_char mapping_search_char)
qed simp

lemma six_bits: "g \<in> set (six bs) \<Longrightarrow> (\<And>b. b \<in> set bs \<Longrightarrow> b \<le> 1) \<Longrightarrow> b \<in> set g \<Longrightarrow> b \<le> (1::nat)"
proof -
  assume g: "g \<in> set (six bs)" "b \<in> set g" and bs: "\<And>b. b \<in> set bs \<Longrightarrow> b \<le> 1"
  then have "b \<in> set (concat (six bs))" by auto
  then show ?thesis by (auto simp: six_concat dest: bs)
qed

lemma decoder_padding_b64:
  assumes "set s \<subseteq> set BASE64_MAPPING" "n \<le> 2"
  shows "decoder_padding (s @ replicate n (of_char CHR ''='')) = (s, 2 * n)"
proof -
  have notin: "of_char CHR ''='' \<notin> set s" using assms mapping_no_pad by auto
  have last: "length s \<ge> 1 \<Longrightarrow> s ! (length s - 1) \<noteq> of_char CHR ''=''"
    using notin nth_mem [of "length s - 1" s] by (metis One_nat_def Suc_le_lessD diff_less zero_less_one)
  consider "n = 0" | "n = 1" | "n = 2" using assms by linarith
  then show ?thesis
  proof cases
    case 1
    with last show ?thesis
      by (simp only: decoder_padding_def Let_def replicate_0 append_Nil2) auto
  next
    case 2
    with last show ?thesis
      by (cases s rule: rev_cases) (auto simp: decoder_padding_def Let_def nth_append)
  next
    case 3
    then show ?thesis
      by (simp add: decoder_padding_def Let_def nth_append numeral_2_eq_2)
  qed
qed


lemma count_ones_prefix:
  "drop i a = replicate c 1 @ 0 # rest \<Longrightarrow> count_ones a i sm = (i + c, sm + c)"
proof (induction c arbitrary: i sm)
  case 0
  then have "i < length a" "a ! i = 0"
    by (metis drop_all list.distinct(1) not_less replicate_0 append_Nil)
       (metis "0.prems" append_Nil nth_via_drop replicate_0)
  then show ?case by (simp add: count_ones.simps)
next
  case (Suc c)
  then have "drop i a = 1 # replicate c 1 @ 0 # rest" by simp
  then have "i < length a" "a ! i = 1" "drop (i + 1) a = replicate c 1 @ 0 # rest"
    by (metis drop_all list.distinct(1) not_less, metis nth_via_drop,
        metis Suc_eq_plus1 drop_Suc list.sel(3) tl_drop)
  with Suc.IH [of "i + 1" "sm + 1"] show ?case by (simp add: count_ones.simps [of a i])
qed

lemma continuation_groups:
  "drop i a = cont_groups k u @ post \<Longrightarrow>
     continuation a i (Suc k) acc = (acc @ nbits (6 * k) u, i + 8 * k)"
proof (induction k arbitrary: i acc)
  case (Suc k)
  have "drop (i + 8) a = drop 8 (drop i a)" by (simp add: add.commute)
  then have "drop (i + 8) a = cont_groups k u @ post" by (simp add: Suc.prems)
  moreover have "js_slice a (int i + 2) (int i + 8) = take 6 (drop 2 (drop i a))"
    using js_slice_nat [of a "i + 2" "i + 8"] by (simp add: add.commute)
  then have "js_slice a (int i + 2) (int i + 8) = nbits 6 (u div 2 ^ (6 * k))"
    by (simp add: Suc.prems)
  ultimately show ?case
    using Suc.IH [of "i + 8" "acc @ nbits 6 (u div 2 ^ (6 * k))"] nbits_add [of 6 "6 * k" u] by simp
qed simp

text \<open>One character of \<open>c\<close> bytes is read whole, and its value appended.\<close>

lemma decoder_units_multi:
  assumes "2 \<le> c" "c \<le> 6" "u < 2 ^ (7 - c + 6 * (c - 1))"
    and d: "drop i a = replicate c 1 @ [0] @ nbits (7 - c) (u div 2 ^ (6 * (c - 1))) @
      cont_groups (c - 1) u @ post"
  shows "decoder_units a i acc = decoder_units a (i + 8 * c) (acc @ [u])"
proof -
  let ?hi = "nbits (7 - c) (u div 2 ^ (6 * (c - 1)))"
  obtain c' where c: "c = Suc (Suc c')" using assms by (metis Suc_diff_Suc Suc_1 Suc_le_lessD add_2_eq_Suc le_add_diff_inverse)
  from d have i: "i < length a" "a ! i = 1"
    by (metis append_is_Nil_conv drop_all list.distinct(1) not_less append_Cons append_Nil)
       (metis c d append_Cons nth_via_drop replicate_Suc)
  have ones: "count_ones a i 0 = (i + c, c)"
    using count_ones_prefix [of i a c _ 0] d by simp
  have len: "c + 1 + (7 - c) = 8" using assms by simp
  have hi: "js_slice a (int (i + c) + 1) (int (i + c) + 8 - int c) = ?hi"
  proof -
    have "js_slice a (int (i + c + 1)) (int (i + 8)) = take (7 - c) (drop (c + 1) (drop i a))"
      using js_slice_nat [of a "i + c + 1" "i + 8"] by (simp add: add.commute add.left_commute)
    also have "\<dots> = ?hi" by (simp add: d)
    finally show ?thesis by (simp add: add.commute)
  qed
  have "drop (i + 8) a = drop 8 (drop i a)" by (simp add: add.commute)
  also have "\<dots> = cont_groups (c - 1) u @ post"
    using Suc_diff_le [of c 7] assms by (simp add: d)
  finally have cont: "continuation a (i + 8) c ?hi = (?hi @ nbits (6 * (c - 1)) u, i + 8 * c)"
    using continuation_groups [of "i + 8" a "c - 1" u post ?hi] c by simp
  have "toDecimal (?hi @ nbits (6 * (c - 1)) u) = u"
    using nbits_add [of "7 - c" "6 * (c - 1)" u] toDecimal_nbits [of "7 - c + 6 * (c - 1)" u] assms(3)
    by simp
  moreover have "i + c + 8 - c = i + 8" by simp
  ultimately show ?thesis
    using i ones hi cont by (subst decoder_units.simps) (simp add: Let_def)
qed

lemma decoder_units_one:
  assumes "u < 128" "drop i a = nbits 8 u @ post"
  shows "decoder_units a i acc = decoder_units a (i + 8) (acc @ [u])"
proof -
  from assms nbits8_ascii have d: "drop i a = 0 # nbits 7 u @ post" by simp
  then have "i < length a" "a ! i = 0"
    by (metis drop_all list.distinct(1) not_less, metis nth_via_drop)
  moreover have "js_slice a (int i) (int i + 8) = nbits 8 u"
    using js_slice_nat [of a i "i + 8"] assms by simp
  moreover have "toDecimal (nbits 8 u) = u" using assms by (simp add: toDecimal_nbits)
  ultimately show ?thesis by (subst decoder_units.simps) simp
qed


lemma decoder_units_utf8:
  assumes u: "u < 0x200000" and d: "drop i a = unit_bits u @ post"
  shows "decoder_units a i acc = decoder_units a (i + length (unit_bits u)) (acc @ [u])"
proof -
  have multi: "decoder_units a i acc = decoder_units a (i + length (unit_bits u)) (acc @ [u])"
    if c: "2 \<le> c" "c \<le> 4" and l: "u < 2 ^ (7 - c + 6 * (c - 1))"
      and b: "unit_bits u = toUTF8Binary c (toBinary u)" and n: "length (utf8_bytes u) = c" for c
  proof -
    have "drop i a = replicate c 1 @ [0] @ nbits (7 - c) (u div 2 ^ (6 * (c - 1))) @
        cont_groups (c - 1) u @ post"
      using d b c l toUTF8Binary_cont [of c u] by simp
    from decoder_units_multi [OF _ _ l this] c show ?thesis
      using u n by (simp add: unit_bits_utf8)
  qed
  consider (one) "u < 0x80" | (two) "0x80 \<le> u" "u < 0x800" | (three) "0x800 \<le> u" "u < 0x10000"
    | (four) "0x10000 \<le> u"
    by linarith
  then show ?thesis
  proof cases
    case one
    then have "unit_bits u = nbits 8 u" by (simp add: unit_bits_utf8 utf8_bytes_def)
    with one d show ?thesis using decoder_units_one [of u i a post acc] by simp
  next
    case two
    then show ?thesis by (intro multi [of 2]) (auto simp: unit_bits_def utf8_bytes_def)
  next
    case three
    then show ?thesis by (intro multi [of 3]) (auto simp: unit_bits_def utf8_bytes_def)
  next
    case four
    with u show ?thesis by (intro multi [of 4]) (auto simp: unit_bits_def utf8_bytes_def)
  qed
qed

lemma decoder_units_all:
  assumes "\<forall>u \<in> set s. u < 0x200000" "drop i a = concat (map unit_bits s)"
  shows "decoder_units a i acc = acc @ s"
  using assms
proof (induction s arbitrary: i acc)
  case Nil
  then show ?case by (simp add: decoder_units.simps)
next
  case (Cons u s)
  then have "drop i a = unit_bits u @ concat (map unit_bits s)" by simp
  moreover from this have "drop (i + length (unit_bits u)) a = concat (map unit_bits s)"
    by (metis add.commute append_eq_conv_conj drop_drop)
  ultimately show ?case
    using Cons decoder_units_utf8 [of u i a] by simp
qed

text \<open>The decoder inverts the bit-level encoder on every code point of at most four bytes.\<close>

lemma set_groups_mapping:
  "\<forall>g \<in> set gs. length g = 6 \<Longrightarrow> set (concat (map mapping_at (map toDecimal gs))) \<subseteq> set BASE64_MAPPING"
proof (induction gs)
  case (Cons g gs)
  then have "toDecimal g < 64" using toDecimal_bound [of g] by simp
  with Cons show ?case by (auto simp: mapping_at_def)
qed simp

lemma decoder_encoder:
  assumes "\<forall>u \<in> set s. u < 0x200000"
  shows "decoder (encoder s) = s"
proof -
  define B where "B = concat (map unit_bits s)"
  have bits: "B = bytes_bits (concat (map utf8_bytes s))"
    using assms unfolding B_def
    by (induction s) (auto simp: unit_bits_utf8 bytes_bits_def)
  have even: "even (length B)" by (simp add: bits)
  have bit: "b \<le> 1" if "b \<in> set B" for b
    using that by (auto simp: bits bytes_bits_def dest: nbits_bit)
  have enc: "encoder s = concat (map mapping_at (map toDecimal (six B))) @
      replicate (pad6 B div 2) (of_char CHR ''='')"
    using encoder_groups_six [OF even, of 0 "[]" "[]"]
    by (simp add: encoder_def encoder_bits_concat B_def Let_def)
  have "length B mod 6 = 0 \<or> length B mod 6 = 2 \<or> length B mod 6 = 4"
    using even by presburger
  then have pad: "pad6 B div 2 \<le> 2" "2 * (pad6 B div 2) = pad6 B"
    by (auto simp: pad6_def)
  have "set (concat (map mapping_at (map toDecimal (six B)))) \<subseteq> set BASE64_MAPPING"
    by (rule set_groups_mapping) (auto dest: six_length)
  from decoder_padding_b64 [OF this pad(1)]
  have dp: "decoder_padding (encoder s) = (concat (map mapping_at (map toDecimal (six B))), pad6 B)"
    by (simp only: enc pad)
  have "decoder_bits (concat (map mapping_at (map toDecimal (six B)))) [] = concat (six B)"
    using decoder_bits_groups [of "six B"] six_length six_bits bit
    by (simp add: decoder_bits_concat)
  then have db: "decoder_bits (concat (map mapping_at (map toDecimal (six B)))) [] =
      B @ replicate (pad6 B) 0"
    by (simp add: six_concat)
  have "js_slice (B @ replicate (pad6 B) 0) 0 (int (length B)) = B"
    using js_slice_nat [of "B @ replicate (pad6 B) 0" 0 "length B"] by simp
  moreover have "decoder_units B 0 [] = s"
    using decoder_units_all [OF assms, of 0 B] by (simp add: B_def)
  ultimately show ?thesis
    by (simp only: decoder_def dp Let_def prod.case db) simp
qed


section \<open>Properties\<close>

lemma units_bound: "units s \<Longrightarrow> u \<in> set s \<Longrightarrow> u < 65536"
  by (auto simp: units_def is_unit_def list_all_iff)

text \<open>The two halves of the script keep the contract of a codec on JavaScript strings.\<close>

interpretation b64: codec encoder decoder units
  by unfold_locales (intro decoder_encoder, auto dest: units_bound)

text \<open>
  C6. Round trip: decoding the Base64 text the encoder makes of a string gives back the code units
  of the string, for every JavaScript string.
\<close>

theorem base64_roundtrip:
  assumes "units s"
  shows "decoder (encoder s) = s"
  using assms by (rule b64.dec_enc)

theorem base64_roundtrip_witness:
  "units [72, 233, 20320] \<and> decoder (encoder [72, 233, 20320]) = [72, 233, 20320]"
proof -
  have "units [72, 233, 20320]" by (simp add: units_def is_unit_def)
  with base64_roundtrip [OF this] show ?thesis by simp
qed

text \<open>
  C17. The bit-array encoder computes the arithmetic definition: the Base64 (RFC 4648, with padding)
  of the bytes that UTF-8 gives to each code unit.
\<close>

theorem encoder_refines_spec:
  assumes "units s"
  shows "encoder s = b64_bytes (concat (map utf8_bytes s))"
  using assms by (intro encoder_bytes) (auto dest: units_bound)

theorem encoder_refines_spec_witness:
  "units (str ''CloudMQ'') \<and> encoder (str ''CloudMQ'') = str ''Q2xvdWRNUQ==''"
proof -
  have u: "units (str ''CloudMQ'')" by (simp add: units_def is_unit_def str_def)
  have "b64_bytes (concat (map utf8_bytes (str ''CloudMQ''))) = str ''Q2xvdWRNUQ==''"
    by code_simp
  with encoder_refines_spec [OF u] u show ?thesis by simp
qed

text \<open>
  C18. The decoder reads what a UTF-8 Base64 encoder (the Java side) writes: for every list of code
  points of at most four bytes, the code points come back.
\<close>

theorem decoder_reads_utf8:
  assumes "list_all (\<lambda>u. u < 0x200000) cps"
  shows "decoder (b64_bytes (concat (map utf8_bytes cps))) = cps"
proof -
  from assms have "\<forall>u \<in> set cps. u < 0x200000" by (simp add: list_all_iff)
  from decoder_encoder [OF this] encoder_bytes [OF this] show ?thesis by simp
qed

theorem decoder_reads_utf8_witness:
  "list_all (\<lambda>u. u < 0x200000) [0x1F600, 65 :: nat] \<and>
     decoder (b64_bytes (concat (map utf8_bytes [0x1F600, 65]))) = [0x1F600, 65]"
proof -
  have h: "list_all (\<lambda>u. u < 0x200000) [0x1F600, 65 :: nat]" by simp
  from h decoder_reads_utf8 [OF h] show ?thesis by simp
qed

section \<open>Supplementary characters\<close>

text \<open>
  A code point in UTF-16, and in CESU-8, which gives each of the two surrogates three bytes of its own.
\<close>

definition utf16_units :: "nat \<Rightarrow> js_string" where
  "utf16_units c =
     (if c < 0x10000 then [c] else [0xD800 + (c - 0x10000) div 1024, 0xDC00 + (c - 0x10000) mod 1024])"

definition cesu8_bytes :: "nat \<Rightarrow> nat list" where
  "cesu8_bytes c =
     (if c < 0x10000 then utf8_bytes c
      else let x = c - 0x10000 in
        [0xED, 0xA0 + x div 65536, 0x80 + x div 1024 mod 64, 0xED, 0xB0 + x mod 1024 div 64, 0x80 + x mod 64])"

lemma surrogate_bytes:
  assumes "h < 1024"
  shows "utf8_bytes (0xD800 + h) = [0xED, 0xA0 + h div 64, 0x80 + h mod 64]"
    "utf8_bytes (0xDC00 + h) = [0xED, 0xB0 + h div 64, 0x80 + h mod 64]"
proof -
  have y: "h div 64 < 16" using assms by (simp add: less_mult_imp_div_less)
  have "(0xD800 + h) div 4096 = 13" "(0xDC00 + h) div 4096 = 13"
    using assms by (auto intro!: div_nat_eqI)
  moreover have "(0xD800 + h) div 64 = 864 + h div 64" "(0xDC00 + h) div 64 = 880 + h div 64"
    using div_mult_self1 [of 64 h 864] div_mult_self1 [of 64 h 880] by (simp_all add: add.commute)
  moreover have "(864 + h div 64) mod 64 = 32 + h div 64" "(880 + h div 64) mod 64 = 48 + h div 64"
    using y mod_mult_self1 [of "32 + h div 64" 13 64] mod_mult_self1 [of "48 + h div 64" 13 64] by (simp_all add: add.commute)
  moreover have "(0xD800 + h) mod 64 = h mod 64" "(0xDC00 + h) mod 64 = h mod 64"
    using mod_mult_self1 [of h 864 64] mod_mult_self1 [of h 880 64] by (simp_all add: add.commute)
  ultimately show "utf8_bytes (0xD800 + h) = [0xED, 0xA0 + h div 64, 0x80 + h mod 64]"
    "utf8_bytes (0xDC00 + h) = [0xED, 0xB0 + h div 64, 0x80 + h mod 64]"
    using assms unfolding utf8_bytes_def by simp_all
qed

lemma utf16_cesu8:
  assumes "c < 0x110000"
  shows "concat (map utf8_bytes (utf16_units c)) = cesu8_bytes c" "units (utf16_units c)"
proof -
  define x where "x = c - 0x10000"
  have h: "x div 1024 < 1024" "x mod 1024 < 1024" using assms by (simp_all add: x_def less_mult_imp_div_less)
  then have "x mod 1024 < 9216" by simp
  have d: "x div 1024 div 64 = x div 65536" "x mod 1024 mod 64 = x mod 64"
    by (simp_all add: div_mult2_eq [symmetric] mod_mod_cancel)
  show "concat (map utf8_bytes (utf16_units c)) = cesu8_bytes c"
    using surrogate_bytes(1) [OF h(1)] surrogate_bytes(2) [OF h(2)] d
    by (simp add: utf16_units_def cesu8_bytes_def Let_def x_def [symmetric])
  show "units (utf16_units c)"
    using h \<open>x mod 1024 < 9216\<close> by (simp add: utf16_units_def units_def is_unit_def x_def [symmetric])
qed

lemma cesu8_length: "length (cesu8_bytes c) = length (utf8_bytes c) + 2 * of_bool (0x10000 \<le> c)"
  by (simp add: cesu8_bytes_def utf8_bytes_def Let_def)

text \<open>The characters other than the padding tell the number of bytes.\<close>

lemma b64_char_no_pad: "b64_char k \<noteq> 61"
  by (auto simp: b64_char_def)

lemma b64_bytes_chars: "length (filter (\<lambda>u. u \<noteq> 61) (b64_bytes bs)) = (4 * length bs + 2) div 3"
  by (induction bs rule: b64_bytes.induct) (simp_all add: b64_char_no_pad str_def)

lemma b64_chars_mono: "m < n \<Longrightarrow> (4 * m + 2) div 3 < (4 * n + 2) div (3::nat)"
  using div_le_mono [of "4 * m + 2 + 3" "4 * n + 2" 3] by simp

lemma b64_bytes_length: "b64_bytes as = b64_bytes bs \<Longrightarrow> length as = length bs"
  using b64_bytes_chars [of as] b64_bytes_chars [of bs] b64_chars_mono [of "length as" "length bs"]
    b64_chars_mono [of "length bs" "length as"] by (cases "length as" "length bs" rule: linorder_cases) simp_all

text \<open>
  C27. What the encoder makes of characters outside the basic plane.  It writes the Base64 of the CESU-8 bytes of the
  text, six bytes for a supplementary code point; this is the Base64 of the UTF-8 bytes, which the header
  of the script promises and Java reads, exactly when the text has no supplementary code point.
\<close>

theorem encoder_cesu8:
  assumes "list_all (\<lambda>c. c < 0x110000) cps"
  shows "encoder (concat (map utf16_units cps)) = b64_bytes (concat (map cesu8_bytes cps)) \<and>
    (encoder (concat (map utf16_units cps)) = b64_bytes (concat (map utf8_bytes cps)) \<longleftrightarrow> list_all (\<lambda>c. c < 0x10000) cps)"
proof -
  have u: "units (concat (map utf16_units cps))"
    and b: "concat (map utf8_bytes (concat (map utf16_units cps))) = concat (map cesu8_bytes cps)"
    using assms utf16_cesu8 by (induction cps) (simp_all add: units_def)
  have "\<forall>v \<in> set (concat (map utf16_units cps)). v < 0x200000" using units_bound [OF u] by fastforce
  then have enc: "encoder (concat (map utf16_units cps)) = b64_bytes (concat (map cesu8_bytes cps))"
    using encoder_bytes b by metis
  moreover have "list_all (\<lambda>c. c < 0x10000) cps"
    if "b64_bytes (concat (map cesu8_bytes cps)) = b64_bytes (concat (map utf8_bytes cps))"
  proof -
    have "length (concat (map cesu8_bytes cps)) =
        length (concat (map utf8_bytes cps)) + 2 * length (filter (\<lambda>c. 0x10000 \<le> c) cps)"
      by (induction cps) (simp_all add: cesu8_length)
    then have "filter (\<lambda>c. 0x10000 \<le> c) cps = []" using b64_bytes_length [OF that] by simp
    then show ?thesis by (auto simp: list_all_iff filter_empty_conv)
  qed
  moreover have "concat (map cesu8_bytes cps) = concat (map utf8_bytes cps)" if "list_all (\<lambda>c. c < 0x10000) cps"
    using that by (induction cps) (simp_all add: cesu8_bytes_def)
  ultimately show ?thesis by metis
qed

theorem encoder_cesu8_witness:
  "encoder [65, 0xD83D, 0xDE00] = str ''Qe2gve24gA=='' \<and>
     encoder [65, 0xD83D, 0xDE00] \<noteq> b64_bytes (concat (map utf8_bytes [65, 0x1F600]))"
proof -
  have u: "concat (map utf16_units [65, 0x1F600]) = [65, 0xD83D, 0xDE00]" by (simp add: utf16_units_def)
  have b: "b64_bytes (concat (map cesu8_bytes [65, 0x1F600])) = str ''Qe2gve24gA==''"
    by (simp add: cesu8_bytes_def utf8_bytes_def b64_char_def str_def)
  show ?thesis
    using encoder_cesu8 [of "[65, 0x1F600]"] unfolding u b by (simp; metis)
qed

end
