(* ===== verification/LRU.thy ===== *)
theory LRU
  imports Prelude
begin

text \<open>
  \<^verbatim>\<open>zrender/core/LRU\<close> (module 63 of \<^verbatim>\<open>echarts.js\<close>): a cache over a doubly linked list.  Entries are
  objects on an explicit heap, so that the pointer surgery of \<^verbatim>\<open>insertEntry\<close> and \<^verbatim>\<open>remove\<close> is the
  code's own.  The abstract cache is the list of its key/value pairs, least recently used first;
  every operation is proved to refine it.  \<^verbatim>\<open>null\<close> and \<^verbatim>\<open>undefined\<close> pointers are \<open>None\<close>; a
  property read through one is a \<open>TypeError\<close>.  The object used as a map is modelled for keys that
  are not property names of \<^verbatim>\<open>Object.prototype\<close>.
\<close>

section \<open>The linked list\<close>

type_synonym addr = nat

record ('k, 'v) entry =
  entry_value :: 'v
  entry_next :: "addr option"
  entry_prev :: "addr option"
  entry_key :: "'k option"

type_synonym ('k, 'v) heap = "addr \<rightharpoonup> ('k, 'v) entry"

record LinkedList =
  head :: "addr option"
  tail :: "addr option"
  list_len :: int

definition new_LinkedList :: LinkedList where
  "new_LinkedList = \<lparr>head = None, tail = None, list_len = 0\<rparr>"

definition new_Entry :: "'v \<Rightarrow> ('k, 'v) entry" where
  "new_Entry val = \<lparr>entry_value = val, entry_next = None, entry_prev = None, entry_key = None\<rparr>"

definition modify :: "('k, 'v) heap \<Rightarrow> addr option \<Rightarrow> (('k, 'v) entry \<Rightarrow> ('k, 'v) entry) \<Rightarrow>
    js_error + ('k, 'v) heap" where
  "modify h p f =
     ebind (deref p) (\<lambda>a. ebind (deref (h a)) (\<lambda>e. Inr (h(a \<mapsto> f e))))"

definition insertEntry ::
  "('k, 'v) heap \<Rightarrow> LinkedList \<Rightarrow> addr \<Rightarrow> js_error + ('k, 'v) heap \<times> LinkedList" where
  "insertEntry h l entry =
     (if head l = None then
        Inr (h, l\<lparr>head := Some entry, tail := Some entry, list_len := list_len l + 1\<rparr>)
      else
        ebind (modify h (tail l) (\<lambda>e. e\<lparr>entry_next := Some entry\<rparr>)) (\<lambda>h.
        ebind (modify h (Some entry) (\<lambda>e. e\<lparr>entry_prev := tail l\<rparr>)) (\<lambda>h.
        Inr (h, l\<lparr>tail := Some entry, list_len := list_len l + 1\<rparr>))))"

text \<open>\<^verbatim>\<open>insert\<close> allocates the entry at \<open>a\<close>, an address the heap does not use.\<close>

definition list_insert ::
  "('k, 'v) heap \<Rightarrow> LinkedList \<Rightarrow> addr \<Rightarrow> 'v \<Rightarrow> js_error + ('k, 'v) heap \<times> LinkedList" where
  "list_insert h l a val = insertEntry (h(a \<mapsto> new_Entry val)) l a"

definition list_remove ::
  "('k, 'v) heap \<Rightarrow> LinkedList \<Rightarrow> addr option \<Rightarrow> js_error + ('k, 'v) heap \<times> LinkedList" where
  "list_remove h l entry =
     ebind (deref entry) (\<lambda>a. ebind (deref (h a)) (\<lambda>e.
       let prev = entry_prev e; next = entry_next e in
       ebind (case prev of
                Some _ \<Rightarrow> ebind (modify h prev (\<lambda>e. e\<lparr>entry_next := next\<rparr>)) (\<lambda>h. Inr (h, l))
              | None \<Rightarrow> Inr (h, l\<lparr>head := next\<rparr>)) (\<lambda>(h, l).
       ebind (case next of
                Some _ \<Rightarrow> ebind (modify h next (\<lambda>e. e\<lparr>entry_prev := prev\<rparr>)) (\<lambda>h. Inr (h, l))
              | None \<Rightarrow> Inr (h, l\<lparr>tail := prev\<rparr>)) (\<lambda>(h, l).
       ebind (modify h entry (\<lambda>e. e\<lparr>entry_next := None, entry_prev := None\<rparr>)) (\<lambda>h.
       Inr (h, l\<lparr>list_len := list_len l - 1\<rparr>))))))"

section \<open>The cache\<close>

record ('k, 'v) lru =
  lru_heap :: "('k, 'v) heap"
  lru_fresh :: addr
  lru_list :: LinkedList
  lru_map :: "'k \<rightharpoonup> addr"
  lru_maxSize :: nat

text \<open>\<^verbatim>\<open>maxSize || 10\<close>: a missing or zero size is 10.\<close>

definition new_LRU :: "nat option \<Rightarrow> ('k, 'v) lru" where
  "new_LRU maxSize =
     \<lparr>lru_heap = Map.empty, lru_fresh = 0, lru_list = new_LinkedList, lru_map = Map.empty,
      lru_maxSize = (case maxSize of None \<Rightarrow> 10 | Some n \<Rightarrow> if n = 0 then 10 else n)\<rparr>"

text \<open>The eviction inside \<^verbatim>\<open>put\<close>.\<close>

definition evict :: "('k, 'v) lru \<Rightarrow> js_error + ('k, 'v) lru" where
  "evict s =
     (let len = list_len (lru_list s) in
      if len \<ge> int (lru_maxSize s) \<and> len > 0 then
        (let leastUsedEntry = head (lru_list s) in
         ebind (list_remove (lru_heap s) (lru_list s) leastUsedEntry) (\<lambda>(h, l).
         ebind (deref leastUsedEntry) (\<lambda>a. ebind (deref (h a)) (\<lambda>e.
         Inr (s\<lparr>lru_heap := h, lru_list := l,
                lru_map := (case entry_key e of None \<Rightarrow> lru_map s | Some k \<Rightarrow> (lru_map s)(k := None))\<rparr>)))))
      else Inr s)"

definition lru_put :: "('k, 'v) lru \<Rightarrow> 'k \<Rightarrow> 'v \<Rightarrow> js_error + ('k, 'v) lru" where
  "lru_put s key value =
     (if lru_map s key = None then
        ebind (evict s) (\<lambda>s.
        let a = lru_fresh s in
        ebind (list_insert (lru_heap s) (lru_list s) a value) (\<lambda>(h, l).
        ebind (modify h (Some a) (\<lambda>e. e\<lparr>entry_key := Some key\<rparr>)) (\<lambda>h.
        Inr (s\<lparr>lru_heap := h, lru_list := l, lru_fresh := a + 1, lru_map := (lru_map s)(key \<mapsto> a)\<rparr>))))
      else Inr s)"

definition lru_get :: "('k, 'v) lru \<Rightarrow> 'k \<Rightarrow> js_error + ('k, 'v) lru \<times> 'v option" where
  "lru_get s key =
     (case lru_map s key of
        None \<Rightarrow> Inr (s, None)
      | Some a \<Rightarrow>
          ebind (if Some a \<noteq> tail (lru_list s) then
                   ebind (list_remove (lru_heap s) (lru_list s) (Some a)) (\<lambda>(h, l).
                   ebind (insertEntry h l a) (\<lambda>(h, l).
                   Inr (s\<lparr>lru_heap := h, lru_list := l\<rparr>)))
                 else Inr s) (\<lambda>s.
          ebind (deref (lru_heap s a)) (\<lambda>e. Inr (s, Some (entry_value e)))))"

text \<open>\<^verbatim>\<open>clear\<close> calls \<^verbatim>\<open>this._list.clear()\<close>, a method \<^verbatim>\<open>LinkedList.prototype\<close> does not have.\<close>

definition linkedListProto :: "string set" where
  "linkedListProto = {''insert'', ''insertEntry'', ''remove'', ''len''}"

definition lru_clear :: "('k, 'v) lru \<Rightarrow> js_error + ('k, 'v) lru" where
  "lru_clear s =
     (if ''clear'' \<in> linkedListProto
      then Inr (s\<lparr>lru_list := new_LinkedList, lru_map := Map.empty\<rparr>)
      else Inl TypeError)"

section \<open>Doubly linked segments\<close>

definition hd_or :: "'a list \<Rightarrow> 'a option \<Rightarrow> 'a option" where
  "hd_or as q = (case as of [] \<Rightarrow> q | a # _ \<Rightarrow> Some a)"

definition last_or :: "'a list \<Rightarrow> 'a option \<Rightarrow> 'a option" where
  "last_or as p = (if as = [] then p else Some (last as))"

lemma hd_or_simps [simp]:
  "hd_or [] q = q" "hd_or (a # as) q = Some a" "hd_or (as @ [a]) q = hd_or as (Some a)"
  "hd_or (as @ b # bs) q = hd_or as (Some b)"
  by (auto simp: hd_or_def split: list.splits)

lemma last_or_simps [simp]:
  "last_or [] p = p" "last_or (a # as) p = last_or as (Some a)" "last_or (as @ [a]) p = Some a"
  "last_or (as @ b # bs) p = last_or bs (Some b)"
  by (auto simp: last_or_def)

text \<open>\<open>dlseg h p as q\<close>: the entries \<open>as\<close> are linked in order, after \<open>p\<close> and before \<open>q\<close>.\<close>

fun dlseg :: "('k, 'v) heap \<Rightarrow> addr option \<Rightarrow> addr list \<Rightarrow> addr option \<Rightarrow> bool" where
  "dlseg h p [] q = True"
| "dlseg h p (a # as) q =
     ((\<exists>e. h a = Some e \<and> entry_prev e = p \<and> entry_next e = hd_or as q) \<and> dlseg h (Some a) as q)"

lemma dlseg_append:
  "dlseg h p (as @ bs) q \<longleftrightarrow> dlseg h p as (hd_or bs q) \<and> dlseg h (last_or as p) bs q"
proof (induction as arbitrary: p)
  case (Cons a as)
  have "hd_or (as @ bs) q = hd_or as (hd_or bs q)" by (auto simp: hd_or_def split: list.splits)
  with Cons show ?case by simp
qed simp

lemma dlseg_upd [simp]: "a \<notin> set as \<Longrightarrow> dlseg (h(a \<mapsto> e)) p as q = dlseg h p as q"
  by (induction as arbitrary: p) auto

lemma dlseg_mem: "dlseg h p as q \<Longrightarrow> a \<in> set as \<Longrightarrow> \<exists>e. h a = Some e"
  by (induction as arbitrary: p) auto

text \<open>The last entry's \<^verbatim>\<open>next\<close> and the first one's \<^verbatim>\<open>prev\<close> can be rewritten.\<close>

lemma dlseg_set_next:
  assumes "dlseg h p as q" "distinct as" "as \<noteq> []"
  shows "\<exists>e. h (last as) = Some e \<and> dlseg (h(last as \<mapsto> e\<lparr>entry_next := q'\<rparr>)) p as q'"
proof -
  from assms obtain bs b where as: "as = bs @ [b]" by (metis rev_exhaust)
  with assms show ?thesis by (auto simp: dlseg_append)
qed

lemma dlseg_set_prev:
  assumes "dlseg h p (a # as) q" "distinct (a # as)"
  shows "\<exists>e. h a = Some e \<and> dlseg (h(a \<mapsto> e\<lparr>entry_prev := p'\<rparr>)) p' (a # as) q"
  using assms by auto


text \<open>The part of the heap the list operations never touch: keys and values.\<close>

definition payload :: "('k, 'v) heap \<Rightarrow> addr \<Rightarrow> ('k option \<times> 'v) option" where
  "payload h a = map_option (\<lambda>e. (entry_key e, entry_value e)) (h a)"

lemma payload_upd: "h a = Some e \<Longrightarrow> entry_key e' = entry_key e \<Longrightarrow> entry_value e' = entry_value e \<Longrightarrow>
    payload (h(a \<mapsto> e')) = payload h"
  by (auto simp: payload_def fun_eq_iff)

lemma payload_eq_Some: "payload h' = payload h \<Longrightarrow> h a = Some e \<Longrightarrow>
    \<exists>e'. h' a = Some e' \<and> entry_key e' = entry_key e \<and> entry_value e' = entry_value e"
  by (drule fun_cong [of _ _ a]) (auto simp: payload_def)

lemma payload_eq_None: "payload h' = payload h \<Longrightarrow> h' a = None \<longleftrightarrow> h a = None"
  by (drule fun_cong [of _ _ a]) (auto simp: payload_def)

definition linked :: "('k, 'v) heap \<Rightarrow> LinkedList \<Rightarrow> addr list \<Rightarrow> bool" where
  "linked h l as \<longleftrightarrow> dlseg h None as None \<and> distinct as \<and> head l = hd_or as None \<and>
     tail l = last_or as None \<and> list_len l = int (length as)"

lemma linked_new: "linked h new_LinkedList []"
  by (simp add: linked_def new_LinkedList_def)

lemma insertEntry_linked:
  assumes "linked h l as" "a \<notin> set as" "h a = Some e" "entry_next e = None" "entry_prev e = None"
  shows "\<exists>h' l'. insertEntry h l a = Inr (h', l') \<and> linked h' l' (as @ [a]) \<and> payload h' = payload h"
proof (cases as rule: rev_cases)
  case Nil
  with assms show ?thesis by (simp add: insertEntry_def linked_def)
next
  case (snoc bs b)
  with assms have b: "dlseg h None bs (Some b)" "b \<noteq> a" "b \<notin> set bs" "a \<notin> set bs" "distinct bs"
    by (auto simp: linked_def dlseg_append)
  from assms snoc obtain eb where eb: "h b = Some eb" "entry_prev eb = last_or bs None"
    by (auto simp: linked_def dlseg_append)
  from assms snoc have l: "head l \<noteq> None" "tail l = Some b" "head l = hd_or bs (Some b)"
    "list_len l = int (Suc (length bs))"
    by (auto simp: linked_def hd_or_def split: list.splits)
  let ?h1 = "h(b \<mapsto> eb\<lparr>entry_next := Some a\<rparr>)"
  let ?h2 = "?h1(a \<mapsto> e\<lparr>entry_prev := Some b\<rparr>)"
  have "insertEntry h l a = Inr (?h2, l\<lparr>tail := Some a, list_len := list_len l + 1\<rparr>)"
    using l eb assms(3) b by (auto simp: insertEntry_def modify_def)
  moreover have "linked ?h2 (l\<lparr>tail := Some a, list_len := list_len l + 1\<rparr>) (as @ [a])"
    using b eb l assms(4) by (simp add: linked_def snoc dlseg_append)
  moreover have "payload ?h2 = payload h"
    using eb assms(3) b payload_upd [of h b eb "eb\<lparr>entry_next := Some a\<rparr>"]
      payload_upd [of ?h1 a e "e\<lparr>entry_prev := Some b\<rparr>"] by simp
  ultimately show ?thesis by blast
qed

lemma list_remove_linked:
  assumes "linked h l (bs @ a # cs)"
  shows "\<exists>h' l' e'. list_remove h l (Some a) = Inr (h', l') \<and> linked h' l' (bs @ cs) \<and>
    payload h' = payload h \<and> h' a = Some e' \<and> entry_next e' = None \<and> entry_prev e' = None"
proof -
  from assms obtain e where e: "h a = Some e" "entry_prev e = last_or bs None" "entry_next e = hd_or cs None"
    by (auto simp: linked_def dlseg_append)
  from assms have seg: "dlseg h None bs (Some a)" "dlseg h (Some a) cs None"
    and dist: "distinct bs" "distinct cs" "a \<notin> set bs" "a \<notin> set cs" "set bs \<inter> set cs = {}"
    by (auto simp: linked_def dlseg_append)
  obtain h1 l1 where s1: "(case entry_prev e of
        Some _ \<Rightarrow> ebind (modify h (entry_prev e) (\<lambda>x. x\<lparr>entry_next := entry_next e\<rparr>)) (\<lambda>h. Inr (h, l))
      | None \<Rightarrow> Inr (h, l\<lparr>head := entry_next e\<rparr>)) = Inr (h1, l1)"
    and h1: "dlseg h1 None bs (entry_next e)" "dlseg h1 (Some a) cs None" "payload h1 = payload h"
      "h1 a = Some e" "l1 = l\<lparr>head := hd_or (bs @ cs) None\<rparr>"
  proof (cases bs rule: rev_cases)
    case Nil
    with seg e that [of h "l\<lparr>head := entry_next e\<rparr>"] show ?thesis by simp
  next
    case (snoc bs' b)
    with seg obtain eb where eb: "h b = Some eb" by (auto simp: dlseg_append)
    let ?h = "h(b \<mapsto> eb\<lparr>entry_next := entry_next e\<rparr>)"
    have b: "b \<noteq> a" "b \<notin> set cs" "b \<notin> set bs'" using snoc dist by auto
    have "head l = hd_or (bs @ cs) None"
      using assms snoc by (simp add: linked_def)
    then have "l = l\<lparr>head := hd_or (bs @ cs) None\<rparr>" by simp
    moreover have "dlseg ?h None bs (entry_next e)" using snoc seg b eb by (auto simp: dlseg_append)
    moreover have "payload ?h = payload h" using eb by (auto intro: payload_upd)
    ultimately show ?thesis
      using that [of ?h l] snoc e b eb seg by (simp add: modify_def)
  qed
  obtain h2 l2 where s2: "(case entry_next e of
        Some _ \<Rightarrow> ebind (modify h1 (entry_next e) (\<lambda>x. x\<lparr>entry_prev := entry_prev e\<rparr>)) (\<lambda>h. Inr (h, l1))
      | None \<Rightarrow> Inr (h1, l1\<lparr>tail := entry_prev e\<rparr>)) = Inr (h2, l2)"
    and h2: "dlseg h2 None bs (entry_next e)" "dlseg h2 (entry_prev e) cs None" "payload h2 = payload h"
      "h2 a = Some e" "l2 = l1\<lparr>tail := last_or (bs @ cs) None\<rparr>"
  proof (cases cs)
    case Nil
    with h1 e that [of h1 "l1\<lparr>tail := entry_prev e\<rparr>"] show ?thesis by simp
  next
    case (Cons c cs')
    with h1 obtain ec where ec: "h1 c = Some ec" by auto
    let ?h = "h1(c \<mapsto> ec\<lparr>entry_prev := entry_prev e\<rparr>)"
    have c: "c \<noteq> a" "c \<notin> set bs" "c \<notin> set cs'" using Cons dist by auto
    have "tail l1 = last_or (bs @ cs) None"
      using assms h1(5) Cons by (simp add: linked_def)
    then have "l1 = l1\<lparr>tail := last_or (bs @ cs) None\<rparr>" by simp
    moreover have "dlseg ?h (entry_prev e) cs None" using Cons h1 c ec by auto
    moreover have "payload ?h = payload h" using ec h1(3) by (simp add: payload_upd)
    ultimately show ?thesis
      using that [of ?h l1] Cons e c ec h1 by (simp add: modify_def)
  qed
  let ?h3 = "h2(a \<mapsto> e\<lparr>entry_next := None, entry_prev := None\<rparr>)"
  let ?l3 = "l2\<lparr>list_len := list_len l2 - 1\<rparr>"
  have "list_remove h l (Some a) = Inr (?h3, ?l3)"
    by (simp add: list_remove_def e(1) Let_def s1 s2) (simp add: modify_def h2(4))
  moreover have "linked ?h3 ?l3 (bs @ cs)"
    using h2 h1(5) e dist assms by (auto simp: linked_def dlseg_append)
  moreover have "payload ?h3 = payload h"
    using h2 by (auto simp: payload_upd)
  ultimately show ?thesis by fastforce
qed


section \<open>The cache refines a bounded list of pairs\<close>

text \<open>The abstract cache: the pairs, least recently used first, and its bound.\<close>

definition spec_put :: "nat \<Rightarrow> ('k \<times> 'v) list \<Rightarrow> 'k \<Rightarrow> 'v \<Rightarrow> ('k \<times> 'v) list" where
  "spec_put m xs k v =
     (if k \<in> fst ` set xs then xs
      else (if length xs \<ge> m \<and> xs \<noteq> [] then tl xs else xs) @ [(k, v)])"

definition spec_get :: "('k \<times> 'v) list \<Rightarrow> 'k \<Rightarrow> ('k \<times> 'v) list \<times> 'v option" where
  "spec_get xs k =
     (case map_of xs k of
        None \<Rightarrow> (xs, None)
      | Some v \<Rightarrow> (filter (\<lambda>p. fst p \<noteq> k) xs @ [(k, v)], Some v))"

text \<open>The entries met by following \<^verbatim>\<open>next\<close> from \<open>p\<close>, at most \<open>n\<close> of them.\<close>

fun walk :: "('k, 'v) heap \<Rightarrow> addr option \<Rightarrow> nat \<Rightarrow> addr list" where
  "walk h p 0 = []"
| "walk h p (Suc n) =
     (case p of None \<Rightarrow> []
      | Some a \<Rightarrow> (case h a of None \<Rightarrow> [] | Some e \<Rightarrow> a # walk h (entry_next e) n))"

definition pair_at :: "('k, 'v) heap \<Rightarrow> addr \<Rightarrow> 'k \<times> 'v" where
  "pair_at h a = (case h a of Some e \<Rightarrow> (the (entry_key e), entry_value e))"

definition entries :: "('k, 'v) lru \<Rightarrow> addr list" where
  "entries s = walk (lru_heap s) (head (lru_list s)) (nat (list_len (lru_list s)))"

definition contents :: "('k, 'v) lru \<Rightarrow> ('k \<times> 'v) list" where
  "contents s = map (pair_at (lru_heap s)) (entries s)"

text \<open>
  The representation invariant: the list is well linked, the map holds exactly the addresses of the
  linked entries under their keys, addresses from \<open>lru_fresh\<close> on are free, the bound holds.
\<close>

definition keyed :: "('k, 'v) lru \<Rightarrow> addr list \<Rightarrow> bool" where
  "keyed s as \<longleftrightarrow>
     (\<forall>k a. lru_map s k = Some a \<longleftrightarrow> a \<in> set as \<and> (\<exists>e. lru_heap s a = Some e \<and> entry_key e = Some k)) \<and>
     (\<forall>a \<in> set as. \<exists>e k. lru_heap s a = Some e \<and> entry_key e = Some k) \<and>
     (\<forall>a \<ge> lru_fresh s. lru_heap s a = None)"

definition lru_inv :: "('k, 'v) lru \<Rightarrow> bool" where
  "lru_inv s \<longleftrightarrow> linked (lru_heap s) (lru_list s) (entries s) \<and> keyed s (entries s) \<and>
     0 < lru_maxSize s \<and> length (entries s) \<le> lru_maxSize s"

lemma walk_dlseg: "dlseg h p as None \<Longrightarrow> walk h (hd_or as None) (length as) = as"
  by (induction as arbitrary: p) auto

lemma linked_entries: "linked (lru_heap s) (lru_list s) as \<Longrightarrow> entries s = as"
  by (auto simp: linked_def entries_def dest: walk_dlseg)

lemma lru_invI:
  assumes "linked (lru_heap s) (lru_list s) as" "keyed s as" "0 < lru_maxSize s" "length as \<le> lru_maxSize s"
  shows "lru_inv s" and "entries s = as"
  using assms linked_entries [OF assms(1)] by (simp_all add: lru_inv_def)

lemma keyed_unique:
  assumes "keyed s as" "a \<in> set as" "b \<in> set as" "fst (pair_at (lru_heap s) a) = fst (pair_at (lru_heap s) b)"
  shows "a = b"
proof -
  from assms obtain e e' k k' where "lru_heap s a = Some e" "entry_key e = Some k"
    "lru_heap s b = Some e'" "entry_key e' = Some k'"
    unfolding keyed_def by metis
  with assms have "lru_map s k = Some a" "lru_map s k' = Some b" "k = k'"
    by (auto simp: keyed_def pair_at_def)
  then show ?thesis by simp
qed

lemma keyed_keys:
  assumes "keyed s as"
  shows "fst ` set (map (pair_at (lru_heap s)) as) = dom (lru_map s)"
proof -
  have "k \<in> fst ` pair_at (lru_heap s) ` set as \<longleftrightarrow> (\<exists>a. lru_map s k = Some a)" for k
  proof
    assume "k \<in> fst ` pair_at (lru_heap s) ` set as"
    then obtain a where a: "a \<in> set as" "k = fst (pair_at (lru_heap s) a)" by auto
    with assms obtain e k' where "lru_heap s a = Some e" "entry_key e = Some k'"
      unfolding keyed_def by metis
    with a assms show "\<exists>a. lru_map s k = Some a" by (auto simp: keyed_def pair_at_def)
  next
    assume "\<exists>a. lru_map s k = Some a"
    then obtain a e where "a \<in> set as" "lru_heap s a = Some e" "entry_key e = Some k"
      using assms by (auto simp: keyed_def)
    then show "k \<in> fst ` pair_at (lru_heap s) ` set as"
      by (force simp: pair_at_def)
  qed
  then show ?thesis by auto
qed

lemma pair_at_payload: "payload h' = payload h \<Longrightarrow> h a \<noteq> None \<Longrightarrow> pair_at h' a = pair_at h a"
  by (auto simp: pair_at_def dest: payload_eq_Some)

lemma keyed_payload:
  assumes "keyed s as" "payload h' = payload (lru_heap s)" "set as' = set as"
  shows "keyed (s\<lparr>lru_heap := h', lru_list := l'\<rparr>) as'"
proof -
  have eq: "(\<exists>e. h' a = Some e \<and> entry_key e = Some k) \<longleftrightarrow>
      (\<exists>e. lru_heap s a = Some e \<and> entry_key e = Some k)" for a k
    using fun_cong [OF assms(2), of a]
    by (cases "lru_heap s a"; cases "h' a") (auto simp: payload_def)
  have none: "h' a = None \<longleftrightarrow> lru_heap s a = None" for a
    using payload_eq_None [OF assms(2)] .
  show ?thesis
    using assms(1,3) unfolding keyed_def by (simp add: eq none) (metis eq)
qed


lemma new_LRU_inv: "lru_inv (new_LRU m)" "contents (new_LRU m) = []"
  by (auto simp: lru_inv_def new_LRU_def entries_def contents_def keyed_def new_LinkedList_def linked_def
      split: option.splits)

lemma new_maxSize: "lru_maxSize (new_LRU (Some n)) = (if n = 0 then 10 else n)"
  by (simp add: new_LRU_def)

lemma lookup_entry:
  assumes "keyed s (bs @ a # cs)" "distinct (bs @ a # cs)" "lru_map s k = Some a"
  shows "\<exists>e. lru_heap s a = Some e \<and> pair_at (lru_heap s) a = (k, entry_value e)"
    and "filter (\<lambda>p. fst p \<noteq> k) (map (pair_at (lru_heap s)) (bs @ a # cs)) =
      map (pair_at (lru_heap s)) (bs @ cs)"
proof -
  from assms obtain e where e: "lru_heap s a = Some e" "entry_key e = Some k"
    by (auto simp: keyed_def)
  then show "\<exists>e. lru_heap s a = Some e \<and> pair_at (lru_heap s) a = (k, entry_value e)"
    by (simp add: pair_at_def)
  have a: "fst (pair_at (lru_heap s) a) = k" using e by (simp add: pair_at_def)
  have "fst (pair_at (lru_heap s) b) \<noteq> k" if "b \<in> set (bs @ cs)" for b
    using keyed_unique [OF assms(1), of b a] that a assms(2) by auto
  then show "filter (\<lambda>p. fst p \<noteq> k) (map (pair_at (lru_heap s)) (bs @ a # cs)) =
      map (pair_at (lru_heap s)) (bs @ cs)"
    using a by (simp add: filter_map o_def cong: filter_cong)
qed

lemma map_of_contents:
  assumes "keyed s as"
  shows "map_of (map (pair_at (lru_heap s)) as) k =
    (case lru_map s k of None \<Rightarrow> None | Some a \<Rightarrow> Some (snd (pair_at (lru_heap s) a)))"
proof (cases "lru_map s k")
  case None
  then have "k \<notin> fst ` set (map (pair_at (lru_heap s)) as)"
    using keyed_keys [OF assms] by auto
  with None show ?thesis by (simp add: map_of_eq_None_iff)
next
  case (Some a)
  then have a: "a \<in> set as" "fst (pair_at (lru_heap s) a) = k"
    using assms by (auto simp: keyed_def pair_at_def)
  have inj: "inj_on (\<lambda>x. fst (pair_at (lru_heap s) x)) (set as)"
    by (auto simp: inj_on_def intro: keyed_unique [OF assms])
  have "map_of (map (pair_at (lru_heap s)) xs) k = Some (snd (pair_at (lru_heap s) a))"
    if "a \<in> set xs" "set xs \<subseteq> set as" for xs
    using that
  proof (induction xs)
    case (Cons x xs)
    show ?case
    proof (cases "fst (pair_at (lru_heap s) x) = k")
      case True
      with a Cons.prems inj have "x = a" by (auto simp: inj_on_def)
      with True show ?thesis by (cases "pair_at (lru_heap s) x") auto
    next
      case False
      with a Cons show ?thesis by (cases "pair_at (lru_heap s) x") auto
    qed
  qed simp
  with a Some show ?thesis by simp
qed

text \<open>\<^verbatim>\<open>get\<close> never fails, keeps the invariant and moves the entry to the recent end.\<close>

lemma lru_get_refines:
  assumes "lru_inv s"
  shows "\<exists>s'. lru_get s k = Inr (s', snd (spec_get (contents s) k)) \<and> lru_inv s' \<and>
    contents s' = fst (spec_get (contents s) k) \<and> lru_maxSize s' = lru_maxSize s"
proof (cases "lru_map s k")
  case None
  then have "map_of (contents s) k = None"
    using assms by (simp add: contents_def lru_inv_def map_of_contents)
  with None assms show ?thesis by (simp add: lru_get_def spec_get_def)
next
  case (Some a)
  let ?as = "entries s"
  from assms have keyed: "keyed s ?as" and link: "linked (lru_heap s) (lru_list s) ?as"
    by (simp_all add: lru_inv_def)
  from keyed Some have "a \<in> set ?as" by (auto simp: keyed_def)
  then obtain bs cs where as: "?as = bs @ a # cs" by (meson split_list)
  have dist: "distinct (bs @ a # cs)" using link as by (simp add: linked_def)
  obtain e where e: "lru_heap s a = Some e" "pair_at (lru_heap s) a = (k, entry_value e)"
    using lookup_entry(1) [of s bs a cs k] keyed as dist Some by auto
  have spec: "spec_get (contents s) k =
      (map (pair_at (lru_heap s)) (bs @ cs) @ [(k, entry_value e)], Some (entry_value e))"
    using lookup_entry(2) [of s bs a cs k] keyed as dist Some e map_of_contents [OF keyed, of k]
    by (simp add: spec_get_def contents_def)
  show ?thesis
  proof (cases "Some a = tail (lru_list s)")
    case True
    with link as have "cs = []"
      using dist by (cases cs rule: rev_cases) (auto simp: linked_def last_or_def)
    with True [symmetric] Some e as assms spec show ?thesis
      by (simp add: lru_get_def contents_def)
  next
    case False
    from list_remove_linked link as obtain h1 l1 e1 where r:
      "list_remove (lru_heap s) (lru_list s) (Some a) = Inr (h1, l1)" "linked h1 l1 (bs @ cs)"
      "payload h1 = payload (lru_heap s)" "h1 a = Some e1" "entry_next e1 = None" "entry_prev e1 = None"
      by metis
    from insertEntry_linked [OF r(2) _ r(4-6)] dist obtain h2 l2 where i:
      "insertEntry h1 l1 a = Inr (h2, l2)" "linked h2 l2 ((bs @ cs) @ [a])" "payload h2 = payload h1"
      by auto
    let ?s = "s\<lparr>lru_heap := h2, lru_list := l2\<rparr>"
    have pay: "payload h2 = payload (lru_heap s)" using i r by simp
    then obtain e2 where e2: "h2 a = Some e2" "entry_value e2 = entry_value e"
      using payload_eq_Some [OF pay e(1)] by blast
    have keyed': "keyed ?s ((bs @ cs) @ [a])"
      using keyed_payload [OF keyed pay] as by auto
    have "lru_inv ?s" "entries ?s = (bs @ cs) @ [a]"
      using lru_invI [of ?s "(bs @ cs) @ [a]"] i(2) keyed' assms as by (simp_all add: lru_inv_def)
    moreover have "map (pair_at h2) ((bs @ cs) @ [a]) = map (pair_at (lru_heap s)) (bs @ cs) @ [(k, entry_value e)]"
    proof -
      have "pair_at h2 x = pair_at (lru_heap s) x" if "x \<in> set ?as" for x
        using keyed that by (intro pair_at_payload [OF pay]) (auto simp: keyed_def)
      with as e(2) show ?thesis by simp
    qed
    ultimately show ?thesis
      using False Some r i e2 spec by (simp add: lru_get_def contents_def)
  qed
qed


text \<open>Eviction drops the least recently used pair when the cache is full.\<close>

lemma evict_refines:
  assumes "lru_inv s"
  shows "\<exists>s'. evict s = Inr s' \<and> lru_inv s' \<and> lru_maxSize s' = lru_maxSize s \<and>
    contents s' = (if length (contents s) \<ge> lru_maxSize s \<and> contents s \<noteq> [] then tl (contents s) else contents s) \<and>
    (\<forall>k. lru_map s k = None \<longrightarrow> lru_map s' k = None) \<and> length (contents s') < lru_maxSize s'"
proof -
  let ?as = "entries s"
  from assms have keyed: "keyed s ?as" and link: "linked (lru_heap s) (lru_list s) ?as"
    and bound: "0 < lru_maxSize s" "length ?as \<le> lru_maxSize s" by (simp_all add: lru_inv_def)
  have len: "list_len (lru_list s) = int (length ?as)" using link by (simp add: linked_def)
  show ?thesis
  proof (cases "length ?as \<ge> lru_maxSize s \<and> ?as \<noteq> []")
    case False
    with len assms bound show ?thesis
      by (auto simp: evict_def contents_def Let_def not_le)
  next
    case True
    then obtain a cs where as: "?as = a # cs" by (meson neq_Nil_conv)
    with link have hd: "head (lru_list s) = Some a" and dist: "a \<notin> set cs" by (auto simp: linked_def)
    from list_remove_linked [of "lru_heap s" "lru_list s" "[]" a cs] link as obtain h l e where r:
      "list_remove (lru_heap s) (lru_list s) (Some a) = Inr (h, l)" "linked h l cs"
      "payload h = payload (lru_heap s)" "h a = Some e" by auto
    from keyed as obtain e0 k where e0: "lru_heap s a = Some e0" "entry_key e0 = Some k"
      by (auto simp: keyed_def)
    with payload_eq_Some [OF r(3) e0(1)] r(4) have k: "entry_key e = Some k" by auto
    let ?s = "s\<lparr>lru_heap := h, lru_list := l, lru_map := (lru_map s)(k := None)\<rparr>"
    have "keyed (s\<lparr>lru_heap := h, lru_list := l\<rparr>) ?as"
      using keyed_payload [OF keyed r(3)] by simp
    then have "keyed ?s cs"
      using as dist r(4) k by (auto simp: keyed_def) (metis option.inject)+
    then have inv: "lru_inv ?s" "entries ?s = cs"
      using lru_invI [of ?s cs] r(2) bound as by simp_all
    have "map (pair_at h) cs = map (pair_at (lru_heap s)) cs"
      using keyed as by (auto simp: keyed_def intro!: pair_at_payload [OF r(3)])
    moreover have "evict s = Inr ?s"
      using True len as hd r k by (simp add: evict_def)
    ultimately show ?thesis
      using inv True as bound by (auto simp: contents_def)
  qed
qed

text \<open>\<^verbatim>\<open>put\<close> never fails and keeps the invariant.\<close>

lemma lru_put_refines:
  assumes "lru_inv s"
  shows "\<exists>s'. lru_put s k v = Inr s' \<and> lru_inv s' \<and>
    contents s' = spec_put (lru_maxSize s) (contents s) k v \<and> lru_maxSize s' = lru_maxSize s"
proof (cases "lru_map s k")
  case (Some a)
  with assms keyed_keys [of s "entries s"] have "k \<in> fst ` set (contents s)"
    by (auto simp: lru_inv_def contents_def)
  with Some assms show ?thesis by (simp add: lru_put_def spec_put_def)
next
  case None
  from assms keyed_keys [of s "entries s"] None have nk: "k \<notin> fst ` set (contents s)"
    by (auto simp: lru_inv_def contents_def)
  from evict_refines [OF assms] None obtain t where t: "evict s = Inr t" "lru_inv t"
    "lru_maxSize t = lru_maxSize s" "lru_map t k = None" "length (contents t) < lru_maxSize t"
    "contents t = (if length (contents s) \<ge> lru_maxSize s \<and> contents s \<noteq> [] then tl (contents s) else contents s)"
    by blast
  let ?as = "entries t" and ?a = "lru_fresh t"
  let ?h = "(lru_heap t)(?a \<mapsto> new_Entry v)"
  from t(2) have keyed: "keyed t ?as" and link: "linked (lru_heap t) (lru_list t) ?as"
    by (simp_all add: lru_inv_def)
  have fresh: "?a \<notin> set ?as" using keyed by (auto simp: keyed_def)
  then have "linked ?h (lru_list t) ?as" using link by (simp add: linked_def)
  from insertEntry_linked [OF this fresh] obtain h l where i:
    "insertEntry ?h (lru_list t) ?a = Inr (h, l)" "linked h l (?as @ [?a])" "payload h = payload ?h"
    by (auto simp: new_Entry_def)
  from payload_eq_Some [OF i(3), of ?a] obtain e where e: "h ?a = Some e" "entry_value e = v"
    by (auto simp: new_Entry_def)
  let ?h' = "h(?a \<mapsto> e\<lparr>entry_key := Some k\<rparr>)"
  let ?s = "t\<lparr>lru_heap := ?h', lru_list := l, lru_fresh := ?a + 1, lru_map := (lru_map t)(k \<mapsto> ?a)\<rparr>"
  have old: "(\<exists>e. ?h' x = Some e \<and> entry_key e = Some q) \<longleftrightarrow>
      (\<exists>e. lru_heap t x = Some e \<and> entry_key e = Some q)" if "x \<noteq> ?a" for x q
    using fun_cong [OF i(3), of x] that
    by (cases "lru_heap t x"; cases "h x") (auto simp: payload_def)
  have none: "h x = None \<longleftrightarrow> lru_heap t x = None" if "x \<noteq> ?a" for x
    using payload_eq_None [OF i(3), of x] that by auto
  have "dlseg ?h' p xs q = dlseg h p xs q" for p xs q
    using e(1) by (induction xs arbitrary: p) auto
  then have "linked ?h' l (?as @ [?a])" using i(2) by (simp add: linked_def)
  moreover have "keyed ?s (?as @ [?a])"
    unfolding keyed_def
  proof (intro conjI allI ballI impI)
    fix q x
    have m: "lru_map t q = Some x \<longleftrightarrow> x \<in> set ?as \<and> (\<exists>e. lru_heap t x = Some e \<and> entry_key e = Some q)"
      using keyed by (simp add: keyed_def)
    show "lru_map ?s q = Some x \<longleftrightarrow> x \<in> set (?as @ [?a]) \<and> (\<exists>e. lru_heap ?s x = Some e \<and> entry_key e = Some q)"
    proof (cases "x = ?a")
      case True
      with m fresh t(4) show ?thesis by auto
    next
      case False
      with m old [OF False, of q] t(4) show ?thesis by auto
    qed
  next
    fix x
    assume x: "x \<in> set (?as @ [?a])"
    show "\<exists>e k. lru_heap ?s x = Some e \<and> entry_key e = Some k"
    proof (cases "x = ?a")
      case False
      with x keyed old [OF False] show ?thesis by (simp add: keyed_def) metis
    qed simp
  next
    fix x
    assume "lru_fresh ?s \<le> x"
    then have "x \<noteq> ?a" "lru_fresh t \<le> x" by auto
    with keyed none show "lru_heap ?s x = None" by (auto simp: keyed_def)
  qed
  ultimately have inv: "lru_inv ?s" "entries ?s = ?as @ [?a]"
    using lru_invI [of ?s "?as @ [?a]"] t(2,5) by (simp_all add: lru_inv_def contents_def)
  have "pair_at ?h' x = pair_at (lru_heap t) x" if "x \<in> set ?as" for x
    using that fresh keyed fun_cong [OF i(3), of x]
    by (cases "lru_heap t x"; cases "h x") (auto simp: payload_def pair_at_def keyed_def)
  then have "contents ?s = contents t @ [(k, v)]"
    using e inv(2) by (auto simp: contents_def pair_at_def)
  moreover have "lru_put s k v = Inr ?s"
    using None t i e by (simp add: lru_put_def list_insert_def modify_def Let_def)
  ultimately show ?thesis
    using inv t nk by (auto simp: spec_put_def)
qed


section \<open>The interface and its clients\<close>

text \<open>
  What the cache promises its clients (the image loader keeps one of 50 entries): each operation
  succeeds, keeps the invariant and acts on the abstract list.
\<close>

locale lru_cache =
  fixes put :: "'s \<Rightarrow> 'k \<Rightarrow> 'v \<Rightarrow> js_error + 's"
    and get :: "'s \<Rightarrow> 'k \<Rightarrow> js_error + 's \<times> 'v option"
    and abs :: "'s \<Rightarrow> ('k \<times> 'v) list"
    and inv :: "'s \<Rightarrow> bool"
    and cap :: "'s \<Rightarrow> nat"
  assumes put_ok: "inv s \<Longrightarrow> \<exists>s'. put s k v = Inr s' \<and> inv s' \<and> abs s' = spec_put (cap s) (abs s) k v \<and> cap s' = cap s"
    and get_ok: "inv s \<Longrightarrow> \<exists>s'. get s k = Inr (s', snd (spec_get (abs s) k)) \<and> inv s' \<and>
      abs s' = fst (spec_get (abs s) k) \<and> cap s' = cap s"
    and bounded: "inv s \<Longrightarrow> length (abs s) \<le> cap s"
    and keys: "inv s \<Longrightarrow> distinct (map fst (abs s))"
begin

text \<open>A value just stored under a new key is what \<open>get\<close> returns.\<close>

lemma get_after_put:
  assumes "inv s" "k \<notin> fst ` set (abs s)"
  shows "\<exists>s' s''. put s k v = Inr s' \<and> get s' k = Inr (s'', Some v)"
proof -
  from put_ok [OF assms(1)] obtain s' where s': "put s k v = Inr s'" "inv s'"
    "abs s' = spec_put (cap s) (abs s) k v" by blast
  have "map_of (abs s') k = Some v"
    using map_of_append_notin [OF assms(2), of v "[]"] map_of_append_notin [OF notin_tl [OF assms(2)], of v "[]"]
      assms(2) s'(3) by (auto simp: spec_put_def simp del: map_of_append)
  then have "snd (spec_get (abs s') k) = Some v" by (simp add: spec_get_def)
  with get_ok [OF s'(2), of k] s'(1) show ?thesis by auto
qed

text \<open>A key that was just read outlives the next insertion, if the cache has room for two.\<close>

lemma recent_survives:
  assumes "inv s" "map_of (abs s) k = Some v" "2 \<le> cap s" "get s k = Inr (s', r)" "put s' k' w = Inr s''"
  shows "map_of (abs s'') k = Some v"
proof -
  let ?xs = "filter (\<lambda>p. fst p \<noteq> k) (abs s)"
  from assms get_ok [OF assms(1), of k] have s': "inv s'" "cap s' = cap s" "abs s' = ?xs @ [(k, v)]"
    by (auto simp: spec_get_def)
  from put_ok [OF s'(1), of k' w] assms(5) have s'': "abs s'' = spec_put (cap s) (?xs @ [(k, v)]) k' w"
    using s' by auto
  have nx: "k \<notin> fst ` set ?xs" by auto
  show ?thesis
  proof (cases "k' \<in> fst ` set (?xs @ [(k, v)])")
    case True
    then have "abs s'' = ?xs @ [(k, v)]" unfolding s'' spec_put_def by (simp only: if_True)
    then show ?thesis using map_of_append_notin [OF nx, of v "[]"] by simp
  next
    case False
    then have "abs s'' = (if cap s \<le> length (?xs @ [(k, v)]) \<and> ?xs @ [(k, v)] \<noteq> [] then tl (?xs @ [(k, v)])
        else ?xs @ [(k, v)]) @ [(k', w)]"
      unfolding s'' spec_put_def by (simp only: if_False)
    then have "abs s'' = ?xs @ (k, v) # [(k', w)] \<or> abs s'' = tl ?xs @ (k, v) # [(k', w)]"
      using assms(3) by (cases ?xs) (auto split: if_splits)
    then show ?thesis
      using map_of_append_notin [OF nx] map_of_append_notin [OF notin_tl [OF nx]] by metis
  qed
qed

end

lemma contents_keys: "lru_inv s \<Longrightarrow> distinct (map fst (contents s))"
  by (auto simp: lru_inv_def linked_def contents_def distinct_map inj_on_def intro: keyed_unique)

lemma contents_bound: "lru_inv s \<Longrightarrow> length (contents s) \<le> lru_maxSize s"
  by (simp add: lru_inv_def contents_def)

interpretation lc: lru_cache lru_put lru_get contents lru_inv lru_maxSize
  by (unfold_locales; intro lru_put_refines lru_get_refines contents_keys contents_bound)

text \<open>A session of operations on the cache, and on the abstract list.\<close>

datatype ('k, 'v) lru_op = Put 'k 'v | Get 'k

fun lru_run :: "('k, 'v) lru \<Rightarrow> ('k, 'v) lru_op list \<Rightarrow> js_error + ('k, 'v) lru \<times> 'v option list" where
  "lru_run s [] = Inr (s, [])"
| "lru_run s (Put k v # os) = ebind (lru_put s k v) (\<lambda>s. lru_run s os)"
| "lru_run s (Get k # os) =
     ebind (lru_get s k) (\<lambda>(s, r). ebind (lru_run s os) (\<lambda>(s, rs). Inr (s, r # rs)))"

fun spec_run :: "nat \<Rightarrow> ('k \<times> 'v) list \<Rightarrow> ('k, 'v) lru_op list \<Rightarrow> ('k \<times> 'v) list \<times> 'v option list" where
  "spec_run m xs [] = (xs, [])"
| "spec_run m xs (Put k v # os) = spec_run m (spec_put m xs k v) os"
| "spec_run m xs (Get k # os) =
     (let (xs', r) = spec_get xs k; (ys, rs) = spec_run m xs' os in (ys, r # rs))"

lemma lru_run_refines:
  "lru_inv s \<Longrightarrow> \<exists>s'. lru_run s os = Inr (s', snd (spec_run (lru_maxSize s) (contents s) os)) \<and>
     lru_inv s' \<and> contents s' = fst (spec_run (lru_maxSize s) (contents s) os) \<and> lru_maxSize s' = lru_maxSize s"
proof (induction os arbitrary: s)
  case (Cons oper os)
  show ?case
  proof (cases oper)
    case (Put k v)
    with Cons lc.put_ok [OF Cons.prems, of k v] show ?thesis by fastforce
  next
    case (Get k)
    with lc.get_ok [OF Cons.prems, of k] obtain s' where g: "lru_get s k = Inr (s', snd (spec_get (contents s) k))"
      "lru_inv s'" "contents s' = fst (spec_get (contents s) k)" "lru_maxSize s' = lru_maxSize s" by blast
    with Cons.IH [OF g(2)] Get show ?thesis
      by (auto simp: Let_def split: prod.splits)
  qed
qed simp

text \<open>
  C7. The pointer-based cache refines the bounded list: every session of \<^verbatim>\<open>put\<close> and \<^verbatim>\<open>get\<close> on a new
  cache runs without error, returns what the abstract cache returns, ends with the abstract
  contents, and never holds more than the maximum number of entries.
\<close>

theorem lru_refines_spec:
  "\<exists>s :: ('k, 'v) lru. lru_run (new_LRU m) os = Inr (s, snd (spec_run (lru_maxSize s) [] os)) \<and>
     contents s = fst (spec_run (lru_maxSize s) [] os) \<and> length (contents s) \<le> lru_maxSize s \<and>
     lru_maxSize s = lru_maxSize (new_LRU m :: ('k, 'v) lru)"
  using lru_run_refines [OF new_LRU_inv(1), of m os] contents_bound by (force simp: new_LRU_inv(2))

text \<open>
  What was just used is not evicted: in a cache with room for two entries, a key that \<^verbatim>\<open>get\<close> has
  just found is still there, with its value, after the next \<^verbatim>\<open>put\<close>, whatever key that stores.
\<close>

lemma lru_keeps_recent:
  assumes "lru_inv s" "map_of (contents s) k = Some v" "2 \<le> lru_maxSize s"
    and "lru_get s k = Inr (s', r)" "lru_put s' k' w = Inr s''"
  shows "map_of (contents s'') k = Some v"
  using assms by (rule lc.recent_survives)

lemma lru_keeps_recent_example:
  "\<exists>s s' r s''. lru_run (new_LRU (Some 2)) [Put (1::nat) ''a'', Put 2 ''b''] = Inr (s, []) \<and>
     lru_get s 1 = Inr (s', r) \<and> lru_put s' 3 ''c'' = Inr s'' \<and> map_of (contents s'') 1 = Some ''a''"
proof -
  from lru_run_refines [OF new_LRU_inv(1), of "Some 2" "[Put (1::nat) ''a'', Put 2 ''b'']"]
  obtain s where s: "lru_run (new_LRU (Some 2)) [Put (1::nat) ''a'', Put 2 ''b''] = Inr (s, [])"
    "lru_inv s" "contents s = [(1, ''a''), (2, ''b'')]" "lru_maxSize s = 2"
    by (auto simp: new_LRU_inv(2) spec_put_def new_maxSize)
  from lru_get_refines [OF s(2), of 1] obtain s' r where g: "lru_get s 1 = Inr (s', r)" "lru_inv s'"
    by blast
  from lru_put_refines [OF g(2), of 3 "''c''"] obtain s'' where p: "lru_put s' 3 ''c'' = Inr s''"
    by blast
  have "map_of (contents s'') 1 = Some ''a''"
    using lru_keeps_recent [OF s(2) _ _ g(1) p] s by simp
  with s g p show ?thesis by blast
qed

end
