(* ===== verification/DataDiffer.thy ===== *)
theory DataDiffer
  imports Prelude
begin

text \<open>
  \<^verbatim>\<open>echarts/data/DataDiffer\<close> (module 98 of \<^verbatim>\<open>echarts.js\<close>): matching the items of an old and a new
  array by key and telling the chart what to add, update and remove.  The index map is a
  JavaScript object whose values are \<^verbatim>\<open>null\<close>, a number or a non-empty array of numbers.  A key read
  past the end of a key array is \<^verbatim>\<open>undefined\<close>, which as a property name is the string
  \<^verbatim>\<open>"undefined"\<close>.  Keys are names that \<^verbatim>\<open>Object.prototype\<close> does not have.
\<close>

section \<open>The differ\<close>

datatype index_value = Null | Num nat | Arr nat "nat list"

type_synonym index_map = "js_string \<rightharpoonup> index_value"

datatype diff_event = Add nat | Update nat nat | Remove nat

record ('a, 'b) DataDiffer =
  old_arr :: "'a list"
  new_arr :: "'b list"
  oldKeyGetter :: "'a \<Rightarrow> nat \<Rightarrow> js_string"
  newKeyGetter :: "'b \<Rightarrow> nat \<Rightarrow> js_string"
  on_add :: bool
  on_update :: bool
  on_remove :: bool

text \<open>
  The constructor, where a getter that is missing is \<^verbatim>\<open>defaultKeyGetter\<close>, which returns the item; \<open>as_key\<close> is
  the property name an item becomes when it is used as a key.
\<close>

definition defaultKeyGetter :: "('a \<Rightarrow> js_string) \<Rightarrow> 'a \<Rightarrow> nat \<Rightarrow> js_string" where
  "defaultKeyGetter as_key item i = as_key item"

definition or_default :: "('a \<Rightarrow> js_string) \<Rightarrow> ('a \<Rightarrow> nat \<Rightarrow> js_string) option \<Rightarrow> 'a \<Rightarrow> nat \<Rightarrow> js_string" where
  "or_default as_key getter = (case getter of None \<Rightarrow> defaultKeyGetter as_key | Some g \<Rightarrow> g)"

definition new_DataDiffer ::
  "('a \<Rightarrow> js_string) \<Rightarrow> ('b \<Rightarrow> js_string) \<Rightarrow> 'a list \<Rightarrow> 'b list \<Rightarrow>
     ('a \<Rightarrow> nat \<Rightarrow> js_string) option \<Rightarrow> ('b \<Rightarrow> nat \<Rightarrow> js_string) option \<Rightarrow> ('a, 'b) DataDiffer" where
  "new_DataDiffer old_key new_key oldArr newArr kold knew =
     \<lparr>old_arr = oldArr, new_arr = newArr, oldKeyGetter = or_default old_key kold, newKeyGetter = or_default new_key knew,
      on_add = False, on_update = False, on_remove = False\<rparr>"

text \<open>The registration methods \<^verbatim>\<open>add\<close>, \<^verbatim>\<open>update\<close> and \<^verbatim>\<open>remove\<close>.\<close>

definition differ_add :: "('a, 'b) DataDiffer \<Rightarrow> ('a, 'b) DataDiffer" where
  "differ_add d = d\<lparr>on_add := True\<rparr>"

definition differ_update :: "('a, 'b) DataDiffer \<Rightarrow> ('a, 'b) DataDiffer" where
  "differ_update d = d\<lparr>on_update := True\<rparr>"

definition differ_remove :: "('a, 'b) DataDiffer \<Rightarrow> ('a, 'b) DataDiffer" where
  "differ_remove d = d\<lparr>on_remove := True\<rparr>"

text \<open>\<^verbatim>\<open>initIndexMap\<close>: one step and the loop over the array.\<close>

definition index_step :: "js_string \<Rightarrow> nat \<Rightarrow> index_map \<times> js_string list \<Rightarrow> index_map \<times> js_string list" where
  "index_step key i mk =
     (case mk of (m, keyArr) \<Rightarrow>
       (case m key of
          None \<Rightarrow> (m(key \<mapsto> Num i), keyArr @ [key])
        | Some Null \<Rightarrow> (m(key \<mapsto> Num i), keyArr @ [key])
        | Some (Num n) \<Rightarrow> (m(key \<mapsto> Arr n [i]), keyArr)
        | Some (Arr x xs) \<Rightarrow> (m(key \<mapsto> Arr x (xs @ [i])), keyArr)))"

fun initIndexMap ::
  "'a list \<Rightarrow> nat \<Rightarrow> ('a \<Rightarrow> nat \<Rightarrow> js_string) \<Rightarrow> index_map \<times> js_string list \<Rightarrow> index_map \<times> js_string list" where
  "initIndexMap [] i keyGetter mk = mk"
| "initIndexMap (x # xs) i keyGetter mk =
     initIndexMap xs (Suc i) keyGetter (index_step (keyGetter x i) i mk)"

definition key_at :: "js_string list \<Rightarrow> nat \<Rightarrow> js_string" where
  "key_at keyArr i = (if i < length keyArr then keyArr ! i else str ''undefined'')"

text \<open>
  The loop over the old array.  \<^verbatim>\<open>idx.unshift()\<close> without arguments leaves the array alone and returns
  its length.
\<close>

definition old_step :: "js_string \<Rightarrow> nat \<Rightarrow> index_map \<Rightarrow> index_map \<times> diff_event" where
  "old_step key i m =
     (case m key of
        None \<Rightarrow> (m, Remove i)
      | Some Null \<Rightarrow> (m, Remove i)
      | Some (Num n) \<Rightarrow> (m(key \<mapsto> Null), Update n i)
      | Some (Arr x xs) \<Rightarrow>
          (if Suc (length xs) = 1 then m(key \<mapsto> Null) else m, Update (Suc (length xs)) i))"

fun old_loop :: "js_string list \<Rightarrow> nat list \<Rightarrow> index_map \<Rightarrow> index_map \<times> diff_event list" where
  "old_loop keyArr [] m = (m, [])"
| "old_loop keyArr (i # is) m =
     (let (m, e) = old_step (key_at keyArr i) i m; (m, es) = old_loop keyArr is m in (m, e # es))"

text \<open>The loop over the new keys.\<close>

definition new_events :: "index_map \<Rightarrow> js_string \<Rightarrow> diff_event list" where
  "new_events m key =
     (case m key of
        None \<Rightarrow> []
      | Some Null \<Rightarrow> []
      | Some (Num n) \<Rightarrow> [Add n]
      | Some (Arr x xs) \<Rightarrow> map Add (x # xs))"

fun registered :: "('a, 'b) DataDiffer \<Rightarrow> diff_event \<Rightarrow> bool" where
  "registered d (Add _) = on_add d"
| "registered d (Update _ _) = on_update d"
| "registered d (Remove _) = on_remove d"

definition execute :: "('a, 'b) DataDiffer \<Rightarrow> diff_event list" where
  "execute d =
     (let (_, oldDataKeyArr) = initIndexMap (old_arr d) 0 (oldKeyGetter d) (Map.empty, []);
          (newDataIndexMap, newDataKeyArr) = initIndexMap (new_arr d) 0 (newKeyGetter d) (Map.empty, []);
          (m, es) = old_loop oldDataKeyArr [0..<length (old_arr d)] newDataIndexMap
      in filter (registered d) (es @ concat (map (new_events m) newDataKeyArr)))"

section \<open>The index map\<close>

fun keys_from :: "'a list \<Rightarrow> nat \<Rightarrow> ('a \<Rightarrow> nat \<Rightarrow> js_string) \<Rightarrow> js_string list" where
  "keys_from [] i g = []"
| "keys_from (x # xs) i g = g x i # keys_from xs (Suc i) g"

definition old_keys :: "('a, 'b) DataDiffer \<Rightarrow> js_string list" where
  "old_keys d = keys_from (old_arr d) 0 (oldKeyGetter d)"

definition new_keys :: "('a, 'b) DataDiffer \<Rightarrow> js_string list" where
  "new_keys d = keys_from (new_arr d) 0 (newKeyGetter d)"

lemma length_keys_from [simp]: "length (keys_from xs i g) = length xs"
  by (induction xs arbitrary: i) auto

text \<open>The positions of a key, from position \<open>i\<close> on, and how the map stores them.\<close>

fun occurrences :: "js_string \<Rightarrow> nat \<Rightarrow> js_string list \<Rightarrow> nat list" where
  "occurrences k i [] = []"
| "occurrences k i (x # xs) = (if x = k then [i] else []) @ occurrences k (Suc i) xs"

fun stored :: "nat list \<Rightarrow> index_value option" where
  "stored [] = None"
| "stored [j] = Some (Num j)"
| "stored (j # js) = Some (Arr j js)"

lemma length_occurrences: "length (occurrences k i ks) = count_list ks k"
  by (induction ks arbitrary: i) auto

lemma occurrences_none: "k \<notin> set ks \<Longrightarrow> occurrences k i ks = []"
  by (induction ks arbitrary: i) auto

lemma occurrences_distinct: "distinct ks \<Longrightarrow> j < length ks \<Longrightarrow> occurrences (ks ! j) i ks = [i + j]"
proof (induction ks arbitrary: i j)
  case (Cons k ks)
  show ?case
  proof (cases j)
    case 0
    with Cons.prems show ?thesis by (simp add: occurrences_none)
  next
    case (Suc j')
    with Cons.prems have "k \<noteq> ks ! j'" by auto
    with Cons Suc show ?thesis by simp
  qed
qed simp

lemma stored_snoc:
  "stored (js @ [i]) =
     (case stored js of None \<Rightarrow> Some (Num i) | Some Null \<Rightarrow> Some (Num i)
      | Some (Num n) \<Rightarrow> Some (Arr n [i]) | Some (Arr x xs) \<Rightarrow> Some (Arr x (xs @ [i])))"
  by (induction js rule: stored.induct) auto

lemma stored_not_Null: "stored js \<noteq> Some Null"
  by (induction js rule: stored.induct) auto

lemma stored_eq_None [simp]: "stored js = None \<longleftrightarrow> js = []"
  by (induction js rule: stored.induct) auto

lemma index_step_stored:
  assumes "\<And>k. m k = stored (ps k)"
  shows "fst (index_step key i (m, ks)) k = stored (ps k @ (if key = k then [i] else []))"
    and "snd (index_step key i (m, ks)) = (if ps key = [] then ks @ [key] else ks)"
  using assms [of key] stored_snoc [of "ps key" i] stored_not_Null [of "ps key"] assms [of k]
  by (auto simp: index_step_def split: option.splits index_value.splits)

text \<open>The key array holds the keys in order of first occurrence.\<close>

fun firsts :: "js_string list \<Rightarrow> js_string list \<Rightarrow> js_string list" where
  "firsts seen [] = seen"
| "firsts seen (x # xs) = firsts (if x \<in> set seen then seen else seen @ [x]) xs"

lemma firsts_distinct: "distinct xs \<Longrightarrow> set seen \<inter> set xs = {} \<Longrightarrow> firsts seen xs = seen @ xs"
  by (induction seen xs rule: firsts.induct) auto

lemma set_firsts: "set (firsts seen xs) = set seen \<union> set xs"
  by (induction seen xs rule: firsts.induct) auto

lemma initIndexMap_stored:
  assumes "\<And>k. m k = stored (ps k)" "\<And>k. ps k = [] \<longleftrightarrow> k \<notin> set ks"
  shows "fst (initIndexMap xs i g (m, ks)) k = stored (ps k @ occurrences k i (keys_from xs i g)) \<and>
    snd (initIndexMap xs i g (m, ks)) = firsts ks (keys_from xs i g)"
  using assms
proof (induction xs arbitrary: i m ks ps)
  case (Cons x xs)
  obtain m' ks' where s: "index_step (g x i) i (m, ks) = (m', ks')" by fastforce
  let ?ps = "\<lambda>q. ps q @ (if g x i = q then [i] else [])"
  have m': "m' q = stored (?ps q)" for q
    using index_step_stored(1) [of m ps "g x i" i ks q, OF Cons.prems(1)] s by simp
  have ks': "ks' = (if ps (g x i) = [] then ks @ [g x i] else ks)"
    using index_step_stored(2) [of m ps "g x i" i ks, OF Cons.prems(1)] s by simp
  then have "?ps q = [] \<longleftrightarrow> q \<notin> set ks'" for q
    using Cons.prems(2) by auto
  from Cons.IH [OF m' this] s ks' Cons.prems(2) show ?case by auto
qed simp

lemma initIndexMap_empty:
  "initIndexMap xs 0 g (Map.empty, []) =
     ((\<lambda>k. stored (occurrences k 0 (keys_from xs 0 g))), firsts [] (keys_from xs 0 g))"
  using initIndexMap_stored [of Map.empty "\<lambda>_. []" "[]" xs 0 g]
  by (simp add: prod_eq_iff fun_eq_iff)

section \<open>Distinct keys\<close>

text \<open>The position of a key in a list of distinct keys.\<close>

fun position :: "js_string \<Rightarrow> js_string list \<Rightarrow> nat option" where
  "position k [] = None"
| "position k (x # xs) = (if x = k then Some 0 else map_option Suc (position k xs))"

lemma position_Some: "position k ks = Some j \<Longrightarrow> j < length ks \<and> ks ! j = k"
  by (induction ks arbitrary: j) (auto split: if_splits)

lemma position_None: "position k ks = None \<longleftrightarrow> k \<notin> set ks"
  by (induction ks) auto

lemma stored_position: "distinct ks \<Longrightarrow> stored (occurrences k 0 ks) = map_option Num (position k ks)"
  by (cases "position k ks")
     (auto simp: position_None occurrences_none dest: position_Some
       dest!: occurrences_distinct [where i = 0])

text \<open>What the differ should report: one event per old item, then one per unmatched new item.\<close>

definition diff_spec :: "js_string list \<Rightarrow> js_string list \<Rightarrow> diff_event list" where
  "diff_spec ko kn =
     map (\<lambda>i. case position (ko ! i) kn of Some j \<Rightarrow> Update j i | None \<Rightarrow> Remove i) [0..<length ko] @
     map Add (filter (\<lambda>j. kn ! j \<notin> set ko) [0..<length kn])"

lemma old_loop_distinct:
  assumes "distinct ko" "i + n = length ko"
    and "\<And>k. k \<notin> set (take i ko) \<Longrightarrow> m k = map_option Num (position k kn)"
    and "\<And>k. k \<in> set (take i ko) \<Longrightarrow> m k = None \<or> m k = Some Null"
  shows "snd (old_loop ko [i..<i + n] m) =
      map (\<lambda>i. case position (ko ! i) kn of Some j \<Rightarrow> Update j i | None \<Rightarrow> Remove i) [i..<i + n] \<and>
    (\<forall>k. k \<notin> set ko \<longrightarrow> fst (old_loop ko [i..<i + n] m) k = map_option Num (position k kn)) \<and>
    (\<forall>k. k \<in> set ko \<longrightarrow> fst (old_loop ko [i..<i + n] m) k \<in> {None, Some Null})"
  using assms(2-)
proof (induction n arbitrary: i m)
  case 0
  then show ?case by auto
next
  case (Suc n)
  let ?k = "ko ! i"
  have i: "i < length ko" using Suc.prems(1) by simp
  have "?k \<notin> set (take i ko)"
    using assms(1) i by (auto simp: in_set_conv_nth distinct_conv_nth)
  then have mk: "m ?k = map_option Num (position ?k kn)" by (rule Suc.prems(2))
  obtain m' e where st: "old_step (key_at ko i) i m = (m', e)" by fastforce
  have e: "e = (case position ?k kn of Some j \<Rightarrow> Update j i | None \<Rightarrow> Remove i)"
    and m': "m' = (if position ?k kn = None then m else m(?k \<mapsto> Null))"
    using st mk i by (auto simp: old_step_def key_at_def split: option.splits)
  have take: "set (take (Suc i) ko) = insert ?k (set (take i ko))"
    using i by (simp add: take_Suc_conv_app_nth)
  have "snd (old_loop ko [Suc i..<Suc i + n] m') =
      map (\<lambda>i. case position (ko ! i) kn of Some j \<Rightarrow> Update j i | None \<Rightarrow> Remove i) [Suc i..<Suc i + n] \<and>
    (\<forall>k. k \<notin> set ko \<longrightarrow> fst (old_loop ko [Suc i..<Suc i + n] m') k = map_option Num (position k kn)) \<and>
    (\<forall>k. k \<in> set ko \<longrightarrow> fst (old_loop ko [Suc i..<Suc i + n] m') k \<in> {None, Some Null})"
  proof (rule Suc.IH)
    show "Suc i + n = length ko" using Suc.prems(1) by simp
  next
    fix k
    assume "k \<notin> set (take (Suc i) ko)"
    with take Suc.prems(2) m' show "m' k = map_option Num (position k kn)" by auto
  next
    fix k
    assume "k \<in> set (take (Suc i) ko)"
    with take Suc.prems(3) m' mk show "m' k = None \<or> m' k = Some Null" by auto
  qed
  moreover have "[i..<i + Suc n] = i # [Suc i..<Suc i + n]" by (simp add: upt_conv_Cons)
  ultimately show ?case
    using st e by (auto simp: Let_def split: prod.splits)
qed

lemma new_events_distinct:
  assumes "distinct kn" "\<And>k. k \<notin> K \<Longrightarrow> m k = map_option Num (position k kn)"
    and "\<And>k. k \<in> K \<Longrightarrow> m k \<in> {None, Some Null}"
  shows "concat (map (new_events m) kn) = map Add (filter (\<lambda>j. kn ! j \<notin> K) [0..<length kn])"
proof -
  have ev: "new_events m (kn ! j) = (if kn ! j \<in> K then [] else [Add j])" if jl: "j < length kn" for j
  proof (cases "kn ! j \<in> K")
    case True
    with assms(3) [OF True] show ?thesis by (auto simp: new_events_def)
  next
    case False
    obtain j' where j': "position (kn ! j) kn = Some j'"
      using nth_mem [OF jl] position_None [of "kn ! j" kn] by auto
    with position_Some [OF j'] assms(1) jl have "j' = j" using nth_eq_iff_index_eq by metis
    with False j' assms(2) [OF False] show ?thesis by (simp add: new_events_def)
  qed
  have "concat (map (new_events m) kn) = concat (map (\<lambda>j. new_events m (kn ! j)) [0..<length kn])"
    by (metis (no_types, lifting) map_map map_nth comp_apply map_eq_conv)
  also have "\<dots> = concat (map (\<lambda>j. if kn ! j \<in> K then [] else [Add j]) [0..<length kn])"
    by (intro arg_cong [where f = concat] map_cong refl) (simp add: ev)
  also have "\<dots> = map Add (filter (\<lambda>j. kn ! j \<notin> K) [0..<length kn])"
    by (rule concat_map_if)
  finally show ?thesis .
qed

definition all_registered :: "('a, 'b) DataDiffer \<Rightarrow> bool" where
  "all_registered d \<longleftrightarrow> on_add d \<and> on_update d \<and> on_remove d"

lemma registered_all [simp]: "all_registered d \<Longrightarrow> registered d e"
  by (cases e) (auto simp: all_registered_def)

text \<open>
  C16. With distinct keys on both sides the differ reports exactly the specified difference: for each old
  item, in order, an update with the index of the new item of the same key or a removal, then one
  addition, in order, for each new item whose key no old item has.
\<close>

theorem execute_distinct:
  assumes "all_registered d" "distinct (old_keys d)" "distinct (new_keys d)"
  shows "execute d = diff_spec (old_keys d) (new_keys d)"
proof -
  let ?ko = "old_keys d" and ?kn = "new_keys d"
  have len: "length ?ko = length (old_arr d)" by (simp add: old_keys_def)
  have old: "initIndexMap (old_arr d) 0 (oldKeyGetter d) (Map.empty, []) =
      ((\<lambda>k. stored (occurrences k 0 ?ko)), ?ko)"
    using assms(2) by (simp add: initIndexMap_empty old_keys_def firsts_distinct)
  have new: "initIndexMap (new_arr d) 0 (newKeyGetter d) (Map.empty, []) =
      ((\<lambda>k. map_option Num (position k ?kn)), ?kn)"
    using assms(3) by (simp add: initIndexMap_empty new_keys_def firsts_distinct stored_position)
  let ?r = "old_loop ?ko [0..<length ?ko] (\<lambda>k. map_option Num (position k ?kn))"
  note loop = old_loop_distinct [OF assms(2), of 0 "length ?ko" "\<lambda>k. map_option Num (position k ?kn)" ?kn]
  have "concat (map (new_events (fst ?r)) ?kn) = map Add (filter (\<lambda>j. ?kn ! j \<notin> set ?ko) [0..<length ?kn])"
    using new_events_distinct [OF assms(3), of "set ?ko" "fst ?r"] loop by simp
  moreover obtain m es where r: "?r = (m, es)" by fastforce
  ultimately show ?thesis
    using assms(1) loop len by (simp add: execute_def old new diff_spec_def r)
qed


theorem execute_distinct_witness:
  "(let d = differ_remove (differ_update (differ_add
        (new_DataDiffer id id [str ''a'', str ''b''] [str ''b'', str ''c''] None (Some (\<lambda>x _. x))))) in
    all_registered d \<and> distinct (old_keys d) \<and> distinct (new_keys d) \<and>
    execute d = [Remove 0, Update 0 1, Add 1])"
proof -
  let ?d = "differ_remove (differ_update (differ_add
        (new_DataDiffer id id [str ''a'', str ''b''] [str ''b'', str ''c''] None (Some (\<lambda>x _. x)))))"
  have ko: "old_keys ?d = [str ''a'', str ''b'']" and kn: "new_keys ?d = [str ''b'', str ''c'']"
    by (simp_all add: old_keys_def new_keys_def differ_add_def differ_update_def differ_remove_def
        new_DataDiffer_def or_default_def defaultKeyGetter_def)
  have r: "all_registered ?d"
    by (simp add: all_registered_def differ_add_def differ_update_def differ_remove_def)
  have ne: "str ''a'' \<noteq> str ''b''" "str ''b'' \<noteq> str ''a''" "str ''b'' \<noteq> str ''c''" "str ''a'' \<noteq> str ''c''"
    "str ''c'' \<noteq> str ''a''" "str ''c'' \<noteq> str ''b''"
    by (simp_all add: str_def)
  have d: "distinct (old_keys ?d)" "distinct (new_keys ?d)" by (simp_all add: ko kn ne)
  have "diff_spec (old_keys ?d) (new_keys ?d) = [Remove 0, Update 0 1, Add 1]"
    by (simp add: ko kn diff_spec_def ne upt_conv_Cons)
  with execute_distinct [OF r d] r d show ?thesis by (simp add: Let_def)
qed

section \<open>Duplicate keys\<close>

lemma old_loop_array:
  assumes "m k = Some (Arr x (y # ys))"
  shows "fst (old_loop keyArr is m) k = Some (Arr x (y # ys))"
    and "i \<in> set is \<Longrightarrow> key_at keyArr i = k \<Longrightarrow> Update (length (x # y # ys)) i \<in> set (snd (old_loop keyArr is m))"
proof -
  have step: "fst (old_step key i m) k = Some (Arr x (y # ys))"
    if "m k = Some (Arr x (y # ys))" for key i m
    using that by (auto simp: old_step_def split: option.splits index_value.splits)
  show "fst (old_loop keyArr is m) k = Some (Arr x (y # ys))"
    using assms
  proof (induction "is" arbitrary: m)
    case (Cons a "is")
    from Cons.IH [of "fst (old_step (key_at keyArr a) a m)"] step [of m "key_at keyArr a" a] Cons.prems show ?case by (simp add: Let_def case_prod_unfold)
  qed simp
  show "i \<in> set is \<Longrightarrow> key_at keyArr i = k \<Longrightarrow> Update (length (x # y # ys)) i \<in> set (snd (old_loop keyArr is m))"
    using assms
  proof (induction "is" arbitrary: m)
    case (Cons a "is")
    obtain m' e where st: "old_step (key_at keyArr a) a m = (m', e)" by fastforce
    with step [of m "key_at keyArr a" a] Cons.prems(3) have "m' k = Some (Arr x (y # ys))" by simp
    moreover have "a = i \<Longrightarrow> e = Update (length (x # y # ys)) i"
      using st Cons.prems by (simp add: old_step_def)
    ultimately show ?case
      using Cons st by (auto simp: Let_def split: prod.splits) (metis snd_conv)
  qed simp
qed

lemma stored_many: "2 \<le> length js \<Longrightarrow> \<exists>x y ys. js = x # y # ys \<and> stored js = Some (Arr x (y # ys))"
  by (induction js rule: stored.induct) auto

text \<open>
  C28. With a key that several new items share, the differ is wrong: the old item of that key is updated
  with the number of the new items (the result of \<^verbatim>\<open>unshift()\<close>), not with the index of one of
  them, and every one of the new items is reported as an addition as well.
\<close>

theorem execute_duplicate:
  assumes "all_registered d" "distinct (old_keys d)" "i < length (old_keys d)"
    and "2 \<le> count_list (new_keys d) (old_keys d ! i)"
  shows "Update (count_list (new_keys d) (old_keys d ! i)) i \<in> set (execute d) \<and>
    Add ` set (occurrences (old_keys d ! i) 0 (new_keys d)) \<subseteq> set (execute d)"
proof -
  let ?ko = "old_keys d" and ?kn = "new_keys d"
  let ?k = "?ko ! i" and ?m = "\<lambda>k. stored (occurrences k 0 ?kn)"
  have len: "length ?ko = length (old_arr d)" by (simp add: old_keys_def)
  have old: "initIndexMap (old_arr d) 0 (oldKeyGetter d) (Map.empty, []) =
      ((\<lambda>k. stored (occurrences k 0 ?ko)), ?ko)"
    using assms(2) by (simp add: initIndexMap_empty old_keys_def firsts_distinct)
  have new: "initIndexMap (new_arr d) 0 (newKeyGetter d) (Map.empty, []) = (?m, firsts [] ?kn)"
    by (simp add: initIndexMap_empty new_keys_def)
  obtain x y ys where occ: "occurrences ?k 0 ?kn = x # y # ys" and m: "?m ?k = Some (Arr x (y # ys))"
    using stored_many [of "occurrences ?k 0 ?kn"] assms(4) by (auto simp: length_occurrences)
  obtain m' es where r: "old_loop ?ko [0..<length ?ko] ?m = (m', es)" by fastforce
  have m': "m' ?k = Some (Arr x (y # ys))"
    using old_loop_array(1) [of ?m ?k x y ys ?ko "[0..<length ?ko]", OF m] r by simp
  have "Update (length (x # y # ys)) i \<in> set es"
    using old_loop_array(2) [of ?m ?k x y ys i "[0..<length ?ko]" ?ko, OF m] r assms(3)
    by (simp add: key_at_def)
  moreover have "length (x # y # ys) = count_list ?kn ?k"
    using length_occurrences [of ?k 0 ?kn] occ by simp
  moreover have "?k \<in> set (firsts [] ?kn)"
    using assms(4) by (simp add: set_firsts) (metis count_list_0_iff not_numeral_le_zero)
  then have "set (new_events m' ?k) \<subseteq> set (concat (map (new_events m') (firsts [] ?kn)))" by auto
  then have "Add ` set (occurrences ?k 0 ?kn) \<subseteq> set (concat (map (new_events m') (firsts [] ?kn)))"
    by (auto simp: new_events_def m' occ)
  moreover have "execute d = es @ concat (map (new_events m') (firsts [] ?kn))"
    using assms(1) len r by (simp add: execute_def old new)
  ultimately show ?thesis by auto
qed

theorem execute_duplicate_witness:
  "(let d = differ_remove (differ_update (differ_add
        (new_DataDiffer id id [str ''a''] [str ''a'', str ''a''] None None))) in
    Update 2 0 \<in> set (execute d) \<and> Add 0 \<in> set (execute d) \<and> Add 1 \<in> set (execute d))"
proof -
  let ?d = "differ_remove (differ_update (differ_add
        (new_DataDiffer id id [str ''a''] [str ''a'', str ''a''] None None)))"
  have ko: "old_keys ?d = [str ''a'']" and kn: "new_keys ?d = [str ''a'', str ''a'']"
    by (simp_all add: old_keys_def new_keys_def differ_add_def differ_update_def differ_remove_def
        new_DataDiffer_def or_default_def defaultKeyGetter_def)
  have "all_registered ?d"
    by (simp add: all_registered_def differ_add_def differ_update_def differ_remove_def)
  from execute_duplicate [OF this, of 0] show ?thesis
    by (simp add: Let_def ko kn flip: Suc_1)
qed

end
