(* ===== verification/TopoTravel.thy ===== *)
theory TopoTravel
  imports Prelude
begin

text \<open>
  \<^verbatim>\<open>echarts/util/component\<close> (module 20 of \<^verbatim>\<open>echarts.js\<close>): the topological travel over component types
  that decides in which order \<^verbatim>\<open>setOption\<close> merges the parts of a chart.  The graph object is an
  association list from component type to vertex; \<open>dependencyGetter\<close> is a parameter, as in the code,
  and the calls of \<open>callback\<close> are returned as a list.  A vertex is created empty; its
  \<^verbatim>\<open>originalDeps\<close> and \<^verbatim>\<open>entryCount\<close> are filled in when its own type is processed, which happens for
  every vertex because dependencies outside \<^verbatim>\<open>fullNameList\<close> are dropped.  Component types are names
  that \<^verbatim>\<open>Object.prototype\<close> does not have, so a lookup in the graph finds own properties only.
\<close>

section \<open>The dependency graph\<close>

record vertex =
  predecessor :: "string list"
  successor :: "string list"
  originalDeps :: "string list"
  entryCount :: int

type_synonym graph = "(string \<times> vertex) list"

definition empty_vertex :: vertex where
  "empty_vertex = \<lparr>predecessor = [], successor = [], originalDeps = [], entryCount = 0\<rparr>"

definition graph_upd :: "string \<Rightarrow> (vertex \<Rightarrow> vertex) \<Rightarrow> graph \<Rightarrow> graph" where
  "graph_upd name f g = map (\<lambda>(n, v). (n, if n = name then f v else v)) g"

definition createDependencyGraphItem :: "graph \<Rightarrow> string \<Rightarrow> graph" where
  "createDependencyGraphItem g name =
     (if map_of g name = None then g @ [(name, empty_vertex)] else g)"

definition getAvailableDependencies :: "string list \<Rightarrow> string list \<Rightarrow> string list" where
  "getAvailableDependencies deps fullNameList = filter (\<lambda>dep. dep \<in> set fullNameList) deps"

definition push_new :: "string \<Rightarrow> string list \<Rightarrow> string list" where
  "push_new x xs = (if x \<in> set xs then xs else xs @ [x])"

text \<open>
  The inner loop of \<^verbatim>\<open>makeDepndencyGraph\<close>: the successor test looks for \<^verbatim>\<open>dependentName\<close>, the vertex's
  own name.
\<close>

fun link_deps :: "string \<Rightarrow> string list \<Rightarrow> graph \<Rightarrow> graph" where
  "link_deps name [] g = g"
| "link_deps name (dependentName # ds) g =
     (let g = graph_upd name (\<lambda>v. v\<lparr>predecessor := push_new dependentName (predecessor v)\<rparr>) g;
          g = createDependencyGraphItem g dependentName;
          g = graph_upd dependentName (\<lambda>v.
                if dependentName \<notin> set (successor v) then v\<lparr>successor := successor v @ [name]\<rparr> else v) g
      in link_deps name ds g)"

definition graph_step ::
  "(string \<Rightarrow> string list) \<Rightarrow> string list \<Rightarrow> string \<Rightarrow> graph \<times> string list \<Rightarrow> graph \<times> string list" where
  "graph_step dependencyGetter fullNameList name gn =
     (case gn of (g, noEntryList) \<Rightarrow>
       let g = createDependencyGraphItem g name;
           deps = dependencyGetter name;
           availableDeps = getAvailableDependencies deps fullNameList;
           g = graph_upd name (\<lambda>v. v\<lparr>originalDeps := deps, entryCount := int (length availableDeps)\<rparr>) g;
           noEntryList = (if availableDeps = [] then noEntryList @ [name] else noEntryList)
       in (link_deps name availableDeps g, noEntryList))"

definition makeDepndencyGraph ::
  "(string \<Rightarrow> string list) \<Rightarrow> string list \<Rightarrow> graph \<times> string list" where
  "makeDepndencyGraph dependencyGetter fullNameList =
     fold (graph_step dependencyGetter fullNameList) fullNameList ([], [])"

section \<open>The travel\<close>

definition removeEdge :: "string \<Rightarrow> graph \<times> string list \<Rightarrow> graph \<times> string list" where
  "removeEdge succ gs =
     (case gs of (g, stack) \<Rightarrow>
       let g = graph_upd succ (\<lambda>v. v\<lparr>entryCount := entryCount v - 1\<rparr>) g
       in (g, case map_of g succ of
                None \<Rightarrow> stack
              | Some v \<Rightarrow> if entryCount v = 0 then stack @ [succ] else stack))"

definition weight :: "graph \<Rightarrow> nat" where
  "weight g = sum_list (map (\<lambda>(n, v). nat (entryCount v)) g)"

lemma weight_upd_le:
  assumes "\<And>v. nat (entryCount (f v)) \<le> nat (entryCount v)"
  shows "weight (graph_upd name f g) \<le> weight g"
  by (induction g) (auto simp: weight_def graph_upd_def intro!: add_mono assms)

lemma weight_upd_less:
  assumes "\<And>v. nat (entryCount (f v)) \<le> nat (entryCount v)"
    and "map_of g name = Some v" "nat (entryCount (f v)) < nat (entryCount v)"
  shows "weight (graph_upd name f g) < weight g"
  using assms(2)
proof (induction g)
  case (Cons a g)
  obtain n w where a: "a = (n, w)" by fastforce
  show ?case
  proof (cases "n = name")
    case True
    with Cons.prems a assms(3) weight_upd_le [OF assms(1), of name g] show ?thesis
      by (auto simp: weight_def graph_upd_def)
  next
    case False
    with Cons a show ?thesis by (auto simp: weight_def graph_upd_def)
  qed
qed simp

lemma map_of_upd: "map_of (graph_upd name f g) n =
    (if n = name then map_option f (map_of g n) else map_of g n)"
  by (induction g) (auto simp: graph_upd_def)

lemma removeEdge_measure:
  "2 * weight (fst (removeEdge s (g, st))) + length (snd (removeEdge s (g, st))) \<le> 2 * weight g + length st"
proof (cases "map_of g s")
  case None
  have "weight (graph_upd s (\<lambda>v. v\<lparr>entryCount := entryCount v - 1\<rparr>) g) \<le> weight g"
    by (rule weight_upd_le) auto
  with None show ?thesis by (auto simp: removeEdge_def map_of_upd)
next
  case (Some v)
  let ?f = "\<lambda>v. v\<lparr>entryCount := entryCount v - 1\<rparr>"
  have "weight (graph_upd s ?f g) \<le> weight g"
    by (rule weight_upd_le) auto
  moreover have "entryCount v = 1 \<Longrightarrow> weight (graph_upd s ?f g) < weight g"
    by (rule weight_upd_less [OF _ Some]) auto
  ultimately show ?thesis using Some by (auto simp: removeEdge_def map_of_upd)
qed

lemma removeEdges_measure:
  "2 * weight (fst (fold removeEdge ss gs)) + length (snd (fold removeEdge ss gs)) \<le>
     2 * weight (fst gs) + length (snd gs)"
proof (induction ss arbitrary: gs)
  case (Cons s ss)
  from Cons.IH [of "removeEdge s gs"] removeEdge_measure [of s "fst gs" "snd gs"] show ?case by simp
qed simp

definition succs :: "graph \<Rightarrow> string \<Rightarrow> string list" where
  "succs g n = (case map_of g n of None \<Rightarrow> [] | Some v \<Rightarrow> successor v)"

definition deps_of :: "graph \<Rightarrow> string \<Rightarrow> string list" where
  "deps_of g n = (case map_of g n of None \<Rightarrow> [] | Some v \<Rightarrow> originalDeps v)"

text \<open>
  The \<^verbatim>\<open>while (stack.length)\<close> loop: the target set is a list of names, \<open>log\<close> the callback calls so
  far.  \<open>removeEdgeAndAdd\<close> adds the successor to the targets before it removes the edge.
\<close>

function travel_loop ::
  "graph \<Rightarrow> string list \<Rightarrow> string list \<Rightarrow> (string \<times> string list) list \<Rightarrow>
     string list \<times> (string \<times> string list) list" where
  "travel_loop g stack targets log =
     (if stack = [] then (targets, log)
      else
        (let curr = last stack;
             isIn = curr \<in> set targets;
             log = (if isIn then log @ [(curr, deps_of g curr)] else log);
             targets = (if isIn then removeAll curr targets else targets);
             targets = (if isIn then targets @ succs g curr else targets);
             (g', stack') = fold removeEdge (succs g curr) (g, butlast stack)
         in travel_loop g' stack' targets log))"
  by pat_completeness auto
termination
proof (relation "measure (\<lambda>(g, st, _). 2 * weight g + length st)", goal_cases)
  case (2 g stack targets log x xa xb xc xd p g' stack')
  then have "fold removeEdge (succs g (last stack)) (g, butlast stack) = (g', stack')" by simp
  with removeEdges_measure [of "succs g (last stack)" "(g, butlast stack)"] 2(1)
  show ?case by (cases stack rule: rev_cases) auto
qed simp

declare travel_loop.simps [simp del]

definition topologicalTravel ::
  "(string \<Rightarrow> string list) \<Rightarrow> string list \<Rightarrow> string list \<Rightarrow> js_error + (string \<times> string list) list" where
  "topologicalTravel dependencyGetter targetNameList fullNameList =
     (if targetNameList = [] then Inr []
      else
        (let (g, stack) = makeDepndencyGraph dependencyGetter fullNameList;
             (targets, log) = travel_loop g stack targetNameList []
         in if targets = [] then Inr log else Inl (Thrown ''Circle dependency may exists'')))"

section \<open>The graph that is built\<close>

definition entry :: "graph \<Rightarrow> string \<Rightarrow> int" where
  "entry g n = (case map_of g n of None \<Rightarrow> 0 | Some v \<Rightarrow> entryCount v)"

lemma map_of_create: "map_of (createDependencyGraphItem g name) n =
    (if n = name \<and> map_of g name = None then Some empty_vertex else map_of g n)"
  by (cases "map_of g n") (auto simp: createDependencyGraphItem_def map_add_Some_iff map_of_append
      map_add_def simp del: map_of_eq_None_iff)

lemmas graph_lookup = map_of_upd map_of_create succs_def deps_of_def entry_def empty_vertex_def

lemma link_deps_other:
  "entry (link_deps name ds g) n = entry g n" "deps_of (link_deps name ds g) n = deps_of g n"
  by (induction name ds g rule: link_deps.induct) (auto simp: graph_lookup Let_def split: option.splits)

lemma link_deps_dom:
  "map_of (link_deps name ds g) n = None \<longleftrightarrow> map_of g n = None \<and> n \<notin> set ds"
  by (induction name ds g rule: link_deps.induct) (auto simp: map_of_upd map_of_create Let_def split: if_splits)

lemma link_deps_succs:
  assumes "p \<notin> set (succs g p)" "p = name \<Longrightarrow> p \<notin> set ds"
  shows "succs (link_deps name ds g) p = succs g p @ replicate (count_list ds p) name"
  using assms
proof (induction name ds g rule: link_deps.induct)
  case (2 name d ds g)
  let ?g1 = "createDependencyGraphItem (graph_upd name (\<lambda>v. v\<lparr>predecessor := push_new d (predecessor v)\<rparr>) g) d"
  let ?g2 = "graph_upd d (\<lambda>v. if d \<notin> set (successor v) then v\<lparr>successor := successor v @ [name]\<rparr> else v) ?g1"
  have s1: "succs ?g1 p = succs g p" by (auto simp: graph_lookup split: option.splits)
  have "map_of ?g1 d \<noteq> None" by (auto simp: map_of_create)
  then have s2: "succs ?g2 p = (if d = p then succs g p @ [name] else succs g p)"
    using 2(2) s1 by (auto simp: map_of_upd succs_def split: option.splits)
  have "succs (link_deps name ds ?g2) p = succs ?g2 p @ replicate (count_list ds p) name"
    by (rule 2(1) [OF refl refl refl]) (use 2(2,3) s2 in auto)
  then show ?case using s2 by (simp add: Let_def)
qed simp

lemma graph_step_facts:
  assumes "graph_step getter full name (g, ne) = (g', ne')"
    and "D = getAvailableDependencies (getter name) full"
  shows "entry g' n = (if n = name then int (length D) else entry g n)"
    and "deps_of g' n = (if n = name then getter name else deps_of g n)"
    and "map_of g' n = None \<longleftrightarrow> map_of g n = None \<and> n \<noteq> name \<and> n \<notin> set D"
    and "p \<notin> set (succs g p) \<Longrightarrow> (p = name \<Longrightarrow> p \<notin> set D) \<Longrightarrow>
      succs g' p = succs g p @ replicate (count_list D p) name"
    and "ne' = ne @ (if D = [] then [name] else [])"
proof -
  define g1 where "g1 = graph_upd name (\<lambda>v. v\<lparr>originalDeps := getter name, entryCount := int (length D)\<rparr>)
    (createDependencyGraphItem g name)"
  have g': "g' = link_deps name D g1" "ne' = ne @ (if D = [] then [name] else [])"
    using assms by (auto simp: graph_step_def g1_def Let_def)
  have s: "succs g1 p = succs g p" for p by (auto simp: g1_def graph_lookup split: option.splits)
  show "entry g' n = (if n = name then int (length D) else entry g n)"
    "deps_of g' n = (if n = name then getter name else deps_of g n)"
    unfolding g'(1) link_deps_other by (auto simp: g1_def graph_lookup split: option.splits)
  show "map_of g' n = None \<longleftrightarrow> map_of g n = None \<and> n \<noteq> name \<and> n \<notin> set D"
    unfolding g'(1) link_deps_dom by (auto simp: g1_def map_of_upd map_of_create)
  show "succs g' p = succs g p @ replicate (count_list D p) name"
    if "p \<notin> set (succs g p)" "p = name \<Longrightarrow> p \<notin> set D"
    using link_deps_succs [of p g1 name D] that by (simp add: g'(1) s)
qed (use assms in \<open>auto simp: graph_step_def Let_def\<close>)

text \<open>
  What the graph holds: every type's own dependencies, how many of them are available, and for a type
  that does not depend on itself its dependents, one entry per dependency.
\<close>

definition edges_to :: "(string \<Rightarrow> string list) \<Rightarrow> string list \<Rightarrow> string \<Rightarrow> string list" where
  "edges_to D ns p = concat (map (\<lambda>n. replicate (count_list (D n) p) n) ns)"

definition graph_ok where
  "graph_ok getter full ns g ne \<longleftrightarrow>
     (let D = (\<lambda>n. getAvailableDependencies (getter n) full) in
     (\<forall>n. entry g n = (if n \<in> set ns then int (length (D n)) else 0)) \<and>
     (\<forall>n. deps_of g n = (if n \<in> set ns then getter n else [])) \<and>
     (\<forall>n. map_of g n \<noteq> None \<longrightarrow> n \<in> set full) \<and> (\<forall>n\<in>set ns. map_of g n \<noteq> None) \<and>
     (\<forall>p. p \<notin> set (D p) \<longrightarrow> succs g p = edges_to D ns p) \<and>
     ne = filter (\<lambda>n. D n = []) ns)"

lemma set_edges_to: "set (edges_to D ns p) = {n \<in> set ns. p \<in> set (D n)}"
  by (auto simp: edges_to_def count_list_0_iff)

lemma count_edges_to:
  "distinct ns \<Longrightarrow> count_list (edges_to D ns p) n = (if n \<in> set ns then count_list (D n) p else 0)"
proof (induction ns)
  case (Cons a ns)
  have "count_list (replicate k a) n = (if n = a then k else 0)" for k by (induction k) auto
  with Cons show ?case by (auto simp: edges_to_def)
qed (simp add: edges_to_def)

lemma graph_ok_step:
  assumes "graph_ok getter full ns g ne" "name \<in> set full"
  shows "graph_ok getter full (ns @ [name]) (fst (graph_step getter full name (g, ne)))
    (snd (graph_step getter full name (g, ne)))"
proof -
  obtain g' ne' where st: "graph_step getter full name (g, ne) = (g', ne')" by fastforce
  note f = graph_step_facts [OF st refl]
  have D: "set (getAvailableDependencies (getter m) full) \<subseteq> set full" for m
    by (auto simp: getAvailableDependencies_def)
  have "succs g' p = edges_to (\<lambda>n. getAvailableDependencies (getter n) full) (ns @ [name]) p"
    if p: "p \<notin> set (getAvailableDependencies (getter p) full)" for p
  proof -
    from assms p have s: "succs g p = edges_to (\<lambda>n. getAvailableDependencies (getter n) full) ns p"
      by (auto simp: graph_ok_def Let_def)
    then have "p \<notin> set (succs g p)" using p by (simp add: set_edges_to)
    from f(4) [OF this] p s show ?thesis by (auto simp: edges_to_def)
  qed
  moreover from assms(1) have dom: "map_of g n \<noteq> None \<Longrightarrow> n \<in> set full"
    "n \<in> set ns \<Longrightarrow> map_of g n \<noteq> None" for n by (simp_all add: graph_ok_def)
  moreover have "map_of g' n \<noteq> None \<Longrightarrow> n \<in> set full" for n
    using f(3) [of n] dom(1) [of n] D [of name] assms(2) by (auto simp: subset_iff)
  moreover have "n \<in> set (ns @ [name]) \<Longrightarrow> map_of g' n \<noteq> None" for n
    using f(3) [of n] dom(2) [of n] by auto
  ultimately show ?thesis
    using assms(1) f(1,2,5) unfolding st graph_ok_def Let_def fst_conv snd_conv by simp
qed

lemma graph_ok_fold:
  "graph_ok getter full ns g ne \<Longrightarrow> set ms \<subseteq> set full \<Longrightarrow>
     graph_ok getter full (ns @ ms) (fst (fold (graph_step getter full) ms (g, ne)))
       (snd (fold (graph_step getter full) ms (g, ne)))"
proof (induction ms arbitrary: ns g ne)
  case (Cons m ms)
  obtain g' ne' where st: "graph_step getter full m (g, ne) = (g', ne')" by fastforce
  from graph_ok_step [OF Cons.prems(1), of m] Cons.prems(2) st
  have "graph_ok getter full (ns @ [m]) g' ne'" by simp
  from Cons.IH [OF this] Cons.prems(2) st show ?case by simp
qed simp

lemma makeDepndencyGraph_ok:
  assumes "makeDepndencyGraph getter full = (g, ne)"
  shows "graph_ok getter full full g ne"
proof -
  have "graph_ok getter full [] [] []"
    by (simp add: graph_ok_def graph_lookup edges_to_def)
  from graph_ok_fold [OF this subset_refl] assms show ?thesis
    by (simp add: makeDepndencyGraph_def)
qed

section \<open>Removing the edges of a vertex\<close>

lemma removeEdge_facts:
  assumes "removeEdge s (g, st) = (g', st')"
  shows "entry g' n = (if n = s \<and> map_of g s \<noteq> None then entry g n - 1 else entry g n)"
    and "succs g' = succs g" "deps_of g' = deps_of g" "(map_of g' n = None) = (map_of g n = None)"
    and "map_of g s \<noteq> None \<Longrightarrow> st' = st @ (if entry g s = 1 then [s] else [])"
  using assms by (auto simp: removeEdge_def graph_lookup Let_def fun_eq_iff split: option.splits if_splits)

lemma removeEdges_facts:
  assumes "fold removeEdge ss (g, st) = (g', st')" "\<And>n. n \<in> set ss \<Longrightarrow> map_of g n \<noteq> None"
    and "\<And>n. n \<in> set ss \<Longrightarrow> int (count_list ss n) \<le> entry g n"
  shows "(\<forall>n. entry g' n = entry g n - int (count_list ss n)) \<and> succs g' = succs g \<and> deps_of g' = deps_of g \<and>
    (\<forall>n. (map_of g' n = None) = (map_of g n = None)) \<and>
    (\<exists>ex. st' = st @ ex \<and> distinct ex \<and> set ex = {n \<in> set ss. entry g n = int (count_list ss n)})"
  using assms
proof (induction ss arbitrary: g st)
  case (Cons s ss)
  obtain g1 st1 where r: "removeEdge s (g, st) = (g1, st1)" by fastforce
  note f = removeEdge_facts [OF r]
  have dom: "map_of g s \<noteq> None" "\<And>n. n \<in> set ss \<Longrightarrow> map_of g1 n \<noteq> None"
    using Cons.prems(2) f(4) by auto
  have e1: "entry g1 n = (if n = s then entry g n - 1 else entry g n)" for n using f(1) dom(1) by auto
  have st1: "st1 = st @ (if entry g s = 1 then [s] else [])" using f(5) dom(1) by auto
  have bound: "int (count_list ss n) \<le> entry g1 n" if "n \<in> set ss" for n
    using Cons.prems(3) [of n] that e1 [of n] by (auto split: if_splits)
  from Cons.IH [of g1 st1] Cons.prems(1) r dom(2) bound obtain ex where
    ih: "\<And>n. entry g' n = entry g1 n - int (count_list ss n)" "succs g' = succs g1" "deps_of g' = deps_of g1"
    "\<And>n. (map_of g' n = None) = (map_of g1 n = None)" "st' = st1 @ ex" "distinct ex"
    "set ex = {n \<in> set ss. entry g1 n = int (count_list ss n)}" by auto
  let ?ex = "(if entry g s = 1 then [s] else []) @ ex"
  have one: "s \<notin> set ss" if "entry g s = 1"
    using Cons.prems(3) [of s] that count_list_0_iff [of ss s] by auto
  have "distinct ?ex" using one ih(6,7) by auto
  moreover have "set ?ex = {n \<in> set (s # ss). entry g n = int (count_list (s # ss) n)}"
    using one ih(7) e1 count_list_0_iff [of ss s] by (auto split: if_splits)
  moreover have "st' = st @ ?ex" using ih(5) st1 by simp
  ultimately show ?case using ih(1-4) e1 f(2-4) by auto
qed simp

section \<open>The invariant of the travel\<close>

text \<open>
  \<open>dependents\<close> relates an available dependency to the type that asks for it.  \<open>P\<close> is the list of the
  types already popped: the stack holds exactly the other types all of whose available dependencies
  were popped.
\<close>

definition available :: "(string \<Rightarrow> string list) \<Rightarrow> string list \<Rightarrow> string \<Rightarrow> string list" where
  "available getter full n = getAvailableDependencies (getter n) full"

definition dependents :: "(string \<Rightarrow> string list) \<Rightarrow> string list \<Rightarrow> (string \<times> string) set" where
  "dependents getter full = {(d, n). n \<in> set full \<and> d \<in> set (available getter full n)}"

lemma available_full: "d \<in> set (available getter full n) \<Longrightarrow> d \<in> set full"
  by (simp add: available_def getAvailableDependencies_def)

definition graph_inv where
  "graph_inv getter full P g st \<longleftrightarrow>
     (let D = available getter full in
      distinct (P @ st) \<and> set (P @ st) \<subseteq> set full \<and>
      (\<forall>n\<in>set full. entry g n = int (length (filter (\<lambda>d. d \<notin> set P) (D n))) \<and> map_of g n \<noteq> None) \<and>
      (\<forall>n\<in>set full. n \<in> set (P @ st) \<longleftrightarrow> set (D n) \<subseteq> set P) \<and>
      (\<forall>i<length P. set (D (P ! i)) \<subseteq> set (take i P)) \<and>
      (\<forall>n\<in>set full. deps_of g n = getter n) \<and>
      (\<forall>p. p \<notin> set (D p) \<longrightarrow> succs g p = edges_to D full p))"

lemma graph_inv_init:
  assumes "makeDepndencyGraph getter full = (g, ne)" "distinct full"
  shows "graph_inv getter full [] g ne"
proof -
  from makeDepndencyGraph_ok [OF assms(1)] have "graph_ok getter full full g ne" .
  with assms(2) show ?thesis
    by (auto simp: graph_inv_def graph_ok_def available_def [abs_def] Let_def)
qed

lemma filter_insert_count:
  "p \<notin> P \<Longrightarrow> length (filter (\<lambda>d. d \<notin> P) ds) = length (filter (\<lambda>d. d \<notin> insert p P) ds) + count_list ds p"
  by (induction ds) auto

lemma graph_inv_pop:
  assumes inv: "graph_inv getter full P g (st @ [p])" and full: "distinct full"
    and f: "fold removeEdge (succs g p) (g, st) = (g', st')"
  shows "graph_inv getter full (P @ [p]) g' st'" "p \<notin> set (available getter full p)"
    "succs g p = edges_to (available getter full) full p" "deps_of g p = getter p"
proof -
  let ?D = "available getter full"
  from inv have i: "distinct (P @ st @ [p])" "set (P @ st @ [p]) \<subseteq> set full"
    "\<And>n. n \<in> set full \<Longrightarrow> entry g n = int (length (filter (\<lambda>d. d \<notin> set P) (?D n)))"
    "\<And>n. n \<in> set full \<Longrightarrow> map_of g n \<noteq> None"
    "\<And>n. n \<in> set full \<Longrightarrow> n \<in> set (P @ st @ [p]) \<longleftrightarrow> set (?D n) \<subseteq> set P"
    "\<And>n. n \<in> set full \<Longrightarrow> deps_of g n = getter n"
    "\<And>p. p \<notin> set (?D p) \<Longrightarrow> succs g p = edges_to ?D full p"
    "\<And>i. i < length P \<Longrightarrow> set (?D (P ! i)) \<subseteq> set (take i P)"
    unfolding graph_inv_def Let_def by simp_all
  have p: "p \<in> set full" "p \<notin> set P" "p \<notin> set st" using i(1,2) by auto
  then have sub: "set (?D p) \<subseteq> set P" using i(5) by auto
  then show self: "p \<notin> set (?D p)" using p(2) by auto
  show s: "succs g p = edges_to ?D full p" by (rule i(7) [OF self])
  show "deps_of g p = getter p" by (rule i(6) [OF p(1)])
  have cnt: "count_list (succs g p) n = (if n \<in> set full then count_list (?D n) p else 0)" for n
    unfolding s by (rule count_edges_to [OF full])
  have e: "entry g n = int (length (filter (\<lambda>d. d \<notin> insert p (set P)) (?D n))) + int (count_list (?D n) p)"
    if "n \<in> set full" for n
    using i(3) [OF that] filter_insert_count [OF p(2), of "?D n"] by simp
  have inss: "n \<in> set (succs g p) \<longleftrightarrow> n \<in> set full \<and> p \<in> set (?D n)" for n
    unfolding s set_edges_to by simp
  have r: "(\<forall>n. entry g' n = entry g n - int (count_list (succs g p) n)) \<and> succs g' = succs g \<and>
    deps_of g' = deps_of g \<and> (\<forall>n. (map_of g' n = None) = (map_of g n = None)) \<and>
    (\<exists>ex. st' = st @ ex \<and> distinct ex \<and> set ex = {n \<in> set (succs g p). entry g n = int (count_list (succs g p) n)})"
    by (rule removeEdges_facts [OF f]) (use inss i(4) cnt e in auto)
  then obtain ex where ex: "st' = st @ ex" "distinct ex"
    "set ex = {n \<in> set (succs g p). entry g n = int (count_list (succs g p) n)}" by blast
  have ex': "set ex = {n \<in> set full. p \<in> set (?D n) \<and> set (?D n) \<subseteq> insert p (set P)}"
    unfolding ex(3) inss using e cnt by (auto simp: filter_empty_conv)
  have old: "n \<in> set (P @ st @ [p]) \<Longrightarrow> p \<notin> set (?D n)" for n
    using i(5) [of n] i(2) p(2) by blast
  from r have g': "\<And>n. entry g' n = entry g n - int (count_list (succs g p) n)" "succs g' = succs g"
    "deps_of g' = deps_of g" "\<And>n. (map_of g' n = None) = (map_of g n = None)" by blast+
  have "\<forall>n\<in>set full. entry g' n = int (length (filter (\<lambda>d. d \<notin> set (P @ [p])) (?D n))) \<and> map_of g' n \<noteq> None"
    using g'(1,4) e cnt i(4) by simp
  moreover have "\<forall>n\<in>set full. deps_of g' n = getter n" "\<forall>p. p \<notin> set (?D p) \<longrightarrow> succs g' p = edges_to ?D full p"
    using i(6,7) g'(2,3) by simp_all
  moreover have "\<forall>i<length (P @ [p]). set (?D ((P @ [p]) ! i)) \<subseteq> set (take i (P @ [p]))"
    using i(8) sub by (auto simp: nth_append less_Suc_eq)
  moreover have "distinct (P @ p # st @ ex)" using i(1) ex(2) ex' old by auto
  moreover have "set (P @ p # st @ ex) \<subseteq> set full" using i(2) ex' by auto
  moreover have "n \<in> set (P @ p # st @ ex) \<longleftrightarrow> set (?D n) \<subseteq> insert p (set P)" if "n \<in> set full" for n
    using i(5) [OF that] that ex' by auto
  ultimately show "graph_inv getter full (P @ [p]) g' st'"
    unfolding graph_inv_def Let_def ex(1) by simp
qed


text \<open>
  The targets and the calls made so far: what was a target or must follow one is either still a target
  or was visited, nothing else is, and a visited type never depends on a later one.
\<close>

definition visit_inv where
  "visit_inv getter full T P targets log \<longleftrightarrow>
     (let D = available getter full; R = dependents getter full; V = map fst log in
      set targets \<inter> set P = {} \<and> set V \<subseteq> set P \<and> distinct V \<and> sorted_wrt (\<lambda>a b. b \<notin> set (D a)) V \<and>
      (\<forall>n\<in>set V. set (D n) \<subseteq> set P) \<and> set T \<subseteq> set targets \<union> set V \<and> R `` set V \<subseteq> set targets \<union> set V \<and>
      set targets \<union> set V \<subseteq> R\<^sup>* `` set T \<and> list_all (\<lambda>(n, ds). ds = getter n) log)"

lemma visit_inv_pop:
  assumes g: "graph_inv getter full P g (st @ [p])" and full: "distinct full"
    and f: "fold removeEdge (succs g p) (g, st) = (g', st')"
    and v: "visit_inv getter full T P targets log"
  shows "visit_inv getter full T (P @ [p])
    (if p \<in> set targets then removeAll p targets @ succs g p else targets)
    (if p \<in> set targets then log @ [(p, deps_of g p)] else log)"
proof -
  let ?D = "available getter full" and ?R = "dependents getter full"
  from graph_inv_pop [OF g full f] have pop: "graph_inv getter full (P @ [p]) g' st'" "p \<notin> set (?D p)"
    "succs g p = edges_to ?D full p" "deps_of g p = getter p" by blast+
  from g have pP: "p \<notin> set P" and DP: "set (?D p) \<subseteq> set P" and
    ready: "\<And>n. n \<in> set P \<Longrightarrow> set (?D n) \<subseteq> set P" by (auto simp: graph_inv_def Let_def)
  have ss: "set (succs g p) = ?R `` {p}" unfolding pop(3) set_edges_to by (auto simp: dependents_def)
  have Rp: "?R `` {p} \<inter> set (P @ [p]) = {}"
    using ready pP pop(2) by (auto simp: dependents_def)
  show ?thesis
  proof (cases "p \<in> set targets")
    case False
    then show ?thesis using v by (auto simp: visit_inv_def Let_def)
  next
    case True
    with v have "p \<in> ?R\<^sup>* `` set T" by (auto simp: visit_inv_def Let_def)
    then have reach: "?R `` {p} \<subseteq> ?R\<^sup>* `` set T" by (auto intro: rtrancl_into_rtrancl)
    from v have cl: "?R `` set (map fst log) \<subseteq> set targets \<union> set (map fst log)"
      unfolding visit_inv_def Let_def by blast
    have closed: "x \<in> set targets \<or> x \<in> fst ` set log" if "(a, ds) \<in> set log" "(a, x) \<in> ?R" for a ds x
    proof -
      from that(1) have "a \<in> set (map fst log)" by force
      with that(2) cl show ?thesis by auto
    qed
    show ?thesis
      using True v pP DP Rp ss pop(2,4) reach unfolding visit_inv_def Let_def
      by (auto simp: sorted_wrt_append dest: closed)
  qed
qed

lemma travel_loop_inv:
  assumes "graph_inv getter full P g st" "distinct full" "visit_inv getter full T P targets log"
    and "travel_loop g st targets log = (targets', log')"
  shows "\<exists>P' g'. graph_inv getter full P' g' [] \<and> visit_inv getter full T P' targets' log'"
  using assms(1,3,4)
proof (induction g st targets log arbitrary: P rule: travel_loop.induct)
  case (1 g st targets log)
  show ?case
  proof (cases "st = []")
    case True
    with 1 show ?thesis by (auto simp: travel_loop.simps [of g])
  next
    case False
    then have st: "st = butlast st @ [last st]" by simp
    obtain g1 st1 where f: "fold removeEdge (succs g (last st)) (g, butlast st) = (g1, st1)" by fastforce
    let ?ts = "if last st \<in> set targets then removeAll (last st) targets @ succs g (last st) else targets"
    let ?log = "if last st \<in> set targets then log @ [(last st, deps_of g (last st))] else log"
    from 1(2) st have inv: "graph_inv getter full P g (butlast st @ [last st])" by simp
    from False 1(4) f have eq: "travel_loop g1 st1 ?ts ?log = (targets', log')"
      by (subst (asm) travel_loop.simps) (auto simp: Let_def split: if_splits)
    show ?thesis
      by (rule 1(1) [OF False refl refl refl refl refl f [symmetric] refl,
            where P = "P @ [last st]"])
        (use graph_inv_pop(1) [OF inv assms(2) f] visit_inv_pop [OF inv assms(2) f 1(3)] eq
          in \<open>simp_all split: if_splits\<close>)
  qed
qed

section \<open>Cycles\<close>

lemma popped_dep:
  assumes "graph_inv getter full P g st" "(c, n) \<in> dependents getter full" "i < length P" "P ! i = n"
  shows "\<exists>j<i. P ! j = c"
proof -
  from assms have "set (available getter full n) \<subseteq> set (take i P)"
    by (auto simp: graph_inv_def Let_def)
  with assms(2) have "c \<in> set (take i P)" by (auto simp: dependents_def)
  then show ?thesis by (auto simp: in_set_conv_nth)
qed

lemma popped_below:
  assumes inv: "graph_inv getter full P g st" and "(c, n) \<in> (dependents getter full)\<^sup>+" "i < length P" "P ! i = n"
  shows "\<exists>j<i. P ! j = c"
  using assms(2-4)
proof (induction arbitrary: i rule: trancl_induct)
  case (base n)
  with popped_dep [OF inv] show ?case by blast
next
  case (step m n)
  from popped_dep [OF inv step(2) step.prems] obtain j where "j < i" "P ! j = m" by blast
  with step(3) [of j] step.prems show ?case by (meson order.strict_trans)
qed

lemma cycle_not_popped:
  assumes "graph_inv getter full P g st" "(c, c) \<in> (dependents getter full)\<^sup>+" "(c, n) \<in> (dependents getter full)\<^sup>*"
  shows "n \<notin> set P"
proof
  assume "n \<in> set P"
  then obtain i where i: "i < length P" "P ! i = n" by (auto simp: in_set_conv_nth)
  have c: "c \<notin> set P"
  proof
    assume "c \<in> set P"
    then obtain j where j: "j < length P" "P ! j = c" by (auto simp: in_set_conv_nth)
    from popped_below [OF assms(1,2) j] obtain k where "k < j" "P ! k = c" by blast
    with j assms(1) show False by (auto simp: graph_inv_def Let_def nth_eq_iff_index_eq)
  qed
  show False
  proof (cases "c = n")
    case False
    with assms(3) have "(c, n) \<in> (dependents getter full)\<^sup>+" by (meson rtranclD)
    from popped_below [OF assms(1) this i] i(1) c show False by (metis nth_mem order.strict_trans)
  qed (use c \<open>n \<in> set P\<close> in simp)
qed

lemma unpopped_cycle:
  assumes inv: "graph_inv getter full P g []" and t: "t \<in> set full" "t \<notin> set P"
  shows "\<exists>c. (c, c) \<in> (dependents getter full)\<^sup>+ \<and> (c, t) \<in> (dependents getter full)\<^sup>*"
proof (rule ccontr)
  let ?R = "dependents getter full"
  assume no: "\<not> ?thesis"
  let ?X = "{n \<in> set full - set P. (n, t) \<in> ?R\<^sup>*}"
  let ?S = "?R \<inter> ?X \<times> ?X"
  have "finite ?S" by (rule finite_subset [of _ "?X \<times> ?X"]) auto
  moreover have "acyclic ?S"
  proof (rule acyclicI, rule allI, rule notI)
    fix c
    assume cc: "(c, c) \<in> ?S\<^sup>+"
    then have "(c, c) \<in> ?R\<^sup>+" by (rule trancl_mono) auto
    moreover from cc have "(c, t) \<in> ?R\<^sup>*" by (cases rule: tranclE) auto
    ultimately show False using no by blast
  qed
  ultimately have "wf ?S" by (rule finite_acyclic_wf)
  then obtain m where m: "m \<in> ?X" "\<And>d. (d, m) \<in> ?S \<Longrightarrow> d \<notin> ?X"
    using wfE_min [of ?S t ?X] t by blast
  from m(1) inv have "\<not> set (available getter full m) \<subseteq> set P"
    by (auto simp: graph_inv_def Let_def)
  then obtain d where d: "d \<in> set (available getter full m)" "d \<notin> set P" by blast
  then have "(d, m) \<in> ?R" using m(1) by (simp add: dependents_def)
  with m d available_full [OF d(1)] show False by (auto intro: converse_rtrancl_into_rtrancl)
qed

lemma dependents_full: "set T \<subseteq> set full \<Longrightarrow> (dependents getter full)\<^sup>* `` set T \<subseteq> set full"
  by (auto elim: rtranclE simp: dependents_def)

text \<open>What the loop leaves behind, from the initial graph.\<close>

lemma travel_result:
  assumes "distinct full" "makeDepndencyGraph getter full = (g, st)" "travel_loop g st T [] = (targets, log)"
  shows "\<exists>P g'. graph_inv getter full P g' [] \<and> visit_inv getter full T P targets log"
proof -
  have "visit_inv getter full T [] T []" by (auto simp: visit_inv_def Let_def)
  from travel_loop_inv [OF graph_inv_init [OF assms(2,1)] assms(1) this assms(3)] show ?thesis .
qed

lemma visited_closure:
  assumes "visit_inv getter full T P [] log"
  shows "set (map fst log) = (dependents getter full)\<^sup>* `` set T"
proof
  let ?R = "dependents getter full"
  from assms have cl: "?R `` set (map fst log) \<subseteq> set (map fst log)" "set T \<subseteq> set (map fst log)"
    and sub: "set (map fst log) \<subseteq> ?R\<^sup>* `` set T" by (auto simp: visit_inv_def Let_def)
  have "?R\<^sup>* `` set T \<subseteq> ?R\<^sup>* `` set (map fst log)" using cl(2) by blast
  also have "\<dots> = set (map fst log)" by (rule Image_closed_trancl [OF cl(1)])
  finally show "?R\<^sup>* `` set T \<subseteq> set (map fst log)" .
  show "set (map fst log) \<subseteq> ?R\<^sup>* `` set T" by (rule sub)
qed

section \<open>What the travel guarantees\<close>

text \<open>
  C11. When the travel returns, it has called the callback exactly once for every target and everything
  that depends on a target, directly or not, for nothing else, each call with the dependencies the
  type declares, and no type was visited before one it depends on.
\<close>

theorem travel_order:
  assumes "distinct full" "topologicalTravel getter T full = Inr log"
  shows "distinct (map fst log) \<and> set (map fst log) = (dependents getter full)\<^sup>* `` set T \<and>
    sorted_wrt (\<lambda>a b. b \<notin> set (available getter full a)) (map fst log) \<and>
    list_all (\<lambda>(n, deps). deps = getter n) log"
proof (cases "T = []")
  case False
  obtain g st where g: "makeDepndencyGraph getter full = (g, st)" by fastforce
  obtain targets log' where l: "travel_loop g st T [] = (targets, log')" by fastforce
  from assms(2) False g l have "targets = []" "log' = log"
    by (auto simp: topologicalTravel_def split: if_splits)
  with travel_result [OF assms(1) g l] obtain P where "visit_inv getter full T P [] log" by blast
  with visited_closure [OF this] show ?thesis by (auto simp: visit_inv_def Let_def)
qed (use assms in \<open>simp add: topologicalTravel_def\<close>)

definition sample_deps :: "string \<Rightarrow> string list" where
  "sample_deps n = (if n = ''legend'' then [''series'', ''textStyle''] else [])"

theorem travel_order_witness:
  "topologicalTravel sample_deps [''series''] [''series'', ''legend'', ''grid''] =
     Inr [(''series'', []), (''legend'', [''series'', ''textStyle''])] \<and>
   (dependents sample_deps [''series'', ''legend'', ''grid''])\<^sup>* `` {''series''} = {''series'', ''legend''}"
proof -
  let ?full = "[''series'', ''legend'', ''grid'']"
  have run: "topologicalTravel sample_deps [''series''] ?full =
     Inr [(''series'', []), (''legend'', [''series'', ''textStyle''])]" by code_simp
  from travel_order [OF _ run] run show ?thesis by simp
qed

text \<open>
  C19. The travel over known types throws exactly when a type that would be visited depends, directly
  or not, on a type in a dependency cycle; otherwise it returns.  So a cycle that no visited type depends
  on goes unnoticed, where the comment on \<^verbatim>\<open>enableTopologicalTravel\<close> promises an error for every circular
  dependency.
\<close>

theorem travel_throws_iff_cycle:
  assumes "distinct full" "set T \<subseteq> set full"
  shows "topologicalTravel getter T full = Inl (Thrown ''Circle dependency may exists'') \<longleftrightarrow>
    (\<exists>c n. (c, c) \<in> (dependents getter full)\<^sup>+ \<and> (c, n) \<in> (dependents getter full)\<^sup>* \<and>
       n \<in> (dependents getter full)\<^sup>* `` set T)"
proof (cases "T = []")
  case False
  obtain g st where g: "makeDepndencyGraph getter full = (g, st)" by fastforce
  obtain targets log where l: "travel_loop g st T [] = (targets, log)" by fastforce
  have eq: "topologicalTravel getter T full = Inl (Thrown ''Circle dependency may exists'') \<longleftrightarrow> targets \<noteq> []"
    using False g l by (simp add: topologicalTravel_def)
  from travel_result [OF assms(1) g l] obtain P g' where
    inv: "graph_inv getter full P g' []" "visit_inv getter full T P targets log" by blast
  show ?thesis
    unfolding eq
  proof
    assume "targets \<noteq> []"
    then obtain t where t: "t \<in> set targets" by (meson hd_in_set)
    with inv(2) have tT: "t \<notin> set P" "t \<in> (dependents getter full)\<^sup>* `` set T"
      by (auto simp: visit_inv_def Let_def)
    with dependents_full [OF assms(2)] have "t \<in> set full" by blast
    from unpopped_cycle [OF inv(1) this tT(1)] tT(2) show "\<exists>c n. (c, c) \<in> (dependents getter full)\<^sup>+ \<and>
      (c, n) \<in> (dependents getter full)\<^sup>* \<and> n \<in> (dependents getter full)\<^sup>* `` set T" by blast
  next
    assume "\<exists>c n. (c, c) \<in> (dependents getter full)\<^sup>+ \<and>
      (c, n) \<in> (dependents getter full)\<^sup>* \<and> n \<in> (dependents getter full)\<^sup>* `` set T"
    then obtain n where n: "n \<notin> set P" "n \<in> (dependents getter full)\<^sup>* `` set T"
      using cycle_not_popped [OF inv(1)] by blast
    show "targets \<noteq> []"
    proof
      assume "targets = []"
      with inv(2) visited_closure n(2) have "n \<in> set (map fst log)" by blast
      with inv(2) n(1) show False by (auto simp: visit_inv_def Let_def)
    qed
  qed
qed (simp add: topologicalTravel_def)

text \<open>Types \<^verbatim>\<open>a\<close> and \<^verbatim>\<open>b\<close> need each other: the travel to \<^verbatim>\<open>c\<close>, which needs \<^verbatim>\<open>b\<close>, throws, the one to \<^verbatim>\<open>d\<close> does not.\<close>

theorem travel_throws_iff_cycle_witness:
  "topologicalTravel (\<lambda>n. if n = ''d'' then [] else if n = ''b'' then [''a''] else [''b'']) [''c''] [''a'', ''b'', ''c'', ''d''] =
     Inl (Thrown ''Circle dependency may exists'') \<and>
   topologicalTravel (\<lambda>n. if n = ''d'' then [] else if n = ''b'' then [''a''] else [''b'']) [''d''] [''a'', ''b'', ''c'', ''d''] \<noteq>
     Inl (Thrown ''Circle dependency may exists'')"
proof -
  let ?get = "\<lambda>n. if n = ''d'' then [] else if n = ''b'' then [''a''] else [''b'']"
  let ?full = "[''a'', ''b'', ''c'', ''d'']"
  have e: "(''a'', ''b'') \<in> dependents ?get ?full" "(''b'', ''a'') \<in> dependents ?get ?full"
    "(''b'', ''c'') \<in> dependents ?get ?full"
    by (simp_all add: dependents_def available_def getAvailableDependencies_def)
  then have "(''b'', ''b'') \<in> (dependents ?get ?full)\<^sup>+" by (meson r_into_trancl' trancl_into_trancl)
  with e(3) travel_throws_iff_cycle [of ?full "[''c'']" ?get]
  have "topologicalTravel ?get [''c''] ?full = Inl (Thrown ''Circle dependency may exists'')" by auto
  moreover have "(''d'', n) \<notin> dependents ?get ?full" "(n, ''d'') \<notin> dependents ?get ?full" for n
    by (auto simp: dependents_def available_def getAvailableDependencies_def split: if_splits)
  then have "(n, ''d'') \<notin> (dependents ?get ?full)\<^sup>+" "(''d'', n) \<notin> (dependents ?get ?full)\<^sup>+" for n
    by (auto dest: tranclD tranclD2)
  then have "topologicalTravel ?get [''d''] ?full \<noteq> Inl (Thrown ''Circle dependency may exists'')"
    using travel_throws_iff_cycle [of ?full "[''d'']" ?get] by (auto simp: rtrancl_eq_or_trancl)
  ultimately show ?thesis ..
qed

end
