(* ===== verification/JsValue.thy ===== *)
theory JsValue
  imports Prelude Complex_Main
begin

text \<open>
  JavaScript values and the parts of the language's own library the scripts use: numbers as doubles
  (rationals with rounding, \<^verbatim>\<open>NaN\<close> and the infinities; the two zeros are one), truthiness, equality,
  property reads on \<^verbatim>\<open>null\<close> and \<^verbatim>\<open>undefined\<close> as errors, and string conversion.  An object is the
  association list of its own properties in creation order; a function value is known by its name.
\<close>

section \<open>Numbers\<close>

datatype jnum = NaN | PosInf | NegInf | Fin rat

text \<open>
  Rounding to the nearest double, ties to even.  \<open>dbl_exp\<close> is the exponent of the last place: the
  smallest that leaves fewer than 53 significant bits, and never below that of the subnormals.  The
  integers up to \<^verbatim>\<open>2^53\<close> are doubles.
\<close>

definition round_even :: "rat \<Rightarrow> int" where
  "round_even x =
     (let f = \<lfloor>x\<rfloor>; r = x - of_int f in
      if r < 1/2 then f else if r > 1/2 then f + 1 else if even f then f else f + 1)"

definition pow2 :: "int \<Rightarrow> rat" where
  "pow2 e = (if e \<ge> 0 then 2 ^ nat e else 1 / 2 ^ nat (- e))"

fun dbl_exp :: "nat \<Rightarrow> int \<Rightarrow> rat \<Rightarrow> int" where
  "dbl_exp 0 e x = e"
| "dbl_exp (Suc k) e x = (if x < pow2 (e + 53) then e else dbl_exp k (e + 1) x)"

definition to_double :: "rat \<Rightarrow> jnum" where
  "to_double x =
     (if x = of_int \<lfloor>x\<rfloor> \<and> \<bar>x\<bar> \<le> 9007199254740992 then Fin x
      else
        (let e = dbl_exp 2200 (-1074) \<bar>x\<bar>; y = of_int (round_even (x / pow2 e)) * pow2 e in
         if y \<ge> pow2 1024 then PosInf else if y \<le> - pow2 1024 then NegInf else Fin y))"

text \<open>Decimal digits of a natural number.\<close>

fun digits :: "nat \<Rightarrow> js_string" where
  "digits n = (if n < 10 then [48 + n] else digits (n div 10) @ [48 + n mod 10])"

declare digits.simps [simp del]

definition int_str :: "int \<Rightarrow> js_string" where
  "int_str i = (if i < 0 then 45 # digits (nat (- i)) else digits (nat i))"

definition is_digit :: "code_unit \<Rightarrow> bool" where
  "is_digit c \<longleftrightarrow> 48 \<le> c \<and> c \<le> 57"

fun digits_val :: "nat \<Rightarrow> js_string \<Rightarrow> nat" where
  "digits_val acc [] = acc"
| "digits_val acc (c # cs) = digits_val (10 * acc + (c - 48)) cs"

lemma digits_ne [simp]: "digits n \<noteq> []"
  by (subst digits.simps) simp

lemma digits_all: "c \<in> set (digits n) \<Longrightarrow> is_digit c"
proof (induction n rule: digits.induct)
  case (1 n)
  then show ?case by (subst (asm) digits.simps) (auto simp: is_digit_def split: if_splits)
qed

lemma digits_val_snoc: "digits_val a (cs @ [c]) = 10 * digits_val a cs + (c - 48)"
  by (induction a cs rule: digits_val.induct) auto

lemma digits_val_digits: "digits_val 0 (digits n) = n"
proof (induction n rule: digits.induct)
  case (1 n)
  then show ?case by (subst digits.simps) (auto simp: digits_val_snoc)
qed

section \<open>Values\<close>

datatype jsv =
    Undefined
  | JNull
  | JBool bool
  | JNum jnum
  | JStr js_string
  | JArr "jsv list"
  | JObj "(js_string \<times> jsv) list"
  | JFun string

abbreviation JInt :: "int \<Rightarrow> jsv" where
  "JInt i \<equiv> JNum (Fin (of_int i))"

abbreviation S :: "string \<Rightarrow> jsv" where
  "S s \<equiv> JStr (str s)"

fun truthy :: "jsv \<Rightarrow> bool" where
  "truthy Undefined = False"
| "truthy JNull = False"
| "truthy (JBool b) = b"
| "truthy (JNum x) = (x \<noteq> NaN \<and> x \<noteq> Fin 0)"
| "truthy (JStr s) = (s \<noteq> [])"
| "truthy (JArr _) = True"
| "truthy (JObj _) = True"
| "truthy (JFun _) = True"

definition js_or :: "jsv \<Rightarrow> jsv \<Rightarrow> jsv" where
  "js_or a b = (if truthy a then a else b)"

definition js_and :: "jsv \<Rightarrow> jsv \<Rightarrow> jsv" where
  "js_and a b = (if truthy a then b else a)"

text \<open>
  \<^verbatim>\<open>===\<close> on primitive values; two object values are written apart in the source, so they are different
  objects and never equal.
\<close>

fun strict_eq :: "jsv \<Rightarrow> jsv \<Rightarrow> bool" where
  "strict_eq Undefined Undefined = True"
| "strict_eq JNull JNull = True"
| "strict_eq (JBool a) (JBool b) = (a = b)"
| "strict_eq (JNum a) (JNum b) = (a = b \<and> a \<noteq> NaN)"
| "strict_eq (JStr a) (JStr b) = (a = b)"
| "strict_eq (JFun a) (JFun b) = (a = b)"
| "strict_eq _ _ = False"

definition is_nullish :: "jsv \<Rightarrow> bool" where
  "is_nullish v \<longleftrightarrow> v = Undefined \<or> v = JNull"

text \<open>Reading a property: own properties, \<^verbatim>\<open>length\<close> of strings and arrays, array elements.\<close>

definition lookup :: "(js_string \<times> jsv) list \<Rightarrow> js_string \<Rightarrow> jsv" where
  "lookup ps k = (case map_of ps k of None \<Rightarrow> Undefined | Some v \<Rightarrow> v)"

fun get_prop :: "jsv \<Rightarrow> js_string \<Rightarrow> js_error + jsv" where
  "get_prop Undefined k = Inl TypeError"
| "get_prop JNull k = Inl TypeError"
| "get_prop (JObj ps) k = Inr (lookup ps k)"
| "get_prop (JStr s) k = Inr (if k = str ''length'' then JInt (int (length s)) else Undefined)"
| "get_prop (JArr vs) k = Inr (if k = str ''length'' then JInt (int (length vs)) else Undefined)"
| "get_prop _ k = Inr Undefined"

definition set_prop :: "js_string \<Rightarrow> jsv \<Rightarrow> (js_string \<times> jsv) list \<Rightarrow> (js_string \<times> jsv) list" where
  "set_prop k v ps =
     (if k \<in> fst ` set ps then map (\<lambda>(k', v'). (k', if k' = k then v else v')) ps else ps @ [(k, v)])"

lemma lookup_set_prop: "lookup (set_prop k v ps) k' = (if k' = k then v else lookup ps k')"
proof -
  have "map_of (map (\<lambda>(k', v'). (k', if k' = k then v else v')) ps) k' =
      (if k' = k then (case map_of ps k of None \<Rightarrow> None | Some _ \<Rightarrow> Some v) else map_of ps k')"
  proof (induction ps)
    case (Cons p ps)
    then show ?case by (cases p; cases "k' = k") (auto split: option.split)
  qed simp
  moreover have "k \<notin> fst ` set ps \<Longrightarrow> map_of (ps @ [(k, v)]) k' = (if k' = k then Some v else map_of ps k')"
    using map_of_append_notin [of k ps v "[]"] by (auto simp: map_add_def split: option.split)
  moreover have "k \<in> fst ` set ps \<Longrightarrow> map_of ps k \<noteq> None" by (simp add: map_of_eq_None_iff)
  ultimately show ?thesis by (cases "k \<in> fst ` set ps"; cases "map_of ps k") (auto simp: set_prop_def lookup_def)
qed

lemma keys_set_prop: "map fst (set_prop k v ps) = (if k \<in> fst ` set ps then map fst ps else map fst ps @ [k])"
  by (simp add: set_prop_def case_prod_unfold comp_def)

lemma lookup_Cons: "lookup ((k', v) # ps) k = (if k = k' then v else lookup ps k)"
  by (simp add: lookup_def)

lemma lookup_Nil: "lookup [] k = Undefined"
  by (simp add: lookup_def)

text \<open>As a congruence rule it keeps the simplifier out of a long list of properties that only \<open>lookup_Cons\<close> takes apart.\<close>

lemma lookup_key_cong: "k = k' \<Longrightarrow> lookup ps k = lookup ps k'"
  by simp

lemma lookup_in: "k \<in> fst ` set ps \<Longrightarrow> (k, lookup ps k) \<in> set ps"
  by (induction ps) (fastforce simp: lookup_Cons image_iff)+

lemma lookup_notin: "k \<notin> fst ` set ps \<Longrightarrow> lookup ps k = Undefined"
  by (simp add: lookup_def map_of_eq_None_iff [THEN iffD2])

text \<open>\<^verbatim>\<open>$.extend\<close>, shallow: properties whose value is \<^verbatim>\<open>undefined\<close> are not copied.\<close>

fun extend :: "(js_string \<times> jsv) list \<Rightarrow> (js_string \<times> jsv) list \<Rightarrow> (js_string \<times> jsv) list" where
  "extend target [] = target"
| "extend target ((k, v) # ps) = extend (if v = Undefined then target else set_prop k v target) ps"

abbreviation jq_extend :: "(js_string \<times> jsv) list \<Rightarrow> (js_string \<times> jsv) list \<Rightarrow> (js_string \<times> jsv) list" where
  "jq_extend target ps \<equiv> extend target ps"

lemma lookup_extend:
  assumes "distinct (map fst ps)"
  shows "lookup (extend target ps) k = (if lookup ps k \<noteq> Undefined then lookup ps k else lookup target k)"
  using assms
proof (induction target ps rule: extend.induct)
  case (2 target k' v ps)
  then show ?case by (auto simp: lookup_set_prop lookup_Cons lookup_notin)
qed (simp add: lookup_def)

lemma to_double_int: "\<bar>i\<bar> \<le> 9007199254740992 \<Longrightarrow> to_double (of_int i) = Fin (of_int i)"
proof -
  assume i: "\<bar>i\<bar> \<le> 9007199254740992"
  have "\<bar>of_int i :: rat\<bar> = of_int \<bar>i\<bar>" by simp
  also have "\<dots> \<le> of_int 9007199254740992" using i by (simp only: of_int_le_iff)
  finally show ?thesis by (simp add: to_double_def)
qed

section \<open>Conversion to strings\<close>

text \<open>
  The shortest decimal that reads back as the same double: \<open>shortest\<close> tries one to seventeen digits
  \<open>s\<close> with \<^verbatim>\<open>s * 10^(n-k)\<close>, where \<open>n\<close> is the position of the decimal point.
\<close>

definition pow10 :: "int \<Rightarrow> rat" where
  "pow10 e = (if e \<ge> 0 then 10 ^ nat e else 1 / 10 ^ nat (- e))"

fun point_pos :: "nat \<Rightarrow> int \<Rightarrow> rat \<Rightarrow> int" where
  "point_pos 0 n x = n"
| "point_pos (Suc k) n x = (if x < pow10 n then n else point_pos k (n + 1) x)"

fun shortest :: "nat \<Rightarrow> nat \<Rightarrow> int \<Rightarrow> rat \<Rightarrow> nat \<times> int" where
  "shortest 0 k n x = (k, round_even (x * pow10 (int k - n)))"
| "shortest (Suc f) k n x =
     (let s = round_even (x * pow10 (int k - n)) in
      if to_double (of_int s * pow10 (n - int k)) = Fin x then (k, s) else shortest f (Suc k) n x)"

text \<open>Exactly \<open>k\<close> decimal digits.\<close>

fun k_digits :: "nat \<Rightarrow> int \<Rightarrow> js_string" where
  "k_digits 0 s = []"
| "k_digits (Suc k) s = k_digits k (s div 10) @ [48 + nat (s mod 10)]"

definition pos_str :: "rat \<Rightarrow> js_string" where
  "pos_str x =
     (let n0 = point_pos 640 (-330) x; (k, s0) = shortest 16 1 n0 x;
          (n, s) = (if s0 = 10 ^ k then (n0 + 1, s0 div 10) else (n0, s0)); ds = k_digits k s in
      if int k \<le> n \<and> n \<le> 21 then ds @ replicate (nat n - k) 48
      else if 0 < n \<and> n \<le> 21 then take (nat n) ds @ 46 # drop (nat n) ds
      else if - 6 < n \<and> n \<le> 0 then [48, 46] @ replicate (nat (- n)) 48 @ ds
      else (if k = 1 then ds else take 1 ds @ 46 # drop 1 ds) @ [101, if n - 1 < 0 then 45 else 43] @
           digits (nat \<bar>n - 1\<bar>))"

definition rat_str :: "rat \<Rightarrow> js_string" where
  "rat_str x =
     (if x = of_int \<lfloor>x\<rfloor> \<and> \<bar>x\<bar> \<le> 9007199254740992 then int_str \<lfloor>x\<rfloor>
      else if x < 0 then 45 # pos_str (- x) else pos_str x)"

fun num_str :: "jnum \<Rightarrow> js_string" where
  "num_str NaN = str ''NaN''"
| "num_str PosInf = str ''Infinity''"
| "num_str NegInf = str ''-Infinity''"
| "num_str (Fin x) = rat_str x"

text \<open>\<^verbatim>\<open>String(v)\<close>: an array joins its elements, \<^verbatim>\<open>null\<close> and \<^verbatim>\<open>undefined\<close> among them as empty strings.\<close>

fun to_str :: "jsv \<Rightarrow> js_string" and arr_str :: "jsv list \<Rightarrow> js_string" where
  "to_str Undefined = str ''undefined''"
| "to_str JNull = str ''null''"
| "to_str (JBool b) = (if b then str ''true'' else str ''false'')"
| "to_str (JNum x) = num_str x"
| "to_str (JStr s) = s"
| "to_str (JArr vs) = arr_str vs"
| "to_str (JObj _) = str ''[object Object]''"
| "to_str (JFun f) = str f"
| "arr_str [] = []"
| "arr_str [v] = (if is_nullish v then [] else to_str v)"
| "arr_str (v # w # vs) = (if is_nullish v then [] else to_str v) @ 44 # arr_str (w # vs)"

end
