(* ===== verification/JsString.thy ===== *)
theory JsString
  imports JsValue
begin

text \<open>
  The string methods of the language the scripts call: \<^verbatim>\<open>trim\<close>, \<^verbatim>\<open>substring\<close>, \<^verbatim>\<open>substr\<close>, \<^verbatim>\<open>indexOf\<close>,
  \<^verbatim>\<open>lastIndexOf\<close>, \<^verbatim>\<open>split\<close>, \<^verbatim>\<open>join\<close> and \<^verbatim>\<open>replace\<close> with a literal pattern.  Case conversion is written for
  ASCII letters and used only on ASCII literals.
\<close>

definition is_space :: "code_unit \<Rightarrow> bool" where
  "is_space c \<longleftrightarrow> (9 \<le> c \<and> c \<le> 13) \<or> c = 32 \<or> c = 160 \<or> c = 5760 \<or> (8192 \<le> c \<and> c \<le> 8202) \<or>
     c = 8232 \<or> c = 8233 \<or> c = 8239 \<or> c = 8287 \<or> c = 12288 \<or> c = 65279"

definition js_ltrim :: "js_string \<Rightarrow> js_string" where
  "js_ltrim s = dropWhile is_space s"

definition js_rtrim :: "js_string \<Rightarrow> js_string" where
  "js_rtrim s = rev (dropWhile is_space (rev s))"

definition js_trim :: "js_string \<Rightarrow> js_string" where
  "js_trim s = js_rtrim (js_ltrim s)"

definition clamp :: "nat \<Rightarrow> int \<Rightarrow> nat" where
  "clamp n i = nat (max 0 (min i (int n)))"

definition js_substring :: "js_string \<Rightarrow> int \<Rightarrow> int \<Rightarrow> js_string" where
  "js_substring s a b =
     (let a' = clamp (length s) a; b' = clamp (length s) b in take (max a' b' - min a' b') (drop (min a' b') s))"

definition js_substr :: "js_string \<Rightarrow> int \<Rightarrow> int \<Rightarrow> js_string" where
  "js_substr s a n = take (nat n) (drop (rel_index (length s) a) s)"

definition prefix_at :: "js_string \<Rightarrow> js_string \<Rightarrow> nat \<Rightarrow> bool" where
  "prefix_at p s i \<longleftrightarrow> i + length p \<le> length s \<and> take (length p) (drop i s) = p"

definition index_from :: "js_string \<Rightarrow> js_string \<Rightarrow> nat \<Rightarrow> int" where
  "index_from s p i =
     (case filter (prefix_at p s) [i..<Suc (length s)] of [] \<Rightarrow> - 1 | j # _ \<Rightarrow> int j)"

definition index_of :: "js_string \<Rightarrow> js_string \<Rightarrow> int" where
  "index_of s p = index_from s p 0"

definition last_index_of :: "js_string \<Rightarrow> js_string \<Rightarrow> int" where
  "last_index_of s p =
     (case filter (prefix_at p s) (rev [0..<Suc (length s)]) of [] \<Rightarrow> - 1 | j # _ \<Rightarrow> int j)"

text \<open>\<^verbatim>\<open>split\<close> at a single code unit, and \<^verbatim>\<open>join\<close>.\<close>

fun js_split :: "code_unit \<Rightarrow> js_string \<Rightarrow> js_string list" where
  "js_split c [] = [[]]"
| "js_split c (x # xs) =
     (if x = c then [] # js_split c xs
      else (case js_split c xs of [] \<Rightarrow> [[x]] | y # ys \<Rightarrow> (x # y) # ys))"

fun js_join :: "js_string \<Rightarrow> js_string list \<Rightarrow> js_string" where
  "js_join sep [] = []"
| "js_join sep [x] = x"
| "js_join sep (x # y # ys) = x @ sep @ js_join sep (y # ys)"

text \<open>\<^verbatim>\<open>replace(/c/g, f)\<close> for a class of single code units.\<close>

definition replace_units :: "(code_unit \<Rightarrow> js_string) \<Rightarrow> js_string \<Rightarrow> js_string" where
  "replace_units f s = concat (map f s)"

text \<open>Replacement of every occurrence of a non-empty literal, left to right.\<close>

function replace_lit :: "js_string \<Rightarrow> js_string \<Rightarrow> js_string \<Rightarrow> js_string" where
  "replace_lit p r s =
     (if s = [] \<or> p = [] then s
      else if take (length p) s = p then r @ replace_lit p r (drop (length p) s)
      else hd s # replace_lit p r (tl s))"
  by pat_completeness auto
termination by (relation "measure (\<lambda>(p, r, s). length s)") auto

declare replace_lit.simps [simp del]

definition ascii_upper :: "code_unit \<Rightarrow> code_unit" where
  "ascii_upper c = (if 97 \<le> c \<and> c \<le> 122 then c - 32 else c)"

definition ascii_lower :: "code_unit \<Rightarrow> code_unit" where
  "ascii_lower c = (if 65 \<le> c \<and> c \<le> 90 then c + 32 else c)"

definition upper :: "js_string \<Rightarrow> js_string" where
  "upper s = map ascii_upper s"

definition lower :: "js_string \<Rightarrow> js_string" where
  "lower s = map ascii_lower s"

section \<open>Lemmas\<close>

lemma js_split_ne [simp]: "js_split c s \<noteq> []"
  by (induction s) (auto split: list.splits)

lemma js_split_notin: "c \<notin> set s \<Longrightarrow> js_split c s = [s]"
  by (induction s) (auto split: list.splits)

lemma js_split_append: "c \<notin> set s \<Longrightarrow> js_split c (s @ c # t) = s # js_split c t"
  by (induction s) auto

lemma js_join_split: "js_join [c] (js_split c s) = s"
proof (induction s)
  case (Cons x s)
  obtain y ys where s: "js_split c s = y # ys" by (meson js_split_ne neq_Nil_conv)
  with Cons show ?case by (cases ys) auto
qed simp

lemma js_split_join: "xs \<noteq> [] \<Longrightarrow> list_all (\<lambda>x. c \<notin> set x) xs \<Longrightarrow> js_split c (js_join [c] xs) = xs"
  by (induction "[c]" xs rule: js_join.induct) (auto simp: js_split_notin js_split_append)

lemma js_split_set: "x \<in> set (js_split c s) \<Longrightarrow> c \<notin> set x \<and> set x \<subseteq> set s"
proof (induction s arbitrary: x)
  case (Cons a s)
  obtain y ys where s: "js_split c s = y # ys" by (meson js_split_ne neq_Nil_conv)
  with Cons.IH [of y] Cons.IH [of x] Cons.prems show ?case by (auto split: if_splits)
qed simp

lemma filter_hd: "filter P xs = y # ys \<Longrightarrow> P y \<and> y \<in> set xs"
  by (drule arg_cong [where f = set]) auto

lemma filter_upt_hd:
  "filter P [i..<n] = j # js \<longleftrightarrow> P j \<and> i \<le> j \<and> j < n \<and> (\<forall>k. i \<le> k \<longrightarrow> k < j \<longrightarrow> \<not> P k) \<and> js = filter P [Suc j..<n]"
proof (induction "n - i" arbitrary: i)
  case (Suc d)
  then have n: "i < n" "d = n - Suc i" by auto
  show ?case
  proof (cases "P i")
    case True
    then show ?thesis using n by (auto simp: upt_conv_Cons)
  next
    case False
    then have eq: "filter P [i..<n] = filter P [Suc i..<n]" using n by (simp add: upt_conv_Cons)
    have a: "(\<forall>k. i \<le> k \<longrightarrow> k < j \<longrightarrow> \<not> P k) \<longleftrightarrow> (\<forall>k. Suc i \<le> k \<longrightarrow> k < j \<longrightarrow> \<not> P k)"
      using False by (metis Suc_leD Suc_leI le_neq_implies_less)
    have "P j \<Longrightarrow> i \<le> j \<longleftrightarrow> Suc i \<le> j"
      using False by (metis Suc_leD Suc_leI le_neq_implies_less)
    then show ?thesis unfolding eq Suc(1) [OF n(2)] a by (simp cong: conj_cong)
  qed
qed auto

lemma index_from_Some:
  assumes "index_from s p i = int j"
  shows "i \<le> j \<and> prefix_at p s j \<and> (\<forall>k. i \<le> k \<longrightarrow> k < j \<longrightarrow> \<not> prefix_at p s k)"
proof (cases "filter (prefix_at p s) [i..<Suc (length s)]")
  case (Cons a as)
  with assms have "a = j" by (simp add: index_from_def)
  with Cons show ?thesis unfolding filter_upt_hd by blast
qed (use assms in \<open>simp add: index_from_def\<close>)

lemma index_of_first:
  "index_of s p = int j \<Longrightarrow> prefix_at p s j \<and> (\<forall>k<j. \<not> prefix_at p s k)"
  using index_from_Some [of s p 0 j] by (simp add: index_of_def)

lemma filter_Nil_prefix:
  "filter (prefix_at p s) [0..<Suc (length s)] = [] \<longleftrightarrow> (\<forall>k. \<not> prefix_at p s k)"
proof -
  have "k \<le> length s" if "prefix_at p s k" for k using that by (simp add: prefix_at_def)
  then show ?thesis by (auto simp: filter_empty_conv less_Suc_eq_le simp del: upt_Suc)
qed

lemma index_of_neg: "index_of s p < 0 \<longleftrightarrow> (\<forall>k. \<not> prefix_at p s k)"
  unfolding filter_Nil_prefix [symmetric] by (auto simp: index_of_def index_from_def split: list.splits)

lemma index_of_eqI: "prefix_at p s j \<Longrightarrow> (\<And>k. k < j \<Longrightarrow> \<not> prefix_at p s k) \<Longrightarrow> index_of s p = int j"
proof -
  assume a: "prefix_at p s j" "\<And>k. k < j \<Longrightarrow> \<not> prefix_at p s k"
  then have "filter (prefix_at p s) [0..<Suc (length s)] = j # filter (prefix_at p s) [Suc j..<Suc (length s)]"
    unfolding filter_upt_hd by (simp add: prefix_at_def)
  then show ?thesis by (simp add: index_of_def index_from_def del: upt_Suc)
qed

lemma last_index_of_neg: "last_index_of s p < 0 \<longleftrightarrow> (\<forall>k. \<not> prefix_at p s k)"
  unfolding filter_Nil_prefix [symmetric]
  by (auto simp: last_index_of_def rev_filter [symmetric] simp del: upt_Suc split: list.splits)

lemma last_index_of_at:
  assumes "last_index_of s p \<ge> 0"
  shows "prefix_at p s (nat (last_index_of s p)) \<and> (\<forall>k. prefix_at p s k \<longrightarrow> k \<le> nat (last_index_of s p))"
proof (cases "filter (prefix_at p s) (rev [0..<Suc (length s)])")
  case Nil
  with assms show ?thesis by (simp add: last_index_of_def)
next
  case (Cons j js)
  then have l: "filter (prefix_at p s) [0..<Suc (length s)] = rev js @ [j]"
    by (metis rev.simps(2) rev_filter rev_rev_ident)
  have "sorted (rev js @ [j])" unfolding l [symmetric] by (intro sorted_wrt_filter) (simp del: upt_Suc)
  moreover have "prefix_at p s k \<Longrightarrow> k \<in> set (rev js @ [j])" for k
    unfolding l [symmetric] by (auto simp: prefix_at_def simp del: upt_Suc)
  moreover have "prefix_at p s j" using Cons filter_hd by fast
  ultimately show ?thesis
    using Cons by (auto simp: last_index_of_def sorted_append)
qed

section \<open>Numbers in strings\<close>

text \<open>
  \<^verbatim>\<open>Number(s)\<close>: surrounding white space is ignored, the empty string is zero, then a hexadecimal, octal
  or binary literal or a signed decimal literal; anything else is \<^verbatim>\<open>NaN\<close>.
\<close>

definition dec_val :: "js_string \<Rightarrow> int" where
  "dec_val s = foldl (\<lambda>a c. 10 * a + int (c - 48)) 0 s"

definition radix_digit :: "nat \<Rightarrow> code_unit \<Rightarrow> nat option" where
  "radix_digit b c =
     (let d = (if is_digit c then c - 48 else if 97 \<le> c \<and> c \<le> 122 then c - 87
               else if 65 \<le> c \<and> c \<le> 90 then c - 55 else 99)
      in if d < b then Some d else None)"

definition radix_val :: "nat \<Rightarrow> js_string \<Rightarrow> jnum" where
  "radix_val b s =
     (if s = [] \<or> list_ex (\<lambda>c. radix_digit b c = None) s then NaN
      else to_double (of_int (foldl (\<lambda>a c. int b * a + int (the (radix_digit b c))) 0 s)))"

definition exponent :: "js_string \<Rightarrow> int option" where
  "exponent s =
     (case s of
        [] \<Rightarrow> Some 0
      | c # r \<Rightarrow>
          if c = 101 \<or> c = 69 then
            (let (sg, ds) = (case r of [] \<Rightarrow> (1, []) | x # xs \<Rightarrow>
                               if x = 45 then (- 1, xs) else if x = 43 then (1, xs) else (1, r))
             in if ds \<noteq> [] \<and> list_all is_digit ds then Some (sg * dec_val ds) else None)
          else None)"

definition unsigned_decimal :: "js_string \<Rightarrow> rat option" where
  "unsigned_decimal s =
     (let ip = takeWhile is_digit s; r = dropWhile is_digit s;
          (fp, r) = (case r of [] \<Rightarrow> ([], []) | x # xs \<Rightarrow>
                       if x = 46 then (takeWhile is_digit xs, dropWhile is_digit xs) else ([], r))
      in if ip = [] \<and> fp = [] then None
         else map_option (\<lambda>e. of_int (dec_val (ip @ fp)) * pow10 (e - int (length fp))) (exponent r))"

definition signed_decimal :: "bool \<Rightarrow> js_string \<Rightarrow> jnum" where
  "signed_decimal neg s =
     (if s = str ''Infinity'' then (if neg then NegInf else PosInf)
      else (case unsigned_decimal s of None \<Rightarrow> NaN | Some x \<Rightarrow> to_double (if neg then - x else x)))"

definition to_number :: "js_string \<Rightarrow> jnum" where
  "to_number s =
     (case js_trim s of
        [] \<Rightarrow> Fin 0
      | c # r \<Rightarrow>
          if c = 45 then signed_decimal True r
          else if c = 43 then signed_decimal False r
          else if c = 48 \<and> r \<noteq> [] \<and> (hd r = 120 \<or> hd r = 88) then radix_val 16 (tl r)
          else if c = 48 \<and> r \<noteq> [] \<and> (hd r = 111 \<or> hd r = 79) then radix_val 8 (tl r)
          else if c = 48 \<and> r \<noteq> [] \<and> (hd r = 98 \<or> hd r = 66) then radix_val 2 (tl r)
          else signed_decimal False (c # r))"

lemma dec_val_snoc: "dec_val (s @ [c]) = 10 * dec_val s + int (c - 48)"
  by (simp add: dec_val_def)

lemma dec_val_digits: "dec_val (digits n) = int n"
proof (induction n rule: digits.induct)
  case (1 n)
  have "10 * int (n div 10) + int (n mod 10) = int n" by presburger
  with 1 show ?case by (subst digits.simps) (auto simp: dec_val_snoc dec_val_def [of "[_]"])
qed

lemma trim_no_space:
  assumes "s \<noteq> []" "\<not> is_space (hd s)" "\<not> is_space (last s)"
  shows "js_trim s = s"
proof -
  have "js_ltrim s = s" using assms(1,2) by (cases s) (auto simp: js_ltrim_def)
  moreover have "js_rtrim s = s" using assms(1,3) by (cases s rule: rev_cases) (auto simp: js_rtrim_def)
  ultimately show ?thesis by (simp add: js_trim_def)
qed

lemma digit_not_space: "is_digit c \<Longrightarrow> \<not> is_space c"
  by (auto simp: is_digit_def is_space_def)

lemma to_number_digits:
  assumes "n \<le> 9007199254740992"
  shows "to_number (digits n) = Fin (of_nat n)"
proof -
  obtain c r where cr: "digits n = c # r" by (meson digits_ne neq_Nil_conv)
  have dig: "\<And>x. x \<in> set (c # r) \<Longrightarrow> is_digit x" using digits_all [of _ n] cr by simp
  then have "js_trim (c # r) = c # r" using digit_not_space by (intro trim_no_space) auto
  moreover have "is_digit c" "r \<noteq> [] \<Longrightarrow> is_digit (hd r)" using dig by auto
  moreover have "unsigned_decimal (c # r) = Some (of_nat n)"
  proof -
    have "takeWhile is_digit (c # r) = c # r" "dropWhile is_digit (c # r) = []" using dig by simp_all
    then show ?thesis using dec_val_digits [of n] cr
      unfolding unsigned_decimal_def by (simp only: Let_def) (simp add: exponent_def pow10_def)
  qed
  moreover have "c # r \<noteq> str ''Infinity''" using dig [of c] by (auto simp: str_def is_digit_def)
  moreover have "to_double (of_nat n) = Fin (of_nat n)" using to_double_int [of "int n"] assms by simp
  ultimately show ?thesis unfolding cr to_number_def by (auto simp: is_digit_def signed_decimal_def)
qed

text \<open>\<^verbatim>\<open>Number(v)\<close>.\<close>

fun to_num :: "jsv \<Rightarrow> jnum" where
  "to_num Undefined = NaN"
| "to_num JNull = Fin 0"
| "to_num (JBool b) = Fin (if b then 1 else 0)"
| "to_num (JNum x) = x"
| "to_num v = to_number (to_str v)"

section \<open>JSON\<close>

text \<open>
  \<^verbatim>\<open>JSON.stringify\<close>: \<open>None\<close> where the result is \<^verbatim>\<open>undefined\<close>; such members are left out of objects and are
  \<^verbatim>\<open>null\<close> in arrays.
\<close>

definition hex4 :: "nat \<Rightarrow> js_string" where
  "hex4 c = map (\<lambda>k. (let d = c div 16 ^ k mod 16 in if d < 10 then 48 + d else 87 + d)) [3, 2, 1, 0]"

definition json_char :: "code_unit \<Rightarrow> js_string" where
  "json_char c =
     (if c = 34 then [92, 34] else if c = 92 then [92, 92] else if c = 8 then [92, 98] else if c = 12 then [92, 102]
      else if c = 10 then [92, 110] else if c = 13 then [92, 114] else if c = 9 then [92, 116]
      else if c < 32 then [92, 117] @ hex4 c else [c])"

definition json_quote :: "js_string \<Rightarrow> js_string" where
  "json_quote s = [34] @ concat (map json_char s) @ [34]"

fun json :: "jsv \<Rightarrow> js_string option" and json_items :: "jsv list \<Rightarrow> js_string list"
  and json_members :: "(js_string \<times> jsv) list \<Rightarrow> js_string list" where
  "json Undefined = None"
| "json (JFun f) = None"
| "json JNull = Some (str ''null'')"
| "json (JBool b) = Some (if b then str ''true'' else str ''false'')"
| "json (JNum x) = Some (case x of Fin q \<Rightarrow> rat_str q | _ \<Rightarrow> str ''null'')"
| "json (JStr s) = Some (json_quote s)"
| "json (JArr vs) = Some ([91] @ js_join [44] (json_items vs) @ [93])"
| "json (JObj ps) = Some ([123] @ js_join [44] (json_members ps) @ [125])"
| "json_items [] = []"
| "json_items (v # vs) = (case json v of None \<Rightarrow> str ''null'' | Some s \<Rightarrow> s) # json_items vs"
| "json_members [] = []"
| "json_members ((k, v) # ps) =
     (case json v of None \<Rightarrow> json_members ps | Some s \<Rightarrow> (json_quote k @ [58] @ s) # json_members ps)"

end
