(* ===== verification/BaseStrings.thy ===== *)
theory BaseStrings
  imports JsString
begin

text \<open>
  The methods \<^verbatim>\<open>base.js\<close> adds to \<^verbatim>\<open>String.prototype\<close> and \<^verbatim>\<open>Date.prototype\<close>, and \<^verbatim>\<open>XUI.isne\<close>.  The regular
  expression of \<^verbatim>\<open>Date.format\<close> is written out as a scanner: a quoted part is matched up to its closing
  quote; between two word boundaries a whole run of word characters is matched or none of it.
\<close>

section \<open>String methods\<close>

definition string_trim :: "js_string \<Rightarrow> js_string" where
  "string_trim s = js_rtrim (js_ltrim s)"

definition ltrim :: "js_string \<Rightarrow> js_string" where
  "ltrim s = js_ltrim s"

definition rtrim :: "js_string \<Rightarrow> js_string" where
  "rtrim s = js_rtrim s"

text \<open>
  \<^verbatim>\<open>firstIndexOf\<close> cuts the string at the last occurrence until none is left.  With an empty prefix
  \<^verbatim>\<open>lastIndexOf\<close> always finds one at the end, so the loop may not return.
\<close>

partial_function (option) firstIndexOf_loop :: "js_string \<Rightarrow> js_string \<Rightarrow> int \<Rightarrow> int option" where
  "firstIndexOf_loop prefix s index =
     (let temp = last_index_of s prefix in
      if temp \<ge> 0 then firstIndexOf_loop prefix (js_substring s 0 temp) temp else Some index)"

declare firstIndexOf_loop.simps [code]

definition firstIndexOf :: "js_string \<Rightarrow> js_string \<Rightarrow> int option" where
  "firstIndexOf s prefix = firstIndexOf_loop prefix s (- 1)"

definition endsWith :: "js_string \<Rightarrow> js_string \<Rightarrow> bool" where
  "endsWith s suffix =
     (let C = length s; D = length suffix in
      if D > C then False else D = 0 \<or> js_substr s (int C - int D) (int D) = suffix)"

definition chineseLength :: "js_string \<Rightarrow> nat" where
  "chineseLength s = length (replace_units (\<lambda>c. if c > 255 then str ''**'' else [c]) s)"

definition string_remove :: "js_string \<Rightarrow> int \<Rightarrow> int \<Rightarrow> js_string" where
  "string_remove s startIndex removeLength =
     (let r = (if startIndex > 0 then js_substring s 0 startIndex else []) in
      if startIndex + removeLength < int (length s)
      then r @ js_substring s (startIndex + removeLength) (int (length s)) else r)"

text \<open>\<^verbatim>\<open>XUI.isne\<close> on \<^verbatim>\<open>null\<close>, \<^verbatim>\<open>undefined\<close> and strings; anything else has no \<^verbatim>\<open>trim\<close> method.\<close>

fun isne :: "jsv \<Rightarrow> js_error + bool" where
  "isne Undefined = Inr True"
| "isne JNull = Inr True"
| "isne (JStr s) = Inr (s = str ''undefined'' \<or> string_trim s = [])"
| "isne _ = Inl TypeError"

section \<open>Dates\<close>

record date =
  getFullYear :: int
  getMonth :: nat
  getDate :: nat
  getDay :: nat
  getHours :: nat
  getMinutes :: nat
  getSeconds :: nat
  getMilliseconds :: nat

definition zeroize :: "nat \<Rightarrow> nat \<Rightarrow> js_string" where
  "zeroize value len = (let v = digits value in replicate (len - length v) 48 @ v)"

definition nth_name :: "string list \<Rightarrow> nat \<Rightarrow> js_string" where
  "nth_name names i = (if i < length names then str (names ! i) else str ''undefined'')"

definition short_days :: "string list" where
  "short_days = [''Sun'', ''Mon'', ''Tue'', ''Wed'', ''Thr'', ''Fri'', ''Sat'']"

definition long_days :: "string list" where
  "long_days = [''Sunday'', ''Monday'', ''Tuesday'', ''Wednesday'', ''Thursday'', ''Friday'', ''Saturday'']"

definition short_months :: "string list" where
  "short_months = [''Jan'', ''Feb'', ''Mar'', ''Apr'', ''May'', ''Jun'', ''Jul'', ''Aug'', ''Sep'', ''Oct'', ''Nov'', ''Dec'']"

definition long_months :: "string list" where
  "long_months = [''January'', ''February'', ''March'', ''April'', ''May'', ''June'', ''July'', ''August'',
     ''September'', ''October'', ''November'', ''December'']"

definition hour12 :: "nat \<Rightarrow> nat" where
  "hour12 h = (if h mod 12 = 0 then 12 else h mod 12)"

definition date_token :: "date \<Rightarrow> js_string \<Rightarrow> js_string" where
  "date_token d t =
     (if t = str ''d'' then digits (getDate d)
      else if t = str ''dd'' then zeroize (getDate d) 2
      else if t = str ''ddd'' then nth_name short_days (getDay d)
      else if t = str ''dddd'' then nth_name long_days (getDay d)
      else if t = str ''M'' then digits (getMonth d + 1)
      else if t = str ''MM'' then zeroize (getMonth d + 1) 2
      else if t = str ''MMM'' then nth_name short_months (getMonth d)
      else if t = str ''MMMM'' then nth_name long_months (getMonth d)
      else if t = str ''yy'' then drop 2 (int_str (getFullYear d))
      else if t = str ''yyyy'' then int_str (getFullYear d)
      else if t = str ''h'' then digits (hour12 (getHours d))
      else if t = str ''hh'' then zeroize (hour12 (getHours d)) 2
      else if t = str ''H'' then digits (getHours d)
      else if t = str ''HH'' then zeroize (getHours d) 2
      else if t = str ''m'' then digits (getMinutes d)
      else if t = str ''mm'' then zeroize (getMinutes d) 2
      else if t = str ''s'' then digits (getSeconds d)
      else if t = str ''ss'' then zeroize (getSeconds d) 2
      else if t = str ''l'' then zeroize (getMilliseconds d) 3
      else if t = str ''L'' then
        (let m = getMilliseconds d in zeroize (if m > 99 then (m + 5) div 10 else m) 2)
      else if t = str ''tt'' then (if getHours d < 12 then str ''am'' else str ''pm'')
      else if t = str ''TT'' then (if getHours d < 12 then str ''AM'' else str ''PM'')
      else if t = str ''Z'' then str ''GMT''
      else js_substr t 1 (int (length t) - 2))"

definition is_word :: "code_unit \<Rightarrow> bool" where
  "is_word c \<longleftrightarrow> is_digit c \<or> (65 \<le> c \<and> c \<le> 90) \<or> (97 \<le> c \<and> c \<le> 122) \<or> c = 95"

text \<open>The runs the third alternative of the expression matches.\<close>

definition token_runs :: "js_string list" where
  "token_runs = map str ([''d'', ''dd'', ''ddd'', ''dddd'', ''m'', ''mm'', ''mmm'', ''mmmm'', ''yy'', ''yyyy'',
     ''h'', ''hh'', ''H'', ''HH'', ''M'', ''MM'', ''s'', ''ss'', ''t'', ''tt'', ''T'', ''TT'', ''l'', ''L'', ''Z''])"

function date_scan :: "date \<Rightarrow> js_string \<Rightarrow> js_string" where
  "date_scan d [] = []"
| "date_scan d (c # cs) =
     (if is_word c then
        (let run = takeWhile is_word (c # cs) in
         (if run \<in> set token_runs then date_token d run else run) @ date_scan d (dropWhile is_word (c # cs)))
      else if c = 34 \<or> c = 39 then
        (let inner = takeWhile (\<lambda>x. x \<noteq> c) cs in
         if length inner < length cs
         then date_token d (c # inner @ [c]) @ date_scan d (drop (Suc (length inner)) cs)
         else c # date_scan d cs)
      else c # date_scan d cs)"
  by pat_completeness auto
termination
  by (relation "measure (\<lambda>(d, s). length s)") (auto simp: less_Suc_eq_le length_dropWhile_le)

definition date_format :: "date \<Rightarrow> js_string \<Rightarrow> js_string" where
  "date_format d msk = date_scan d msk"

definition valid_date :: "date \<Rightarrow> bool" where
  "valid_date d \<longleftrightarrow> 1000 \<le> getFullYear d \<and> getFullYear d \<le> 9999 \<and> getMonth d < 12 \<and>
     1 \<le> getDate d \<and> getDate d \<le> 31 \<and> getHours d < 24 \<and> getMinutes d < 60 \<and> getSeconds d < 60"

section \<open>Searching from the right\<close>

text \<open>A pattern overlaps itself when it is found again inside one of its own occurrences.\<close>

definition overlaps :: "js_string \<Rightarrow> bool" where
  "overlaps p \<longleftrightarrow> list_ex (\<lambda>k. take (length p - k) p = drop k p) [1..<length p]"

lemma prefix_at_take: "prefix_at p (take n s) k \<longleftrightarrow> prefix_at p s k \<and> k + length p \<le> n"
  by (auto simp: prefix_at_def drop_take min_def)

lemma prefix_at_overlap:
  assumes "prefix_at p s j" "prefix_at p s k" "k < j" "j < k + length p"
  shows "overlaps p"
proof -
  let ?d = "j - k"
  have "take (length p - ?d) p = take (length p - ?d) (take (length p) (drop j s))"
    using assms(1) by (simp add: prefix_at_def)
  also have "\<dots> = take (length p - ?d) (drop ?d (drop k s))"
    using assms(3) by (simp add: add.commute)
  also have "\<dots> = drop ?d (take (length p) (drop k s))" by (simp add: drop_take)
  also have "\<dots> = drop ?d p" using assms(2) by (simp add: prefix_at_def)
  finally show ?thesis using assms(3,4) by (auto simp: overlaps_def list_ex_iff intro!: bexI [of _ ?d])
qed

lemma substring_0: "0 \<le> t \<Longrightarrow> js_substring s 0 t = take (nat t) s"
  by (auto simp: js_substring_def clamp_def Let_def min_def max_def nat_le_iff)

lemma firstIndexOf_loop_result:
  assumes "p \<noteq> []" "index = - 1 \<and> n = length s \<or> index = int n \<and> prefix_at p s n"
  shows "\<exists>i. firstIndexOf_loop p (take n s) index = Some i \<and>
    (i = - 1 \<and> index_of s p = - 1 \<or> 0 \<le> i \<and> prefix_at p s (nat i) \<and> (\<not> overlaps p \<longrightarrow> index_of s p = i))"
  using assms(2)
proof (induction n arbitrary: index rule: less_induct)
  case (less n)
  let ?t = "last_index_of (take n s) p"
  show ?case
  proof (cases "?t \<ge> 0")
    case True
    let ?m = "nat ?t"
    from last_index_of_at [OF True] have at: "prefix_at p s ?m" "?m + length p \<le> n"
      by (auto simp: prefix_at_take)
    then have m: "?m < n" using assms(1) by (cases p) auto
    have "firstIndexOf_loop p (take n s) index = firstIndexOf_loop p (take ?m s) ?t"
      using True m by (subst firstIndexOf_loop.simps) (simp add: Let_def substring_0 min_def)
    with less.IH [OF m, of ?t] at(1) True show ?thesis by simp
  next
    case False
    then have none: "\<not> (prefix_at p s k \<and> k + length p \<le> n)" for k
      using last_index_of_neg [of "take n s" p] by (auto simp: prefix_at_take)
    have res: "firstIndexOf_loop p (take n s) index = Some index"
      using False by (subst firstIndexOf_loop.simps) (simp add: Let_def)
    show ?thesis
    proof (cases "index = - 1")
      case True
      with less.prems none have "\<And>k. \<not> prefix_at p s k" by (auto simp: prefix_at_def)
      then have "index_of s p < 0" by (simp add: index_of_neg)
      moreover have "index_of s p \<ge> - 1" by (auto simp: index_of_def index_from_def split: list.split)
      ultimately show ?thesis using res True by auto
    next
      case False
      with less.prems have at: "index = int n" "prefix_at p s n" by auto
      have "index_of s p = int n" if "\<not> overlaps p"
      proof (rule index_of_eqI [OF at(2)])
        fix k
        assume k: "k < n"
        show "\<not> prefix_at p s k"
        proof
          assume a: "prefix_at p s k"
          with none [of k] have "n < k + length p" by simp
          from prefix_at_overlap [OF at(2) a k this] that show False by simp
        qed
      qed
      with res at show ?thesis by auto
    qed
  qed
qed

text \<open>
  C29. \<^verbatim>\<open>firstIndexOf\<close> returns for every non-empty prefix: -1 exactly when \<^verbatim>\<open>indexOf\<close> does, otherwise a
  position of the prefix, which is the first one whenever the prefix does not overlap itself (a
  single character never does).
\<close>

theorem firstIndexOf_finds:
  assumes "prefix \<noteq> []"
  shows "\<exists>i. firstIndexOf s prefix = Some i \<and>
    (i = - 1 \<and> index_of s prefix = - 1 \<or>
     0 \<le> i \<and> prefix_at prefix s (nat i) \<and> (\<not> overlaps prefix \<longrightarrow> index_of s prefix = i))"
  using firstIndexOf_loop_result [OF assms, of "- 1" "length s" s] by (simp add: firstIndexOf_def)

theorem firstIndexOf_finds_witness:
  "firstIndexOf (str ''a.b.c'') (str ''.'') = Some 1 \<and> index_of (str ''a.b.c'') (str ''.'') = 1"
proof -
  have "\<not> overlaps (str ''.'')" "index_of (str ''a.b.c'') (str ''.'') = 1" "str ''.'' \<noteq> []" by code_simp+
  with firstIndexOf_finds [of "str ''.''" "str ''a.b.c''"] show ?thesis by auto
qed

lemma last_index_of_Nil: "last_index_of s [] = int (length s)"
  by (simp add: last_index_of_def prefix_at_def)

lemma firstIndexOf_loop_ne: "firstIndexOf_loop p s i = Some r \<Longrightarrow> p \<noteq> []"
proof (rule firstIndexOf_loop.raw_induct [where P = "\<lambda>p s i r. p \<noteq> []"])
  fix f :: "js_string \<Rightarrow> js_string \<Rightarrow> int \<Rightarrow> int option" and p s i r
  assume ih: "\<And>p s i r. f p s i = Some r \<Longrightarrow> p \<noteq> []"
    and eq: "(let temp = last_index_of s p in if temp \<ge> 0 then f p (js_substring s 0 temp) temp else Some i) = Some r"
  show "p \<noteq> []"
  proof
    assume p: "p = []"
    with eq have "f [] (js_substring s 0 (int (length s))) (int (length s)) = Some r"
      by (simp add: last_index_of_Nil Let_def)
    from ih [OF this] show False by simp
  qed
qed

text \<open>
  C30. \<^verbatim>\<open>firstIndexOf\<close> with an empty prefix does not return, on any string: the loop finds the empty
  prefix at the end of the string over and over.
\<close>

theorem firstIndexOf_empty_diverges: "firstIndexOf s [] = None"
  using firstIndexOf_loop_ne [of "[]"] by (cases "firstIndexOf s []") (auto simp: firstIndexOf_def)

section \<open>Formatted dates\<close>

lemma date_scan_run:
  assumes "run \<noteq> []" "list_all is_word run" "rest = [] \<or> \<not> is_word (hd rest)"
  shows "date_scan d (run @ rest) = (if run \<in> set token_runs then date_token d run else run) @ date_scan d rest"
proof -
  obtain c cs where run: "run = c # cs" using assms(1) by (meson neq_Nil_conv)
  have "takeWhile is_word rest = []" "dropWhile is_word rest = rest" using assms(3) by (cases rest; simp)+
  moreover have "takeWhile is_word (run @ rest) = run @ takeWhile is_word rest"
    "dropWhile is_word (run @ rest) = dropWhile is_word rest"
    using assms(2) by (simp_all add: list_all_iff)
  ultimately show ?thesis using assms(2) run by simp
qed

lemma date_scan_end:
  "run \<noteq> [] \<Longrightarrow> list_all is_word run \<Longrightarrow> date_scan d run = (if run \<in> set token_runs then date_token d run else run)"
  using date_scan_run [of run "[]" d] by simp

lemma int_str_inject: "0 \<le> a \<Longrightarrow> 0 \<le> b \<Longrightarrow> int_str a = int_str b \<longleftrightarrow> a = b"
  by (auto simp: int_str_def) (metis digits_val_digits nat_0_le)

lemma date_scan_sep: "\<not> is_word c \<Longrightarrow> c \<noteq> 34 \<Longrightarrow> c \<noteq> 39 \<Longrightarrow> date_scan d (c # cs) = c # date_scan d cs"
  by simp

lemma digits_small:
  "n < 10 \<Longrightarrow> length (digits n) = 1" "10 \<le> n \<Longrightarrow> n < 100 \<Longrightarrow> length (digits n) = 2"
  "1000 \<le> n \<Longrightarrow> n < 10000 \<Longrightarrow> length (digits n) = 4"
proof -
  show one: "n < 10 \<Longrightarrow> length (digits n) = 1" for n by (subst digits.simps) simp
  show two: "10 \<le> n \<Longrightarrow> n < 100 \<Longrightarrow> length (digits n) = 2" for n
    by (subst digits.simps) (simp add: one)
  have three: "100 \<le> n \<Longrightarrow> n < 1000 \<Longrightarrow> length (digits n) = 3" for n
    by (subst digits.simps) (simp add: two)
  show "1000 \<le> n \<Longrightarrow> n < 10000 \<Longrightarrow> length (digits n) = 4"
    by (subst digits.simps) (simp add: three)
qed

lemma zeroize_two: "n < 100 \<Longrightarrow> length (zeroize n 2) = 2"
  using digits_small(1,2) [of n] by (cases "n < 10") (auto simp: zeroize_def Let_def)

lemma digits_val_zeroize: "digits_val 0 (zeroize n k) = n"
proof -
  have "digits_val 0 (replicate j 48 @ xs) = digits_val 0 xs" for j xs by (induction j) auto
  then show ?thesis by (simp add: zeroize_def Let_def digits_val_digits)
qed

lemma zeroize_inject [simp]: "zeroize m k = zeroize n k \<longleftrightarrow> m = n"
  using digits_val_zeroize by metis

definition timestamp_mask :: js_string where
  "timestamp_mask = str ''yyyy-MM-dd HH:mm:ss''"

definition timestamp :: "date \<Rightarrow> js_string" where
  "timestamp d = int_str (getFullYear d) @ 45 # zeroize (getMonth d + 1) 2 @ 45 # zeroize (getDate d) 2 @
     32 # zeroize (getHours d) 2 @ 58 # zeroize (getMinutes d) 2 @ 58 # zeroize (getSeconds d) 2"

lemma mask_words:
  "list_all is_word (str ''yyyy'')" "list_all is_word (str ''MM'')" "list_all is_word (str ''dd'')"
  "list_all is_word (str ''HH'')" "list_all is_word (str ''mm'')" "list_all is_word (str ''ss'')"
  "\<not> is_word 45" "\<not> is_word 32" "\<not> is_word 58"
  by code_simp+

lemma mask_tokens:
  "str ''yyyy'' \<in> set token_runs" "str ''MM'' \<in> set token_runs" "str ''dd'' \<in> set token_runs"
  "str ''HH'' \<in> set token_runs" "str ''mm'' \<in> set token_runs" "str ''ss'' \<in> set token_runs"
  by code_simp+

lemma mask_ne:
  "str ''yyyy'' \<noteq> []" "str ''MM'' \<noteq> []" "str ''dd'' \<noteq> []" "str ''HH'' \<noteq> []" "str ''mm'' \<noteq> []" "str ''ss'' \<noteq> []"
  by (simp_all add: str_def)

lemma date_token_values:
  "date_token d (str ''yyyy'') = int_str (getFullYear d)" "date_token d (str ''MM'') = zeroize (getMonth d + 1) 2"
  "date_token d (str ''dd'') = zeroize (getDate d) 2" "date_token d (str ''HH'') = zeroize (getHours d) 2"
  "date_token d (str ''mm'') = zeroize (getMinutes d) 2" "date_token d (str ''ss'') = zeroize (getSeconds d) 2"
  by (simp_all add: date_token_def str_def)

lemma timestamp_split:
  "timestamp_mask = str ''yyyy'' @ 45 # str ''MM'' @ 45 # str ''dd'' @ 32 # str ''HH'' @ 58 # str ''mm'' @ 58 # str ''ss'' @ []"
  by code_simp

lemma date_format_timestamp: "date_format d timestamp_mask = timestamp d"
  unfolding date_format_def timestamp_split
  by (simp add: date_scan_run date_scan_end date_scan_sep mask_words mask_tokens mask_ne date_token_values timestamp_def
      del: date_scan.simps(2))

text \<open>
  C31. With the mask \<^verbatim>\<open>yyyy-MM-dd HH:mm:ss\<close> a date of the years 1000 to 9999 becomes 19 characters, and the
  text determines the date down to the second.
\<close>

theorem date_format_faithful:
  assumes "valid_date d" "valid_date e"
  shows "length (date_format d timestamp_mask) = 19 \<and>
    (date_format d timestamp_mask = date_format e timestamp_mask \<longleftrightarrow>
     getFullYear d = getFullYear e \<and> getMonth d = getMonth e \<and> getDate d = getDate e \<and>
     getHours d = getHours e \<and> getMinutes d = getMinutes e \<and> getSeconds d = getSeconds e)"
proof -
  have year: "length (int_str (getFullYear x)) = 4" if "valid_date x" for x
    using that digits_small(3) [of "nat (getFullYear x)"]
    by (auto simp: valid_date_def int_str_def nat_less_iff le_nat_iff)
  have parts: "length (zeroize (getMonth x + 1) 2) = 2" "length (zeroize (getDate x) 2) = 2"
    "length (zeroize (getHours x) 2) = 2" "length (zeroize (getMinutes x) 2) = 2" "length (zeroize (getSeconds x) 2) = 2"
    if "valid_date x" for x
    using that by (auto simp: valid_date_def intro!: zeroize_two)
  have yd: "int_str (getFullYear d) = int_str (getFullYear e) \<longleftrightarrow> getFullYear d = getFullYear e"
    by (rule int_str_inject) (use assms in \<open>auto simp: valid_date_def\<close>)
  have len: "length (timestamp d) = 19"
    using parts [OF assms(1)] year [OF assms(1)] by (simp add: timestamp_def)
  have "timestamp d = timestamp e \<longleftrightarrow>
     getFullYear d = getFullYear e \<and> getMonth d = getMonth e \<and> getDate d = getDate e \<and>
     getHours d = getHours e \<and> getMinutes d = getMinutes e \<and> getSeconds d = getSeconds e"
    unfolding timestamp_def using parts [OF assms(1)] parts [OF assms(2)] year [OF assms(1)] year [OF assms(2)]
    by (simp add: yd)
  with len show ?thesis unfolding date_format_timestamp by blast
qed

definition sample_date :: date where
  "sample_date = \<lparr>getFullYear = 2017, getMonth = 1, getDate = 14, getDay = 2, getHours = 9, getMinutes = 5,
     getSeconds = 0, getMilliseconds = 0\<rparr>"

theorem date_format_faithful_witness:
  "date_format sample_date timestamp_mask = str ''2017-02-14 09:05:00'' \<and>
   date_format (sample_date\<lparr>getMinutes := 6\<rparr>) timestamp_mask \<noteq> date_format sample_date timestamp_mask"
proof -
  have "valid_date sample_date" "valid_date (sample_date\<lparr>getMinutes := 6\<rparr>)" by code_simp+
  from date_format_faithful [OF this(2,1)] have "date_format (sample_date\<lparr>getMinutes := 6\<rparr>) timestamp_mask \<noteq>
    date_format sample_date timestamp_mask" by (simp add: sample_date_def)
  moreover have "date_format sample_date timestamp_mask = str ''2017-02-14 09:05:00''" by code_simp
  ultimately show ?thesis by simp
qed

end
