(* ===== verification/Cookies.thy ===== *)
theory Cookies
  imports JsString
begin

text \<open>
  \<^verbatim>\<open>jquery.cookie.js\<close>: reading, writing and removing cookies, with \<^verbatim>\<open>encodeURIComponent\<close> and
  \<^verbatim>\<open>decodeURIComponent\<close> on UTF-16 code units.  The browser's cookie store is a parameter: a state of any
  type, with a function for what \<^verbatim>\<open>document.cookie\<close> reads and one for an assignment to it.  \<^verbatim>\<open>JSON\<close> and
  \<^verbatim>\<open>Date\<close> come in through parameters too, in the record of the plugin's environment.
\<close>

section \<open>URI components\<close>

text \<open>Code points of a string; an unpaired surrogate is an error.\<close>

fun code_points :: "js_string \<Rightarrow> js_error + nat list" where
  "code_points [] = Inr []"
| "code_points (u # us) =
     (if 0xDC00 \<le> u \<and> u \<le> 0xDFFF then Inl (Thrown ''URIError'')
      else if 0xD800 \<le> u \<and> u \<le> 0xDBFF then
        (case us of
           [] \<Rightarrow> Inl (Thrown ''URIError'')
         | v # vs \<Rightarrow>
             if 0xDC00 \<le> v \<and> v \<le> 0xDFFF
             then ebind (code_points vs) (\<lambda>cs. Inr (((u - 0xD800) * 0x400 + (v - 0xDC00) + 0x10000) # cs))
             else Inl (Thrown ''URIError''))
      else ebind (code_points us) (\<lambda>cs. Inr (u # cs)))"

definition cp_bytes :: "nat \<Rightarrow> nat list" where
  "cp_bytes c =
     (if c < 0x80 then [c]
      else if c < 0x800 then [0xC0 + c div 0x40, 0x80 + c mod 0x40]
      else if c < 0x10000 then [0xE0 + c div 0x1000, 0x80 + c div 0x40 mod 0x40, 0x80 + c mod 0x40]
      else [0xF0 + c div 0x40000, 0x80 + c div 0x1000 mod 0x40, 0x80 + c div 0x40 mod 0x40, 0x80 + c mod 0x40])"

definition cp_units :: "nat \<Rightarrow> js_string" where
  "cp_units c = (if c < 0x10000 then [c] else [0xD800 + (c - 0x10000) div 0x400, 0xDC00 + (c - 0x10000) mod 0x400])"

definition hex_unit :: "nat \<Rightarrow> code_unit" where
  "hex_unit d = (if d < 10 then 48 + d else 55 + d)"

definition hex_val :: "code_unit \<Rightarrow> nat option" where
  "hex_val c =
     (if 48 \<le> c \<and> c \<le> 57 then Some (c - 48)
      else if 65 \<le> c \<and> c \<le> 70 then Some (c - 55)
      else if 97 \<le> c \<and> c \<le> 102 then Some (c - 87) else None)"

definition pct :: "nat \<Rightarrow> js_string" where
  "pct b = [37, hex_unit (b div 16), hex_unit (b mod 16)]"

definition uri_unreserved :: "nat \<Rightarrow> bool" where
  "uri_unreserved c \<longleftrightarrow> is_digit c \<or> (65 \<le> c \<and> c \<le> 90) \<or> (97 \<le> c \<and> c \<le> 122) \<or>
     c \<in> set (str (''-_.!~*'' @ [CHR 0x27] @ ''()''))"

definition enc_cp :: "nat \<Rightarrow> js_string" where
  "enc_cp c = (if uri_unreserved c then [c] else concat (map pct (cp_bytes c)))"

definition encodeURIComponent :: "js_string \<Rightarrow> js_error + js_string" where
  "encodeURIComponent s = ebind (code_points s) (\<lambda>cs. Inr (concat (map enc_cp cs)))"

text \<open>One percent-encoded byte, and \<open>n\<close> continuation bytes appended to \<open>acc\<close>.\<close>

fun take_byte :: "js_string \<Rightarrow> (nat \<times> js_string) option" where
  "take_byte (p # a # b # rest) =
     (if p = 37 then
        (case (hex_val a, hex_val b) of (Some x, Some y) \<Rightarrow> Some (16 * x + y, rest) | _ \<Rightarrow> None)
      else None)"
| "take_byte _ = None"

fun take_cont :: "nat \<Rightarrow> nat \<Rightarrow> js_string \<Rightarrow> (nat \<times> js_string) option" where
  "take_cont 0 acc s = Some (acc, s)"
| "take_cont (Suc n) acc s =
     (case take_byte s of
        None \<Rightarrow> None
      | Some (b, rest) \<Rightarrow> if b div 0x40 = 2 then take_cont n (acc * 0x40 + b mod 0x40) rest else None)"

definition dec_seq :: "js_string \<Rightarrow> (nat \<times> js_string) option" where
  "dec_seq s =
     (case take_byte s of
        None \<Rightarrow> None
      | Some (b, rest) \<Rightarrow>
          if b < 0x80 then Some (b, rest)
          else if 0xC0 \<le> b \<and> b < 0xE0 then
            (case take_cont 1 (b - 0xC0) rest of Some (c, r) \<Rightarrow> if 0x80 \<le> c then Some (c, r) else None | None \<Rightarrow> None)
          else if 0xE0 \<le> b \<and> b < 0xF0 then
            (case take_cont 2 (b - 0xE0) rest of
               Some (c, r) \<Rightarrow> if 0x800 \<le> c \<and> \<not> (0xD800 \<le> c \<and> c \<le> 0xDFFF) then Some (c, r) else None
             | None \<Rightarrow> None)
          else if 0xF0 \<le> b \<and> b < 0xF8 then
            (case take_cont 3 (b - 0xF0) rest of
               Some (c, r) \<Rightarrow> if 0x10000 \<le> c \<and> c < 0x110000 then Some (c, r) else None
             | None \<Rightarrow> None)
          else None)"

lemma take_byte_less: "take_byte s = Some (b, r) \<Longrightarrow> length r < length s"
  by (cases s rule: take_byte.cases) (auto split: if_splits option.splits)

lemma take_cont_le: "take_cont n acc s = Some (c, r) \<Longrightarrow> length r \<le> length s"
proof (induction n arbitrary: acc s)
  case (Suc n)
  then show ?case
    by (force split: option.splits if_splits dest!: Suc.IH take_byte_less)
qed simp

lemma dec_seq_less: "dec_seq s = Some (c, r) \<Longrightarrow> length r < length s"
  by (auto simp: dec_seq_def split: option.splits if_splits prod.splits dest!: take_byte_less take_cont_le)

function decodeURIComponent :: "js_string \<Rightarrow> js_error + js_string" where
  "decodeURIComponent s =
     (case s of
        [] \<Rightarrow> Inr []
      | u # us \<Rightarrow>
          if u \<noteq> 37 then ebind (decodeURIComponent us) (\<lambda>t. Inr (u # t))
          else (case dec_seq s of
                  None \<Rightarrow> Inl (Thrown ''URIError'')
                | Some (c, r) \<Rightarrow> ebind (decodeURIComponent r) (\<lambda>t. Inr (cp_units c @ t))))"
  by pat_completeness auto
termination by (relation "measure length") (auto dest: dec_seq_less)

declare decodeURIComponent.simps [simp del]

section \<open>The plugin\<close>

datatype expires = ExpiresDays int | ExpiresDate int

text \<open>The options of a call or of \<^verbatim>\<open>config.defaults\<close>; \<open>None\<close> is an option that is not given.\<close>

record cookie_options =
  opt_expires :: "expires option"
  opt_path :: "js_string option"
  opt_domain :: "js_string option"
  opt_secure :: "bool option"

record cookie_env =
  raw :: bool
  json :: bool
  defaults :: cookie_options
  json_stringify :: "jsv \<Rightarrow> js_string"
  json_parse :: "js_string \<Rightarrow> js_error + jsv"
  toUTCString :: "int \<Rightarrow> js_string"
  now :: int

definition no_options :: cookie_options where
  "no_options = \<lparr>opt_expires = None, opt_path = None, opt_domain = None, opt_secure = None\<rparr>"

text \<open>\<^verbatim>\<open>$.extend({}, config.defaults, options)\<close>: what the call gives wins.\<close>

definition over :: "'a option \<Rightarrow> 'a option \<Rightarrow> 'a option" where
  "over x y = (case y of None \<Rightarrow> x | Some _ \<Rightarrow> y)"

definition extend_options :: "cookie_options \<Rightarrow> cookie_options \<Rightarrow> cookie_options" where
  "extend_options d opts =
     \<lparr>opt_expires = over (opt_expires d) (opt_expires opts), opt_path = over (opt_path d) (opt_path opts),
      opt_domain = over (opt_domain d) (opt_domain opts), opt_secure = over (opt_secure d) (opt_secure opts)\<rparr>"

definition cookie_encode :: "cookie_env \<Rightarrow> js_string \<Rightarrow> js_error + js_string" where
  "cookie_encode cfg s = (if raw cfg then Inr s else encodeURIComponent s)"

definition cookie_decode :: "cookie_env \<Rightarrow> js_string \<Rightarrow> js_error + js_string" where
  "cookie_decode cfg s = (if raw cfg then Inr s else decodeURIComponent s)"

definition stringifyCookieValue :: "cookie_env \<Rightarrow> jsv \<Rightarrow> js_error + js_string" where
  "stringifyCookieValue cfg value =
     cookie_encode cfg (if json cfg then json_stringify cfg value else to_str value)"

definition unquote :: "js_string \<Rightarrow> js_string" where
  "unquote s =
     (if index_of s [34] = 0
      then replace_lit [92, 92] [92] (replace_lit [92, 34] [34] (js_slice s 1 (- 1))) else s)"

definition parseCookieValue :: "cookie_env \<Rightarrow> js_string \<Rightarrow> jsv" where
  "parseCookieValue cfg s =
     (case ebind (decodeURIComponent (replace_units (\<lambda>c. if c = 43 then [32] else [c]) (unquote s)))
             (\<lambda>t. if json cfg then json_parse cfg t else Inr (JStr t)) of
        Inl _ \<Rightarrow> Undefined
      | Inr v \<Rightarrow> v)"

text \<open>\<open>converter\<close> is the optional function argument.\<close>

definition cookie_read :: "cookie_env \<Rightarrow> js_string \<Rightarrow> (jsv \<Rightarrow> jsv) option \<Rightarrow> jsv" where
  "cookie_read cfg s converter =
     (let value = (if raw cfg then JStr s else parseCookieValue cfg s) in
      case converter of None \<Rightarrow> value | Some f \<Rightarrow> f value)"

definition expires_attr :: "cookie_env \<Rightarrow> cookie_options \<Rightarrow> js_string" where
  "expires_attr cfg opts =
     (case opt_expires opts of
        None \<Rightarrow> []
      | Some (ExpiresDays days) \<Rightarrow> str ''; expires='' @ toUTCString cfg (now cfg + days * 86400000)
      | Some (ExpiresDate t) \<Rightarrow> str ''; expires='' @ toUTCString cfg t)"

text \<open>A text option is written when it is truthy.\<close>

definition text_attr :: "js_string \<Rightarrow> js_string option \<Rightarrow> js_string" where
  "text_attr label x = (case x of None \<Rightarrow> [] | Some s \<Rightarrow> if s \<noteq> [] then label @ s else [])"

definition cookie_write :: "cookie_env \<Rightarrow> js_string \<Rightarrow> jsv \<Rightarrow> cookie_options \<Rightarrow> js_error + js_string" where
  "cookie_write cfg key value opts =
     (let opts = extend_options (defaults cfg) opts in
      ebind (cookie_encode cfg key) (\<lambda>k.
      ebind (stringifyCookieValue cfg value) (\<lambda>v.
      Inr (k @ [61] @ v @ expires_attr cfg opts @
        text_attr (str ''; path='') (opt_path opts) @
        text_attr (str ''; domain='') (opt_domain opts) @
        (if opt_secure opts = Some True then str ''; secure'' else [])))))"

text \<open>Splitting \<^verbatim>\<open>document.cookie\<close> at its two-character separator.\<close>

fun split_semi :: "js_string \<Rightarrow> js_string list" where
  "split_semi [] = [[]]"
| "split_semi [x] = [[x]]"
| "split_semi (x # y # ys) =
     (if x = 59 \<and> y = 32 then [] # split_semi ys
      else (case split_semi (y # ys) of [] \<Rightarrow> [[x]] | z # zs \<Rightarrow> (x # z) # zs))"

fun cookie_find :: "cookie_env \<Rightarrow> js_string \<Rightarrow> (jsv \<Rightarrow> jsv) option \<Rightarrow> js_string list \<Rightarrow> js_error + jsv" where
  "cookie_find cfg key converter [] = Inr Undefined"
| "cookie_find cfg key converter (c # cs) =
     (let parts = js_split 61 c; cookie = js_join [61] (tl parts) in
      ebind (cookie_decode cfg (hd parts)) (\<lambda>name.
      if key = name then Inr (cookie_read cfg cookie converter) else cookie_find cfg key converter cs))"

fun cookie_all :: "cookie_env \<Rightarrow> (js_string \<times> jsv) list \<Rightarrow> js_string list \<Rightarrow> js_error + (js_string \<times> jsv) list" where
  "cookie_all cfg result [] = Inr result"
| "cookie_all cfg result (c # cs) =
     (let parts = js_split 61 c; cookie = js_join [61] (tl parts) in
      ebind (cookie_decode cfg (hd parts)) (\<lambda>name.
      let v = cookie_read cfg cookie None in
      cookie_all cfg (if v \<noteq> Undefined then set_prop name v result else result) cs))"

definition cookie_list :: "js_string \<Rightarrow> js_string list" where
  "cookie_list document_cookie = (if document_cookie \<noteq> [] then split_semi document_cookie else [])"

definition cookie_get :: "cookie_env \<Rightarrow> js_string \<Rightarrow> js_string \<Rightarrow> (jsv \<Rightarrow> jsv) option \<Rightarrow> js_error + jsv" where
  "cookie_get cfg document_cookie key converter =
     (if key \<noteq> [] then cookie_find cfg key converter (cookie_list document_cookie)
      else ebind (cookie_all cfg [] (cookie_list document_cookie)) (\<lambda>ps. Inr (JObj ps)))"

text \<open>
  \<^verbatim>\<open>$.cookie\<close> itself: a value that is neither \<^verbatim>\<open>undefined\<close> nor a function is written, anything else
  reads.  \<open>jar\<close> is the browser's cookie store, \<open>document_cookie\<close> reads the property of that name and
  \<open>set_cookie\<close> assigns to it; the result is the new store and the value of the call.
\<close>

definition cookie ::
  "('j \<Rightarrow> js_string) \<Rightarrow> ('j \<Rightarrow> js_string \<Rightarrow> 'j) \<Rightarrow> cookie_env \<Rightarrow> 'j \<Rightarrow> js_string \<Rightarrow> jsv \<Rightarrow>
     (jsv \<Rightarrow> jsv) option \<Rightarrow> cookie_options \<Rightarrow> js_error + 'j \<times> jsv" where
  "cookie document_cookie set_cookie cfg jar key value converter opts =
     (if value \<noteq> Undefined \<and> Option.is_none converter
      then ebind (cookie_write cfg key value opts) (\<lambda>text. Inr (set_cookie jar text, JStr text))
      else ebind (cookie_get cfg (document_cookie jar) key converter) (\<lambda>v. Inr (jar, v)))"

definition removeCookie ::
  "('j \<Rightarrow> js_string) \<Rightarrow> ('j \<Rightarrow> js_string \<Rightarrow> 'j) \<Rightarrow> cookie_env \<Rightarrow> 'j \<Rightarrow> js_string \<Rightarrow> cookie_options \<Rightarrow>
     js_error + 'j \<times> bool" where
  "removeCookie document_cookie set_cookie cfg jar key opts =
     ebind (cookie_get cfg (document_cookie jar) key None) (\<lambda>v.
     if v = Undefined then Inr (jar, False)
     else ebind (cookie document_cookie set_cookie cfg jar key (JStr []) None
                   (opts\<lparr>opt_expires := Some (ExpiresDays (- 1))\<rparr>)) (\<lambda>(jar, _).
          ebind (cookie_get cfg (document_cookie jar) key None) (\<lambda>w. Inr (jar, \<not> truthy w))))"

section \<open>Round trip of URI components\<close>

lemma hex_val_unit: "d < 16 \<Longrightarrow> hex_val (hex_unit d) = Some d"
  by (auto simp: hex_val_def hex_unit_def)

lemma take_byte_pct: "b < 256 \<Longrightarrow> take_byte (pct b @ r) = Some (b, r)"
  by (simp add: pct_def hex_val_unit)

lemma take_cont_pct:
  assumes "b < 64"
  shows "take_cont (Suc n) acc (pct (128 + b) @ r) = take_cont n (acc * 64 + b) r"
proof -
  have d: "(128 + b) div 64 = 2" by (rule div_nat_eqI) (use assms in simp_all)
  then have "(128 + b) mod 64 = b" by (simp add: modulo_nat_def)
  with d assms show ?thesis by (simp add: take_byte_pct)
qed

definition scalar :: "nat \<Rightarrow> bool" where
  "scalar c \<longleftrightarrow> c < 0x110000 \<and> \<not> (0xD800 \<le> c \<and> c \<le> 0xDFFF)"

lemma base64_3: "(c div 4096 * 64 + c div 64 mod 64) * 64 + c mod 64 = (c :: nat)"
proof -
  have "c div 64 div 64 = c div 4096" by (simp add: div_mult2_eq [symmetric])
  then have "c div 4096 * 64 + c div 64 mod 64 = c div 64" using div_mult_mod_eq [of "c div 64" 64] by simp
  then show ?thesis using div_mult_mod_eq [of c 64] by simp
qed

lemma base64_4: "((c div 262144 * 64 + c div 4096 mod 64) * 64 + c div 64 mod 64) * 64 + c mod 64 = (c :: nat)"
proof -
  have "c div 4096 div 64 = c div 262144" by (simp add: div_mult2_eq [symmetric])
  then have "c div 262144 * 64 + c div 4096 mod 64 = c div 4096" using div_mult_mod_eq [of "c div 4096" 64] by simp
  then show ?thesis using base64_3 [of c] by simp
qed

lemma dec_seq_bytes:
  assumes "scalar c"
  shows "dec_seq (concat (map pct (cp_bytes c)) @ r) = Some (c, r)"
proof -
  consider "c < 128" | "128 \<le> c" "c < 2048" | "2048 \<le> c" "c < 65536" | "65536 \<le> c" "c < 0x110000"
    using assms by (fastforce simp: scalar_def)
  then show ?thesis
  proof cases
    case 1
    then show ?thesis by (simp add: cp_bytes_def dec_seq_def take_byte_pct)
  next
    case 2
    then have "c div 64 < 32" by simp
    with 2 show ?thesis
      using div_mult_mod_eq [of c 64] take_cont_pct [of "c mod 64" 0 "c div 64" r]
      by (simp add: cp_bytes_def dec_seq_def take_byte_pct)
  next
    case 3
    then have "c div 4096 < 16" by simp
    with 3 assms show ?thesis
      using base64_3 [of c] take_cont_pct [of "c mod 64" 0 "c div 4096 * 64 + c div 64 mod 64" r]
        take_cont_pct [of "c div 64 mod 64" 1 "c div 4096" "pct (128 + c mod 64) @ r"]
      by (simp add: cp_bytes_def dec_seq_def take_byte_pct scalar_def del: take_cont.simps(2) flip: numeral_2_eq_2)
  next
    case 4
    then have "c div 262144 < 5" by simp
    with 4 assms show ?thesis
      using base64_4 [of c]
        take_cont_pct [of "c mod 64" 0 "(c div 262144 * 64 + c div 4096 mod 64) * 64 + c div 64 mod 64" r]
        take_cont_pct [of "c div 64 mod 64" 1 "c div 262144 * 64 + c div 4096 mod 64" "pct (128 + c mod 64) @ r"]
        take_cont_pct [of "c div 4096 mod 64" 2 "c div 262144" "pct (128 + c div 64 mod 64) @ pct (128 + c mod 64) @ r"]
      by (simp add: cp_bytes_def dec_seq_def take_byte_pct scalar_def del: take_cont.simps(2) flip: numeral_2_eq_2)
  qed
qed

lemma pct_cons: "concat (map pct (cp_bytes c)) = 37 # tl (concat (map pct (cp_bytes c)))"
  by (simp add: cp_bytes_def pct_def)

lemma unreserved_ascii: "uri_unreserved c \<Longrightarrow> c < 128 \<and> c \<noteq> 37"
  by (auto simp: uri_unreserved_def is_digit_def str_def)

lemma decode_enc_cp:
  assumes "scalar c"
  shows "decodeURIComponent (enc_cp c @ r) = ebind (decodeURIComponent r) (\<lambda>t. Inr (cp_units c @ t))"
proof (cases "uri_unreserved c")
  case True
  with unreserved_ascii [OF True] show ?thesis
    by (subst decodeURIComponent.simps) (simp add: enc_cp_def cp_units_def)
next
  case False
  let ?e = "concat (map pct (cp_bytes c))"
  from False have e: "enc_cp c = ?e" by (simp add: enc_cp_def)
  obtain us where us: "?e @ r = 37 # us" using pct_cons [of c] by (metis append_Cons)
  from dec_seq_bytes [OF assms, of r] show ?thesis
    unfolding e us by (subst decodeURIComponent.simps) simp
qed

lemma decode_enc_cps:
  "list_all scalar cs \<Longrightarrow> decodeURIComponent (concat (map enc_cp cs)) = Inr (concat (map cp_units cs))"
proof (induction cs)
  case Nil
  show ?case by (subst decodeURIComponent.simps) simp
next
  case (Cons c cs)
  then show ?case by (simp add: decode_enc_cp)
qed

lemma cp_units_pair:
  assumes "0xD800 \<le> u" "u \<le> 0xDBFF" "0xDC00 \<le> v" "v \<le> 0xDFFF"
  shows "cp_units ((u - 0xD800) * 0x400 + (v - 0xDC00) + 0x10000) = [u, v]"
    and "scalar ((u - 0xD800) * 0x400 + (v - 0xDC00) + 0x10000)"
proof -
  let ?c = "(u - 0xD800) * 0x400 + (v - 0xDC00)"
  have "v - 0xDC00 < 0x400" using assms by simp
  then have "?c div 0x400 = u - 0xD800" "?c mod 0x400 = v - 0xDC00" by simp_all
  then show "cp_units (?c + 0x10000) = [u, v]" using assms by (simp add: cp_units_def)
  show "scalar (?c + 0x10000)" using assms by (simp add: scalar_def)
qed

lemma code_points_units:
  "code_points s = Inr cs \<Longrightarrow> units s \<Longrightarrow> concat (map cp_units cs) = s \<and> list_all scalar cs"
proof (induction s arbitrary: cs rule: code_points.induct)
  case (2 u us)
  consider (low) "0xDC00 \<le> u" "u \<le> 0xDFFF" | (high) "0xD800 \<le> u" "u \<le> 0xDBFF" | (bmp) "\<not> (0xD800 \<le> u \<and> u \<le> 0xDFFF)"
    by fastforce
  then show ?case
  proof cases
    case low
    with 2(3) show ?thesis by simp
  next
    case high
    with 2(3) obtain v vs cs' where v: "us = v # vs" "0xDC00 \<le> v" "v \<le> 0xDFFF" "code_points vs = Inr cs'"
      "cs = ((u - 0xD800) * 0x400 + (v - 0xDC00) + 0x10000) # cs'"
      by (auto simp: ebind_Inr split: list.splits if_splits)
    with 2(1) [of v vs cs'] high 2(4) cp_units_pair [OF high v(2,3)] show ?thesis by (auto simp: units_def)
  next
    case bmp
    with 2(3) obtain cs' where "code_points us = Inr cs'" "cs = u # cs'" by (auto simp: ebind_Inr split: if_splits)
    with 2(2) [of cs'] bmp 2(4) show ?thesis by (auto simp: units_def is_unit_def cp_units_def scalar_def)
  qed
qed simp

lemma uri_roundtrip: "encodeURIComponent s = Inr t \<Longrightarrow> units s \<Longrightarrow> decodeURIComponent t = Inr s"
  using code_points_units [of s] decode_enc_cps by (fastforce simp: encodeURIComponent_def ebind_Inr)

text \<open>A string without unpaired surrogates.\<close>

definition well_formed :: "js_string \<Rightarrow> bool" where
  "well_formed s \<longleftrightarrow> units s \<and> (case code_points s of Inl _ \<Rightarrow> False | Inr _ \<Rightarrow> True)"

lemma encode_well_formed: "well_formed s \<Longrightarrow> \<exists>t. encodeURIComponent s = Inr t"
  by (auto simp: well_formed_def encodeURIComponent_def split: sum.splits)

interpretation uri: codec encodeURIComponent
  "\<lambda>m. case ebind m decodeURIComponent of Inl _ \<Rightarrow> [] | Inr s \<Rightarrow> s" well_formed
proof
  fix s
  assume w: "well_formed s"
  from encode_well_formed [OF w] obtain t where "encodeURIComponent s = Inr t" by blast
  with uri_roundtrip [OF this] w show "(case ebind (encodeURIComponent s) decodeURIComponent of Inl _ \<Rightarrow> [] | Inr s \<Rightarrow> s) = s"
    by (simp add: well_formed_def)
qed

text \<open>What the encoder writes has no separator of a cookie, no quote and no plus sign.\<close>

lemma hex_unit_set: "d < 16 \<Longrightarrow> hex_unit d \<in> {48..57} \<union> {65..70}"
  by (auto simp: hex_unit_def)

lemma pct_set: "b < 256 \<Longrightarrow> u \<in> set (pct b) \<Longrightarrow> u = 37 \<or> u \<in> {48..57} \<union> {65..70}"
  using hex_unit_set [of "b div 16"] hex_unit_set [of "b mod 16"] by (auto simp: pct_def less_mult_imp_div_less)

lemma cp_bytes_bound: "scalar c \<Longrightarrow> b \<in> set (cp_bytes c) \<Longrightarrow> b < 256"
  by (auto simp: cp_bytes_def scalar_def split: if_splits)

lemma encode_set:
  assumes "encodeURIComponent s = Inr t" "units s" "u \<in> set t"
  shows "u = 37 \<or> uri_unreserved u"
proof -
  from assms(1,3) obtain cs c where cs: "code_points s = Inr cs" "c \<in> set cs" and cu: "u \<in> set (enc_cp c)"
    by (auto simp: encodeURIComponent_def ebind_Inr)
  with code_points_units [OF cs(1) assms(2)] have c: "scalar c" "u \<in> set (enc_cp c)" by (auto simp: list_all_iff)
  show ?thesis
  proof (cases "uri_unreserved c")
    case True
    with c show ?thesis by (simp add: enc_cp_def)
  next
    case False
    with c obtain b where "b \<in> set (cp_bytes c)" "u \<in> set (pct b)" by (auto simp: enc_cp_def)
    with pct_set [of b u] cp_bytes_bound [OF c(1)] show ?thesis by (auto simp: uri_unreserved_def is_digit_def)
  qed
qed

lemma unreserved_not: "uri_unreserved u \<Longrightarrow> u \<noteq> 59 \<and> u \<noteq> 61 \<and> u \<noteq> 32 \<and> u \<noteq> 34 \<and> u \<noteq> 43"
  by (auto simp: uri_unreserved_def is_digit_def str_def)

lemma encode_clean:
  assumes "encodeURIComponent s = Inr t" "units s"
  shows "59 \<notin> set t" "61 \<notin> set t" "32 \<notin> set t" "34 \<notin> set t" "43 \<notin> set t"
  using encode_set [OF assms] unreserved_not by fastforce+

section \<open>Writing and reading back\<close>

definition raw_name :: "js_string \<Rightarrow> js_string" where
  "raw_name c = hd (js_split 61 c)"

definition cookie_safe :: "js_string \<Rightarrow> bool" where
  "cookie_safe s \<longleftrightarrow> list_all (\<lambda>u. u = 37 \<or> uri_unreserved u) s"

text \<open>
  What is used of the browser (RFC 6265).  A cookie is identified by its scope, that is domain and path, and its name;
  \<open>visible\<close> gives the cookies the page can read, in the order \<^verbatim>\<open>document.cookie\<close> lists them, and \<open>own\<close> is the
  scope of a cookie the page sets with path \<^verbatim>\<open>/\<close> and no domain.  An assignment that the browser accepts (it may
  refuse a cookie that is too long or one too many, or one that would replace an \<^verbatim>\<open>HttpOnly\<close> cookie) makes
  the cookie readable; the others listed then were listed before, with another scope or another name.
\<close>

definition session_store ::
  "('j \<Rightarrow> js_string) \<Rightarrow> ('j \<Rightarrow> js_string \<Rightarrow> 'j) \<Rightarrow> ('j \<Rightarrow> ('s \<times> js_string) list) \<Rightarrow> 's \<Rightarrow>
     ('j \<Rightarrow> js_string \<Rightarrow> bool) \<Rightarrow> bool" where
  "session_store document_cookie set_cookie visible own accepts \<longleftrightarrow>
     (\<forall>jar. cookie_list (document_cookie jar) = map snd (visible jar)) \<and>
     (\<forall>jar n v. n \<noteq> [] \<longrightarrow> cookie_safe n \<longrightarrow> cookie_safe v \<longrightarrow> accepts jar (n @ [61] @ v @ str ''; path=/'') \<longrightarrow>
        (\<exists>l1 l2. visible (set_cookie jar (n @ [61] @ v @ str ''; path=/'')) = l1 @ (own, n @ [61] @ v) # l2 \<and>
           set (l1 @ l2) \<subseteq> {(s, c) \<in> set (visible jar). s \<noteq> own \<or> raw_name c \<noteq> n}))"

lemma cookie_find_skip:
  assumes "list_all (\<lambda>c. case cookie_decode cfg (raw_name c) of Inl _ \<Rightarrow> False | Inr m \<Rightarrow> m \<noteq> key) l1"
  shows "cookie_find cfg key cv (l1 @ l2) = cookie_find cfg key cv l2"
  using assms by (induction l1) (auto simp: raw_name_def Let_def split: sum.splits)

lemma encode_safe: "encodeURIComponent s = Inr t \<Longrightarrow> units s \<Longrightarrow> cookie_safe t"
  by (auto simp: cookie_safe_def list_all_iff dest: encode_set)

lemma parse_encoded:
  assumes "encodeURIComponent s = Inr t" "units s" "\<not> json cfg"
  shows "parseCookieValue cfg t = JStr s"
proof -
  note clean = encode_clean [OF assms(1,2)]
  have "unquote t = t"
  proof (cases t)
    case (Cons a as)
    with clean(4) have "\<not> prefix_at [34] t 0" by (auto simp: prefix_at_def)
    then have "index_of t [34] \<noteq> 0" using index_of_first [of t "[34]" 0] by auto
    then show ?thesis by (simp add: unquote_def)
  qed (simp add: unquote_def index_of_def index_from_def prefix_at_def)
  moreover have "replace_units (\<lambda>c. if c = 43 then [32] else [c]) t = t"
    using clean(5) by (induction t) (auto simp: replace_units_def)
  ultimately show ?thesis
    using uri_roundtrip [OF assms(1,2)] assms(3) by (simp add: parseCookieValue_def)
qed

definition plain_config :: "cookie_env \<Rightarrow> bool" where
  "plain_config cfg \<longleftrightarrow> \<not> raw cfg \<and> \<not> json cfg \<and> defaults cfg = no_options"

definition root_path :: cookie_options where
  "root_path = no_options\<lparr>opt_path := Some (str ''/'')\<rparr>"

text \<open>
  Every name decodes, and a cookie that decodes to the key has the scope and the very name that will be written, so
  that the new one takes its place.
\<close>

definition clean_jar :: "cookie_env \<Rightarrow> 's \<Rightarrow> ('s \<times> js_string) list \<Rightarrow> js_string \<Rightarrow> bool" where
  "clean_jar cfg own cs key \<longleftrightarrow>
     list_all (\<lambda>(s, c). case cookie_decode cfg (raw_name c) of Inl _ \<Rightarrow> False
                   | Inr m \<Rightarrow> m \<noteq> key \<or> s = own \<and> cookie_encode cfg key = Inr (raw_name c)) cs"

lemma cookie_find_written:
  assumes "encodeURIComponent key = Inr n" "encodeURIComponent v = Inr t" "units key" "units v" "plain_config cfg"
  shows "cookie_find cfg key None ((n @ [61] @ t) # l2) = Inr (JStr v)"
proof -
  have "js_split 61 (n @ 61 # t) = n # js_split 61 t"
    by (rule js_split_append) (rule encode_clean [OF assms(1,3)])
  moreover have "js_split 61 t = [t]" by (rule js_split_notin) (rule encode_clean [OF assms(2,4)])
  ultimately show ?thesis
    using uri_roundtrip [OF assms(1,3)] parse_encoded [OF assms(2,4)] assms(5)
    by (simp add: cookie_decode_def cookie_read_def plain_config_def)
qed

lemma encode_ne: "encodeURIComponent s = Inr t \<Longrightarrow> units s \<Longrightarrow> s \<noteq> [] \<Longrightarrow> t \<noteq> []"
  using uri_roundtrip [of s t] by (subst (asm) decodeURIComponent.simps) (auto split: list.splits)

text \<open>
  C14. A value written with path \<^verbatim>\<open>/\<close>, as the login page does, is what the next read of the key returns.
  This holds for every non-empty key and every value without unpaired surrogates, in the default configuration
  (encoded, no JSON, no default options), when the browser accepts the cookie, every cookie name on the
  page decodes, and no cookie of another scope (domain or path) or another raw name decodes to the key.
\<close>

theorem cookie_roundtrip:
  assumes "session_store document_cookie set_cookie visible own accepts"
    and "plain_config cfg" "well_formed key" "key \<noteq> []" "well_formed v"
    and "clean_jar cfg own (visible jar) key"
    and "\<And>text. cookie_write cfg key (JStr v) root_path = Inr text \<Longrightarrow> accepts jar text"
  shows "\<exists>jar' text. cookie document_cookie set_cookie cfg jar key (JStr v) None root_path = Inr (jar', JStr text) \<and>
    cookie document_cookie set_cookie cfg jar' key Undefined None no_options = Inr (jar', JStr v)"
proof -
  from assms(3,5) encode_well_formed obtain n t where e: "encodeURIComponent key = Inr n" "encodeURIComponent v = Inr t"
    by blast
  from assms(3,5) have u: "units key" "units v" by (simp_all add: well_formed_def)
  let ?text = "n @ [61] @ t @ str ''; path=/''"
  have w: "cookie_write cfg key (JStr v) root_path = Inr ?text"
    using e assms(2)
    by (simp add: cookie_write_def stringifyCookieValue_def cookie_encode_def plain_config_def extend_options_def
        over_def no_options_def text_attr_def root_path_def expires_attr_def str_def Let_def)
  from assms(1) assms(7) [OF w] encode_ne [OF e(1) u(1) assms(4)] encode_safe [OF e(1) u(1)] encode_safe [OF e(2) u(2)]
  obtain l1 l2 where l: "visible (set_cookie jar ?text) = l1 @ (own, n @ [61] @ t) # l2"
    "set (l1 @ l2) \<subseteq> {(s, c) \<in> set (visible jar). s \<noteq> own \<or> raw_name c \<noteq> n}"
    unfolding session_store_def by blast
  have list: "cookie_list (document_cookie (set_cookie jar ?text)) = map snd l1 @ (n @ [61] @ t) # map snd l2"
    using assms(1) l(1) unfolding session_store_def by simp
  have "case cookie_decode cfg (raw_name c) of Inl _ \<Rightarrow> False | Inr m \<Rightarrow> m \<noteq> key" if "(s, c) \<in> set l1" for s c
  proof -
    from that l(2) have "(s, c) \<in> set (visible jar)" "s \<noteq> own \<or> raw_name c \<noteq> n" by auto
    with assms(2,6) e(1) show ?thesis
      by (fastforce simp: clean_jar_def list_all_iff cookie_encode_def plain_config_def split: sum.splits)
  qed
  then have "list_all (\<lambda>c. case cookie_decode cfg (raw_name c) of Inl _ \<Rightarrow> False | Inr m \<Rightarrow> m \<noteq> key) (map snd l1)"
    by (auto simp: list_all_iff)
  from cookie_find_skip [OF this] cookie_find_written [OF e u assms(2)]
  have "cookie_get cfg (document_cookie (set_cookie jar ?text)) key None = Inr (JStr v)"
    using assms(4) list by (simp add: cookie_get_def)
  with w show ?thesis by (simp add: cookie_def)
qed

text \<open>
  A store as a list of cookies, each with its path: the new cookie comes last and takes the place of one
  with its path and name.
\<close>

definition list_set :: "(js_string \<times> js_string) list \<Rightarrow> js_string \<Rightarrow> (js_string \<times> js_string) list" where
  "list_set jar text =
     (let pair = takeWhile (\<lambda>u. u \<noteq> 59) text;
          path = (if text = pair @ str ''; path=/'' then str ''/'' else str ''/console'') in
      filter (\<lambda>(p, c). p \<noteq> path \<or> raw_name c \<noteq> raw_name pair) jar @ [(path, pair)])"

fun no_sep :: "js_string \<Rightarrow> bool" where
  "no_sep (x # y # ys) = (\<not> (x = 59 \<and> y = 32) \<and> no_sep (y # ys))"
| "no_sep _ = True"

lemma split_semi_ne: "split_semi s \<noteq> []"
  by (induction s rule: split_semi.induct) (auto split: list.splits)

lemma split_semi_hd: "split_semi (y # ys) = z # zs \<Longrightarrow> z = [] \<or> hd z = y"
  by (cases ys) (auto split: if_splits list.splits)

lemma no_sep_Cons: "no_sep z \<Longrightarrow> z = [] \<or> hd z = y \<Longrightarrow> \<not> (x = 59 \<and> y = 32) \<Longrightarrow> no_sep (x # z)"
  by (cases z) auto

lemma split_semi_no_sep: "c \<in> set (split_semi s) \<Longrightarrow> no_sep c"
proof (induction s arbitrary: c rule: split_semi.induct)
  case (3 x y ys)
  obtain z zs where z: "split_semi (y # ys) = z # zs" by (meson split_semi_ne neq_Nil_conv)
  show ?case
  proof (cases "x = 59 \<and> y = 32")
    case False
    with 3(2) [OF False] z no_sep_Cons [OF _ split_semi_hd [OF z] False] 3(3) show ?thesis by auto
  qed (use 3 in auto)
qed auto

lemma split_semi_sep: "no_sep e \<Longrightarrow> split_semi (e @ 59 # 32 # r) = e # split_semi r"
  by (induction e rule: no_sep.induct) auto

lemma split_semi_single: "no_sep e \<Longrightarrow> split_semi e = [e]"
  by (induction e rule: no_sep.induct) auto

lemma split_semi_join: "list_all no_sep xs \<Longrightarrow> xs \<noteq> [] \<Longrightarrow> split_semi (js_join [59, 32] xs) = xs"
  by (induction "[59, 32] :: js_string" xs rule: js_join.induct) (auto simp: split_semi_single split_semi_sep)

lemma no_sep_safe: "59 \<notin> set s \<Longrightarrow> no_sep s"
  by (induction s rule: no_sep.induct) auto

definition list_visible :: "(js_string \<times> js_string) list \<Rightarrow> (js_string \<times> js_string) list" where
  "list_visible jar = filter (\<lambda>(p, c). c \<noteq> [] \<and> no_sep c) jar"

definition list_cookie :: "(js_string \<times> js_string) list \<Rightarrow> js_string" where
  "list_cookie jar = js_join [59, 32] (map snd (list_visible jar))"

definition list_accepts :: "(js_string \<times> js_string) list \<Rightarrow> js_string \<Rightarrow> bool" where
  "list_accepts jar text \<longleftrightarrow> length text \<le> 4096 \<and> length jar < 50"

lemma list_cookie_list: "cookie_list (list_cookie jar) = map snd (list_visible jar)"
proof (cases "list_visible jar")
  case (Cons p ps)
  have ok: "list_all (\<lambda>c. c \<noteq> [] \<and> no_sep c) (map snd (list_visible jar))"
    by (auto simp: list_visible_def list_all_iff)
  then have "split_semi (list_cookie jar) = map snd (list_visible jar)"
    unfolding list_cookie_def by (intro split_semi_join) (auto simp: Cons list_all_iff)
  moreover have "list_cookie jar \<noteq> []"
    using ok unfolding list_cookie_def Cons by (cases ps) auto
  ultimately show ?thesis by (simp add: cookie_list_def)
qed (simp add: list_cookie_def cookie_list_def)

lemma list_store: "session_store list_cookie list_set list_visible (str ''/'') list_accepts"
  unfolding session_store_def
proof (intro conjI allI impI)
  fix jar n v
  assume a: "n \<noteq> []" "cookie_safe n" "cookie_safe v"
  then have s: "59 \<notin> set (n @ [61] @ v)" "61 \<notin> set n"
    using unreserved_not by (fastforce simp: cookie_safe_def list_all_iff)+
  have pair: "takeWhile (\<lambda>u. u \<noteq> 59) (n @ [61] @ v @ str ''; path=/'') = n @ [61] @ v"
    using s(1) by (subst append_assoc [symmetric], subst append_assoc [symmetric], subst takeWhile_append2) (auto simp: str_def)
  have name: "raw_name (n @ [61] @ v) = n" using js_split_append [OF s(2), of v] by (simp add: raw_name_def)
  have set: "list_set jar (n @ [61] @ v @ str ''; path=/'') =
      filter (\<lambda>(p, c). p \<noteq> str ''/'' \<or> raw_name c \<noteq> n) jar @ [(str ''/'', n @ [61] @ v)]"
    unfolding list_set_def Let_def pair name by simp
  have "no_sep (n @ [61] @ v)" using s(1) by (rule no_sep_safe)
  then show "\<exists>l1 l2. list_visible (list_set jar (n @ [61] @ v @ str ''; path=/'')) = l1 @ (str ''/'', n @ [61] @ v) # l2 \<and>
      set (l1 @ l2) \<subseteq> {(s, c) \<in> set (list_visible jar). s \<noteq> str ''/'' \<or> raw_name c \<noteq> n}"
    unfolding set
    by (intro exI [of _ "list_visible (filter (\<lambda>(p, c). p \<noteq> str ''/'' \<or> raw_name c \<noteq> n) jar)"] exI [of _ "[]"])
      (auto simp: list_visible_def)
qed (rule list_cookie_list)

definition sample_env :: cookie_env where
  "sample_env = \<lparr>raw = False, json = False, defaults = no_options, json_stringify = to_str, json_parse = (\<lambda>s. Inr (JStr s)),
     toUTCString = int_str, now = 0\<rparr>"

lemma decode_plain: "37 \<notin> set s \<Longrightarrow> decodeURIComponent s = Inr s"
  by (induction s) (auto simp: decodeURIComponent.simps [of "[]"] decodeURIComponent.simps [of "_ # _"])

definition sample_jar :: "(js_string \<times> js_string) list" where
  "sample_jar = [(str ''/console'', str ''theme=1''), (str ''/'', str ''lang=en''), (str ''/'', str ''web-user=old'')]"

lemma sample_jar_clean: "clean_jar sample_env (str ''/'') (list_visible sample_jar) (str ''web-user'')"
proof -
  have "list_visible sample_jar = sample_jar" by code_simp
  moreover have "raw_name (str ''theme=1'') = str ''theme''" "raw_name (str ''lang=en'') = str ''lang''"
    "raw_name (str ''web-user=old'') = str ''web-user''"
    by code_simp+
  moreover have "encodeURIComponent (str ''web-user'') = Inr (str ''web-user'')"
    by (simp add: encodeURIComponent_def str_def enc_cp_def uri_unreserved_def is_digit_def)
  moreover have "str ''lang'' \<noteq> str ''web-user''" "str ''theme'' \<noteq> str ''web-user''" "37 \<notin> set (str ''lang'')"
    "37 \<notin> set (str ''theme'')" "37 \<notin> set (str ''web-user'')"
    by (simp_all add: str_def)
  ultimately show ?thesis
    by (simp add: clean_jar_def sample_jar_def cookie_decode_def cookie_encode_def sample_env_def decode_plain)
qed

theorem cookie_roundtrip_witness:
  "\<exists>jar' text. cookie list_cookie list_set sample_env sample_jar (str ''web-user'')
       (JStr [0x5F20, 32, 59]) None root_path = Inr (jar', JStr text) \<and>
     cookie list_cookie list_set sample_env jar' (str ''web-user'') Undefined None no_options =
       Inr (jar', JStr [0x5F20, 32, 59])"
proof (rule cookie_roundtrip [OF list_store])
  show "plain_config sample_env" by (simp add: plain_config_def sample_env_def)
  show "str ''web-user'' \<noteq> []" by code_simp
  show "well_formed (str ''web-user'')" "well_formed [0x5F20, 32, 59]"
    by (simp_all add: well_formed_def units_def is_unit_def str_def)
  show "clean_jar sample_env (str ''/'') (list_visible sample_jar) (str ''web-user'')"
    by (rule sample_jar_clean)
  fix s assume "cookie_write sample_env (str ''web-user'') (JStr [0x5F20, 32, 59]) root_path = Inr s"
  then show "list_accepts sample_jar s"
    by (auto simp: cookie_write_def stringifyCookieValue_def cookie_encode_def sample_env_def extend_options_def over_def
        no_options_def text_attr_def root_path_def expires_attr_def encodeURIComponent_def enc_cp_def uri_unreserved_def
        is_digit_def cp_bytes_def pct_def str_def list_accepts_def sample_jar_def)
qed

lemma decode_error: "decodeURIComponent s = Inl e \<Longrightarrow> e = Thrown ''URIError''"
proof (induction s rule: decodeURIComponent.induct)
  case (1 s)
  from 1(3) have eq: "(case s of [] \<Rightarrow> Inr [] | u # us \<Rightarrow>
      if u \<noteq> 37 then ebind (decodeURIComponent us) (\<lambda>t. Inr (u # t))
      else (case dec_seq s of None \<Rightarrow> Inl (Thrown ''URIError'')
            | Some (c, r) \<Rightarrow> ebind (decodeURIComponent r) (\<lambda>t. Inr (cp_units c @ t)))) = Inl e"
    by (subst (asm) decodeURIComponent.simps)
  show ?case
  proof (cases s)
    case (Cons u us)
    show ?thesis
    proof (cases "u = 37")
      case False
      with eq Cons have "decodeURIComponent us = Inl e" by (cases "decodeURIComponent us") auto
      with 1(1) [OF Cons False] show ?thesis by simp
    next
      case True
      show ?thesis
      proof (cases "dec_seq s")
        case (Some p)
        obtain c r where p: "(c, r) = p" by (cases p) auto
        with Some eq Cons True have "decodeURIComponent r = Inl e" by (cases "decodeURIComponent r") auto
        with 1(2) [OF Cons _ Some p] True show ?thesis by simp
      qed (use eq Cons True in simp)
    qed
  qed (use eq in simp)
qed

text \<open>
  C32. One cookie whose name is not a valid escape sequence hides every cookie after it: reading a key
  that comes later throws, whatever its value.
\<close>

theorem cookie_bad_name_throws:
  assumes "plain_config cfg" "key \<noteq> []" "cookie_list doc = l1 @ c # l2" "decodeURIComponent (raw_name c) = Inl e"
    and "list_all (\<lambda>c. case cookie_decode cfg (raw_name c) of Inl _ \<Rightarrow> False | Inr m \<Rightarrow> m \<noteq> key) l1"
  shows "cookie_get cfg doc key None = Inl (Thrown ''URIError'')"
  using assms(1-4) cookie_find_skip [OF assms(5)] decode_error [OF assms(4)]
  by (simp add: cookie_get_def cookie_decode_def plain_config_def raw_name_def Let_def)

theorem cookie_bad_name_throws_witness:
  "cookie_get sample_env (str ''lang=en; 100%=x; web-user=bob'') (str ''web-user'') None = Inl (Thrown ''URIError'')"
proof (rule cookie_bad_name_throws)
  show "cookie_list (str ''lang=en; 100%=x; web-user=bob'') = [str ''lang=en''] @ str ''100%=x'' # [str ''web-user=bob'']"
    by code_simp
  have names: "raw_name (str ''100%=x'') = str ''100%''" "raw_name (str ''lang=en'') = str ''lang''" by code_simp+
  show "plain_config sample_env" by (simp add: plain_config_def sample_env_def)
  show "str ''web-user'' \<noteq> []" by code_simp
  show "decodeURIComponent (raw_name (str ''100%=x'')) = Inl (Thrown ''URIError'')"
    unfolding names by (simp add: str_def decodeURIComponent.simps dec_seq_def)
  show "list_all (\<lambda>c. case cookie_decode sample_env (raw_name c) of Inl _ \<Rightarrow> False | Inr m \<Rightarrow> m \<noteq> str ''web-user'') [str ''lang=en'']"
    using decode_plain [of "str ''lang''"]
    by (simp add: names(2) cookie_decode_def sample_env_def) (simp add: str_def)
qed

end
