(* ===== verification/Regex.thy ===== *)
theory Regex
  imports JsString
begin

text \<open>
  The regular expressions the scripts test whole strings with (anchored by \<^verbatim>\<open>^\<close> and \<^verbatim>\<open>$\<close>, no captures):
  such a test asks whether the string belongs to a regular language, which \<open>matches\<close> decides by
  derivatives.
\<close>

datatype re = Zero | Eps | Cls "code_unit \<Rightarrow> bool" | Seq re re | Alt re re | Star re

fun nullable :: "re \<Rightarrow> bool" where
  "nullable Zero = False"
| "nullable Eps = True"
| "nullable (Cls p) = False"
| "nullable (Seq r s) = (nullable r \<and> nullable s)"
| "nullable (Alt r s) = (nullable r \<or> nullable s)"
| "nullable (Star r) = True"

fun deriv :: "code_unit \<Rightarrow> re \<Rightarrow> re" where
  "deriv c Zero = Zero"
| "deriv c Eps = Zero"
| "deriv c (Cls p) = (if p c then Eps else Zero)"
| "deriv c (Seq r s) = (if nullable r then Alt (Seq (deriv c r) s) (deriv c s) else Seq (deriv c r) s)"
| "deriv c (Alt r s) = Alt (deriv c r) (deriv c s)"
| "deriv c (Star r) = Seq (deriv c r) (Star r)"

fun matches :: "re \<Rightarrow> js_string \<Rightarrow> bool" where
  "matches r [] = nullable r"
| "matches r (c # s) = matches (deriv c r) s"

text \<open>The language of an expression, as a relation.\<close>

inductive in_lang :: "re \<Rightarrow> js_string \<Rightarrow> bool" where
  eps: "in_lang Eps []"
| cls: "p c \<Longrightarrow> in_lang (Cls p) [c]"
| seq: "in_lang r x \<Longrightarrow> in_lang s y \<Longrightarrow> in_lang (Seq r s) (x @ y)"
| altl: "in_lang r x \<Longrightarrow> in_lang (Alt r s) x"
| altr: "in_lang s x \<Longrightarrow> in_lang (Alt r s) x"
| star0: "in_lang (Star r) []"
| star1: "in_lang r x \<Longrightarrow> in_lang (Star r) y \<Longrightarrow> in_lang (Star r) (x @ y)"

inductive_simps in_lang_Zero [simp]: "in_lang Zero x"
inductive_simps in_lang_Eps [simp]: "in_lang Eps x"
inductive_simps in_lang_Cls [simp]: "in_lang (Cls p) x"
inductive_simps in_lang_Seq: "in_lang (Seq r s) x"
inductive_simps in_lang_Alt [simp]: "in_lang (Alt r s) x"
inductive_cases in_lang_StarE: "in_lang (Star r) x"

lemma nullable_lang: "nullable r \<longleftrightarrow> in_lang r []"
  by (induction r) (auto simp: in_lang_Seq intro: in_lang.intros)

lemma star_cons: "in_lang (Star r) w \<Longrightarrow> w = c # s \<Longrightarrow> \<exists>x y. s = x @ y \<and> in_lang r (c # x) \<and> in_lang (Star r) y"
proof (induction "Star r" w arbitrary: s rule: in_lang.induct)
  case (star1 x y)
  show ?case
  proof (cases x)
    case Nil
    with star1 show ?thesis by simp
  next
    case (Cons a xs)
    with star1 show ?thesis by auto
  qed
qed simp

lemma deriv_lang: "in_lang (deriv c r) s \<longleftrightarrow> in_lang r (c # s)"
proof (induction r arbitrary: s)
  case (Seq r1 r2)
  show ?case
  proof
    assume "in_lang (deriv c (Seq r1 r2)) s"
    then consider x y where "s = x @ y" "in_lang r1 (c # x)" "in_lang r2 y" | "nullable r1" "in_lang r2 (c # s)"
      by (auto simp: in_lang_Seq Seq.IH split: if_splits)
    then show "in_lang (Seq r1 r2) (c # s)"
    proof cases
      case 1
      then show ?thesis using in_lang.seq [of r1 "c # x" r2 y] by simp
    next
      case 2
      then show ?thesis using in_lang.seq [of r1 "[]" r2 "c # s"] by (simp add: nullable_lang)
    qed
  next
    assume "in_lang (Seq r1 r2) (c # s)"
    then obtain x y where xy: "c # s = x @ y" "in_lang r1 x" "in_lang r2 y" by (auto simp: in_lang_Seq)
    show "in_lang (deriv c (Seq r1 r2)) s"
    proof (cases x)
      case Nil
      with xy show ?thesis by (auto simp: nullable_lang Seq.IH)
    next
      case (Cons a xs)
      with xy have "in_lang r1 (c # xs)" and s: "s = xs @ y" by auto
      then have "in_lang (deriv c r1) xs" using Seq.IH(1) by blast
      with s xy(3) have "in_lang (Seq (deriv c r1) r2) s" by (auto intro: in_lang.seq)
      then show ?thesis by auto
    qed
  qed
next
  case (Star r)
  show ?case
  proof
    assume "in_lang (deriv c (Star r)) s"
    then obtain x y where "s = x @ y" "in_lang r (c # x)" "in_lang (Star r) y" by (auto simp: in_lang_Seq Star.IH)
    then show "in_lang (Star r) (c # s)" using in_lang.star1 [of r "c # x" y] by simp
  next
    assume "in_lang (Star r) (c # s)"
    from star_cons [OF this refl] show "in_lang (deriv c (Star r)) s" by (auto simp: in_lang_Seq Star.IH)
  qed
qed auto

lemma matches_lang: "matches r s \<longleftrightarrow> in_lang r s"
  by (induction s arbitrary: r) (auto simp: nullable_lang deriv_lang)

lemma in_lang_Cls_Seq: "in_lang (Seq (Cls p) r) s \<longleftrightarrow> (\<exists>c t. s = c # t \<and> p c \<and> in_lang r t)"
  by (auto simp: in_lang_Seq) (metis append_Cons append_Nil)

lemma in_lang_Seq_assoc: "in_lang (Seq (Seq a b) c) s \<longleftrightarrow> in_lang (Seq a (Seq b c)) s"
  unfolding in_lang_Seq by (metis append_assoc)

lemma in_lang_Seq_Eps: "in_lang (Seq r Eps) s \<longleftrightarrow> in_lang r s"
  by (simp add: in_lang_Seq)

text \<open>Ranges of code units, literals and bounded repetition.\<close>

definition rng :: "nat \<Rightarrow> nat \<Rightarrow> re" where
  "rng a b = Cls (\<lambda>c. a \<le> c \<and> c \<le> b)"

definition lit :: "code_unit \<Rightarrow> re" where
  "lit c = Cls (\<lambda>x. x = c)"

text \<open>\<^verbatim>\<open>.\<close> matches anything but the four line terminators.\<close>

definition dot :: re where
  "dot = Cls (\<lambda>c. c \<noteq> 10 \<and> c \<noteq> 13 \<and> c \<noteq> 8232 \<and> c \<noteq> 8233)"

fun repeat :: "nat \<Rightarrow> re \<Rightarrow> re" where
  "repeat 0 r = Eps"
| "repeat (Suc n) r = Seq r (repeat n r)"

end
