(* ===== verification/Console.thy ===== *)
theory Console
  imports Regex
begin

text \<open>
  The scripts of the web console's pages: \<^verbatim>\<open>util.js\<close>, \<^verbatim>\<open>config.js\<close>, \<^verbatim>\<open>ajax.data.controller.js\<close> and
  \<^verbatim>\<open>web.data.common.js\<close>.  A page is a record: the input fields, the requests under way, the loading
  layers that are open, the closures waiting for a dialog or a timer, and the log of what the scripts did
  to the page.  A handler is a computation on the page that may throw and keeps what it did before it
  threw.  Callbacks are named by their place in the source; \<open>run_callback\<close> holds their bodies.
\<close>

section \<open>The page\<close>

datatype callback =
    LogoutCb | QueryUserCb | SsoLoginCb | SsoLogoutCb | QuerySsoUserCb | LoadAppsCb
  | DeleteUserCb | ResetPwdCb | AppStatusCb

datatype cont =
    GotoUrl js_string
  | RefreshTable string
  | DeleteUser jsv
  | ResetPassword jsv
  | ResetPasswordWith jsv

datatype ui =
    Html string jsv
  | SetAttr string string jsv
  | SetVal string js_string
  | FocusOn string
  | AddClass string string
  | RemoveClass string string
  | EmptyEl string
  | AppendEl string js_string
  | PopoverToggle string
  | Msg js_string nat nat
  | Tips js_string string nat
  | Alert js_string
  | Content js_string js_string js_string js_string
  | ConfirmBox js_string js_string js_string
  | PromptBox js_string
  | Location js_string
  | ConsoleLog js_string
  | BootstrapTable string string

record request =
  req_url :: js_string
  req_params :: jsv
  req_goto :: "js_string option"
  req_callback :: "callback option"
  req_async :: jsv
  req_method :: js_string
  req_layer :: nat

record page =
  input :: "string \<Rightarrow> js_string"
  search_part :: js_string
  web_user :: "js_error + js_string"
  pending :: "request list"
  layers :: "nat list"
  next_layer :: nat
  deferred :: "cont list"
  ui_log :: "ui list"

type_synonym 'a act = "page \<Rightarrow> (js_error + 'a) \<times> page"

definition ret :: "'a \<Rightarrow> 'a act" where
  "ret x p = (Inr x, p)"

definition throw :: "js_error \<Rightarrow> 'a act" where
  "throw e p = (Inl e, p)"

definition abind :: "'a act \<Rightarrow> ('a \<Rightarrow> 'b act) \<Rightarrow> 'b act" where
  "abind m f p = (case m p of (Inl e, p') \<Rightarrow> (Inl e, p') | (Inr x, p') \<Rightarrow> f x p')"

definition lift :: "js_error + 'a \<Rightarrow> 'a act" where
  "lift r p = (r, p)"

fun seq :: "unit act list \<Rightarrow> unit act" where
  "seq [] = ret ()"
| "seq (a # as) = abind a (\<lambda>_. seq as)"

definition emit :: "ui \<Rightarrow> unit act" where
  "emit e p = (Inr (), p\<lparr>ui_log := ui_log p @ [e]\<rparr>)"

definition defer_cont :: "cont \<Rightarrow> unit act" where
  "defer_cont k p = (Inr (), p\<lparr>deferred := deferred p @ [k]\<rparr>)"

definition try_catch :: "unit act \<Rightarrow> unit act" where
  "try_catch m p = (Inr (), snd (m p))"

definition field :: "jsv \<Rightarrow> string \<Rightarrow> jsv act" where
  "field v k = lift (get_prop v (str k))"

text \<open>jQuery's setters leave the element alone when the value is \<^verbatim>\<open>undefined\<close>.\<close>

definition set_html :: "string \<Rightarrow> jsv \<Rightarrow> unit act" where
  "set_html sel v = (if v = Undefined then ret () else emit (Html sel v))"

definition set_attr :: "string \<Rightarrow> string \<Rightarrow> jsv \<Rightarrow> unit act" where
  "set_attr sel name v = (if v = Undefined then ret () else emit (SetAttr sel name v))"

definition val_trim :: "string \<Rightarrow> js_string act" where
  "val_trim sel p = (Inr (js_trim (input p sel)), p)"

definition set_val :: "string \<Rightarrow> js_string \<Rightarrow> unit act" where
  "set_val sel v p = (Inr (), p\<lparr>input := (input p)(sel := v), ui_log := ui_log p @ [SetVal sel v]\<rparr>)"

section \<open>Messages of the scripts\<close>

definition msg_logout_failed :: js_string where (* logout failed *)
  "msg_logout_failed = [0x9000, 0x51FA, 0x5931, 0x8D25, 46]"

definition msg_bad_login :: js_string where (* wrong user name or password *)
  "msg_bad_login = [0x7528, 0x6237, 0x540D, 0x6216, 0x5BC6, 0x7801, 0x9519, 0x8BEF, 46]"

definition msg_enter_user :: js_string where (* enter the user name *)
  "msg_enter_user = [0x8BF7, 0x8F93, 0x5165, 0x7528, 0x6237, 0x540D]"

definition msg_enter_password :: js_string where (* enter the password *)
  "msg_enter_password = [0x8BF7, 0x8F93, 0x5165, 0x5BC6, 0x7801]"

definition msg_apps_failed :: js_string where (* loading the applications failed, with the prefix of the message *)
  "msg_apps_failed = [0x83B7, 0x53D6, 0x5E94, 0x7528, 0x5217, 0x8868, 0x5F02, 0x5E38, 46, 32, 109, 115, 103, 61]"

definition msg_required :: js_string where (* required *)
  "msg_required = [0x5FC5, 0x586B, 0x9879]"

definition msg_http_prefix :: js_string where (* the address needs the http prefix *)
  "msg_http_prefix = [0x4E3B, 0x9875, 0x5730, 0x5740, 0x5E26, 0x6709, 72, 116, 116, 112, 0x524D, 0x7F00]"

definition msg_row_pre :: js_string where (* row number, before *)
  "msg_row_pre = [0x7B2C]"

definition msg_row_post :: js_string where (* row number, after: invalid IP address *)
  "msg_row_post = [0x884C, 73, 80, 0x5730, 0x5740, 0x65E0, 0x6548]"

definition msg_delete_pre :: js_string where (* delete the user named, before *)
  "msg_delete_pre = [0x786E, 0x5B9A, 0x5220, 0x9664, 0x7528, 0x6237, 0x540D, 0x4E3A, 0x201C]"

definition msg_delete_post :: js_string where (* delete the user named, after *)
  "msg_delete_post = [0x201D, 0x7684, 0x7528, 0x6237, 0x4FE1, 0x606F, 0x5417, 0xFF1F]"

definition msg_deleted :: js_string where (* deleted *)
  "msg_deleted = [0x5220, 0x9664, 0x6210, 0x529F]"

definition msg_delete_failed :: js_string where (* deleting failed *)
  "msg_delete_failed = [0x5220, 0x9664, 0x5F02, 0x5E38, 46, 32]"

definition msg_reset_pre :: js_string where (* reset the password of, before *)
  "msg_reset_pre = [0x786E, 0x5B9A, 0x91CD, 0x7F6E, 0x201C]"

definition msg_reset_post :: js_string where (* reset the password of, after *)
  "msg_reset_post = [0x201D, 0x7684, 0x767B, 0x9646, 0x5BC6, 0x7801, 0xFF1F]"

definition msg_new_password :: js_string where (* enter the new password *)
  "msg_new_password = [0x8BF7, 0x8F93, 0x5165, 0x65B0, 0x7684, 0x5BC6, 0x7801]"

definition msg_reset_done :: js_string where (* password reset *)
  "msg_reset_done = [0x5BC6, 0x7801, 0x91CD, 0x7F6E, 0x6210, 0x529F]"

definition msg_reset_failed :: js_string where (* resetting failed *)
  "msg_reset_failed = [0x5BC6, 0x7801, 0x91CD, 0x7F6E, 0x5F02, 0x5E38, 46, 32]"

definition msg_done :: js_string where (* done *)
  "msg_done = [0x64CD, 0x4F5C, 0x6210, 0x529F]"

definition msg_failed :: js_string where (* failed, because *)
  "msg_failed = [0x64CD, 0x4F5C, 0x5F02, 0x5E38, 46, 0x539F, 0x56E0, 0x662F, 58, 32]"

definition msg_loading :: js_string where (* loading *)
  "msg_loading = [0x52A0, 0x8F7D, 0x4E2D, 46, 46, 46]"

definition msg_ok_button :: js_string where (* ok *)
  "msg_ok_button = [0x786E, 0x5B9A]"

definition msg_cancel_button :: js_string where (* cancel *)
  "msg_cancel_button = [0x53D6, 0x6D88]"

section \<open>util.js\<close>

text \<open>
  \<^verbatim>\<open>getUrlParameter\<close>: the first place of the query where the name stands at the start or after an
  ampersand, followed by an equals sign; the value runs to the next ampersand.  The name is an
  identifier, so the pattern built from it matches it literally.  \<open>unescape\<close> turns \<^verbatim>\<open>%uXXXX\<close> and \<^verbatim>\<open>%XX\<close>
  into code units and leaves everything else alone.
\<close>

definition hex_digit :: "code_unit \<Rightarrow> nat option" where
  "hex_digit c = radix_digit 16 c"

definition hex_run :: "js_string \<Rightarrow> nat option" where
  "hex_run s =
     (if list_all (\<lambda>c. hex_digit c \<noteq> None) s then Some (foldl (\<lambda>a c. 16 * a + the (hex_digit c)) 0 s) else None)"

function unescape :: "js_string \<Rightarrow> js_string" where
  "unescape s =
     (case s of
        [] \<Rightarrow> []
      | c # r \<Rightarrow>
          if c = 37 \<and> length r \<ge> 5 \<and> hd r = 117 \<and> hex_run (take 4 (tl r)) \<noteq> None
          then the (hex_run (take 4 (tl r))) # unescape (drop 5 r)
          else if c = 37 \<and> length r \<ge> 2 \<and> hex_run (take 2 r) \<noteq> None
          then the (hex_run (take 2 r)) # unescape (drop 2 r)
          else c # unescape r)"
  by pat_completeness auto
termination by (relation "measure length") auto

declare unescape.simps [simp del]

definition param_value :: "js_string \<Rightarrow> js_string list \<Rightarrow> js_string option" where
  "param_value name parts =
     map_option (drop (Suc (length name))) (find (\<lambda>q. take (Suc (length name)) q = name @ [61]) parts)"

definition getUrlParameter :: "string \<Rightarrow> js_string option act" where
  "getUrlParameter name p =
     (Inr (map_option unescape (param_value (str name) (js_split 38 (drop 1 (search_part p))))), p)"

text \<open>\<^verbatim>\<open>String.prototype.format\<close>: \<^verbatim>\<open>{n}\<close> becomes the \<open>n\<close>-th argument, \<^verbatim>\<open>undefined\<close> when there is none.\<close>

definition format_arg :: "js_string list \<Rightarrow> js_string \<Rightarrow> js_string" where
  "format_arg args ds =
     (let i = nat (dec_val ds) in
      if ds = digits i \<and> i < length args then args ! i else str ''undefined'')"

function string_format :: "js_string \<Rightarrow> js_string list \<Rightarrow> js_string" where
  "string_format s args =
     (case s of
        [] \<Rightarrow> []
      | c # r \<Rightarrow>
          let ds = takeWhile is_digit r; r' = dropWhile is_digit r in
          if c = 123 \<and> ds \<noteq> [] \<and> r' \<noteq> [] \<and> hd r' = 125
          then format_arg args ds @ string_format (tl r') args
          else c # string_format r args)"
  by pat_completeness auto
termination
  by (relation "measure (\<lambda>(s, args). length s)")
    (auto simp: less_Suc_eq_le intro: le_trans [OF diff_le_self length_dropWhile_le])

declare string_format.simps [simp del]

definition getWebRootPath :: "js_string \<Rightarrow> js_string \<Rightarrow> js_string" where
  "getWebRootPath href url =
     (let w = js_substring href (index_of href (str ''//'') + 2) (int (length href));
          w = js_substring w (index_of w (str ''/'') + 1) (int (length w));
          w = js_substring w 0 (index_of w (str ''/''))
      in if url \<noteq> [] \<and> index_of url w > 0 then url
         else if url \<noteq> [] then str ''/'' @ w @ str ''/'' @ url else str ''/'' @ w)"

definition myConsoleLog :: "js_string \<Rightarrow> unit act" where
  "myConsoleLog strData = try_catch (emit (ConsoleLog strData))"

definition gotoHref :: "js_string \<Rightarrow> unit act" where
  "gotoHref gotoUrl = emit (Location gotoUrl)"

definition errorMsg :: "js_string \<Rightarrow> unit act" where
  "errorMsg msg = emit (Msg msg 2 1200)"

definition errorGotoUrl :: "js_string \<Rightarrow> js_string \<Rightarrow> unit act" where
  "errorGotoUrl msg gotoUrl = seq [emit (Msg msg 2 50), defer_cont (GotoUrl gotoUrl)]"

definition successMsgFn :: "js_string \<Rightarrow> unit act" where
  "successMsgFn msg = emit (Msg msg 6 600)"

definition successAndFn :: "js_string \<Rightarrow> cont \<Rightarrow> unit act" where
  "successAndFn msg fn = seq [emit (Msg msg 6 300), defer_cont fn]"

definition successGotoUrl :: "js_string \<Rightarrow> js_string \<Rightarrow> unit act" where
  "successGotoUrl msg gotoUrl = seq [emit (Msg msg 6 300), defer_cont (GotoUrl gotoUrl)]"

definition tipsLoginMsg :: "js_string \<Rightarrow> string \<Rightarrow> unit act" where
  "tipsLoginMsg msg domId = emit (Tips msg domId 2)"

definition tipsInputParamMsg :: "js_string \<Rightarrow> string \<Rightarrow> unit act" where
  "tipsInputParamMsg msg domId = emit (Tips msg domId 3)"

definition tipsUserIdMsg :: "js_string \<Rightarrow> string \<Rightarrow> unit act" where
  "tipsUserIdMsg msg domId = emit (Tips msg domId 3)"

definition promptMsg :: "js_string \<Rightarrow> cont \<Rightarrow> unit act" where
  "promptMsg title fn = seq [emit (PromptBox title), defer_cont fn]"

definition alertMsg :: "js_string \<Rightarrow> cont \<Rightarrow> unit act" where
  "alertMsg msg fn = seq [emit (Alert msg), defer_cont fn]"

definition tipsContent :: "js_string \<Rightarrow> js_string \<Rightarrow> js_string \<Rightarrow> js_string \<Rightarrow> unit act" where
  "tipsContent title content width height = emit (Content title content width height)"

definition confirmMsg :: "js_string \<Rightarrow> cont \<Rightarrow> unit act" where
  "confirmMsg msg sureFn = seq [emit (ConfirmBox msg msg_ok_button msg_cancel_button), defer_cont sureFn]"

definition openLoading :: "nat act" where
  "openLoading p =
     (Inr (next_layer p), p\<lparr>layers := layers p @ [next_layer p], next_layer := next_layer p + 1,
        ui_log := ui_log p @ [Msg msg_loading 16 3000]\<rparr>)"

definition closeLoading :: "nat \<Rightarrow> unit act" where
  "closeLoading index p = (Inr (), p\<lparr>layers := removeAll index (layers p)\<rparr>)"

section \<open>config.js\<close>

definition globalConfig :: "(string \<times> string) list" where
  "globalConfig =
     [(''enblabRootPath'', ''1''), (''api.domain'', []), (''api.rootPath'', []), (''api.login'', ''/app/login''),
      (''api.logout'', ''/app/logout''), (''api.verify.sign'', ''/sso/token.do''), (''api.user.query'', ''/app/loginUserInfo'')]"

text \<open>\<open>rnd\<close> is what \<^verbatim>\<open>Math.random()\<close> returns.\<close>

definition globalApi :: "rat \<Rightarrow> string \<Rightarrow> js_string" where
  "globalApi rnd key =
     (let api = (case map_of globalConfig key of None \<Rightarrow> ''/unknown/'' | Some v \<Rightarrow> if v = [] then ''/unknown/'' else v)
      in str api @ str ''?r='' @ rat_str rnd)"

section \<open>ajax.data.controller.js\<close>

definition ajaxDataController ::
  "js_string \<Rightarrow> jsv \<Rightarrow> js_string option \<Rightarrow> callback option \<Rightarrow> jsv \<Rightarrow> js_string \<Rightarrow> unit act" where
  "ajaxDataController requestUrl params gotoUrl callback async method =
     (if method = [] then throw (Thrown ''method'')
      else abind openLoading (\<lambda>loadIndex p.
        (Inr (), p\<lparr>pending := pending p @
           [\<lparr>req_url = requestUrl, req_params = js_or params (JObj []), req_goto = gotoUrl, req_callback = callback,
             req_async = js_or async (JBool True), req_method = method, req_layer = loadIndex\<rparr>]\<rparr>)))"

section \<open>web.data.common.js\<close>

text \<open>\<^verbatim>\<open>JSON.stringify\<close> of the objects of strings the handlers send; \<^verbatim>\<open>undefined\<close> members are left out.\<close>

fun json_scalar :: "jsv \<Rightarrow> js_string" where
  "json_scalar (JStr s) = json_quote s"
| "json_scalar (JNum (Fin x)) = rat_str x"
| "json_scalar (JBool b) = (if b then str ''true'' else str ''false'')"
| "json_scalar _ = str ''null''"

definition json_object :: "(string \<times> jsv) list \<Rightarrow> js_string" where
  "json_object ps =
     [123] @ js_join [44] (map (\<lambda>(k, v). json_quote (str k) @ [58] @ json_scalar v)
       (filter (\<lambda>(k, v). v \<noteq> Undefined) ps)) @ [125]"

text \<open>The test \<^verbatim>\<open>data && data.code === 0\<close> of every callback, and \<^verbatim>\<open>>\<close> on a value converted to a number.\<close>

definition code_ok :: "jsv \<Rightarrow> bool act" where
  "code_ok data = (if truthy data then abind (field data ''code'') (\<lambda>c. ret (strict_eq c (JInt 0))) else ret False)"

definition gt0 :: "jsv \<Rightarrow> bool" where
  "gt0 v = (case to_num v of NaN \<Rightarrow> False | PosInf \<Rightarrow> True | NegInf \<Rightarrow> False | Fin x \<Rightarrow> x > 0)"

definition ok_positive :: "jsv \<Rightarrow> bool act" where
  "ok_positive data = abind (code_ok data) (\<lambda>ok. if ok then abind (field data ''data'') (\<lambda>d. ret (gt0 d)) else ret False)"

text \<open>The user whose name the cookie plugin returns; the calls stand in \<^verbatim>\<open>try\<close> blocks.\<close>

definition read_logined_user :: "unit act" where
  "read_logined_user =
     try_catch (\<lambda>p. (case web_user p of Inl e \<Rightarrow> throw e
                     | Inr u \<Rightarrow> seq [emit (Html ''#user-name'' (JStr u)), emit (SetAttr ''#logout'' ''user-name'' (JStr u))]) p)"

definition read_cookie_user :: "unit act" where
  "read_cookie_user =
     try_catch (\<lambda>p. (case web_user p of Inl e \<Rightarrow> throw e | Inr u \<Rightarrow> set_val ''#txt_user_name'' u) p)"

definition set_cookie_login :: "js_string \<Rightarrow> unit act" where
  "set_cookie_login cookieValue = try_catch (\<lambda>p. (Inr (), p\<lparr>web_user := Inr cookieValue\<rparr>))"

definition handler_sso_userinfo :: "jsv \<Rightarrow> unit act" where
  "handler_sso_userinfo bodyData =
     abind (field bodyData ''post'') (\<lambda>post.
     abind (set_html ''#user_post'' (js_or post (JStr []))) (\<lambda>_.
     abind (field bodyData ''lastLoginDate'') (\<lambda>d.
     abind (set_html ''#last_login_time'' d) (\<lambda>_.
     abind (field bodyData ''userName'') (\<lambda>u. set_html ''#user_name'' u)))))"

definition build_div_appInfo :: "jsv \<Rightarrow> jsv \<Rightarrow> bool \<Rightarrow> js_string" where
  \<open>build_div_appInfo linkUrl value isNewLine =
     str ''<div class="col-md-2 text-left">'' @ str ''<a href="'' @ to_str linkUrl @
     str ''" class="btn btn-sm btn-success btn-block text-center" target="_blank">'' @ to_str value @ str ''</a>'' @
     str ''</div>'' @ (if isNewLine then str ''<br/><br/><br/>'' else [])\<close>

fun app_divs :: "nat \<Rightarrow> jsv list \<Rightarrow> js_string act" where
  "app_divs cnt [] = ret []"
| "app_divs cnt (el # els) =
     abind (field el ''appUrl'') (\<lambda>u.
     abind (field el ''appName'') (\<lambda>n.
     abind (app_divs (Suc cnt) els) (\<lambda>rest. ret (build_div_appInfo u n (Suc cnt mod 6 = 0) @ rest))))"

text \<open>What \<^verbatim>\<open>$.each\<close> visits: the elements of an array or array-like object, the values of another object.\<close>

definition each_values :: "jsv \<Rightarrow> jsv list act" where
  "each_values v =
     (case v of
        JArr vs \<Rightarrow> ret vs
      | JObj ps \<Rightarrow>
          (case lookup ps (str ''length'') of
             JNum (Fin x) \<Rightarrow>
               if x = of_int \<lfloor>x\<rfloor> \<and> x > 0 \<and> digits (nat \<lfloor>x\<rfloor> - 1) \<in> fst ` set ps
               then ret (map (\<lambda>i. lookup ps (digits i)) [0..<nat \<lfloor>x\<rfloor>])
               else ret (map snd ps)
           | _ \<Rightarrow> ret (map snd ps))
      | JStr s \<Rightarrow> if s = [] then ret [] else throw TypeError
      | JNum x \<Rightarrow> if truthy v then throw TypeError else ret []
      | JBool b \<Rightarrow> if b then throw TypeError else ret []
      | _ \<Rightarrow> ret [])"

definition handler_app_div :: "jsv \<Rightarrow> unit act" where
  "handler_app_div bodyData =
     abind (each_values bodyData) (\<lambda>els.
     abind (app_divs 0 els) (\<lambda>html.
     seq [emit (EmptyEl ''#divShowAppLink''), emit (AppendEl ''#divShowAppLink'' html)]))"

definition show_app_form :: "unit act" where
  "show_app_form = seq [emit (AddClass ''#divLoginForm'' ''sso-div-hidden''), emit (RemoveClass ''#divAppForm'' ''sso-div-hidden'')]"

text \<open>The bodies of the callbacks.\<close>

definition refresh_or_error :: "jsv \<Rightarrow> unit act \<Rightarrow> js_string \<Rightarrow> unit act" where
  "refresh_or_error data good text =
     abind (ok_positive data) (\<lambda>ok.
     if ok then good else abind (field data ''msg'') (\<lambda>m. errorMsg (text @ to_str m)))"

definition logout_callback :: "jsv \<Rightarrow> unit act" where
  "logout_callback data =
     abind (code_ok data) (\<lambda>ok.
     if ok then gotoHref (str ''/view/web.proxy.html'')
     else seq [emit (SetAttr ''#logout'' ''data-content'' (JStr msg_logout_failed)), emit (PopoverToggle ''#logout'')])"

definition query_user_callback :: "jsv \<Rightarrow> unit act" where
  "query_user_callback data =
     abind (code_ok data) (\<lambda>ok.
     if ok then
       abind (field data ''data'') (\<lambda>d.
       abind (if truthy d then field d ''userName'' else ret d) (\<lambda>u.
       if truthy d \<and> truthy u then
         abind (field d ''ssoUserId'') (\<lambda>i.
         seq [set_html ''#user-name'' u, set_attr ''#logout'' ''user-name'' u, set_attr ''#logout'' ''user-id'' i])
       else gotoHref (str ''web.proxy.html'')))
     else read_logined_user)"

definition sso_login_callback :: "jsv \<Rightarrow> unit act" where
  "sso_login_callback data =
     abind (code_ok data) (\<lambda>ok.
     if ok then
       abind (field data ''data'') (\<lambda>d.
       abind (if truthy d then field d ''redirectUrl'' else ret d) (\<lambda>r.
       abind (if truthy d \<and> truthy r then field r ''length'' else ret Undefined) (\<lambda>n.
       if truthy d \<and> truthy r \<and> gt0 n then gotoHref (to_str r)
       else seq [handler_sso_userinfo d, show_app_form])))
     else
       abind (if truthy data then field data ''msg'' else ret Undefined) (\<lambda>m.
       errorMsg (if truthy data \<and> truthy m then to_str m else msg_bad_login)))"

definition query_sso_callback :: "jsv \<Rightarrow> unit act" where
  "query_sso_callback data =
     abind (code_ok data) (\<lambda>ok.
     abind (if ok then field data ''data'' else ret Undefined) (\<lambda>d.
     if ok \<and> truthy d then seq [handler_sso_userinfo d, show_app_form]
     else emit (RemoveClass ''#divLoginForm'' ''sso-div-hidden'')))"

definition load_apps_callback :: "jsv \<Rightarrow> unit act" where
  "load_apps_callback data =
     abind (code_ok data) (\<lambda>ok.
     abind (if ok then abind (field data ''data'') (\<lambda>d. abind (field d ''length'') (\<lambda>n. ret (gt0 n))) else ret False) (\<lambda>some.
     if some then abind (field data ''data'') handler_app_div
     else abind (field data ''msg'') (\<lambda>m. errorMsg (msg_apps_failed @ to_str m))))"

fun run_callback :: "callback \<Rightarrow> jsv \<Rightarrow> unit act" where
  "run_callback LogoutCb data = logout_callback data"
| "run_callback QueryUserCb data = query_user_callback data"
| "run_callback SsoLoginCb data = sso_login_callback data"
| "run_callback SsoLogoutCb data = ret ()"
| "run_callback QuerySsoUserCb data = query_sso_callback data"
| "run_callback LoadAppsCb data = load_apps_callback data"
| "run_callback DeleteUserCb data =
     refresh_or_error data (successAndFn msg_deleted (RefreshTable ''#table_user_list'')) msg_delete_failed"
| "run_callback ResetPwdCb data =
     refresh_or_error data (successAndFn msg_reset_done (RefreshTable ''#table_user_list'')) msg_reset_failed"
| "run_callback AppStatusCb data =
     refresh_or_error data (seq [successMsgFn msg_done, defer_cont (RefreshTable ''#table_app_list'')]) msg_failed"

subsection \<open>Handlers that send a request\<close>

abbreviation GET :: js_string where "GET \<equiv> str ''get''"

abbreviation POST :: js_string where "POST \<equiv> str ''post''"

definition handler_logout :: "rat \<Rightarrow> unit act" where
  "handler_logout rnd = ajaxDataController (globalApi rnd ''api.logout'') (JObj []) None (Some LogoutCb) (JBool True) GET"

definition handler_query_user :: "rat \<Rightarrow> unit act" where
  "handler_query_user rnd =
     ajaxDataController (globalApi rnd ''api.user.query'') (JObj []) None (Some QueryUserCb) (JBool True) GET"

definition validate_login_param :: "bool act" where
  "validate_login_param =
     abind (val_trim ''#txt_user_name'') (\<lambda>userName.
     abind (val_trim ''#txt_password'') (\<lambda>password.
     if length userName = 0 then
       abind (seq [emit (FocusOn ''#txt_user_name''), tipsLoginMsg msg_enter_user ''#txt_user_name'']) (\<lambda>_. ret False)
     else if length password = 0 then
       abind (seq [emit (FocusOn ''#txt_password''), tipsLoginMsg msg_enter_password ''#txt_password'']) (\<lambda>_. ret False)
     else ret True))"

text \<open>\<^verbatim>\<open>getUrlParameter("appKey" || "")\<close>: a missing key is \<^verbatim>\<open>null\<close>, which \<^verbatim>\<open>val\<close> writes as the empty text.\<close>

definition handler_appKey_redirectUrl :: "unit act" where
  "handler_appKey_redirectUrl =
     abind (getUrlParameter ''redirectUrl'') (\<lambda>redirectUrl.
     abind (set_val ''#redirectUrl'' (case redirectUrl of None \<Rightarrow> [] | Some v \<Rightarrow> v)) (\<lambda>_.
     abind (getUrlParameter ''appKey'') (\<lambda>appKey.
     abind (set_val ''#appKey'' (case appKey of None \<Rightarrow> [] | Some v \<Rightarrow> v)) (\<lambda>_ p.
     myConsoleLog (str ''appKey='' @ input p ''#appKey'' @ str '',redirectUrl='' @ input p ''#redirectUrl'') p))))"

definition handler_sso_login :: "rat \<Rightarrow> unit act" where
  "handler_sso_login rnd =
     abind (val_trim ''#txt_user_name'') (\<lambda>u.
     abind (val_trim ''#txt_password'') (\<lambda>pw.
     abind (val_trim ''#redirectUrl'') (\<lambda>r.
     abind (val_trim ''#appKey'') (\<lambda>k.
     ajaxDataController (globalApi rnd ''ssoApi.login'')
       (JStr (json_object [(''userName'', JStr u), (''password'', JStr pw), (''redirectUrl'', JStr r), (''appKey'', JStr k)]))
       None (Some SsoLoginCb) (JBool True) POST))))"

definition sso_login :: "rat \<Rightarrow> unit act" where
  "sso_login rnd =
     abind validate_login_param (\<lambda>valid.
     if \<not> valid then ret () else seq [handler_appKey_redirectUrl, handler_sso_login rnd])"

definition handler_sso_logout :: "rat \<Rightarrow> unit act" where
  "handler_sso_logout rnd =
     ajaxDataController (globalApi rnd ''ssoApi.login.signout'') JNull None (Some SsoLogoutCb) (JBool True) POST"

definition query_sso_userinfo :: "rat \<Rightarrow> unit act" where
  "query_sso_userinfo rnd =
     ajaxDataController (globalApi rnd ''ssoApi.user.query'') JNull None (Some QuerySsoUserCb) (JBool True) GET"

definition load_sso_app_list :: "rat \<Rightarrow> unit act" where
  "load_sso_app_list rnd =
     ajaxDataController (globalApi rnd ''ssoApi.app.all'') (JObj []) None (Some LoadAppsCb) (JBool True) GET"

definition delete_user :: "rat \<Rightarrow> jsv \<Rightarrow> unit act" where
  "delete_user rnd userId =
     ajaxDataController (globalApi rnd ''api.user.delete'') (JStr (json_object [(''id'', userId)])) None
       (Some DeleteUserCb) (JBool True) POST"

definition reset_password_call_back :: "rat \<Rightarrow> jsv \<Rightarrow> js_string \<Rightarrow> unit act" where
  "reset_password_call_back rnd userId password =
     ajaxDataController (globalApi rnd ''api.user.resetPwd'')
       (JStr (json_object [(''id'', userId), (''password'', JStr password)])) None (Some ResetPwdCb) (JBool True) POST"

definition reset_password :: "jsv \<Rightarrow> unit act" where
  "reset_password userId = promptMsg msg_new_password (ResetPasswordWith userId)"

text \<open>The element a click came from: its node name and attributes.\<close>

record target =
  nodeName :: string
  attrs :: "(string \<times> js_string) list"

definition attr :: "target \<Rightarrow> string \<Rightarrow> jsv" where
  "attr t name = (case map_of (attrs t) name of None \<Rightarrow> Undefined | Some v \<Rightarrow> JStr v)"

definition is_button :: "target \<Rightarrow> string \<Rightarrow> bool" where
  "is_button t name \<longleftrightarrow> nodeName t = ''BUTTON'' \<and> attr t ''name'' = JStr (str name)"

definition handler_delete_user :: "target \<Rightarrow> unit act" where
  "handler_delete_user t =
     (if is_button t ''delete-user''
      then confirmMsg (msg_delete_pre @ to_str (attr t ''realName'') @ msg_delete_post) (DeleteUser (attr t ''userId''))
      else ret ())"

definition handler_reset_password :: "target \<Rightarrow> unit act" where
  "handler_reset_password t =
     (if is_button t ''reset-pwd''
      then confirmMsg (msg_reset_pre @ to_str (attr t ''realName'') @ msg_reset_post) (ResetPassword (attr t ''userId''))
      else ret ())"

definition handler_app_status_call_back :: "rat \<Rightarrow> target \<Rightarrow> jsv \<Rightarrow> unit act" where
  "handler_app_status_call_back rnd t new_status =
     (if is_button t ''handle-app''
      then ajaxDataController (globalApi rnd ''api.app.update'')
        (JStr (json_object [(''appId'', attr t ''appId''), (''domain'', attr t ''domain''), (''appName'', attr t ''appName''),
           (''status'', new_status)])) None (Some AppStatusCb) (JBool True) POST
      else ret ())"

section \<open>The life of a request\<close>

text \<open>
  The end of a request in jQuery: \<open>ajax_done\<close> decides between success and error from the status and the
  conversion of the body, then the success or error callback runs, then \<^verbatim>\<open>complete\<close>.  A callback that
  throws leaves \<^verbatim>\<open>done\<close> at once, so \<^verbatim>\<open>complete\<close> is not reached.
\<close>

datatype conversion = Converted jsv | ConversionError js_string

datatype outcome = Success jsv | Failure

definition ajax_done :: "int \<Rightarrow> bool \<Rightarrow> conversion \<Rightarrow> outcome" where
  "ajax_done status head response =
     (let isSuccess = (200 \<le> status \<and> status < 300 \<or> status = 304) in
      if isSuccess then
        if status = 204 \<or> head then Success Undefined
        else if status = 304 then Success Undefined
        else (case response of Converted data \<Rightarrow> Success data | ConversionError e \<Rightarrow> Failure)
      else Failure)"

definition on_success :: "request \<Rightarrow> jsv \<Rightarrow> unit act" where
  "on_success r data =
     (case req_goto r of
        Some url \<Rightarrow> (if url \<noteq> [] then gotoHref url
                     else (case req_callback r of None \<Rightarrow> ret () | Some cb \<Rightarrow> run_callback cb data))
      | None \<Rightarrow> (case req_callback r of None \<Rightarrow> ret () | Some cb \<Rightarrow> run_callback cb data))"

definition on_error :: "int \<Rightarrow> js_string \<Rightarrow> unit act" where
  "on_error status responseText =
     try_catch (myConsoleLog (str ''httpStatus='' @ int_str status @ str '',descition='' @ responseText))"

definition on_complete :: "request \<Rightarrow> unit act" where
  "on_complete r = closeLoading (req_layer r)"

definition finish :: "request \<Rightarrow> int \<Rightarrow> js_string \<Rightarrow> conversion \<Rightarrow> unit act" where
  "finish r status responseText response =
     abind (case ajax_done status False response of
              Success data \<Rightarrow> on_success r data
            | Failure \<Rightarrow> on_error status responseText) (\<lambda>_. on_complete r)"

text \<open>The closures that dialogs and timers run; the prompt hands over the text typed in.\<close>

fun run_cont :: "rat \<Rightarrow> js_string \<Rightarrow> cont \<Rightarrow> unit act" where
  "run_cont rnd new_value (GotoUrl url) = emit (Location url)"
| "run_cont rnd new_value (RefreshTable sel) = emit (BootstrapTable sel ''refresh'')"
| "run_cont rnd new_value (DeleteUser i) = delete_user rnd i"
| "run_cont rnd new_value (ResetPassword i) = reset_password i"
| "run_cont rnd new_value (ResetPasswordWith i) = reset_password_call_back rnd i new_value"

text \<open>
  What can happen to a page: clicks, typing, answers, dialogs answered or dismissed, and a loading message
  that closes by itself (\<^verbatim>\<open>layer.msg\<close> closes after three seconds unless told otherwise).
\<close>

datatype event =
    Logout | QueryUser | SsoLogin | SsoLogout | QuerySso | LoadApps
  | ClickDelete target | ClickReset target | ClickAppStatus target jsv
  | Typed string js_string
  | Responded nat int js_string conversion
  | Fired nat js_string
  | Dismissed nat
  | Expired nat

definition drop_nth :: "nat \<Rightarrow> 'a list \<Rightarrow> 'a list" where
  "drop_nth i xs = take i xs @ drop (Suc i) xs"

fun page_event :: "rat \<Rightarrow> event \<Rightarrow> unit act" where
  "page_event rnd Logout = handler_logout rnd"
| "page_event rnd QueryUser = handler_query_user rnd"
| "page_event rnd SsoLogin = sso_login rnd"
| "page_event rnd SsoLogout = handler_sso_logout rnd"
| "page_event rnd QuerySso = query_sso_userinfo rnd"
| "page_event rnd LoadApps = load_sso_app_list rnd"
| "page_event rnd (ClickDelete t) = handler_delete_user t"
| "page_event rnd (ClickReset t) = handler_reset_password t"
| "page_event rnd (ClickAppStatus t v) = handler_app_status_call_back rnd t v"
| "page_event rnd (Typed sel v) = (\<lambda>p. (Inr (), p\<lparr>input := (input p)(sel := v)\<rparr>))"
| "page_event rnd (Responded i status text response) =
     (\<lambda>p. if i < length (pending p)
           then finish (pending p ! i) status text response (p\<lparr>pending := drop_nth i (pending p)\<rparr>)
           else (Inr (), p))"
| "page_event rnd (Fired i v) =
     (\<lambda>p. if i < length (deferred p)
           then run_cont rnd v (deferred p ! i) (p\<lparr>deferred := drop_nth i (deferred p)\<rparr>)
           else (Inr (), p))"
| "page_event rnd (Dismissed i) = (\<lambda>p. (Inr (), p\<lparr>deferred := drop_nth i (deferred p)\<rparr>))"
| "page_event rnd (Expired l) = closeLoading l"

text \<open>A session: events in any order, each with the random number its request draws.\<close>

inductive reachable :: "(event \<Rightarrow> bool) \<Rightarrow> page \<Rightarrow> page \<Rightarrow> bool" for ok where
  start: "reachable ok p p"
| step: "reachable ok p q \<Longrightarrow> ok e \<Longrightarrow> reachable ok p (snd (page_event rnd e q))"

section \<open>Computations that leave the requests alone, and that do not throw\<close>

named_theorems quiet_intros \<open>computations that touch neither the requests nor the loading layers\<close>
named_theorems safe_intros \<open>computations that do not throw\<close>

definition quiet :: "'a act \<Rightarrow> bool" where
  "quiet m \<longleftrightarrow> (\<forall>p. pending (snd (m p)) = pending p \<and> layers (snd (m p)) = layers p \<and>
     next_layer (snd (m p)) = next_layer p)"

definition safe :: "'a act \<Rightarrow> bool" where
  "safe m \<longleftrightarrow> (\<forall>p. \<exists>x. fst (m p) = Inr x)"

lemma abind_ret [simp]: "abind (ret x) f = f x"
  by (simp add: abind_def ret_def fun_eq_iff)

lemma quiet_abind [quiet_intros]: "quiet m \<Longrightarrow> (\<And>x. quiet (f x)) \<Longrightarrow> quiet (abind m f)"
  by (auto simp: quiet_def abind_def split: prod.splits sum.splits) (metis snd_conv)+

lemma safe_abind [safe_intros]: "safe m \<Longrightarrow> (\<And>x. safe (f x)) \<Longrightarrow> safe (abind m f)"
  unfolding safe_def
proof
  fix p
  assume a: "\<forall>p. \<exists>x. fst (m p) = Inr x" "\<And>x. \<forall>p. \<exists>y. fst (f x p) = Inr y"
  from a(1) obtain x where "fst (m p) = Inr x" by blast
  then have "abind m f p = f x (snd (m p))" by (cases "m p") (auto simp: abind_def)
  with a(2) [of x] show "\<exists>y. fst (abind m f p) = Inr y" by simp
qed

lemma quiet_basic [quiet_intros]:
  "quiet (ret x)" "quiet (throw e)" "quiet (lift r)" "quiet (emit u)" "quiet (defer_cont k)" "quiet (field v n)"
  "quiet (val_trim sel)" "quiet (set_val sel t)" "quiet (getUrlParameter name)"
  by (simp_all add: quiet_def ret_def throw_def lift_def emit_def defer_cont_def field_def val_trim_def set_val_def
      getUrlParameter_def)

lemma safe_basic [safe_intros]:
  "safe (ret x)" "safe (emit u)" "safe (defer_cont k)" "safe (val_trim sel)" "safe (set_val sel t)"
  "safe (getUrlParameter name)" "safe (try_catch m)"
  by (simp_all add: safe_def ret_def emit_def defer_cont_def val_trim_def set_val_def getUrlParameter_def try_catch_def)

lemma quiet_seq [quiet_intros]: "(\<And>a. a \<in> set as \<Longrightarrow> quiet a) \<Longrightarrow> quiet (seq as)"
  by (induction as) (auto intro: quiet_intros)

lemma safe_seq [safe_intros]: "(\<And>a. a \<in> set as \<Longrightarrow> safe a) \<Longrightarrow> safe (seq as)"
  by (induction as) (auto intro: safe_intros)

lemma quiet_try [quiet_intros]: "quiet m \<Longrightarrow> quiet (try_catch m)"
  by (simp add: quiet_def try_catch_def)

lemma quiet_if [quiet_intros]: "(b \<Longrightarrow> quiet m) \<Longrightarrow> (\<not> b \<Longrightarrow> quiet n) \<Longrightarrow> quiet (if b then m else n)"
  by simp

lemma safe_if [safe_intros]: "(b \<Longrightarrow> safe m) \<Longrightarrow> (\<not> b \<Longrightarrow> safe n) \<Longrightarrow> safe (if b then m else n)"
  by simp

lemmas page_defs = set_html_def set_attr_def gotoHref_def errorMsg_def errorGotoUrl_def successMsgFn_def successAndFn_def
  successGotoUrl_def tipsLoginMsg_def tipsInputParamMsg_def tipsUserIdMsg_def promptMsg_def alertMsg_def
  tipsContent_def confirmMsg_def myConsoleLog_def show_app_form_def

lemma quiet_read_user [quiet_intros]: "quiet read_logined_user"
  by (auto simp: read_logined_user_def quiet_def try_catch_def throw_def abind_def emit_def ret_def split: sum.splits)

lemma safe_read_user [safe_intros]: "safe read_logined_user"
  unfolding read_logined_user_def by (rule safe_basic)

lemma quiet_code_ok [quiet_intros]: "quiet (code_ok data)" "quiet (ok_positive data)"
  by (auto simp: code_ok_def ok_positive_def intro!: quiet_intros)

lemma quiet_app_divs [quiet_intros]: "quiet (app_divs k els)"
  by (induction k els rule: app_divs.induct) (auto intro!: quiet_intros)

lemma quiet_each [quiet_intros]: "quiet (each_values v)"
  by (auto simp: each_values_def split: jsv.split jnum.split intro!: quiet_intros)

lemma quiet_callback [quiet_intros]: "quiet (run_callback cb data)"
  by (cases cb)
    (auto simp: logout_callback_def query_user_callback_def sso_login_callback_def query_sso_callback_def
      load_apps_callback_def refresh_or_error_def handler_app_div_def handler_sso_userinfo_def page_defs
      intro!: quiet_intros)

text \<open>Reading a property of something that is not \<^verbatim>\<open>null\<close> or \<^verbatim>\<open>undefined\<close> does not throw.\<close>

lemma field_ret: "\<not> is_nullish v \<Longrightarrow> \<exists>w. field v k = ret w"
  by (cases v) (auto simp: field_def is_nullish_def lift_def ret_def fun_eq_iff)

lemma safe_field [safe_intros]: "\<not> is_nullish v \<Longrightarrow> safe (field v k)"
  using field_ret [of v k] safe_basic(1) by metis

lemma truthy_not_nullish: "truthy v \<Longrightarrow> \<not> is_nullish v"
  by (cases v) (auto simp: is_nullish_def)

lemma code_ok_ret: "\<exists>b. code_ok data = ret b \<and> (b \<longrightarrow> truthy data)"
proof (cases "truthy data")
  case True
  from field_ret [OF truthy_not_nullish [OF True], of "''code''"] obtain w where "field data ''code'' = ret w" by blast
  with True show ?thesis by (auto simp: code_ok_def)
qed (auto simp: code_ok_def)

text \<open>
  What the callbacks expect of a response: an object, whose \<^verbatim>\<open>data\<close> is a number, a boolean, an object
  that is not array-like or an array without \<^verbatim>\<open>null\<close> elements.
\<close>

definition well_typed :: "jsv \<Rightarrow> bool" where
  "well_typed data =
     (case data of
        JObj ps \<Rightarrow>
          (case lookup ps (str ''data'') of
             JNum _ \<Rightarrow> True
           | JBool _ \<Rightarrow> True
           | JObj qs \<Rightarrow> lookup qs (str ''length'') = Undefined
           | JArr vs \<Rightarrow> list_all (\<lambda>v. \<not> is_nullish v) vs
           | _ \<Rightarrow> False)
      | _ \<Rightarrow> False)"

lemma well_typed_obj: "well_typed data \<Longrightarrow> \<not> is_nullish data"
  by (cases data) (auto simp: well_typed_def is_nullish_def)

lemma well_typed_data: "well_typed data \<Longrightarrow> \<exists>d. field data ''data'' = ret d \<and> \<not> is_nullish d"
proof (cases data)
  case (JObj ps)
  assume "well_typed data"
  with JObj have "\<not> is_nullish (lookup ps (str ''data''))"
    by (auto simp: well_typed_def is_nullish_def split: jsv.splits)
  with JObj show ?thesis by (auto simp: field_def lift_def ret_def fun_eq_iff)
qed (auto simp: well_typed_def)

lemma safe_app_divs: "list_all (\<lambda>v. \<not> is_nullish v) els \<Longrightarrow> safe (app_divs k els)"
  by (induction k els rule: app_divs.induct) (auto intro!: safe_intros)

lemma safe_userinfo: "\<not> is_nullish d \<Longrightarrow> safe (handler_sso_userinfo d)"
  unfolding handler_sso_userinfo_def page_defs by (intro safe_intros)

lemma safe_refresh_or_error:
  assumes "well_typed data" "safe good"
  shows "safe (refresh_or_error data good text)"
proof -
  obtain b where "code_ok data = ret b" using code_ok_ret by blast
  moreover obtain d where "field data ''data'' = ret d" using well_typed_data [OF assms(1)] by blast
  ultimately have "safe (ok_positive data)" by (auto simp: ok_positive_def intro: safe_intros)
  then show ?thesis
    unfolding refresh_or_error_def page_defs using assms well_typed_obj by (intro safe_intros) auto
qed

lemma safe_load_apps:
  assumes "well_typed data"
  shows "safe (load_apps_callback data)"
proof -
  obtain b where b: "code_ok data = ret b" using code_ok_ret by blast
  obtain d where d: "field data ''data'' = ret d" "\<not> is_nullish d" using well_typed_data [OF assms] by blast
  obtain n where n: "field d ''length'' = ret n" using field_ret [OF d(2)] by blast
  have err: "safe (abind (field data ''msg'') (\<lambda>m. errorMsg (msg_apps_failed @ to_str m)))"
    unfolding page_defs using well_typed_obj [OF assms] by (intro safe_intros)
  have "safe (handler_app_div d)" if "gt0 n"
  proof (cases d)
    case (JArr vs)
    from assms obtain ps where ps: "data = JObj ps" by (cases data) (auto simp: well_typed_def)
    with d(1) JArr have "lookup ps (str ''data'') = JArr vs" by (auto simp: field_def lift_def ret_def fun_eq_iff)
    with assms ps have "list_all (\<lambda>v. \<not> is_nullish v) vs" by (simp add: well_typed_def)
    with JArr show ?thesis
      by (auto simp: handler_app_div_def each_values_def intro!: safe_intros safe_app_divs)
  next
    case (JObj qs)
    from assms obtain ps where ps: "data = JObj ps" by (cases data) (auto simp: well_typed_def)
    with d(1) JObj have "lookup ps (str ''data'') = JObj qs" by (auto simp: field_def lift_def ret_def fun_eq_iff)
    with assms ps have "lookup qs (str ''length'') = Undefined" by (simp add: well_typed_def)
    with n JObj that show ?thesis by (auto simp: field_def lift_def ret_def fun_eq_iff gt0_def)
  next
    case (JStr t)
    from assms obtain ps where ps: "data = JObj ps" by (cases data) (auto simp: well_typed_def)
    with d(1) JStr have "lookup ps (str ''data'') = JStr t" by (auto simp: field_def lift_def ret_def fun_eq_iff)
    with assms ps show ?thesis by (simp add: well_typed_def)
  qed (use n that d(2) in \<open>auto simp: field_def lift_def ret_def fun_eq_iff gt0_def is_nullish_def\<close>)
  with err b d(1) n show ?thesis by (auto simp: load_apps_callback_def)
qed

lemma safe_callback:
  assumes "well_typed data"
  shows "safe (run_callback cb data)"
proof -
  obtain b where b: "code_ok data = ret b" using code_ok_ret by blast
  obtain d where d: "field data ''data'' = ret d" "\<not> is_nullish d" using well_typed_data [OF assms] by blast
  note nn = well_typed_obj [OF assms]
  note tn = truthy_not_nullish
  show ?thesis
  proof (cases cb)
    case LogoutCb
    then show ?thesis using b by (auto simp: logout_callback_def page_defs intro!: safe_intros)
  next
    case QueryUserCb
    then show ?thesis using b d by (auto simp: query_user_callback_def page_defs intro!: safe_intros)
  next
    case SsoLoginCb
    then show ?thesis using b d nn safe_userinfo [OF d(2)]
      by (auto simp: sso_login_callback_def page_defs intro!: safe_intros tn)
  next
    case QuerySsoUserCb
    then show ?thesis using b d safe_userinfo [OF d(2)] by (auto simp: query_sso_callback_def page_defs intro!: safe_intros)
  qed (auto simp: page_defs intro!: safe_intros safe_load_apps safe_refresh_or_error assms)
qed

section \<open>The loading layers\<close>

text \<open>Every open loading layer belongs to one request under way.\<close>

definition layers_inv :: "page \<Rightarrow> bool" where
  "layers_inv p \<longleftrightarrow> set (layers p) \<subseteq> req_layer ` set (pending p) \<and> distinct (layers p) \<and>
     distinct (map req_layer (pending p)) \<and> list_all (\<lambda>r. req_layer r < next_layer p) (pending p)"

lemma layers_inv_quiet: "quiet m \<Longrightarrow> layers_inv p \<Longrightarrow> layers_inv (snd (m p))"
  by (simp add: quiet_def layers_inv_def)

lemma layers_inv_ajax: "layers_inv p \<Longrightarrow> layers_inv (snd (ajaxDataController url ps g cb as m p))"
  by (fastforce simp: ajaxDataController_def layers_inv_def abind_def openLoading_def throw_def list_all_iff less_Suc_eq)

lemma layers_inv_abind_quiet:
  "quiet m \<Longrightarrow> (\<And>x q. layers_inv q \<Longrightarrow> layers_inv (snd (f x q))) \<Longrightarrow> layers_inv p \<Longrightarrow> layers_inv (snd (abind m f p))"
  using layers_inv_quiet [of m p] by (auto simp: abind_def split: prod.splits sum.splits)

lemma layers_inv_then_ret: "layers_inv (snd (m p)) \<Longrightarrow> layers_inv (snd (abind m (\<lambda>_. ret x) p))"
  by (auto simp: abind_def ret_def split: prod.splits sum.splits)

lemma removeAll_nth: "distinct xs \<Longrightarrow> i < length xs \<Longrightarrow> removeAll (xs ! i) xs = drop_nth i xs"
proof (induction xs arbitrary: i)
  case (Cons x xs)
  then show ?case by (cases i) (auto simp: drop_nth_def)
qed simp

lemma drop_nth_map: "map f (drop_nth i xs) = drop_nth i (map f xs)"
  by (simp add: drop_nth_def take_map drop_map)

lemma drop_nth_set: "set (drop_nth i xs) \<subseteq> set xs"
  by (auto simp: drop_nth_def dest: in_set_takeD in_set_dropD)

lemma drop_nth_distinct: "distinct xs \<Longrightarrow> distinct (drop_nth i xs)"
  using set_take_disj_set_drop_if_distinct [of xs i "Suc i"] by (simp add: drop_nth_def)

lemma abind_safe: "safe m \<Longrightarrow> \<exists>x. abind m f p = f x (snd (m p))"
  by (cases "m p") (force simp: safe_def abind_def dest: spec [of _ p])

lemma finish_layers:
  assumes "layers_inv p" "i < length (pending p)"
    and ok: "\<And>data. ajax_done status False response = Success data \<Longrightarrow> well_typed data"
  shows "layers_inv (snd (finish (pending p ! i) status text response (p\<lparr>pending := drop_nth i (pending p)\<rparr>)))"
proof -
  let ?r = "pending p ! i" and ?q = "p\<lparr>pending := drop_nth i (pending p)\<rparr>"
  define m where "m = (case ajax_done status False response of Success data \<Rightarrow> on_success ?r data | Failure \<Rightarrow> on_error status text)"
  have q: "quiet m"
    by (auto simp: m_def on_success_def on_error_def page_defs split: outcome.split option.split intro!: quiet_intros)
  have "safe m"
    using ok by (auto simp: m_def on_success_def on_error_def page_defs split: outcome.split option.split
        intro!: safe_intros safe_callback)
  from abind_safe [OF this, of "\<lambda>_. on_complete ?r" ?q]
  have fin: "snd (finish ?r status text response ?q) =
      (snd (m ?q))\<lparr>layers := removeAll (req_layer ?r) (layers (snd (m ?q)))\<rparr>"
    by (auto simp: finish_def on_complete_def closeLoading_def m_def [symmetric])
  have st: "pending (snd (m ?q)) = drop_nth i (pending p)" "next_layer (snd (m ?q)) = next_layer p"
    "layers (snd (m ?q)) = layers p" using q by (simp_all add: quiet_def)
  have dist: "distinct (map req_layer (pending p))" using assms(1) by (simp add: layers_inv_def)
  have "removeAll (req_layer ?r) (map req_layer (pending p)) = map req_layer (drop_nth i (pending p))"
    using removeAll_nth [OF dist, of i] assms(2) by (simp add: drop_nth_map)
  from arg_cong [OF this, of set] have "req_layer ` set (drop_nth i (pending p)) = req_layer ` set (pending p) - {req_layer ?r}"
    by auto
  moreover have "distinct (map req_layer (drop_nth i (pending p)))" using drop_nth_distinct [OF dist] by (simp add: drop_nth_map)
  ultimately show ?thesis
    unfolding layers_inv_def fin using st assms(1) drop_nth_set [of i "pending p"]
    by (auto simp: layers_inv_def list_all_iff distinct_removeAll)
qed

lemma layers_inv_login:
  assumes "layers_inv p"
  shows "layers_inv (snd (sso_login rnd p))"
proof -
  have "quiet validate_login_param" unfolding validate_login_param_def page_defs by (auto intro!: quiet_intros)
  moreover have "quiet handler_appKey_redirectUrl"
    unfolding handler_appKey_redirectUrl_def
    by (intro quiet_abind quiet_basic) (simp add: quiet_def myConsoleLog_def try_catch_def emit_def)
  moreover have "layers_inv (snd (handler_sso_login rnd q))" if "layers_inv q" for q
    unfolding handler_sso_login_def by (intro layers_inv_abind_quiet quiet_basic layers_inv_ajax that)
  ultimately have "layers_inv (snd (seq [handler_appKey_redirectUrl, handler_sso_login rnd] q))" if "layers_inv q" for q
    unfolding seq.simps using that
    by (intro layers_inv_abind_quiet [where m = handler_appKey_redirectUrl] layers_inv_then_ret) auto
  with \<open>quiet validate_login_param\<close> show ?thesis
    unfolding sso_login_def using assms
    by (intro layers_inv_abind_quiet) (auto simp: ret_def simp del: seq.simps)
qed

lemma layers_inv_cont: "layers_inv p \<Longrightarrow> layers_inv (snd (run_cont rnd v k p))"
  by (cases k)
    (auto simp: delete_user_def reset_password_call_back_def reset_password_def page_defs
      intro!: layers_inv_ajax layers_inv_quiet quiet_intros)

definition good_event :: "event \<Rightarrow> bool" where
  "good_event e =
     (case e of
        Responded i status text response \<Rightarrow>
          (case ajax_done status False response of Success data \<Rightarrow> well_typed data | Failure \<Rightarrow> True)
      | _ \<Rightarrow> True)"

lemma layers_inv_event:
  assumes "layers_inv p" "good_event e"
  shows "layers_inv (snd (page_event rnd e p))"
proof (cases e)
  case (Responded i status body response)
  with assms finish_layers [OF assms(1), of i status response body] show ?thesis
    by (auto simp: good_event_def split: outcome.splits)
next
  case (Fired i v)
  have "layers_inv (p\<lparr>deferred := drop_nth i (deferred p)\<rparr>)" using assms(1) by (simp add: layers_inv_def)
  with Fired assms(1) show ?thesis by (auto intro: layers_inv_cont)
next
  case SsoLogin
  then show ?thesis using assms(1) by (simp add: layers_inv_login)
next
  case (ClickDelete t)
  then show ?thesis using assms(1)
    by (auto simp: handler_delete_user_def page_defs intro!: layers_inv_quiet quiet_intros)
next
  case (ClickReset t)
  then show ?thesis using assms(1)
    by (auto simp: handler_reset_password_def page_defs intro!: layers_inv_quiet quiet_intros)
next
  case (ClickAppStatus t v)
  then show ?thesis using assms(1)
    by (auto simp: handler_app_status_call_back_def intro!: layers_inv_ajax layers_inv_quiet quiet_intros)
next
  case (Typed sel v)
  then show ?thesis using assms(1) by (simp add: layers_inv_def)
next
  case (Dismissed i)
  then show ?thesis using assms(1) by (simp add: layers_inv_def)
next
  case (Expired l)
  then show ?thesis using assms(1) by (auto simp: layers_inv_def closeLoading_def distinct_removeAll)
qed (simp_all add: assms(1) layers_inv_ajax handler_logout_def handler_query_user_def handler_sso_logout_def
    query_sso_userinfo_def load_sso_app_list_def)

text \<open>
  C15. On a page that starts without requests, after any sequence of clicks, answers, dialogs and timers in
  which every successful answer has the shape the callbacks expect, every loading layer that is open belongs
  to a request still under way, and no two requests share one: an answer never leaves its layer behind.
\<close>

theorem loading_layers_match_requests:
  assumes "reachable good_event p q" "layers_inv p"
  shows "set (layers q) \<subseteq> req_layer ` set (pending q) \<and> distinct (map req_layer (pending q)) \<and> distinct (layers q)"
proof -
  from assms have "layers_inv q" by (induction rule: reachable.induct) (auto intro: layers_inv_event)
  then show ?thesis by (simp add: layers_inv_def)
qed

definition empty_page :: page where
  "empty_page = \<lparr>input = (\<lambda>_. []), search_part = [], web_user = Inr [], pending = [], layers = [], next_layer = 1,
     deferred = [], ui_log = []\<rparr>"

theorem loading_layers_match_requests_witness:
  "\<exists>q. reachable good_event empty_page q \<and> length (pending q) = 1 \<and> layers q = [1] \<and> set (layers q) \<subseteq> req_layer ` set (pending q)"
proof -
  let ?q = "snd (page_event 0 Logout empty_page)"
  have r: "reachable good_event empty_page ?q"
    by (rule reachable.step [OF reachable.start]) (simp add: good_event_def)
  have "layers_inv empty_page" by (simp add: layers_inv_def empty_page_def)
  from loading_layers_match_requests [OF r this] have "set (layers ?q) \<subseteq> req_layer ` set (pending ?q)" by blast
  moreover have "length (pending ?q) = 1" "layers ?q = [1]"
    by (simp_all add: handler_logout_def ajaxDataController_def abind_def openLoading_def empty_page_def str_def)
  ultimately show ?thesis using r by blast
qed

text \<open>
  C33. The callbacks that report a failure read the message of the answer without looking at the answer
  first: when the server answers a delete request with \<^verbatim>\<open>null\<close>, the callback throws, the request ends and
  its loading layer is left to its own timer.
\<close>

theorem null_answer_leaves_layer:
  assumes "layers_inv p" "i < length (pending p)" "req_goto (pending p ! i) = None"
    and "req_callback (pending p ! i) = Some DeleteUserCb"
  shows "fst (page_event rnd (Responded i 200 text (Converted JNull)) p) = Inl TypeError \<and>
    layers (snd (page_event rnd (Responded i 200 text (Converted JNull)) p)) = layers p \<and>
    pending (snd (page_event rnd (Responded i 200 text (Converted JNull)) p)) = drop_nth i (pending p)"
  using assms
  by (simp add: finish_def ajax_done_def on_success_def refresh_or_error_def ok_positive_def code_ok_def abind_def
      ret_def field_def lift_def)

theorem null_answer_leaves_layer_witness:
  "layers (snd (page_event 0 (Responded 0 200 [] (Converted JNull)) (snd (delete_user 0 (JStr [49]) empty_page)))) = [1] \<and>
   pending (snd (page_event 0 (Responded 0 200 [] (Converted JNull)) (snd (delete_user 0 (JStr [49]) empty_page)))) = []"
proof -
  let ?p = "snd (delete_user 0 (JStr [49]) empty_page)"
  have p: "layers_inv ?p" unfolding delete_user_def by (rule layers_inv_ajax) (simp add: layers_inv_def empty_page_def)
  have "length (pending ?p) = 1" "req_goto (pending ?p ! 0) = None" "req_callback (pending ?p ! 0) = Some DeleteUserCb"
    "layers ?p = [1]"
    by (simp_all add: delete_user_def ajaxDataController_def abind_def openLoading_def empty_page_def str_def)
  with null_answer_leaves_layer [OF p, of 0 0 "[]"] show ?thesis by (simp add: drop_nth_def)
qed

section \<open>Where the requests go\<close>

definition unknown_target :: "request \<Rightarrow> bool" where
  "unknown_target r \<longleftrightarrow> req_callback r = Some LogoutCb \<or> req_callback r = Some QueryUserCb \<or>
     take 12 (req_url r) = str ''/unknown/?r=''"

definition targets_inv :: "page \<Rightarrow> bool" where
  "targets_inv p \<longleftrightarrow> list_all unknown_target (pending p)"

lemma targets_inv_quiet: "quiet m \<Longrightarrow> targets_inv p \<Longrightarrow> targets_inv (snd (m p))"
  by (simp add: quiet_def targets_inv_def)

lemma targets_inv_ajax:
  assumes "targets_inv p" "cb = LogoutCb \<or> cb = QueryUserCb \<or> take 12 url = str ''/unknown/?r=''"
  shows "targets_inv (snd (ajaxDataController url ps g (Some cb) as m p))"
  using assms
  by (auto simp: ajaxDataController_def targets_inv_def abind_def openLoading_def throw_def unknown_target_def)

lemma unknown_urls:
  "take 12 (globalApi rnd ''ssoApi.login'') = str ''/unknown/?r=''"
  "take 12 (globalApi rnd ''ssoApi.login.signout'') = str ''/unknown/?r=''"
  "take 12 (globalApi rnd ''ssoApi.user.query'') = str ''/unknown/?r=''"
  "take 12 (globalApi rnd ''ssoApi.app.all'') = str ''/unknown/?r=''"
  "take 12 (globalApi rnd ''api.user.delete'') = str ''/unknown/?r=''"
  "take 12 (globalApi rnd ''api.user.resetPwd'') = str ''/unknown/?r=''"
  "take 12 (globalApi rnd ''api.app.update'') = str ''/unknown/?r=''"
  by (simp_all add: globalApi_def globalConfig_def str_def)

lemma targets_inv_abind:
  "quiet m \<Longrightarrow> (\<And>x q. targets_inv q \<Longrightarrow> targets_inv (snd (f x q))) \<Longrightarrow> targets_inv p \<Longrightarrow> targets_inv (snd (abind m f p))"
  using targets_inv_quiet [of m p] by (auto simp: abind_def split: prod.splits sum.splits)

lemma targets_inv_login:
  assumes "targets_inv p"
  shows "targets_inv (snd (sso_login rnd p))"
proof -
  have v: "quiet validate_login_param" unfolding validate_login_param_def page_defs by (auto intro!: quiet_intros)
  have a: "quiet handler_appKey_redirectUrl"
    unfolding handler_appKey_redirectUrl_def
    by (intro quiet_abind quiet_basic) (simp add: quiet_def myConsoleLog_def try_catch_def emit_def)
  have l: "targets_inv (snd (handler_sso_login rnd q))" if "targets_inv q" for q
    unfolding handler_sso_login_def
    by (intro targets_inv_abind quiet_basic targets_inv_ajax that) (simp_all add: unknown_urls)
  have r: "targets_inv (snd (abind (handler_sso_login rnd) (\<lambda>_. ret ()) q))" if "targets_inv q" for q
    using l [OF that] by (auto simp: abind_def ret_def split: prod.splits sum.splits)
  have s: "targets_inv (snd (seq [handler_appKey_redirectUrl, handler_sso_login rnd] q))" if "targets_inv q" for q
    unfolding seq.simps using targets_inv_abind [OF a r that] .
  show ?thesis
    unfolding sso_login_def
    by (rule targets_inv_abind [OF v _ assms]) (auto simp: ret_def s simp del: seq.simps)
qed

lemma targets_inv_finish:
  assumes "targets_inv p"
  shows "targets_inv (snd (finish r status body response (p\<lparr>pending := drop_nth i (pending p)\<rparr>)))"
proof -
  have q: "quiet (case ajax_done status False response of Success data \<Rightarrow> on_success r data | Failure \<Rightarrow> on_error status body)"
    by (auto simp: on_success_def on_error_def page_defs split: outcome.split option.split intro!: quiet_intros)
  have "targets_inv (p\<lparr>pending := drop_nth i (pending p)\<rparr>)"
    using assms drop_nth_set [of i "pending p"] by (auto simp: targets_inv_def list_all_iff)
  then show ?thesis
    unfolding finish_def
    by (rule targets_inv_abind [OF q, rotated]) (simp add: on_complete_def closeLoading_def targets_inv_def)
qed

lemma targets_inv_event:
  assumes "targets_inv p"
  shows "targets_inv (snd (page_event rnd e p))"
proof (cases e)
  case (Responded i status body response)
  then show ?thesis using assms by (simp add: targets_inv_finish)
next
  case (Fired i v)
  have "targets_inv (p\<lparr>deferred := drop_nth i (deferred p)\<rparr>)" using assms by (simp add: targets_inv_def)
  moreover have "targets_inv q \<Longrightarrow> targets_inv (snd (run_cont rnd v k q))" for k q
    using targets_inv_quiet [of "reset_password i" q for i]
    by (cases k) (auto simp: delete_user_def reset_password_call_back_def reset_password_def page_defs unknown_urls targets_inv_ajax
        intro!: targets_inv_quiet quiet_basic quiet_abind)
  ultimately show ?thesis using Fired assms by simp
next
  case SsoLogin
  then show ?thesis using assms by (simp add: targets_inv_login)
next
  case (ClickAppStatus t v)
  then show ?thesis using assms
    by (simp add: handler_app_status_call_back_def unknown_urls targets_inv_ajax ret_def)
next
  case (ClickDelete t)
  then show ?thesis using assms
    by (auto simp: handler_delete_user_def page_defs intro!: targets_inv_quiet quiet_intros)
next
  case (ClickReset t)
  then show ?thesis using assms
    by (auto simp: handler_reset_password_def page_defs intro!: targets_inv_quiet quiet_intros)
next
  case (Typed sel v)
  then show ?thesis using assms by (simp add: targets_inv_def)
next
  case (Dismissed i)
  then show ?thesis using assms by (simp add: targets_inv_def)
next
  case (Expired l)
  then show ?thesis using assms by (simp add: targets_inv_def closeLoading_def)
qed (simp_all add: assms targets_inv_ajax unknown_urls handler_logout_def handler_query_user_def handler_sso_logout_def
    query_sso_userinfo_def load_sso_app_list_def)

text \<open>
  The addresses are missing from the configuration: in every session of a page, each request other
  than the logout and the query of the current user goes to \<^verbatim>\<open>/unknown/\<close>.
\<close>

lemma requests_go_nowhere:
  assumes "reachable (\<lambda>_. True) empty_page q" "r \<in> set (pending q)"
    and "req_callback r \<noteq> Some LogoutCb" "req_callback r \<noteq> Some QueryUserCb"
  shows "take 12 (req_url r) = str ''/unknown/?r=''"
proof -
  have "targets_inv q"
    using assms(1)
    by (induction empty_page q rule: reachable.induct)
      (simp_all add: targets_inv_event, simp add: empty_page_def targets_inv_def)
  with assms(2-4) show ?thesis by (auto simp: targets_inv_def list_all_iff unknown_target_def)
qed

lemma requests_go_nowhere_example:
  "take 12 (req_url (pending (snd (page_event 0 QuerySso empty_page)) ! 0)) = str ''/unknown/?r=''"
proof (rule requests_go_nowhere)
  show "reachable (\<lambda>_. True) empty_page (snd (page_event 0 QuerySso empty_page))"
    by (rule reachable.step [OF reachable.start]) simp
  have p: "pending (snd (page_event 0 QuerySso empty_page)) =
    [\<lparr>req_url = globalApi 0 ''ssoApi.user.query'', req_params = JObj [], req_goto = None,
      req_callback = Some QuerySsoUserCb, req_async = JBool True, req_method = GET, req_layer = 1\<rparr>]"
    by (simp add: query_sso_userinfo_def ajaxDataController_def abind_def openLoading_def empty_page_def str_def js_or_def)
  then show "pending (snd (page_event 0 QuerySso empty_page)) ! 0 \<in> set (pending (snd (page_event 0 QuerySso empty_page)))"
    "req_callback (pending (snd (page_event 0 QuerySso empty_page)) ! 0) \<noteq> Some LogoutCb"
    "req_callback (pending (snd (page_event 0 QuerySso empty_page)) ! 0) \<noteq> Some QueryUserCb"
    by (simp_all del: page_event.simps)
qed

end
