(* ===== verification/Forms.thy ===== *)
theory Forms
  imports Console
begin

text \<open>
  The validation of the console's forms in \<^verbatim>\<open>web.data.common.js\<close>: addresses of applications and users,
  and the test of a single IP address or network.
\<close>

section \<open>Validation of the forms\<close>

definition ip_octet :: re where
  "ip_octet = Alt (Seq (lit 50) (Seq (lit 53) (rng 48 53)))
     (Alt (Seq (lit 50) (Seq (rng 48 52) (rng 48 57)))
     (Alt (Seq (lit 49) (Seq (rng 48 57) (rng 48 57)))
     (Alt (rng 48 57) (Seq (rng 48 57) (rng 48 57)))))"

text \<open>In the string literal \<^verbatim>\<open>"\."\<close> is just \<^verbatim>\<open>"."\<close>, so the separator of the pattern is any character.\<close>

definition regex_ip :: re where
  "regex_ip = Seq ip_octet (repeat 3 (Seq dot ip_octet))"

definition match_ip :: "js_string \<Rightarrow> bool" where
  "match_ip ipValue =
     (if matches regex_ip ipValue then True
      else
        (let tmp = js_split 47 ipValue in
         if length tmp \<noteq> 2 then False
         else \<not> (\<not> matches regex_ip (tmp ! 0) \<or>
                 (case to_number (tmp ! 1) of NaN \<Rightarrow> True | NegInf \<Rightarrow> True | PosInf \<Rightarrow> True | Fin x \<Rightarrow> x \<le> 0 \<or> x > 32))))"

text \<open>The loop over the addresses writes a line to the browser's console for each and stops at the first bad one.\<close>

fun check_ips :: "nat \<Rightarrow> js_string list \<Rightarrow> nat option act" where
  "check_ips i [] = ret None"
| "check_ips i (el # els) =
     abind (myConsoleLog (str ''el='' @ el @ str '', tmp='' @ to_str (JBool (match_ip el)))) (\<lambda>_.
     if match_ip el then check_ips (Suc i) els else ret (Some (Suc i)))"

definition reject :: "js_string \<Rightarrow> string \<Rightarrow> bool act" where
  "reject msg sel = abind (seq [emit (FocusOn sel), tipsInputParamMsg msg sel]) (\<lambda>_. ret False)"

definition validate_app_param :: "bool act" where
  "validate_app_param =
     abind (val_trim ''#txt_app_name'') (\<lambda>appName.
     abind (val_trim ''#txt_app_link'') (\<lambda>appLink.
     abind (val_trim ''#txt_app_domain'') (\<lambda>appDomain.
     abind (val_trim ''#txt_app_ip_list'') (\<lambda>ipList.
     if length appName = 0 then reject msg_required ''#txt_app_name''
     else if length appLink = 0 then reject msg_required ''#txt_app_link''
     else if js_substr appLink 0 4 \<noteq> str ''http'' \<and> js_substr appLink 0 5 \<noteq> str ''https''
     then reject msg_http_prefix ''#txt_app_link''
     else if length appDomain = 0 then reject msg_required ''#txt_app_domain''
     else if length ipList = 0 then reject msg_required ''#txt_app_ip_list''
     else
       abind (check_ips 0 (js_split 44 (replace_units (\<lambda>c. if is_space c then [44] else [c]) ipList))) (\<lambda>bad.
       case bad of
         None \<Rightarrow> ret True
       | Some rows \<Rightarrow>
           abind (tipsInputParamMsg (msg_row_pre @ digits rows @ msg_row_post) ''#txt_app_ip_list'') (\<lambda>_. ret False))))))"

definition validate_user_param :: "bool act" where
  "validate_user_param =
     abind (val_trim ''#user_name'') (\<lambda>userName.
     abind (val_trim ''#real_name'') (\<lambda>realName.
     abind (val_trim ''#user_post'') (\<lambda>userPost.
     abind (val_trim ''#company'') (\<lambda>company.
     if length userName = 0 then reject msg_required ''#user_name''
     else if length realName = 0 then reject msg_required ''#real_name''
     else if length userPost = 0 then reject msg_required ''#user_post''
     else if length company = 0 then reject msg_required ''#company''
     else ret True))))"

section \<open>What counts as an address\<close>

text \<open>
  An octet is one or two digits, or three digits of value 100 to 255; a quad is four octets separated by
  any three characters that do not end a line.
\<close>

definition octet :: "js_string \<Rightarrow> bool" where
  "octet s \<longleftrightarrow> list_all is_digit s \<and>
     (length s = 1 \<or> length s = 2 \<or> length s = 3 \<and> 100 \<le> digits_val 0 s \<and> digits_val 0 s \<le> 255)"

definition separator :: "code_unit \<Rightarrow> bool" where
  "separator c \<longleftrightarrow> c \<noteq> 10 \<and> c \<noteq> 13 \<and> c \<noteq> 8232 \<and> c \<noteq> 8233"

fun more_octets :: "nat \<Rightarrow> js_string \<Rightarrow> bool" where
  "more_octets 0 t \<longleftrightarrow> t = []"
| "more_octets (Suc n) t \<longleftrightarrow> (\<exists>x b u. t = x # b @ u \<and> separator x \<and> octet b \<and> more_octets n u)"

definition quad :: "js_string \<Rightarrow> bool" where
  "quad s \<longleftrightarrow> (\<exists>a t. s = a @ t \<and> octet a \<and> more_octets 3 t)"

lemma in_lang_octet: "in_lang ip_octet s \<longleftrightarrow> octet s"
proof -
  have "in_lang ip_octet s \<longleftrightarrow>
     (\<exists>c. s = [50, 53, c] \<and> 48 \<le> c \<and> c \<le> 53) \<or> (\<exists>b c. s = [50, b, c] \<and> 48 \<le> b \<and> b \<le> 52 \<and> is_digit c) \<or>
     (\<exists>b c. s = [49, b, c] \<and> is_digit b \<and> is_digit c) \<or> (\<exists>c. s = [c] \<and> is_digit c) \<or>
     (\<exists>b c. s = [b, c] \<and> is_digit b \<and> is_digit c)"
    by (auto simp: ip_octet_def lit_def rng_def in_lang_Cls_Seq is_digit_def)
  also have "\<dots> \<longleftrightarrow> octet s"
  proof -
    have 3: "(100 \<le> 100 * (a - 48) + 10 * (b - 48) + (c - 48) \<and> 100 * (a - 48) + 10 * (b - 48) + (c - 48) \<le> 255) \<longleftrightarrow>
        a = 50 \<and> b = 53 \<and> c \<le> 53 \<or> a = 50 \<and> b \<le> 52 \<or> a = 49"
      if "48 \<le> a" "a \<le> 57" "48 \<le> b" "b \<le> 57" "48 \<le> c" "c \<le> 57" for a b c :: nat
    proof -
      note ranges = that
      consider "a = 48" | "a = 49" | "a = 50" "b \<le> 52" | "a = 50" "b = 53" | "a = 50" "54 \<le> b" | "51 \<le> a"
        using ranges(1) by linarith
      then show ?thesis using ranges by cases auto
    qed
    consider "s = []" | c where "s = [c]" | b c where "s = [b, c]" | a b c where "s = [a, b, c]"
      | a b c d t where "s = a # b # c # d # t"
      by (metis neq_Nil_conv)
    then show ?thesis
    proof cases
      case (4 a b c)
      with 3 [of a b c] show ?thesis by (auto simp: octet_def is_digit_def)
    qed (auto simp: octet_def)
  qed
  finally show ?thesis .
qed

lemma in_lang_more: "in_lang (repeat n (Seq dot ip_octet)) t \<longleftrightarrow> more_octets n t"
proof (induction n arbitrary: t)
  case (Suc n)
  have "in_lang (repeat (Suc n) (Seq dot ip_octet)) t \<longleftrightarrow>
      (\<exists>x b u. t = x # b @ u \<and> separator x \<and> octet b \<and> in_lang (repeat n (Seq dot ip_octet)) u)"
    by (simp add: in_lang_Seq_assoc dot_def in_lang_Cls_Seq separator_def [symmetric] in_lang_Seq [of ip_octet] in_lang_octet)
      blast
  then show ?case by (simp only: more_octets.simps Suc)
qed simp

lemma matches_regex_ip: "matches regex_ip s \<longleftrightarrow> quad s"
  by (simp add: matches_lang regex_ip_def in_lang_Seq [of ip_octet] in_lang_octet in_lang_more quad_def)

lemma split_two: "length (js_split c s) = 2 \<longleftrightarrow> (\<exists>p q. s = p @ c # q \<and> c \<notin> set p \<and> c \<notin> set q)"
proof
  assume "length (js_split c s) = 2"
  then obtain p q where pq: "js_split c s = [p, q]" by (auto simp: length_Suc_conv numeral_2_eq_2)
  have "s = js_join [c] [p, q]" unfolding pq [symmetric] by (simp only: js_join_split)
  moreover have "c \<notin> set p" "c \<notin> set q" using js_split_set [of _ c s] pq by auto
  ultimately show "\<exists>p q. s = p @ c # q \<and> c \<notin> set p \<and> c \<notin> set q" by (intro exI [of _ p] exI [of _ q]) simp
qed (auto simp: js_split_append js_split_notin)

text \<open>
  C26. The test of an address accepts exactly the quads and the quads followed by a slash and a number above
  0 and at most 32; the separators of a quad may be any characters, and the number any the language reads,
  such as \<^verbatim>\<open>1.5\<close> or \<^verbatim>\<open>0x10\<close>.
\<close>

theorem match_ip_iff:
  "match_ip s \<longleftrightarrow> quad s \<or>
     (\<exists>p q x. s = p @ 47 # q \<and> 47 \<notin> set p \<and> 47 \<notin> set q \<and> quad p \<and> to_number q = Fin x \<and> 0 < x \<and> x \<le> 32)"
proof (cases "quad s")
  case False
  show ?thesis
  proof (cases "length (js_split 47 s) = 2")
    case True
    then obtain p q where pq: "s = p @ 47 # q" "47 \<notin> set p" "47 \<notin> set q" using split_two by blast
    then have sp: "js_split 47 s = [p, q]" by (simp add: js_split_append js_split_notin)
    have uniq: "p' = p \<and> q' = q" if "s = p' @ 47 # q'" "47 \<notin> set p'" "47 \<notin> set q'" for p' q'
    proof -
      have "js_split 47 s = [p', q']" using that by (simp add: js_split_append js_split_notin)
      with sp show ?thesis by simp
    qed
    have "match_ip s \<longleftrightarrow> quad p \<and> (\<exists>x. to_number q = Fin x \<and> 0 < x \<and> x \<le> 32)"
      using False sp by (auto simp: match_ip_def matches_regex_ip not_le split: jnum.splits)
    with uniq pq False show ?thesis by blast
  next
    case 2: False
    then have "\<not> match_ip s" using False by (simp add: match_ip_def matches_regex_ip Let_def)
    moreover have "\<not> (\<exists>p q. s = p @ 47 # q \<and> 47 \<notin> set p \<and> 47 \<notin> set q)" using 2 split_two by blast
    ultimately show ?thesis using False by blast
  qed
qed (simp add: match_ip_def matches_regex_ip)

text \<open>The addresses the form is meant for.\<close>

definition dotted :: "nat \<Rightarrow> nat \<Rightarrow> nat \<Rightarrow> nat \<Rightarrow> js_string" where
  "dotted a b c d = digits a @ 46 # digits b @ 46 # digits c @ 46 # digits d"

lemma octet_digits:
  assumes "n \<le> 255"
  shows "octet (digits n)"
proof -
  have all: "list_all is_digit (digits n)" using digits_all by (auto simp: list_all_iff)
  consider "n < 10" | "10 \<le> n" "n < 100" | "100 \<le> n" by linarith
  then show ?thesis
  proof cases
    case 1
    then have "length (digits n) = 1" by (subst digits.simps) simp
    with all show ?thesis by (simp add: octet_def)
  next
    case 2
    then have "n div 10 < 10" by simp
    with 2 have "length (digits n) = 2" by (subst digits.simps, subst digits.simps) simp
    with all show ?thesis by (simp add: octet_def)
  next
    case 3
    with assms have "n div 10 div 10 < 10" "10 \<le> n div 10" by auto
    with 3 have "length (digits n) = 3" by (subst digits.simps, subst digits.simps, subst digits.simps) simp
    with all 3 assms show ?thesis by (simp add: octet_def digits_val_digits)
  qed
qed

lemma quad_dotted:
  assumes "a \<le> 255" "b \<le> 255" "c \<le> 255" "d \<le> 255"
  shows "quad (dotted a b c d)"
proof -
  note o = assms [THEN octet_digits]
  have sep: "separator 46" by (simp add: separator_def)
  have 1: "more_octets (Suc 0) (46 # digits d @ [])" unfolding more_octets.simps using o sep by blast
  have 2: "more_octets (Suc (Suc 0)) (46 # digits c @ 46 # digits d @ [])"
    by (subst more_octets.simps) (use 1 o sep in blast)
  have 3: "more_octets 3 (46 # digits b @ 46 # digits c @ 46 # digits d @ [])"
    unfolding numeral_3_eq_3 by (subst more_octets.simps) (use 2 o sep in blast)
  then show ?thesis unfolding quad_def dotted_def using o(1) by force
qed

lemma digits_no_slash: "47 \<notin> set (digits n)"
  using digits_all [of 47 n] by (auto simp: is_digit_def)

text \<open>
  Every dotted address with parts up to 255 is accepted, alone and with a prefix length from 1 to 32.
\<close>

lemma match_ip_accepts:
  assumes "a \<le> 255" "b \<le> 255" "c \<le> 255" "d \<le> 255" "1 \<le> n" "n \<le> 32"
  shows "match_ip (dotted a b c d) \<and> match_ip (dotted a b c d @ 47 # digits n)"
proof -
  note q = quad_dotted [OF assms(1-4)]
  have ns: "47 \<notin> set (dotted a b c d)" using digits_no_slash by (auto simp: dotted_def)
  have num: "to_number (digits n) = Fin (of_nat n)" using to_number_digits [of n] assms(6) by simp
  have m: "match_ip (dotted a b c d)" using q by (simp add: match_ip_def matches_regex_ip)
  have sp: "js_split 47 (dotted a b c d @ 47 # digits n) = [dotted a b c d, digits n]"
    using ns digits_no_slash by (simp add: js_split_append js_split_notin)
  have "match_ip (dotted a b c d @ 47 # digits n)"
    unfolding match_ip_def sp using q num assms(5,6) by (simp add: matches_regex_ip Let_def)
  with m show ?thesis by blast
qed

lemma match_ip_accepts_example: "match_ip (str ''10.128.31.103'') \<and> match_ip (str ''10.128.31.103/25'')"
proof -
  have "dotted 10 128 31 103 = str ''10.128.31.103''" "digits 25 = str ''25''"
    by (simp_all add: dotted_def str_def digits.simps)
  with match_ip_accepts [of 10 128 31 103 25] show ?thesis by (simp add: str_def)
qed

section \<open>What the form of an application lets through\<close>

lemma check_ips_result:
  "\<exists>q. check_ips i els p = (Inr (if list_all match_ip els then None
      else Some (i + length (takeWhile match_ip els) + 1)), q)"
proof (induction els arbitrary: i p)
  case Nil
  show ?case by (simp add: ret_def)
next
  case (Cons el els)
  obtain p' where "myConsoleLog (str ''el='' @ el @ str '', tmp='' @ to_str (JBool (match_ip el))) p = (Inr (), p')"
    by (simp add: myConsoleLog_def try_catch_def)
  then show ?case
    using Cons.IH [of "Suc i" p'] by (auto simp: abind_def ret_def)
qed

definition ip_entries :: "js_string \<Rightarrow> js_string list" where
  "ip_entries s = js_split 44 (replace_units (\<lambda>c. if is_space c then [44] else [c]) s)"

lemma reject_result: "fst (reject msg sel p) = Inr False"
  by (simp add: reject_def page_defs abind_def emit_def ret_def)

text \<open>
  C34. The form of an application is accepted exactly when the name, the link, the domain and the list of
  addresses are not blank, the link starts with \<^verbatim>\<open>http\<close>, and every entry of the list, separated by commas
  or white space, passes the test; validation never throws.
\<close>

theorem validate_app_param_iff:
  "\<exists>b q. validate_app_param p = (Inr b, q) \<and>
    (b \<longleftrightarrow> js_trim (input p ''#txt_app_name'') \<noteq> [] \<and> take 4 (js_trim (input p ''#txt_app_link'')) = str ''http'' \<and>
      js_trim (input p ''#txt_app_domain'') \<noteq> [] \<and> js_trim (input p ''#txt_app_ip_list'') \<noteq> [] \<and>
      list_all match_ip (ip_entries (js_trim (input p ''#txt_app_ip_list''))))"
proof -
  let ?n = "js_trim (input p ''#txt_app_name'')" and ?l = "js_trim (input p ''#txt_app_link'')"
    and ?d = "js_trim (input p ''#txt_app_domain'')" and ?i = "js_trim (input p ''#txt_app_ip_list'')"
  have sub: "js_substr ?l 0 k = take (nat k) ?l" for k by (simp add: js_substr_def rel_index_def)
  have http: "js_substr ?l 0 4 \<noteq> str ''http'' \<and> js_substr ?l 0 5 \<noteq> str ''https'' \<longleftrightarrow> take 4 ?l \<noteq> str ''http''"
  proof -
    have "take 4 ?l = take 4 (take 5 ?l)" by simp
    then have "take 5 ?l = str ''https'' \<Longrightarrow> take 4 ?l = str ''http''" by (simp add: str_def)
    then show ?thesis unfolding sub by auto
  qed
  have ne: "take 4 ?l = str ''http'' \<Longrightarrow> ?l \<noteq> []" by (auto simp: str_def)
  obtain q where q: "check_ips 0 (ip_entries ?i) p =
    (Inr (if list_all match_ip (ip_entries ?i) then None else Some (length (takeWhile match_ip (ip_entries ?i)) + 1)), q)"
    using check_ips_result [of 0 "ip_entries ?i" p] by auto
  have "validate_app_param p = (if ?n = [] then reject msg_required ''#txt_app_name'' p
     else if ?l = [] then reject msg_required ''#txt_app_link'' p
     else if take 4 ?l \<noteq> str ''http'' then reject msg_http_prefix ''#txt_app_link'' p
     else if ?d = [] then reject msg_required ''#txt_app_domain'' p
     else if ?i = [] then reject msg_required ''#txt_app_ip_list'' p
     else if list_all match_ip (ip_entries ?i) then (Inr True, q)
     else (Inr False, snd (tipsInputParamMsg (msg_row_pre @ digits (length (takeWhile match_ip (ip_entries ?i)) + 1) @ msg_row_post)
            ''#txt_app_ip_list'' q)))"
    unfolding validate_app_param_def http [symmetric]
    using q by (simp add: abind_def val_trim_def ret_def ip_entries_def [symmetric] tipsInputParamMsg_def emit_def)
  moreover have "\<exists>s. reject m sel p = (Inr False, s)" for m sel using reject_result [of m sel p] by (metis prod.collapse)
  ultimately show ?thesis using ne by auto
qed

end
