(* ===== verification/Pages.thy ===== *)
theory Pages
  imports Console
begin

text \<open>
  Two scripts that configure library components: \<^verbatim>\<open>user.list.ops.js\<close>, the options, formatters and handlers
  of the user table, and \<^verbatim>\<open>gmq-echarts.js\<close>, the options of the charts.  An option object is a value; a
  function in it is known by its name and defined below.
\<close>

section \<open>user.list.ops.js\<close>

definition user_columns :: jsv where
  "user_columns =
     JArr [JObj [(str ''field'', S ''id''), (str ''title'', S ''ID''), (str ''align'', S ''center''),
     (str ''valign'', S ''middle'')], JObj [(str ''field'', S ''userName''), (str ''title'', JStr [0x7528, 0x6237,
     0x540D]), (str ''align'', S ''center''), (str ''valign'', S ''middle''), (str ''formatter'',
     S ''user_name_formatter'')], JObj [(str ''field'', S ''realName''), (str ''title'', JStr [0x771F, 0x5B9E,
     0x59D3, 0x540D]), (str ''align'', S ''center''), (str ''valign'', S ''middle'')], JObj [(str ''field'',
     S ''type''), (str ''title'', JStr [0x5458, 0x5DE5, 0x7C7B, 0x578B]), (str ''align'', S ''center''),
     (str ''valign'', S ''middle''), (str ''formatter'', S ''user_type_formatter'')], JObj [(str ''field'',
     S ''post''), (str ''title'', JStr [0x7528, 0x6237, 0x5C97, 0x4F4D]), (str ''align'', S ''center''),
     (str ''valign'', S ''middle'')], JObj [(str ''field'', S ''company''), (str ''title'', JStr [0x6240, 0x5C5E,
     0x516C, 0x53F8]), (str ''align'', S ''center''), (str ''valign'', S ''middle'')], JObj [(str ''field'',
     S ''createName''), (str ''title'', JStr [0x521B, 0x5EFA, 0x8005]), (str ''align'', S ''center''),
     (str ''valign'', S ''middle'')], JObj [(str ''field'', S ''createDate''), (str ''title'', JStr [0x521B, 0x5EFA,
     0x65F6, 0x95F4]), (str ''align'', S ''center''), (str ''valign'', S ''middle'')], JObj [(str ''field'',
     S ''status''), (str ''title'', JStr [0x64CD, 0x4F5C]), (str ''align'', S ''center''), (str ''valign'',
     S ''middle''), (str ''formatter'', S ''user_status_formatter'')]]"

definition user_table_options :: "rat \<Rightarrow> jsv" where
  "user_table_options rnd =
     JObj [(str ''url'', JStr (globalApi rnd ''api.user.list'')), (str ''dataField'', S ''data''), (str ''cache'',
     JBool False), (str ''striped'', JBool True), (str ''pagination'', JBool True), (str ''pageSize'', JInt 10),
     (str ''pageNumber'', JInt 1), (str ''pageList'', JArr [JInt 10, JInt 20, JInt 50]), (str ''search'',
     JBool False), (str ''showRefresh'', JBool False), (str ''clickToSelect'', JBool True), (str ''toolbar'',
     S ''#toolbar_user_list''), (str ''sidePagination'', S ''server''), (str ''queryParamsType'', S ''limit''),
     (str ''responseHandler'', JFun ''responseHandler''), (str ''queryParams'', JFun ''getParams''),
     (str ''columns'', user_columns), (str ''formatNoMatches'', JFun ''formatNoMatches'')]"

definition responseHandler :: "jsv \<Rightarrow> jsv act" where
  "responseHandler res = field res ''data''"

definition getParams :: "(js_string \<times> jsv) list \<Rightarrow> (js_string \<times> jsv) list act" where
  "getParams params = abind (val_trim ''#search_user_name'') (\<lambda>n. ret (set_prop (str ''userName'') (JStr n) params))"

definition formatNoMatches :: js_string where
  "formatNoMatches = [0x65E0, 0x7B26, 0x5408, 0x6761, 0x4EF6, 0x7684, 0x8BB0, 0x5F55]"

definition search_user_name :: "unit act" where
  "search_user_name = emit (BootstrapTable ''#table_user_list'' ''refresh'')"

definition on_resize :: "unit act" where
  "on_resize = emit (BootstrapTable ''#table_user_list'' ''resetView'')"

text \<open>The handler of the search field; the result tells whether the default action was prevented.\<close>

definition on_keydown :: "int \<Rightarrow> bool act" where
  "on_keydown keyCode = (if keyCode = 13 then abind search_user_name (\<lambda>_. ret True) else ret False)"

definition user_type_formatter :: "jsv \<Rightarrow> jsv act" where
  "user_type_formatter row = abind (field row ''type'') (\<lambda>t.
     ret (JStr (if strict_eq t (JInt 1) then [0x5916, 0x5305, 0x4EBA, 0x5458] else [0x6B63, 0x5F0F, 0x5458, 0x5DE5])))"

definition user_name_formatter :: "jsv \<Rightarrow> js_string act" where
  \<open>user_name_formatter row =
     abind (field row ''id'') (\<lambda>i. abind (field row ''userName'') (\<lambda>n.
     ret (str ''<a href="user.update.html?id='' @ to_str i @ str ''" title="" >'' @ to_str n @ str ''</a>'')))\<close>

definition user_button :: "string \<Rightarrow> js_string \<Rightarrow> jsv \<Rightarrow> jsv \<Rightarrow> jsv \<Rightarrow> js_string" where
  \<open>user_button name caption i n r =
     str ''<button type="button" class="btn btn-default btn-sm btn-info" onclick="handler_user_list_click()" name="'' @
     str name @ str ''" '' @ str '' userId="'' @ to_str i @ str ''" userName="'' @ to_str n @ str ''" realName="'' @
     to_str r @ str ''" >'' @ caption @ str ''</button>''\<close>

definition user_status_formatter :: "jsv \<Rightarrow> js_string act" where
  \<open>user_status_formatter row =
     abind (field row ''id'') (\<lambda>i. abind (field row ''userName'') (\<lambda>n. abind (field row ''realName'') (\<lambda>r.
     ret (user_button ''delete-user'' [0x5220, 0x9664] i n r @ str ''&nbsp;&nbsp;&nbsp;&nbsp;'' @
       user_button ''reset-pwd'' [0x91CD, 0x7F6E, 0x5BC6, 0x7801] i n r))))\<close>

section \<open>gmq-echarts.js\<close>

datatype chart_event = ChartInit js_string | ChartSetOption js_string jsv

record charts =
  chart_log :: "chart_event list"
  intervals :: "nat list"
  next_interval :: nat

definition pie_option :: "jsv \<Rightarrow> jsv \<Rightarrow> jsv \<Rightarrow> jsv \<Rightarrow> jsv \<Rightarrow> jsv" where
  "pie_option titleText subTitleText legendArray dataArray brokerAddr =
     JObj [(str ''backgroundColor'', S ''#F1FAFA''), (str ''title'', JObj [(str ''text'', titleText),
     (str ''subtext'', subTitleText), (str ''x'', S ''center'')]), (str ''tooltip'', JObj [(str ''trigger'',
     S ''item''), (str ''formatter'', S ''{a} <br/>{b} : {c} ({d}%)'')]), (str ''legend'', JObj [(str ''orient'',
     S ''vertical''), (str ''x'', S ''left''), (str ''data'', legendArray)]), (str ''calculable'', JBool True),
     (str ''series'', JArr [JObj [(str ''name'', brokerAddr), (str ''type'', S ''pie''), (str ''radius'', S ''55%''),
     (str ''center'', JArr [S ''50%'', S ''60%'']), (str ''data'', dataArray)]])]"

definition buildPieEchart :: "js_string \<Rightarrow> jsv \<Rightarrow> jsv \<Rightarrow> jsv \<Rightarrow> jsv \<Rightarrow> jsv \<Rightarrow> charts \<Rightarrow> charts" where
  "buildPieEchart containerEl titleText subTitleText legendArray dataArray brokerAddr c =
     c\<lparr>chart_log := chart_log c @ [ChartInit containerEl,
       ChartSetOption containerEl (pie_option titleText subTitleText legendArray dataArray brokerAddr)]\<rparr>"

text \<open>
  Arithmetic of the sample data, on doubles: \<^verbatim>\<open>Math.round\<close>, \<^verbatim>\<open>toFixed(1) - 0\<close>, products and sums rounded.
  \<open>rnds\<close> are the results of \<^verbatim>\<open>Math.random()\<close>, \<open>locale\<close> the engine's \<^verbatim>\<open>toLocaleTimeString\<close> of a time in
  milliseconds.
\<close>

definition dbl :: "rat \<Rightarrow> rat" where
  "dbl x = (case to_double x of Fin y \<Rightarrow> y | _ \<Rightarrow> 0)"

definition dec1 :: "int \<Rightarrow> jsv" where
  "dec1 n = JNum (to_double (of_int n / 10))"

definition round_thousand :: "rat \<Rightarrow> jsv" where
  "round_thousand r = JInt \<lfloor>dbl (r * 1000) + 1/2\<rfloor>"

definition to_fixed1 :: "rat \<Rightarrow> jsv" where
  "to_fixed1 x = dec1 (if x < 0 then - \<lfloor>- x * 10 + 1/2\<rfloor> else \<lfloor>x * 10 + 1/2\<rfloor>)"

definition price :: "rat \<Rightarrow> jsv" where
  "price r = to_fixed1 (dbl (dbl (r * 10) + 5))"

definition time_label :: "(int \<Rightarrow> js_string) \<Rightarrow> int \<Rightarrow> js_string" where
  "time_label locale t = dropWhile (\<lambda>c. \<not> is_digit c) (locale t)"

fun time_loop :: "nat \<Rightarrow> (int \<Rightarrow> js_string) \<Rightarrow> int \<Rightarrow> js_string list \<Rightarrow> js_string list" where
  "time_loop 0 locale now res = res"
| "time_loop (Suc len) locale now res = time_loop len locale (now - 2000) (time_label locale now # res)"

definition time_labels :: "(int \<Rightarrow> js_string) \<Rightarrow> int \<Rightarrow> js_string list" where
  "time_labels locale now = time_loop 10 locale now []"

fun countdown_loop :: "nat \<Rightarrow> int list \<Rightarrow> int list" where
  "countdown_loop 0 res = res"
| "countdown_loop (Suc len) res = countdown_loop len (res @ [int len + 1])"

definition countdown :: "int list" where
  "countdown = countdown_loop 10 []"

definition line_option :: "(int \<Rightarrow> js_string) \<Rightarrow> int \<Rightarrow> rat list \<Rightarrow> jsv \<Rightarrow> jsv" where
  "line_option locale now rnds titleText =
     JObj [(str ''title'', JObj [(str ''text'', titleText)]), (str ''tooltip'', JObj [(str ''trigger'',
     S ''axis'')]), (str ''legend'', JObj [(str ''data'', JArr [JStr [0x6700, 0x65B0, 0x6210, 0x4EA4, 0x4EF7],
     JStr [0x9884, 0x8D2D, 0x961F, 0x5217]])]), (str ''dataZoom'', JObj [(str ''show'', JBool False), (str ''start'',
     JInt 0), (str ''end'', JInt 100)]), (str ''xAxis'', JArr [JObj [(str ''type'', S ''category''),
     (str ''boundaryGap'', JBool True), (str ''data'', JArr (map JStr (time_labels locale now)))],
     JObj [(str ''type'', S ''category''), (str ''boundaryGap'', JBool True), (str ''data'',
     JArr (map JInt countdown))]]), (str ''yAxis'', JArr [JObj [(str ''type'', S ''value''), (str ''scale'',
     JBool True), (str ''name'', JStr [0x4EF7, 0x683C]), (str ''boundaryGap'', JArr [dec1 2, dec1 2])],
     JObj [(str ''type'', S ''value''), (str ''scale'', JBool True), (str ''name'', JStr [0x9884, 0x8D2D, 0x91CF]),
     (str ''boundaryGap'', JArr [dec1 2, dec1 2])]]), (str ''series'', JArr [JObj [(str ''name'', JStr [0x9884,
     0x8D2D, 0x961F, 0x5217]), (str ''type'', S ''bar''), (str ''xAxisIndex'', JInt 1), (str ''yAxisIndex'', JInt 1),
     (str ''data'', JArr (map round_thousand (take 10 rnds)))], JObj [(str ''name'', JStr [0x6700, 0x65B0, 0x6210,
     0x4EA4, 0x4EF7]), (str ''type'', S ''line''), (str ''data'', JArr (map price (take 10 (drop 10 rnds))))]])]"

text \<open>
  One tick of the interval: the new value of \<^verbatim>\<open>lastData\<close> and the two rows handed to \<^verbatim>\<open>addData\<close>, from the
  three random numbers it draws.
\<close>

definition line_tick :: "(int \<Rightarrow> js_string) \<Rightarrow> int \<Rightarrow> rat \<Rightarrow> rat \<Rightarrow> rat \<Rightarrow> rat \<Rightarrow> jsv \<times> jsv" where
  "line_tick locale now lastData r1 r2 r3 =
     (let sign = (if \<lfloor>dbl (r2 * 10) + 1/2\<rfloor> mod 2 = 0 then 1 else - 1);
          last = to_fixed1 (dbl (lastData + r1 * sign))
      in (last, JArr [JArr [JInt 0, round_thousand r3, JBool True, JBool False],
            JArr [JInt 1, last, JBool False, JBool False, JStr (time_label locale now)]]))"

definition setInterval :: "charts \<Rightarrow> nat \<times> charts" where
  "setInterval c = (next_interval c, c\<lparr>intervals := intervals c @ [next_interval c], next_interval := next_interval c + 1\<rparr>)"

definition clearInterval :: "nat \<Rightarrow> charts \<Rightarrow> charts" where
  "clearInterval i c = c\<lparr>intervals := removeAll i (intervals c)\<rparr>"

definition buildLineEchart :: "(int \<Rightarrow> js_string) \<Rightarrow> int \<Rightarrow> rat list \<Rightarrow> js_string \<Rightarrow> jsv \<Rightarrow> charts \<Rightarrow> charts" where
  "buildLineEchart locale now rnds containerEl titleText c =
     (let (timeTicket, c) = setInterval c;
          c = clearInterval timeTicket c
      in c\<lparr>chart_log := chart_log c @ [ChartInit containerEl,
           ChartSetOption containerEl (line_option locale now rnds titleText)]\<rparr>)"

section \<open>The line chart\<close>

lemma time_loop_labels:
  "time_loop n locale now res = map (\<lambda>k. time_label locale (now - 2000 * int k)) (rev [0..<n]) @ res"
proof (induction n arbitrary: now res)
  case (Suc n)
  have "map (\<lambda>k. time_label locale (now - 2000 - 2000 * int k)) (rev [0..<n]) =
      map (\<lambda>k. time_label locale (now - 2000 * int k)) (rev [1..<Suc n])"
    by (simp add: map_Suc_upt [symmetric] rev_map comp_def algebra_simps del: upt_Suc)
  moreover have "[0..<Suc n] = 0 # [1..<Suc n]" by (simp add: upt_conv_Cons del: upt_Suc)
  ultimately show ?case using Suc by (simp del: upt_Suc)
qed simp

lemma countdown_values: "countdown = [10, 9, 8, 7, 6, 5, 4, 3, 2, 1]"
  by code_simp

text \<open>
  The line chart never updates: its timer is cleared before it can fire, so the timers of the page are
  what they were.  The one option it sets has ten time labels two seconds apart, the latest last, ten places
  that count down from ten to one, and ten values in each of its two series.
\<close>

lemma line_chart_static:
  assumes "list_all (\<lambda>i. i < next_interval c) (intervals c)" "20 \<le> length rnds"
  shows "intervals (buildLineEchart locale now rnds el title c) = intervals c \<and>
    chart_log (buildLineEchart locale now rnds el title c) =
      chart_log c @ [ChartInit el, ChartSetOption el (line_option locale now rnds title)] \<and>
    time_labels locale now = map (\<lambda>k. time_label locale (now - 2000 * int k)) [9, 8, 7, 6, 5, 4, 3, 2, 1, 0] \<and>
    countdown = [10, 9, 8, 7, 6, 5, 4, 3, 2, 1] \<and>
    length (map round_thousand (take 10 rnds)) = 10 \<and> length (map price (take 10 (drop 10 rnds))) = 10"
proof -
  have "removeAll (next_interval c) (intervals c) = intervals c"
    using assms(1) by (intro removeAll_id) (auto simp: list_all_iff)
  moreover have "time_labels locale now = map (\<lambda>k. time_label locale (now - 2000 * int k)) (rev [0..<10])"
    by (simp add: time_labels_def time_loop_labels)
  moreover have "rev [0..<10] = [9, 8, 7, 6, 5, 4, 3, 2, 1, 0 :: nat]" by code_simp
  ultimately show ?thesis
    using assms(2) by (simp add: buildLineEchart_def setInterval_def clearInterval_def countdown_values del: upt.simps)
qed

lemma line_chart_static_example:
  "intervals (buildLineEchart (\<lambda>t. int_str t) 20000 (replicate 20 0) (str ''main'') (S ''TPS'')
     \<lparr>chart_log = [], intervals = [1], next_interval = 2\<rparr>) = [1]"
  using line_chart_static [of "\<lparr>chart_log = [], intervals = [1], next_interval = 2\<rparr>" "replicate 20 0"] by simp

end
