(* ===== verification/TableTools.thy ===== *)
theory TableTools
  imports JsString
begin

text \<open>
  The helper functions at the top of \<^verbatim>\<open>bootstrap-table.js\<close>, the console's table widget: formatting,
  escaping, looking up columns and nested fields, and laying out the header cells on a grid.  Global
  objects and the functions a page supplies are parameters: \<open>window\<close> lists the global names, \<open>call\<close> says
  what a named function returns on its arguments.
\<close>

section \<open>Formatting and escaping\<close>

text \<open>
  \<^verbatim>\<open>sprintf\<close> replaces each \<^verbatim>\<open>%s\<close> by the next argument; one that is missing makes the whole result empty.
\<close>

fun sprintf_loop :: "js_string \<Rightarrow> jsv list \<Rightarrow> js_string \<times> bool" where
  "sprintf_loop [] args = ([], True)"
| "sprintf_loop [x] args = ([x], True)"
| "sprintf_loop (x # y # s) args =
     (if x = 37 \<and> y = 115 then
        (let arg = (case args of [] \<Rightarrow> Undefined | a # _ \<Rightarrow> a);
             (r, flag) = sprintf_loop s (tl args)
         in if arg = Undefined then (r, False) else (to_str arg @ r, flag))
      else (let (r, flag) = sprintf_loop (y # s) args in (x # r, flag)))"

definition sprintf :: "js_string \<Rightarrow> jsv list \<Rightarrow> js_string" where
  "sprintf s args = (let (r, flag) = sprintf_loop s args in if flag then r else [])"

text \<open>The six replacements of \<^verbatim>\<open>escapeHTML\<close>, one after the other; only strings are escaped.\<close>

definition escape_string :: "js_string \<Rightarrow> js_string" where
  "escape_string t =
     replace_lit [96] (str ''&#x60;'') (replace_lit [39] (str ''&#039;'') (replace_lit [34] (str ''&quot;'')
       (replace_lit [62] (str ''&gt;'') (replace_lit [60] (str ''&lt;'') (replace_lit [38] (str ''&amp;'') t)))))"

fun escapeHTML :: "jsv \<Rightarrow> jsv" where
  "escapeHTML (JStr t) = JStr (escape_string t)"
| "escapeHTML v = v"

section \<open>Columns and fields\<close>

type_synonym props = "(js_string \<times> jsv) list"

fun getPropertyFromOther :: "props list \<Rightarrow> js_string \<Rightarrow> js_string \<Rightarrow> jsv \<Rightarrow> jsv" where
  "getPropertyFromOther [] frm dst value = JStr []"
| "getPropertyFromOther (item # items) frm dst value =
     (if strict_eq (lookup item frm) value then lookup item dst else getPropertyFromOther items frm dst value)"

fun field_index_from :: "int \<Rightarrow> props list \<Rightarrow> jsv \<Rightarrow> int" where
  "field_index_from i [] field = - 1"
| "field_index_from i (column # columns) field =
     (if strict_eq (lookup column (str ''field'')) field then i else field_index_from (i + 1) columns field)"

definition getFieldIndex :: "props list \<Rightarrow> jsv \<Rightarrow> int" where
  "getFieldIndex columns field = field_index_from 0 columns field"

text \<open>A property of an object, an element of an array, a character of a string.\<close>

definition elem :: "jsv \<Rightarrow> jsv \<Rightarrow> js_error + jsv" where
  "elem v key =
     (let k = to_str key in
      case v of
        JArr vs \<Rightarrow>
          (if list_all is_digit k \<and> k \<noteq> [] \<and> k = digits (nat (dec_val k)) \<and> nat (dec_val k) < length vs
           then Inr (vs ! nat (dec_val k)) else get_prop v k)
      | _ \<Rightarrow> get_prop v k)"

definition has_own :: "jsv \<Rightarrow> js_string \<Rightarrow> bool" where
  "has_own v k = (case v of JObj ps \<Rightarrow> k \<in> fst ` set ps
     | JArr vs \<Rightarrow> k = str ''length'' \<or> list_all is_digit k \<and> k \<noteq> [] \<and> k = digits (nat (dec_val k)) \<and> nat (dec_val k) < length vs
     | _ \<Rightarrow> False)"

fun walk :: "jsv \<Rightarrow> js_string list \<Rightarrow> js_error + jsv" where
  "walk value [] = Inr value"
| "walk value (p # ps) = (if truthy value then ebind (elem value (JStr p)) (\<lambda>v. walk v ps) else walk value ps)"

definition getItemField :: "jsv \<Rightarrow> jsv \<Rightarrow> bool \<Rightarrow> js_error + jsv" where
  "getItemField item field escape =
     ebind (case field of
              JStr f \<Rightarrow>
                if item = Undefined \<or> item = JNull then Inl TypeError
                else if has_own item f then elem item field else walk item (js_split 46 f)
            | _ \<Rightarrow> elem item field)
       (\<lambda>v. Inr (if escape then escapeHTML v else v))"

section \<open>Values that may be functions\<close>

fun path_value :: "jsv \<Rightarrow> js_string list \<Rightarrow> js_error + jsv" where
  "path_value func [] = Inr func"
| "path_value func (f # fs) = ebind (elem func (JStr f)) (\<lambda>v. path_value v fs)"

definition calculateObjectValue ::
  "props \<Rightarrow> (string \<Rightarrow> jsv list \<Rightarrow> js_error + jsv) \<Rightarrow> jsv \<Rightarrow> jsv list \<Rightarrow> jsv \<Rightarrow> js_error + jsv" where
  "calculateObjectValue window call name args defaultValue =
     ebind (case name of
              JStr s \<Rightarrow>
                (let names = js_split 46 s in
                 if length names > 1 then path_value (JObj window) names else Inr (lookup window s))
            | _ \<Rightarrow> Inr name)
       (\<lambda>func. case func of
          JNull \<Rightarrow> Inr func
        | JObj _ \<Rightarrow> Inr func
        | JArr _ \<Rightarrow> Inr func
        | JFun f \<Rightarrow> call f args
        | _ \<Rightarrow>
            (case name of
               JStr s \<Rightarrow> Inr (if \<not> truthy func \<and> sprintf s args \<noteq> [] then JStr (sprintf s args) else defaultValue)
             | _ \<Rightarrow> Inr defaultValue))"

definition compareObjects :: "props \<Rightarrow> props \<Rightarrow> bool \<Rightarrow> bool" where
  "compareObjects objectA objectB compareLength =
     (if compareLength \<and> length objectA \<noteq> length objectB then False
      else list_all (\<lambda>propName. propName \<in> fst ` set objectB \<longrightarrow> strict_eq (lookup objectA propName) (lookup objectB propName))
        (map fst objectA))"

text \<open>\<^verbatim>\<open>getRealDataAttr\<close> turns \<^verbatim>\<open>fooBar\<close> into \<^verbatim>\<open>foo-bar\<close>; attribute names are ASCII.\<close>

definition is_upper :: "code_unit \<Rightarrow> bool" where
  "is_upper c \<longleftrightarrow> 65 \<le> c \<and> c \<le> 90"

definition dashed :: "js_string \<Rightarrow> js_string" where
  "dashed s = (case s of [] \<Rightarrow> [] | c # r \<Rightarrow> lower (c # concat (map (\<lambda>x. if is_upper x then [45, x] else [x]) r)))"

definition real_attr_step :: "js_string \<Rightarrow> props \<Rightarrow> props" where
  "real_attr_step attr ps =
     (let auxAttr = dashed attr in
      if auxAttr \<noteq> attr
      then filter (\<lambda>(k, v). k \<noteq> attr) (set_prop auxAttr (lookup ps attr) ps) else ps)"

definition getRealDataAttr :: "props \<Rightarrow> props" where
  "getRealDataAttr dataAttr = fold real_attr_step (map fst dataAttr) dataAttr"

section \<open>The grid of header cells\<close>

text \<open>
  \<open>flag\<close> has a row of booleans per header row.  An index of -1 (no free place) writes outside the array;
  writing past the end extends it with holes, which are not free either.
\<close>

record hcell =
  rowspan :: nat
  colspan :: nat
  cell_field :: jsv
  fieldIndex :: "int option"

definition span_of :: "nat \<Rightarrow> nat" where
  "span_of n = (if n = 0 then 1 else n)"

definition totalCol :: "hcell list \<Rightarrow> nat" where
  "totalCol cells = sum_list (map (\<lambda>c. span_of (colspan c)) cells)"

definition free_index :: "bool list \<Rightarrow> int" where
  "free_index row = (if False \<in> set row then int (length (takeWhile (\<lambda>b. b) row)) else - 1)"

definition set_flag :: "int \<Rightarrow> bool list \<Rightarrow> bool list" where
  "set_flag j row =
     (if j < 0 then row
      else if nat j < length row then row[nat j := True]
      else row @ replicate (nat j - length row) True @ [True])"

fun mark_down :: "nat \<Rightarrow> nat \<Rightarrow> int \<Rightarrow> bool list list \<Rightarrow> js_error + bool list list" where
  "mark_down 0 i index flag = Inr flag"
| "mark_down (Suc k) i index flag =
     (if i < length flag then mark_down k (Suc i) index (flag[i := set_flag index (flag ! i)]) else Inl TypeError)"

fun mark_right :: "nat \<Rightarrow> int \<Rightarrow> bool list \<Rightarrow> bool list" where
  "mark_right 0 index row = row"
| "mark_right (Suc k) index row = mark_right k (index + 1) (set_flag index row)"

definition place_cell :: "nat \<Rightarrow> hcell \<Rightarrow> bool list list \<Rightarrow> js_error + hcell \<times> bool list list" where
  "place_cell i r flag =
     (let index = free_index (flag ! i);
          r' = (if span_of (colspan r) = 1
                then r\<lparr>fieldIndex := Some index,
                       cell_field := (if cell_field r = Undefined then JInt index else cell_field r)\<rparr>
                else r)
      in ebind (mark_down (span_of (rowspan r)) i index flag) (\<lambda>flag.
         Inr (r', flag[i := mark_right (span_of (colspan r)) index (flag ! i)])))"

fun place_row :: "nat \<Rightarrow> hcell list \<Rightarrow> bool list list \<Rightarrow> js_error + hcell list \<times> bool list list" where
  "place_row i [] flag = Inr ([], flag)"
| "place_row i (r # rs) flag =
     ebind (place_cell i r flag) (\<lambda>(r, flag).
     ebind (place_row i rs flag) (\<lambda>(rs, flag). Inr (r # rs, flag)))"

fun place_rows :: "nat \<Rightarrow> hcell list list \<Rightarrow> bool list list \<Rightarrow> js_error + hcell list list" where
  "place_rows i [] flag = Inr []"
| "place_rows i (row # rows) flag =
     ebind (place_row i row flag) (\<lambda>(row, flag).
     ebind (place_rows (Suc i) rows flag) (\<lambda>rows. Inr (row # rows)))"

definition setFieldIndex :: "hcell list list \<Rightarrow> js_error + hcell list list" where
  "setFieldIndex columns =
     (case columns of
        [] \<Rightarrow> Inl TypeError
      | first # _ \<Rightarrow> place_rows 0 columns (replicate (length columns) (replicate (totalCol first) False)))"

section \<open>Escaped text\<close>

definition esc_char :: "code_unit \<Rightarrow> js_string" where
  "esc_char c =
     (if c = 38 then str ''&amp;'' else if c = 60 then str ''&lt;'' else if c = 62 then str ''&gt;''
      else if c = 34 then str ''&quot;'' else if c = 39 then str ''&#039;'' else if c = 96 then str ''&#x60;'' else [c])"

lemma replace_lit_unit: "replace_lit [c] r s = concat (map (\<lambda>x. if x = c then r else [x]) s)"
proof (induction s)
  case (Cons x s)
  then show ?case by (subst replace_lit.simps) simp
qed (simp add: replace_lit.simps)

lemma concat_map_concat: "concat (map g (concat (map f xs))) = concat (map (\<lambda>x. concat (map g (f x))) xs)"
  by (induction xs) auto

lemma escape_string_chars: "escape_string t = concat (map esc_char t)"
proof -
  have "escape_string t = concat (map (\<lambda>x. escape_string [x]) t)"
    unfolding escape_string_def replace_lit_unit concat_map_concat by simp
  moreover have "escape_string [x] = esc_char x" for x
    unfolding escape_string_def replace_lit_unit by (simp add: esc_char_def str_def)
  ultimately show ?thesis by simp
qed

lemma esc_char_prefix: "esc_char x @ s = esc_char y @ t \<Longrightarrow> x = y \<and> s = t"
  by (auto simp: esc_char_def str_def split: if_splits)

lemma esc_char_set: "u \<in> set (esc_char c) \<Longrightarrow> u \<notin> {60, 62, 34, 39, 96}"
  by (auto simp: esc_char_def str_def split: if_splits)

lemma esc_char_ne: "esc_char c \<noteq> []"
  by (simp add: esc_char_def str_def)

text \<open>
  C40. Escaped text cannot open or close a tag or an attribute value: it has none of the characters
  \<^verbatim>\<open><\<close>, \<^verbatim>\<open>>\<close>, \<^verbatim>\<open>"\<close>, \<^verbatim>\<open>'\<close> and backquote, and the original text is determined by it.
\<close>

theorem escape_safe_injective:
  "set (escape_string s) \<inter> {60, 62, 34, 39, 96} = {} \<and> (escape_string s = escape_string t \<longleftrightarrow> s = t)"
proof
  show "set (escape_string s) \<inter> {60, 62, 34, 39, 96} = {}"
    unfolding escape_string_chars using esc_char_set by fastforce
  show "escape_string s = escape_string t \<longleftrightarrow> s = t"
    unfolding escape_string_chars
  proof
    show "concat (map esc_char s) = concat (map esc_char t) \<Longrightarrow> s = t"
    proof (induction s arbitrary: t)
      case Nil
      then show ?case by (cases t) (auto simp: esc_char_ne)
    next
      case (Cons x s)
      then obtain y u where t: "t = y # u" by (cases t) (auto simp: esc_char_ne)
      with Cons esc_char_prefix [of x "concat (map esc_char s)" y "concat (map esc_char u)"] show ?case by simp
    qed
  qed simp
qed

section \<open>A single header row\<close>

definition with_index :: "nat \<Rightarrow> hcell \<Rightarrow> hcell" where
  "with_index n r =
     (if span_of (colspan r) = 1
      then r\<lparr>fieldIndex := Some (int n), cell_field := (if cell_field r = Undefined then JInt (int n) else cell_field r)\<rparr>
      else r)"

fun indexed :: "nat \<Rightarrow> hcell list \<Rightarrow> hcell list" where
  "indexed n [] = []"
| "indexed n (r # rs) = with_index n r # indexed (n + span_of (colspan r)) rs"

definition taken :: "nat \<Rightarrow> nat \<Rightarrow> bool list" where
  "taken n m = replicate n True @ replicate m False"

lemma takeWhile_replicate: "takeWhile (\<lambda>b. b) (replicate n True @ replicate m False) = replicate n True"
proof (induction n)
  case 0
  then show ?case by (cases m) simp_all
qed simp

lemma free_index_taken: "0 < m \<Longrightarrow> free_index (taken n m) = int n"
  by (auto simp: free_index_def taken_def takeWhile_replicate)

lemma set_flag_taken: "0 < m \<Longrightarrow> set_flag (int n) (taken n m) = taken (Suc n) (m - 1)"
  by (cases m) (simp_all add: set_flag_def taken_def list_update_append replicate_app_Cons_same)

lemma set_flag_again: "0 < n \<Longrightarrow> set_flag (int (n - 1)) (taken n m) = taken n m"
proof -
  assume n: "0 < n"
  then have "(replicate n True)[n - 1 := True] = replicate n True"
    by (metis list_update_id nth_replicate diff_less zero_less_one)
  then show ?thesis using n by (simp add: set_flag_def taken_def list_update_append nat_diff_distrib)
qed

lemma mark_right_taken: "k \<le> m \<Longrightarrow> mark_right k (int n) (taken n m) = taken (n + k) (m - k)"
proof (induction k arbitrary: n m)
  case (Suc k)
  then show ?case using Suc.IH [of "m - 1" "Suc n"] set_flag_taken [of m n] by (simp add: add.commute)
qed simp

lemma place_cell_single:
  assumes "span_of (colspan r) \<le> m"
  shows "place_cell 0 r [taken n m] =
    (if span_of (rowspan r) = 1 then Inr (with_index n r, [taken (n + span_of (colspan r)) (m - span_of (colspan r))]) else Inl TypeError)"
proof -
  have pos: "0 < span_of (colspan r)" "0 < span_of (rowspan r)" by (simp_all add: span_of_def)
  then have m: "0 < m" using assms by simp
  obtain k where k: "span_of (colspan r) = Suc k" using pos(1) by (cases "span_of (colspan r)") auto
  obtain h where h: "span_of (rowspan r) = Suc h" using pos(2) by (cases "span_of (rowspan r)") auto
  have "mark_right (Suc k) (int n) (taken (Suc n) (m - 1)) = taken (n + Suc k) (m - Suc k)"
    using set_flag_again [of "Suc n" "m - 1"] mark_right_taken [of k "m - 1" "Suc n"] assms k by (simp add: add.commute)
  then show ?thesis
    using k h m by (cases h) (auto simp: place_cell_def free_index_taken set_flag_taken with_index_def Let_def)
qed

lemma place_row_single:
  "totalCol rs \<le> m \<Longrightarrow> list_all (\<lambda>r. span_of (rowspan r) = 1) rs \<Longrightarrow>
     \<exists>flag. place_row 0 rs [taken n m] = Inr (indexed n rs, flag)"
proof (induction rs arbitrary: n m)
  case (Cons r rs)
  then have le: "span_of (colspan r) \<le> m" "totalCol rs \<le> m - span_of (colspan r)" by (auto simp: totalCol_def)
  from Cons.IH [OF le(2)] Cons.prems(2) obtain flag where
    "place_row 0 rs [taken (n + span_of (colspan r)) (m - span_of (colspan r))] = Inr (indexed (n + span_of (colspan r)) rs, flag)"
    by fastforce
  with Cons.prems(2) place_cell_single [OF le(1), of n] show ?case by simp
qed simp

lemma place_row_overhang:
  "totalCol rs \<le> m \<Longrightarrow> \<not> list_all (\<lambda>r. span_of (rowspan r) = 1) rs \<Longrightarrow> place_row 0 rs [taken n m] = Inl TypeError"
proof (induction rs arbitrary: n m)
  case (Cons r rs)
  then have le: "span_of (colspan r) \<le> m" "totalCol rs \<le> m - span_of (colspan r)" by (auto simp: totalCol_def)
  from Cons.IH [OF le(2), of "n + span_of (colspan r)"] Cons.prems(2) place_cell_single [OF le(1), of n] show ?case by auto
qed simp

text \<open>
  With one header row the cells are laid out from left to right: each cell of one column gets as its
  field index the number of columns before it, and a cell that reaches below the header makes the layout throw.
\<close>

lemma setFieldIndex_single_row:
  "setFieldIndex [cells] = (if list_all (\<lambda>r. rowspan r \<le> 1) cells then Inr [indexed 0 cells] else Inl TypeError)"
proof -
  have sp: "list_all (\<lambda>r. span_of (rowspan r) = 1) cells \<longleftrightarrow> list_all (\<lambda>r. rowspan r \<le> 1) cells"
    by (auto simp: list_all_iff span_of_def le_Suc_eq)
  have t: "replicate (totalCol cells) False = taken 0 (totalCol cells)" by (simp add: taken_def)
  show ?thesis
    using place_row_single [of cells "totalCol cells" 0] place_row_overhang [of cells "totalCol cells" 0]
    unfolding sp by (auto simp: setFieldIndex_def t)
qed

end
