(* ===== verification/TableOptions.thy ===== *)
theory TableOptions
  imports TableTools
begin

text \<open>
  The option objects of \<^verbatim>\<open>bootstrap-table.js\<close>: the defaults of a table and of a column, the English texts,
  the handler each event calls, the choice of a locale, and the jQuery plugin function that creates a
  table or forwards a method call to it.  A function value is known by the key it stands under;
  \<open>default_call\<close> says what the functions of the default objects return.
\<close>

section \<open>Default objects\<close>

definition PLAIN_DEFAULTS :: props where
  "PLAIN_DEFAULTS =
    [(str ''classes'', S ''table table-hover''), (str ''locale'', Undefined), (str ''height'', Undefined),
     (str ''undefinedText'', S ''-''), (str ''sortName'', Undefined), (str ''sortOrder'', S ''asc''),
     (str ''sortStable'', JBool False), (str ''striped'', JBool False), (str ''columns'', JArr [JArr []]),
     (str ''data'', JArr []), (str ''dataField'', S ''rows''), (str ''method'', S ''get''),
     (str ''url'', Undefined), (str ''ajax'', Undefined), (str ''cache'', JBool True),
     (str ''contentType'', S ''application/json''), (str ''dataType'', S ''json''),
     (str ''ajaxOptions'', JObj []), (str ''queryParams'', JFun ''queryParams''),
     (str ''queryParamsType'', S ''limit''), (str ''responseHandler'', JFun ''responseHandler''),
     (str ''pagination'', JBool False), (str ''onlyInfoPagination'', JBool False),
     (str ''sidePagination'', S ''client''), (str ''totalRows'', JInt 0), (str ''pageNumber'', JInt 1),
     (str ''pageSize'', JInt 10), (str ''pageList'', JArr [JInt 10, JInt 25, JInt 50, JInt 100]),
     (str ''paginationHAlign'', S ''right''), (str ''paginationVAlign'', S ''bottom''),
     (str ''paginationDetailHAlign'', S ''left''), (str ''paginationPreText'', S ''&lsaquo;''),
     (str ''paginationNextText'', S ''&rsaquo;''), (str ''search'', JBool False),
     (str ''searchOnEnterKey'', JBool False), (str ''strictSearch'', JBool False),
     (str ''searchAlign'', S ''right''), (str ''selectItemName'', S ''btSelectItem''),
     (str ''showHeader'', JBool True), (str ''showFooter'', JBool False),
     (str ''showColumns'', JBool False), (str ''showPaginationSwitch'', JBool False),
     (str ''showRefresh'', JBool False), (str ''showToggle'', JBool False),
     (str ''buttonsAlign'', S ''right''), (str ''smartDisplay'', JBool True), (str ''escape'', JBool False),
     (str ''minimumCountColumns'', JInt 1), (str ''idField'', Undefined), (str ''uniqueId'', Undefined),
     (str ''cardView'', JBool False), (str ''detailView'', JBool False),
     (str ''detailFormatter'', JFun ''detailFormatter''), (str ''trimOnSearch'', JBool True),
     (str ''clickToSelect'', JBool False), (str ''singleSelect'', JBool False),
     (str ''toolbar'', Undefined), (str ''toolbarAlign'', S ''left''), (str ''checkboxHeader'', JBool True),
     (str ''sortable'', JBool True), (str ''silentSort'', JBool True),
     (str ''maintainSelected'', JBool False), (str ''searchTimeOut'', JInt 500),
     (str ''searchText'', JStr []), (str ''iconSize'', Undefined), (str ''buttonsClass'', S ''default''),
     (str ''iconsPrefix'', S ''glyphicon''),
     (str ''icons'', JObj
       [(str ''paginationSwitchDown'', S ''glyphicon-collapse-down icon-chevron-down''),
        (str ''paginationSwitchUp'', S ''glyphicon-collapse-up icon-chevron-up''),
        (str ''refresh'', S ''glyphicon-refresh icon-refresh''), (str ''toggle'', S ''glyphicon-list-alt icon-list-alt''),
        (str ''columns'', S ''glyphicon-th icon-th''), (str ''detailOpen'', S ''glyphicon-plus icon-plus''),
        (str ''detailClose'', S ''glyphicon-minus icon-minus'')])]"

definition HANDLER_DEFAULTS :: props where
  "HANDLER_DEFAULTS =
    [(str ''customSearch'', JFun ''noop''), (str ''customSort'', JFun ''noop''),
     (str ''rowStyle'', JFun ''rowStyle''), (str ''rowAttributes'', JFun ''rowAttributes''),
     (str ''footerStyle'', JFun ''footerStyle''), (str ''onAll'', JFun ''onAll''),
     (str ''onClickCell'', JFun ''onClickCell''), (str ''onDblClickCell'', JFun ''onDblClickCell''),
     (str ''onClickRow'', JFun ''onClickRow''), (str ''onDblClickRow'', JFun ''onDblClickRow''),
     (str ''onSort'', JFun ''onSort''), (str ''onCheck'', JFun ''onCheck''),
     (str ''onUncheck'', JFun ''onUncheck''), (str ''onCheckAll'', JFun ''onCheckAll''),
     (str ''onUncheckAll'', JFun ''onUncheckAll''), (str ''onCheckSome'', JFun ''onCheckSome''),
     (str ''onUncheckSome'', JFun ''onUncheckSome''), (str ''onLoadSuccess'', JFun ''onLoadSuccess''),
     (str ''onLoadError'', JFun ''onLoadError''), (str ''onColumnSwitch'', JFun ''onColumnSwitch''),
     (str ''onPageChange'', JFun ''onPageChange''), (str ''onSearch'', JFun ''onSearch''),
     (str ''onToggle'', JFun ''onToggle''), (str ''onPreBody'', JFun ''onPreBody''),
     (str ''onPostBody'', JFun ''onPostBody''), (str ''onPostHeader'', JFun ''onPostHeader''),
     (str ''onExpandRow'', JFun ''onExpandRow''), (str ''onCollapseRow'', JFun ''onCollapseRow''),
     (str ''onRefreshOptions'', JFun ''onRefreshOptions''), (str ''onRefresh'', JFun ''onRefresh''),
     (str ''onResetView'', JFun ''onResetView'')]"

definition EN_US :: props where
  "EN_US =
    [(str ''formatLoadingMessage'', JFun ''formatLoadingMessage''),
     (str ''formatRecordsPerPage'', JFun ''formatRecordsPerPage''),
     (str ''formatShowingRows'', JFun ''formatShowingRows''),
     (str ''formatDetailPagination'', JFun ''formatDetailPagination''),
     (str ''formatSearch'', JFun ''formatSearch''), (str ''formatNoMatches'', JFun ''formatNoMatches''),
     (str ''formatPaginationSwitch'', JFun ''formatPaginationSwitch''),
     (str ''formatRefresh'', JFun ''formatRefresh''), (str ''formatToggle'', JFun ''formatToggle''),
     (str ''formatColumns'', JFun ''formatColumns''), (str ''formatAllRows'', JFun ''formatAllRows'')]"

text \<open>\<^verbatim>\<open>$.extend(BootstrapTable.DEFAULTS, BootstrapTable.LOCALES['en-US'])\<close>\<close>

definition DEFAULTS :: props where
  "DEFAULTS = jq_extend (PLAIN_DEFAULTS @ HANDLER_DEFAULTS) EN_US"

definition LOCALES :: "(js_string \<times> props) list" where
  "LOCALES = [(str ''en-US'', EN_US), (str ''en'', EN_US)]"

definition COLUMN_DEFAULTS :: props where
  "COLUMN_DEFAULTS =
    [(str ''radio'', JBool False), (str ''checkbox'', JBool False), (str ''checkboxEnabled'', JBool True),
     (str ''field'', Undefined), (str ''title'', Undefined), (str ''titleTooltip'', Undefined),
     (str ''class'', Undefined), (str ''align'', Undefined), (str ''halign'', Undefined),
     (str ''falign'', Undefined), (str ''valign'', Undefined), (str ''width'', Undefined),
     (str ''sortable'', JBool False), (str ''order'', S ''asc''), (str ''visible'', JBool True),
     (str ''switchable'', JBool True), (str ''clickToSelect'', JBool True), (str ''formatter'', Undefined),
     (str ''footerFormatter'', Undefined), (str ''events'', Undefined), (str ''sorter'', Undefined),
     (str ''sortName'', Undefined), (str ''cellStyle'', Undefined), (str ''searchable'', JBool True),
     (str ''searchFormatter'', JBool True), (str ''cardVisible'', JBool True)]"

definition EVENTS :: props where
  "EVENTS =
    [(str ''all.bs.table'', S ''onAll''), (str ''click-cell.bs.table'', S ''onClickCell''),
     (str ''dbl-click-cell.bs.table'', S ''onDblClickCell''),
     (str ''click-row.bs.table'', S ''onClickRow''), (str ''dbl-click-row.bs.table'', S ''onDblClickRow''),
     (str ''sort.bs.table'', S ''onSort''), (str ''check.bs.table'', S ''onCheck''),
     (str ''uncheck.bs.table'', S ''onUncheck''), (str ''check-all.bs.table'', S ''onCheckAll''),
     (str ''uncheck-all.bs.table'', S ''onUncheckAll''), (str ''check-some.bs.table'', S ''onCheckSome''),
     (str ''uncheck-some.bs.table'', S ''onUncheckSome''),
     (str ''load-success.bs.table'', S ''onLoadSuccess''), (str ''load-error.bs.table'', S ''onLoadError''),
     (str ''column-switch.bs.table'', S ''onColumnSwitch''),
     (str ''page-change.bs.table'', S ''onPageChange''), (str ''search.bs.table'', S ''onSearch''),
     (str ''toggle.bs.table'', S ''onToggle''), (str ''pre-body.bs.table'', S ''onPreBody''),
     (str ''post-body.bs.table'', S ''onPostBody''), (str ''post-header.bs.table'', S ''onPostHeader''),
     (str ''expand-row.bs.table'', S ''onExpandRow''), (str ''collapse-row.bs.table'', S ''onCollapseRow''),
     (str ''refresh-options.bs.table'', S ''onRefreshOptions''),
     (str ''reset-view.bs.table'', S ''onResetView''), (str ''refresh.bs.table'', S ''onRefresh'')]"

definition arg :: "nat \<Rightarrow> jsv list \<Rightarrow> jsv" where
  "arg n args = (if n < length args then args ! n else Undefined)"

text \<open>The texts of the locale \<^verbatim>\<open>en-US\<close>.\<close>

definition en_text :: "string \<Rightarrow> jsv list \<Rightarrow> js_string" where
  "en_text f args =
     (if f = ''formatLoadingMessage'' then str ''Loading, please wait...''
      else if f = ''formatRecordsPerPage'' then sprintf (str ''%s rows per page'') [arg 0 args]
      else if f = ''formatShowingRows'' then
        sprintf (str ''Showing %s to %s of %s rows'') [arg 0 args, arg 1 args, arg 2 args]
      else if f = ''formatDetailPagination'' then sprintf (str ''Showing %s rows'') [arg 0 args]
      else if f = ''formatSearch'' then str ''Search''
      else if f = ''formatNoMatches'' then str ''No matching records found''
      else if f = ''formatPaginationSwitch'' then str ''Hide/Show pagination''
      else if f = ''formatRefresh'' then str ''Refresh''
      else if f = ''formatToggle'' then str ''Toggle''
      else if f = ''formatColumns'' then str ''Columns''
      else str ''All'')"

definition default_call :: "string \<Rightarrow> jsv list \<Rightarrow> js_error + jsv" where
  "default_call f args =
     (if f = ''queryParams'' \<or> f = ''responseHandler'' then Inr (arg 0 args)
      else if f = ''detailFormatter'' then Inr (JStr [])
      else if f = ''noop'' then Inr Undefined
      else if f \<in> {''rowStyle'', ''rowAttributes'', ''footerStyle''} then Inr (JObj [])
      else if take 6 f = ''format'' then Inr (JStr (en_text f args))
      else Inr (JBool False))"

section \<open>The locale\<close>

text \<open>
  \<^verbatim>\<open>initLocale\<close>.  The results of \<^verbatim>\<open>toLowerCase\<close> and \<^verbatim>\<open>toUpperCase\<close> on the parts are not used, so the
  parts keep their case.  \<open>locales\<close> is \<^verbatim>\<open>$.fn.bootstrapTable.locales\<close>, which locale files extend.
\<close>

definition locale_parts :: "js_string \<Rightarrow> js_string list" where
  "locale_parts loc = js_split 45 (map (\<lambda>c. if c = 95 then 45 else c) loc)"

definition initLocale :: "(js_string \<times> props) list \<Rightarrow> props \<Rightarrow> js_error + props" where
  "initLocale locales options =
     (case lookup options (str ''locale'') of
        JStr loc \<Rightarrow>
          (if loc = [] then Inr options
           else
             (let parts = locale_parts loc in
              case map_of locales loc of
                Some texts \<Rightarrow> Inr (jq_extend options texts)
              | None \<Rightarrow>
                  (case map_of locales (js_join [45] parts) of
                     Some texts \<Rightarrow> Inr (jq_extend options texts)
                   | None \<Rightarrow>
                       (case map_of locales (hd parts) of
                          Some texts \<Rightarrow> Inr (jq_extend options texts)
                        | None \<Rightarrow> Inr options))))
      | v \<Rightarrow> if truthy v then Inl TypeError else Inr options)"

section \<open>Events\<close>

text \<open>Calling a value: anything that is not a function throws.\<close>

definition apply_fun :: "(string \<Rightarrow> jsv list \<Rightarrow> js_error + jsv) \<Rightarrow> jsv \<Rightarrow> jsv list \<Rightarrow> js_error + jsv" where
  "apply_fun call f args = (case f of JFun g \<Rightarrow> call g args | _ \<Rightarrow> Inl TypeError)"

text \<open>\<open>trigger\<close> calls the handler and \<^verbatim>\<open>onAll\<close>; its value lists the two DOM events it raises.\<close>

type_synonym dom_event = "js_string \<times> jsv list"

definition trigger ::
  "(string \<Rightarrow> jsv list \<Rightarrow> js_error + jsv) \<Rightarrow> props \<Rightarrow> js_string \<Rightarrow> jsv list \<Rightarrow> js_error + dom_event list" where
  "trigger call options name0 args =
     (let name = name0 @ str ''.bs.table'' in
      ebind (apply_fun call (lookup options (to_str (lookup EVENTS name))) args) (\<lambda>_.
      ebind (apply_fun call (lookup options (str ''onAll'')) [JStr name, JArr args]) (\<lambda>_.
      Inr [(name, args), (str ''all.bs.table'', [JStr name, JArr args])])))"

section \<open>The plugin function\<close>

definition allowedMethods :: "string list" where
  "allowedMethods =
    [''getOptions'', ''getSelections'', ''getAllSelections'', ''getData'',
     ''load'', ''append'', ''prepend'', ''remove'', ''removeAll'',
     ''insertRow'', ''updateRow'', ''updateCell'', ''updateByUniqueId'', ''removeByUniqueId'',
     ''getRowByUniqueId'', ''showRow'', ''hideRow'', ''getRowsHidden'',
     ''mergeCells'', ''checkAll'', ''uncheckAll'', ''checkInvert'', ''check'', ''uncheck'', ''checkBy'', ''uncheckBy'',
     ''refresh'', ''resetView'', ''resetWidth'', ''destroy'', ''showLoading'', ''hideLoading'',
     ''showColumn'', ''hideColumn'', ''getHiddenColumns'', ''getVisibleColumns'',
     ''showAllColumns'', ''hideAllColumns'', ''filterBy'', ''scrollTo'', ''getScrollPosition'',
     ''selectPage'', ''prevPage'', ''nextPage'', ''togglePagination'', ''toggleView'', ''refreshOptions'',
     ''resetSearch'', ''expandRow'', ''collapseRow'', ''expandAllRows'', ''collapseAllRows'', ''updateFormatText'']"

text \<open>
  An element keeps its table under the key \<^verbatim>\<open>bootstrap.table\<close>, next to its \<^verbatim>\<open>data-\<close> attributes.  \<open>create\<close> is
  the constructor, \<open>method\<close> runs a method by name.  Elements the loop has reached stay changed when a
  later one throws.
\<close>

datatype 'w element = Element (attrs: props) (table: "'w option")

datatype plugin_arg = Method string "jsv list" | Options jsv

definition option_props :: "jsv \<Rightarrow> props" where
  "option_props v = (case v of JObj ps \<Rightarrow> ps | JArr vs \<Rightarrow> map (\<lambda>i. (digits i, vs ! i)) [0..<length vs] | _ \<Rightarrow> [])"

fun plugin_step ::
  "(props \<Rightarrow> js_error + 'w) \<Rightarrow> (string \<Rightarrow> 'w \<Rightarrow> jsv list \<Rightarrow> js_error + 'w \<times> jsv) \<Rightarrow> plugin_arg \<Rightarrow> 'w element \<Rightarrow> jsv \<Rightarrow>
   js_error + 'w element \<times> jsv" where
  "plugin_step create method (Method m args) (Element a w) value =
     (if m \<notin> set allowedMethods then Inl (Thrown (''Unknown method: '' @ m))
      else (case w of
              None \<Rightarrow> Inr (Element a None, value)
            | Some t \<Rightarrow>
                ebind (method m t args) (\<lambda>(t', v). Inr (Element a (if m = ''destroy'' then None else Some t'), v))))"
| "plugin_step create method (Options opt) (Element a w) value =
     (case w of
        None \<Rightarrow>
          ebind (create (jq_extend (jq_extend (jq_extend [] DEFAULTS) a) (option_props opt))) (\<lambda>t. Inr (Element a (Some t), value))
      | Some _ \<Rightarrow> Inr (Element a w, value))"

fun plugin_each ::
  "(props \<Rightarrow> js_error + 'w) \<Rightarrow> (string \<Rightarrow> 'w \<Rightarrow> jsv list \<Rightarrow> js_error + 'w \<times> jsv) \<Rightarrow> plugin_arg \<Rightarrow> 'w element list \<Rightarrow> jsv \<Rightarrow>
   'w element list \<times> (js_error + jsv)" where
  "plugin_each create method opt [] value = ([], Inr value)"
| "plugin_each create method opt (e # es) value =
     (case plugin_step create method opt e value of
        Inl err \<Rightarrow> (e # es, Inl err)
      | Inr (e', v) \<Rightarrow>
          (let (es', r) = plugin_each create method opt es v in (e' # es', r)))"

text \<open>The call returns the jQuery object itself when no method has returned a value.\<close>

datatype plugin_value = This | Value jsv

definition plugin_return :: "jsv \<Rightarrow> plugin_value" where
  "plugin_return value = (if value = Undefined then This else Value value)"

definition bootstrapTable ::
  "(props \<Rightarrow> js_error + 'w) \<Rightarrow> (string \<Rightarrow> 'w \<Rightarrow> jsv list \<Rightarrow> js_error + 'w \<times> jsv) \<Rightarrow> plugin_arg \<Rightarrow> 'w element list \<Rightarrow>
   'w element list \<times> (js_error + plugin_value)" where
  "bootstrapTable create method opt es =
     (let (es', r) = plugin_each create method opt es Undefined in
      (es', ebind r (\<lambda>value. Inr (plugin_return value))))"

section \<open>Every event has its handler\<close>

lemma of_char_eq: "(of_char a :: nat) = of_char b \<longleftrightarrow> a = b"
  by (rule of_char_eq_iff)

lemma str_inject [simp]: "str s = str t \<longleftrightarrow> s = t"
  unfolding str_def by (simp add: inj_def inj_map_eq_map)

text \<open>The names the script passes to \<^verbatim>\<open>trigger\<close>.\<close>

definition raised :: "string list" where
  "raised =
    [''sort'', ''column-switch'', ''search'', ''page-change'', ''pre-body'', ''click-cell'', ''dbl-click-cell'',
     ''click-row'', ''dbl-click-row'', ''collapse-row'', ''expand-row'', ''check'', ''uncheck'', ''post-body'',
     ''load-success'', ''load-error'', ''post-header'', ''reset-view'', ''uncheck-some'', ''check-some'', ''check-all'',
     ''uncheck-all'', ''refresh'', ''toggle'', ''refresh-options'']"

definition handler_of :: "string \<Rightarrow> js_string" where
  "handler_of name = to_str (lookup EVENTS (str (name @ ''.bs.table'')))"

definition is_fun :: "jsv \<Rightarrow> bool" where
  "is_fun v = (case v of JFun _ \<Rightarrow> True | _ \<Rightarrow> False)"

lemma str_append: "str (s @ t) = str s @ str t"
  by (simp add: str_def)

lemma lookup_append: "lookup (ps @ qs) k = (if k \<in> fst ` set ps then lookup ps k else lookup qs k)"
  by (induction ps) (auto simp: lookup_def)

lemma undefined_defaults: "list_all (\<lambda>p. snd p = Undefined \<longrightarrow> lookup HANDLER_DEFAULTS (fst p) = Undefined) PLAIN_DEFAULTS"
  by (simp add: PLAIN_DEFAULTS_def, unfold HANDLER_DEFAULTS_def, simp add: lookup_Cons lookup_Nil cong: lookup_key_cong)

lemma lookup_DEFAULTS:
  "lookup DEFAULTS k =
     (if lookup EN_US k \<noteq> Undefined then lookup EN_US k
      else if lookup PLAIN_DEFAULTS k \<noteq> Undefined then lookup PLAIN_DEFAULTS k else lookup HANDLER_DEFAULTS k)"
proof -
  have "distinct (map fst EN_US)" by (simp add: EN_US_def)
  then have *: "lookup DEFAULTS k =
     (if lookup EN_US k \<noteq> Undefined then lookup EN_US k
      else if k \<in> fst ` set PLAIN_DEFAULTS then lookup PLAIN_DEFAULTS k else lookup HANDLER_DEFAULTS k)"
    by (simp add: DEFAULTS_def lookup_extend lookup_append)
  show ?thesis
  proof (cases "k \<in> fst ` set PLAIN_DEFAULTS")
    case True
    then show ?thesis using undefined_defaults lookup_in [OF True] by (force simp: * list_all_iff)
  next
    case False
    then show ?thesis by (simp add: * lookup_notin)
  qed
qed

lemmas default_objects = lookup_DEFAULTS EN_US_def PLAIN_DEFAULTS_def HANDLER_DEFAULTS_def

text \<open>The keys of the event handlers: \<^verbatim>\<open>on\<close> and a capital letter.\<close>

definition handler_key :: "js_string \<Rightarrow> bool" where
  "handler_key k \<longleftrightarrow> take 2 k = str ''on'' \<and> is_upper (k ! 2)"

lemma lookup_not_key: "list_all (\<lambda>p. \<not> P (fst p)) ps \<Longrightarrow> P k \<Longrightarrow> k \<notin> fst ` set ps"
  by (auto simp: list_all_iff)

lemma lookup_DEFAULTS_handler: "handler_key k \<Longrightarrow> lookup DEFAULTS k = lookup HANDLER_DEFAULTS k"
proof -
  assume k: "handler_key k"
  have "list_all (\<lambda>p. \<not> handler_key (fst p)) PLAIN_DEFAULTS"
    by (simp add: PLAIN_DEFAULTS_def handler_key_def str_def is_upper_def)
  moreover have "list_all (\<lambda>p. \<not> handler_key (fst p)) EN_US"
    by (simp add: EN_US_def handler_key_def str_def is_upper_def)
  ultimately show ?thesis
    using lookup_not_key [of handler_key PLAIN_DEFAULTS k] lookup_not_key [of handler_key EN_US k] k
    by (simp add: lookup_DEFAULTS lookup_notin)
qed

lemma raised_handlers:
  "list_all (\<lambda>name. handler_key (handler_of name) \<and> is_fun (lookup HANDLER_DEFAULTS (handler_of name))) (''all'' # raised)"
proof -
  have "map handler_of (''all'' # raised) = map str
    [''onAll'', ''onSort'', ''onColumnSwitch'', ''onSearch'', ''onPageChange'', ''onPreBody'', ''onClickCell'',
     ''onDblClickCell'', ''onClickRow'', ''onDblClickRow'', ''onCollapseRow'', ''onExpandRow'', ''onCheck'', ''onUncheck'',
     ''onPostBody'', ''onLoadSuccess'', ''onLoadError'', ''onPostHeader'', ''onResetView'', ''onUncheckSome'',
     ''onCheckSome'', ''onCheckAll'', ''onUncheckAll'', ''onRefresh'', ''onToggle'', ''onRefreshOptions'']" (is "_ = map str ?hs")
    unfolding raised_def handler_of_def EVENTS_def list.map by (simp add: lookup_Cons cong: lookup_key_cong)
  moreover have "list_all (\<lambda>h. is_fun (lookup HANDLER_DEFAULTS (str h))) ?hs"
    unfolding HANDLER_DEFAULTS_def by (simp add: lookup_Cons is_fun_def cong: lookup_key_cong)
  moreover have "list_all (\<lambda>h. handler_key (str h)) ?hs"
    by (simp add: handler_key_def is_upper_def str_def)
  ultimately have "list_all (\<lambda>h. handler_key h \<and> is_fun (lookup HANDLER_DEFAULTS h)) (map handler_of (''all'' # raised))"
    by (simp add: list.pred_map comp_def)
  then show ?thesis by (simp only: list.pred_map comp_def)
qed

lemma handlers_set_prop:
  assumes "\<not> handler_key k" "list_all (\<lambda>n. is_fun (lookup os (handler_of n))) (''all'' # raised)"
  shows "list_all (\<lambda>n. is_fun (lookup (set_prop k v os) (handler_of n))) (''all'' # raised)"
  using assms raised_handlers by (auto simp: list_all_iff lookup_set_prop)

lemma default_handlers: "name \<in> set (''all'' # raised) \<Longrightarrow> is_fun (lookup DEFAULTS (handler_of name))"
  using raised_handlers unfolding list_all_iff by (simp only: lookup_DEFAULTS_handler)

lemma apply_fun_returns:
  assumes "is_fun f" "\<And>g args. \<exists>v. call g args = Inr v"
  shows "\<exists>v. apply_fun call f args = Inr v"
  using assms by (cases f) (auto simp: apply_fun_def is_fun_def)

lemma handler_all: "handler_of ''all'' = str ''onAll''"
  by (simp add: handler_of_def str_append [symmetric] EVENTS_def lookup_Cons)

text \<open>
  C38. An event the script raises always finds its handler: with the default options, extended by options
  that set handlers to functions only, and functions that do not throw, \<^verbatim>\<open>trigger\<close> returns and has raised the event
  and then \<^verbatim>\<open>all.bs.table\<close> with the same name and arguments.
\<close>

theorem trigger_returns:
  assumes name: "name \<in> set raised" and dist: "distinct (map fst options)"
    and funs: "\<And>n. n \<in> set (''all'' # raised) \<Longrightarrow> lookup options (handler_of n) = Undefined \<or> is_fun (lookup options (handler_of n))"
    and call: "\<And>f args. \<exists>v. call f args = Inr v"
  shows "trigger call (jq_extend DEFAULTS options) (str name) args =
    Inr [(str (name @ ''.bs.table''), args),
         (str ''all.bs.table'', [S (name @ ''.bs.table''), JArr args])]"
proof -
  have h: "is_fun (lookup (jq_extend DEFAULTS options) (handler_of n))" if "n \<in> set (''all'' # raised)" for n
    using funs [OF that] default_handlers [OF that] by (auto simp: lookup_extend [OF dist])
  have "name \<in> set (''all'' # raised)" "''all'' \<in> set (''all'' # raised)" using name by simp_all
  note h [OF this(1)] h [OF this(2), unfolded handler_all]
  then obtain v w where
    "apply_fun call (lookup (jq_extend DEFAULTS options) (handler_of name)) args = Inr v"
    "apply_fun call (lookup (jq_extend DEFAULTS options) (str ''onAll'')) [S (name @ ''.bs.table''), JArr args] = Inr w"
    using apply_fun_returns [where call = call, OF _ call] by blast
  then show ?thesis by (simp add: trigger_def handler_of_def str_append Let_def)
qed

theorem trigger_returns_witness:
  "trigger default_call (jq_extend DEFAULTS [(str ''onSort'', JFun ''mySort'')]) (str ''sort'') [S ''topic'', S ''asc''] =
     Inr [(str ''sort.bs.table'', [S ''topic'', S ''asc'']),
          (str ''all.bs.table'', [S ''sort.bs.table'', JArr [S ''topic'', S ''asc'']])]"
proof -
  have "\<exists>v. default_call f args = Inr v" for f args by (simp add: default_call_def)
  moreover have "lookup [(str ''onSort'', JFun ''mySort'')] k = Undefined \<or> is_fun (lookup [(str ''onSort'', JFun ''mySort'')] k)" for k
    by (simp add: lookup_def is_fun_def)
  moreover have "''sort'' \<in> set raised" by (simp add: raised_def)
  ultimately show ?thesis
    using trigger_returns [of "''sort''" "[(str ''onSort'', JFun ''mySort'')]" default_call "[S ''topic'', S ''asc'']"]
    by simp
qed

text \<open>A handler option that is not a function breaks the operation that raises its event.\<close>

lemma trigger_not_function:
  "\<not> is_fun (lookup options (handler_of name)) \<Longrightarrow> trigger call options (str name) args = Inl TypeError"
  by (auto simp: trigger_def handler_of_def str_append apply_fun_def is_fun_def split: jsv.splits)

section \<open>The choice of a locale\<close>

lemma locale_case_kept:
  "initLocale LOCALES [(str ''locale'', S ''EN'')] = Inr [(str ''locale'', S ''EN'')]"
  by (simp add: initLocale_def LOCALES_def lookup_Cons locale_parts_def str_def)

section \<open>Plugin calls\<close>

text \<open>An element after the method \<open>m\<close>, when a table \<open>t\<close> becomes \<open>f t\<close>; \<^verbatim>\<open>destroy\<close> takes the table away.\<close>

definition after_method :: "string \<Rightarrow> ('w \<Rightarrow> 'w) \<Rightarrow> 'w element \<Rightarrow> 'w element" where
  "after_method m f e = Element (attrs e) (if m = ''destroy'' then None else map_option f (table e))"

lemma plugin_each_method:
  assumes "m \<in> set allowedMethods" "\<forall>e\<in>set es. \<forall>t. table e = Some t \<longrightarrow> method m t args = Inr (f t, g t)"
  shows "plugin_each create method (Method m args) (es @ rest) v =
    (let (es', r) = plugin_each create method (Method m args) rest (last (v # map g (List.map_filter table es)))
     in (map (after_method m f) es @ es', r))"
  using assms(2)
proof (induction es arbitrary: v)
  case (Cons e es)
  obtain a w where e: "e = Element a w" by (cases e)
  show ?case
  proof (cases w)
    case (Some t)
    then have "method m t args = Inr (f t, g t)" using Cons.prems e by simp
    then show ?thesis
      using assms(1) Some e Cons by (simp add: after_method_def map_filter_simps split: prod.splits)
  qed (use assms(1) e Cons in \<open>auto simp: after_method_def map_filter_simps split: prod.splits\<close>)
qed (simp add: map_filter_simps)

lemma plugin_each_options:
  assumes "\<forall>e\<in>set es. table e = None \<longrightarrow>
    create (jq_extend (jq_extend (jq_extend [] DEFAULTS) (attrs e)) (option_props opt)) = Inr (mk (attrs e))"
  shows "plugin_each create method (Options opt) es v =
    (map (\<lambda>e. Element (attrs e) (Some (case table e of None \<Rightarrow> mk (attrs e) | Some t \<Rightarrow> t))) es, Inr v)"
  using assms
proof (induction es)
  case (Cons e es)
  obtain a w where "e = Element a w" by (cases e)
  then show ?case using Cons by (cases w) auto
qed simp

text \<open>
  C39. Calls through the plugin on any elements, with and without tables.
  A method that is not exported throws at the first element and changes none.
  An exported method that returns on each table runs on every one of them in order, elements without a table stay as they are,
  \<^verbatim>\<open>destroy\<close> takes the tables away, and the call returns the value of the last table, or the jQuery object
  when that value is \<^verbatim>\<open>undefined\<close> or there is no table.
  When the method throws on a table, the elements before it stay changed and those after it are not reached.
  A call with options creates a table exactly on the elements that have none, from the defaults, the
  \<^verbatim>\<open>data-\<close> attributes and the options, the later ones winning, and returns the jQuery object.
\<close>

theorem plugin_calls:
  "(m \<notin> set allowedMethods \<longrightarrow>
      bootstrapTable create method (Method m args) es =
        (es, if es = [] then Inr This else Inl (Thrown (''Unknown method: '' @ m)))) \<and>
   (m \<in> set allowedMethods \<and> (\<forall>e\<in>set es. \<forall>t. table e = Some t \<longrightarrow> method m t args = Inr (f t, g t)) \<longrightarrow>
      bootstrapTable create method (Method m args) es =
        (map (after_method m f) es, Inr (plugin_return (last (Undefined # map g (List.map_filter table es))))) \<and>
      (method m t args = Inl err \<longrightarrow>
        bootstrapTable create method (Method m args) (es @ Element a (Some t) # rest) =
          (map (after_method m f) es @ Element a (Some t) # rest, Inl err))) \<and>
   ((\<forall>e\<in>set es. table e = None \<longrightarrow>
       create (jq_extend (jq_extend (jq_extend [] DEFAULTS) (attrs e)) (option_props opt)) = Inr (mk (attrs e))) \<longrightarrow>
      bootstrapTable create method (Options opt) es =
        (map (\<lambda>e. Element (attrs e) (Some (case table e of None \<Rightarrow> mk (attrs e) | Some t \<Rightarrow> t))) es, Inr This))"
proof (intro conjI impI)
  assume "m \<notin> set allowedMethods"
  then show "bootstrapTable create method (Method m args) es =
      (es, if es = [] then Inr This else Inl (Thrown (''Unknown method: '' @ m)))"
    by (cases es; cases "hd es") (simp_all add: bootstrapTable_def plugin_return_def)
next
  assume m: "m \<in> set allowedMethods \<and> (\<forall>e\<in>set es. \<forall>t. table e = Some t \<longrightarrow> method m t args = Inr (f t, g t))"
  then show "bootstrapTable create method (Method m args) es =
      (map (after_method m f) es, Inr (plugin_return (last (Undefined # map g (List.map_filter table es)))))"
    using plugin_each_method [of m es "method" args f g create "[]" Undefined] by (simp add: bootstrapTable_def del: last.simps)
  assume "method m t args = Inl err"
  with m show "bootstrapTable create method (Method m args) (es @ Element a (Some t) # rest) =
      (map (after_method m f) es @ Element a (Some t) # rest, Inl err)"
    using plugin_each_method [of m es "method" args f g create "Element a (Some t) # rest" Undefined]
    by (simp add: bootstrapTable_def del: last.simps)
next
  assume "\<forall>e\<in>set es. table e = None \<longrightarrow>
    create (jq_extend (jq_extend (jq_extend [] DEFAULTS) (attrs e)) (option_props opt)) = Inr (mk (attrs e))"
  then show "bootstrapTable create method (Options opt) es =
      (map (\<lambda>e. Element (attrs e) (Some (case table e of None \<Rightarrow> mk (attrs e) | Some t \<Rightarrow> t))) es, Inr This)"
    using plugin_each_options [of es create opt mk "method" Undefined] by (simp add: bootstrapTable_def plugin_return_def)
qed

text \<open>Tables as numbers: the constructor counts the options, \<^verbatim>\<open>load\<close> adds one and returns the old number, or throws at 9.\<close>

definition count_method :: "string \<Rightarrow> nat \<Rightarrow> jsv list \<Rightarrow> js_error + nat \<times> jsv" where
  "count_method m n args = (if n = 9 then Inl TypeError else Inr (Suc n, JInt (int n)))"

theorem plugin_calls_witness:
  "bootstrapTable (\<lambda>os. Inr (length os)) count_method (Method ''drop'' []) [Element [] None, Element [] (Some 7)] =
     ([Element [] None, Element [] (Some 7)], Inl (Thrown ''Unknown method: drop'')) \<and>
   bootstrapTable (\<lambda>os. Inr (length os)) count_method (Method ''load'' [])
       [Element [] None, Element [] (Some 7), Element [] None, Element [] (Some 4)] =
     ([Element [] None, Element [] (Some 8), Element [] None, Element [] (Some 5)], Inr (Value (JInt 4))) \<and>
   bootstrapTable (\<lambda>os. Inr (length os)) count_method (Method ''load'' [])
       [Element [] None, Element [] (Some 7), Element [] (Some 9), Element [] (Some 4)] =
     ([Element [] None, Element [] (Some 8), Element [] (Some 9), Element [] (Some 4)], Inl TypeError) \<and>
   bootstrapTable (\<lambda>os. Inr (length os)) count_method (Options (JObj [])) [Element [] None, Element [] (Some 7)] =
     ([Element [] (Some (length (jq_extend [] DEFAULTS))), Element [] (Some 7)], Inr This)"
proof (intro conjI)
  let ?create = "\<lambda>os :: props. Inr (length os) :: js_error + nat"
  have m: "''drop'' \<notin> set allowedMethods" "''load'' \<in> set allowedMethods" by (simp_all add: allowedMethods_def)
  show "bootstrapTable ?create count_method (Method ''drop'' []) [Element [] None, Element [] (Some 7)] =
     ([Element [] None, Element [] (Some 7)], Inl (Thrown ''Unknown method: drop''))"
    using plugin_calls [of "''drop''" ?create count_method "[]" "[Element [] None, Element [] (Some 7)]"] m by simp
  show "bootstrapTable ?create count_method (Method ''load'' [])
       [Element [] None, Element [] (Some 7), Element [] None, Element [] (Some 4)] =
     ([Element [] None, Element [] (Some 8), Element [] None, Element [] (Some 5)], Inr (Value (JInt 4)))"
    using plugin_calls [of "''load''" ?create count_method "[]" "[Element [] None, Element [] (Some 7), Element [] None, Element [] (Some 4)]"
        Suc "\<lambda>n. JInt (int n)"] m
    by (simp add: count_method_def after_method_def plugin_return_def map_filter_simps)
  show "bootstrapTable ?create count_method (Method ''load'' [])
       [Element [] None, Element [] (Some 7), Element [] (Some 9), Element [] (Some 4)] =
     ([Element [] None, Element [] (Some 8), Element [] (Some 9), Element [] (Some 4)], Inl TypeError)"
    using plugin_calls [of "''load''" ?create count_method "[]" "[Element [] None, Element [] (Some 7)]"
        Suc "\<lambda>n. JInt (int n)" 9 TypeError "[]" "[Element [] (Some 4)]"] m
    by (simp add: count_method_def after_method_def)
  show "bootstrapTable ?create count_method (Options (JObj [])) [Element [] None, Element [] (Some 7)] =
     ([Element [] (Some (length (jq_extend [] DEFAULTS))), Element [] (Some 7)], Inr This)"
    using plugin_calls [of "''load''" ?create count_method "[]" "[Element [] None, Element [] (Some 7)]" Suc "\<lambda>n. JInt (int n)" 9 TypeError
        "[]" "[]" "JObj []" "\<lambda>a. length (jq_extend [] DEFAULTS)"]
    by (simp add: option_props_def)
qed

end
