(* ===== verification/TablePages.thy ===== *)
theory TablePages
  imports TableOptions
begin

text \<open>
  Pagination of \<^verbatim>\<open>bootstrap-table.js\<close>: how many pages there are, the rows of the current page, the list of
  page sizes, the bar of page links, and the handlers of the links.  Row counts, page numbers and page
  sizes are whole numbers; \<open>None\<close> stands for a number that is \<^verbatim>\<open>NaN\<close> (or still \<^verbatim>\<open>undefined\<close>).
\<close>

section \<open>Arithmetic\<close>

text \<open>The quotient of two integers as a double, and the 32-bit integer part \<^verbatim>\<open>~~x\<close>.\<close>

definition js_div :: "int \<Rightarrow> int \<Rightarrow> jnum" where
  "js_div a b =
     (if b \<noteq> 0 then to_double (of_int a / of_int b) else if a > 0 then PosInf else if a < 0 then NegInf else NaN)"

definition trunc :: "rat \<Rightarrow> int" where
  "trunc x = (if x < 0 then - \<lfloor>- x\<rfloor> else \<lfloor>x\<rfloor>)"

definition wrap32 :: "int \<Rightarrow> int" where
  "wrap32 i = (let m = i mod 4294967296 in if m \<ge> 2147483648 then m - 4294967296 else m)"

fun to_int32 :: "jnum \<Rightarrow> int" where
  "to_int32 (Fin x) = wrap32 (trunc x)"
| "to_int32 _ = 0"

section \<open>State\<close>

datatype page_size = AllRows | Rows int | NoNumber

text \<open>
  The options and fields pagination reads and writes.  \<open>AllRows\<close> is the text \<^verbatim>\<open>formatAllRows()\<close> as a page
  size.  \<open>optTotalPages\<close> is \<^verbatim>\<open>options.totalPages\<close>, set with the first count; \<open>pg_html\<close> is the content of
  \<^verbatim>\<open>$pagination\<close>, the three flags tell what of it is shown.
\<close>

record pager =
  pagination :: bool
  server_side :: bool
  totalRows :: int
  pageNumber :: "int option"
  pageSize :: page_size
  optTotalPages :: "int option"
  totalPages :: int
  pageFrom :: "int option"
  pageTo :: "int option"
  pg_html :: js_string
  pg_shown :: bool
  bar_shown :: bool
  list_shown :: bool

definition size_num :: "page_size \<Rightarrow> int option" where
  "size_num s = (case s of Rows n \<Rightarrow> Some n | _ \<Rightarrow> None)"

definition num_of :: "int option \<Rightarrow> jsv" where
  "num_of n = (case n of Some i \<Rightarrow> JInt i | None \<Rightarrow> JNum NaN)"

text \<open>Comparisons with \<^verbatim>\<open>NaN\<close> are false.\<close>

definition holds :: "(int \<Rightarrow> bool) \<Rightarrow> int option \<Rightarrow> bool" where
  "holds P n = (case n of Some i \<Rightarrow> P i | None \<Rightarrow> False)"

definition map2_option :: "(int \<Rightarrow> int \<Rightarrow> int) \<Rightarrow> int option \<Rightarrow> int option \<Rightarrow> int option" where
  "map2_option f a b = (case (a, b) of (Some x, Some y) \<Rightarrow> Some (f x y) | _ \<Rightarrow> None)"

section \<open>The list of page sizes\<close>

definition remove_first :: "code_unit \<Rightarrow> js_string \<Rightarrow> js_string" where
  "remove_first c s = takeWhile (\<lambda>x. x \<noteq> c) s @ drop 1 (dropWhile (\<lambda>x. x \<noteq> c) s)"

definition list_entries :: "js_string \<Rightarrow> js_string" where
  "list_entries s = filter (\<lambda>c. c \<noteq> 32) (remove_first 93 (remove_first 91 s))"

text \<open>The entries \<^verbatim>\<open>$.inArray\<close> compares with the lower-case text for all rows.\<close>

definition pageLst :: "jsv \<Rightarrow> jsv list" where
  "pageLst pageList =
     (case pageList of
        JStr s \<Rightarrow> map JStr (js_split 44 (lower (list_entries s)))
      | JArr vs \<Rightarrow> vs
      | _ \<Rightarrow> [])"

definition parsed_list :: "js_string \<Rightarrow> jsv \<Rightarrow> jsv list" where
  "parsed_list all pageList =
     (case pageList of
        JStr s \<Rightarrow>
          map (\<lambda>value. if upper value = upper all then JStr all else JNum (to_number value)) (js_split 44 (list_entries s))
      | JArr vs \<Rightarrow> vs
      | _ \<Rightarrow> [])"

definition le_rows :: "jsv \<Rightarrow> int \<Rightarrow> bool" where
  "le_rows page n =
     (case page of
        JNum (Fin x) \<Rightarrow> x \<le> of_int n
      | JNum NegInf \<Rightarrow> True
      | JStr s \<Rightarrow> (case to_number s of Fin x \<Rightarrow> x \<le> of_int n | NegInf \<Rightarrow> True | _ \<Rightarrow> False)
      | _ \<Rightarrow> False)"

definition ge_rows :: "jsv \<Rightarrow> int \<Rightarrow> bool" where
  "ge_rows page n =
     (case page of
        JNum (Fin x) \<Rightarrow> of_int n \<le> x
      | JNum PosInf \<Rightarrow> True
      | JStr s \<Rightarrow> (case to_number s of Fin x \<Rightarrow> of_int n \<le> x | PosInf \<Rightarrow> True | _ \<Rightarrow> False)
      | _ \<Rightarrow> False)"

section \<open>Counting the pages\<close>

definition count_pages :: "js_string \<Rightarrow> jsv \<Rightarrow> pager \<Rightarrow> pager \<times> bool" where
  "count_pages all pageList p =
     (if totalRows p \<noteq> 0 then
        (let (p, allSelected) =
               (case pageSize p of
                  AllRows \<Rightarrow> (p\<lparr>pageSize := Rows (totalRows p)\<rparr>, True)
                | Rows s \<Rightarrow> (p, s = totalRows p \<and> list_ex (strict_eq (JStr (lower all))) (pageLst pageList))
                | NoNumber \<Rightarrow> (p, False));
             pages = (case size_num (pageSize p) of Some s \<Rightarrow> to_int32 (js_div (totalRows p - 1) s) + 1 | None \<Rightarrow> 1)
         in (p\<lparr>totalPages := pages, optTotalPages := Some pages\<rparr>, allSelected))
      else (p, False))"

definition page_range :: "pager \<Rightarrow> pager" where
  "page_range p =
     (let p = (if totalPages p > 0 \<and> holds (\<lambda>n. n > totalPages p) (pageNumber p)
               then p\<lparr>pageNumber := Some (totalPages p)\<rparr> else p);
          from = map2_option (\<lambda>n s. (n - 1) * s + 1) (pageNumber p) (size_num (pageSize p));
          to = map2_option (*) (pageNumber p) (size_num (pageSize p));
          to = (if holds (\<lambda>t. t > totalRows p) to then Some (totalRows p) else to)
      in p\<lparr>pageFrom := from, pageTo := to\<rparr>)"

definition page_counts :: "js_string \<Rightarrow> jsv \<Rightarrow> nat \<Rightarrow> pager \<Rightarrow> pager \<times> bool" where
  "page_counts all pageList rows p =
     (let p = (if server_side p then p else p\<lparr>totalRows := int rows\<rparr>);
          (p, allSelected) = count_pages all pageList (p\<lparr>totalPages := 0\<rparr>)
      in (page_range p, allSelected))"

section \<open>The bar of page links\<close>

datatype bar_item = First bool | FirstSeparator | Number int bool | LastSeparator | Last int bool

definition window0 :: "int \<Rightarrow> int \<Rightarrow> int \<times> int" where
  "window0 pages n =
     (if pages < 5 then (1, pages)
      else
        (let from = n - 2; to = from + 4;
             (from, to) = (if from < 1 then (1, 5) else (from, to))
         in if to > pages then (pages - 4, pages) else (from, to)))"

definition window :: "int \<Rightarrow> int \<Rightarrow> int \<times> int" where
  "window pages n =
     (let (from, to) = window0 pages n;
          from = (if pages \<ge> 6 \<and> n \<ge> 3 then from + 1 else from);
          from = (if pages \<ge> 6 \<and> n \<ge> 4 \<and> (n = 4 \<or> pages = 6 \<or> pages = 7) then from - 1 else from);
          to = (if pages \<ge> 6 \<and> n \<ge> 4 then to - 1 else to);
          from = (if pages \<ge> 7 \<and> n \<ge> pages - 2 then from - 1 else from);
          to = (if pages = 6 then (if n \<ge> pages - 2 then to + 1 else to)
                else if pages \<ge> 7 then (if pages = 7 \<or> n \<ge> pages - 3 then to + 1 else to) else to)
      in (from, to))"

definition bar_front :: "int \<Rightarrow> int \<Rightarrow> bar_item list" where
  "bar_front pages n =
     (if pages \<ge> 6 then
        (if n \<ge> 3 then [First (1 = n)] else []) @
        (if n \<ge> 4 \<and> \<not> (n = 4 \<or> pages = 6 \<or> pages = 7) then [FirstSeparator] else [])
      else [])"

definition bar_back :: "int \<Rightarrow> int \<Rightarrow> bar_item list" where
  "bar_back pages n =
     (if pages \<ge> 8 \<and> n \<le> pages - 4 then [LastSeparator] else []) @
     (if pages \<ge> 6 \<and> n \<le> pages - 3 then [Last pages (pages = n)] else [])"

definition page_bar :: "int \<Rightarrow> int option \<Rightarrow> bar_item list" where
  "page_bar pages number =
     (case number of
        Some n \<Rightarrow>
          (let (from, to) = window pages n
           in bar_front pages n @ map (\<lambda>i. Number i (i = n)) [from..to] @ bar_back pages n)
      | None \<Rightarrow> if pages < 5 then map (\<lambda>i. Number i False) [1..pages] else [])"

definition active_class :: "bool \<Rightarrow> js_string" where
  "active_class b = (if b then str '' active'' else [])"

fun item_html :: "bar_item \<Rightarrow> js_string" where
  \<open>item_html (First b) =
     str ''<li class="page-first'' @ active_class b @ str ''">'' @ str ''<a href="javascript:void(0)">'' @ int_str 1 @
     str ''</a>'' @ str ''</li>''\<close>
| \<open>item_html FirstSeparator =
     str ''<li class="page-first-separator disabled">'' @ str ''<a href="javascript:void(0)">...</a>'' @ str ''</li>''\<close>
| \<open>item_html (Number i b) =
     str ''<li class="page-number'' @ active_class b @ str ''">'' @ str ''<a href="javascript:void(0)">'' @ int_str i @
     str ''</a>'' @ str ''</li>''\<close>
| \<open>item_html LastSeparator =
     str ''<li class="page-last-separator disabled">'' @ str ''<a href="javascript:void(0)">...</a>'' @ str ''</li>''\<close>
| \<open>item_html (Last i b) =
     str ''<li class="page-last'' @ active_class b @ str ''">'' @ str ''<a href="javascript:void(0)">'' @ int_str i @
     str ''</a>'' @ str ''</li>''\<close>

section \<open>Rendering\<close>

type_synonym caller = "string \<Rightarrow> jsv list \<Rightarrow> js_error + jsv"

definition opt :: "props \<Rightarrow> string \<Rightarrow> jsv" where
  "opt options k = lookup options (str k)"

definition call_text :: "caller \<Rightarrow> props \<Rightarrow> string \<Rightarrow> jsv list \<Rightarrow> js_error + js_string" where
  "call_text call options f args = ebind (apply_fun call (opt options f) args) (\<lambda>v. Inr (to_str v))"

definition size_jsv :: "js_string \<Rightarrow> page_size \<Rightarrow> jsv" where
  "size_jsv all s = (case s of AllRows \<Rightarrow> JStr all | Rows n \<Rightarrow> JInt n | NoNumber \<Rightarrow> JNum NaN)"

text \<open>The entries of the drop-down list of page sizes.\<close>

definition size_entries :: "props \<Rightarrow> js_string \<Rightarrow> jsv list \<Rightarrow> bool \<Rightarrow> pager \<Rightarrow> js_string list" where
  \<open>size_entries options all pageList allSelected p =
     map (\<lambda>i.
         sprintf (str ''<li%s><a href="javascript:void(0)">%s</a></li>'')
           [JStr (if strict_eq (pageList ! i) (if allSelected then JStr all else size_jsv all (pageSize p))
                  then str '' class="active"'' else []), pageList ! i])
       (filter (\<lambda>i. \<not> truthy (opt options ''smartDisplay'') \<or> i = 0 \<or> le_rows (pageList ! (i - 1)) (totalRows p))
         [0..<length pageList])\<close>

definition size_menu :: "props \<Rightarrow> js_string \<Rightarrow> jsv list \<Rightarrow> bool \<Rightarrow> pager \<Rightarrow> js_string" where
  \<open>size_menu options all pageList allSelected p =
     sprintf (str ''<span class="btn-group %s">'')
       [if strict_eq (opt options ''paginationVAlign'') (S ''top'') \<or> strict_eq (opt options ''paginationVAlign'') (S ''both'')
        then S ''dropdown'' else S ''dropup''] @
     str ''<button type="button" class="btn'' @ sprintf (str '' btn-%s'') [opt options ''buttonsClass''] @
     sprintf (str '' btn-%s'') [opt options ''iconSize''] @ str '' dropdown-toggle" data-toggle="dropdown">'' @
     str ''<span class="page-size">'' @ (if allSelected then all else to_str (size_jsv all (pageSize p))) @ str ''</span>'' @
     str '' <span class="caret"></span>'' @ str ''</button>'' @ str ''<ul class="dropdown-menu" role="menu">'' @
     concat (size_entries options all pageList allSelected p) @ str ''</ul></span>''\<close>

definition bar_html :: "props \<Rightarrow> pager \<Rightarrow> js_string" where
  \<open>bar_html options p =
     str ''</div>'' @ str ''<div class="pull-'' @ to_str (opt options ''paginationHAlign'') @ str '' pagination">'' @
     str ''<ul class="pagination'' @ sprintf (str '' pagination-%s'') [opt options ''iconSize''] @ str ''">'' @
     str ''<li class="page-pre"><a href="javascript:void(0)">'' @ to_str (opt options ''paginationPreText'') @ str ''</a></li>'' @
     concat (map item_html (page_bar (totalPages p) (pageNumber p))) @
     str ''<li class="page-next"><a href="javascript:void(0)">'' @ to_str (opt options ''paginationNextText'') @ str ''</a></li>'' @
     str ''</ul>'' @ str ''</div>''\<close>

definition pager_html :: "caller \<Rightarrow> props \<Rightarrow> js_string \<Rightarrow> jsv list \<Rightarrow> bool \<Rightarrow> pager \<Rightarrow> js_error + js_string" where
  \<open>pager_html call options all pageList allSelected p =
     ebind (if truthy (opt options ''onlyInfoPagination'')
            then call_text call options ''formatDetailPagination'' [JInt (totalRows p)]
            else call_text call options ''formatShowingRows'' [num_of (pageFrom p), num_of (pageTo p), JInt (totalRows p)])
       (\<lambda>info.
         let detail =
           str ''<div class="pull-'' @ to_str (opt options ''paginationDetailHAlign'') @ str '' pagination-detail">'' @
           str ''<span class="pagination-info">'' @ info @ str ''</span>''
         in if truthy (opt options ''onlyInfoPagination'') then Inr detail
            else ebind (call_text call options ''formatRecordsPerPage'' [JStr (size_menu options all pageList allSelected p)])
              (\<lambda>sizes. Inr (detail @ str ''<span class="page-list">'' @ sizes @ str ''</span>'' @ bar_html options p)))\<close>

text \<open>
  \<open>initPagination\<close>; \<open>rows\<close> is the length of \<^verbatim>\<open>getData()\<close>.  With \<^verbatim>\<open>smartDisplay\<close> the bar of a single page and
  a list of a single size are hidden, and so is the whole pagination when there is no data.
\<close>

definition initPagination :: "caller \<Rightarrow> props \<Rightarrow> nat \<Rightarrow> pager \<Rightarrow> js_error + pager" where
  "initPagination call options rows p =
     (if \<not> pagination p then Inr (p\<lparr>pg_shown := False\<rparr>)
      else
        ebind (call_text call options ''formatAllRows'' []) (\<lambda>all.
        let (p, allSelected) = page_counts all (opt options ''pageList'') rows (p\<lparr>pg_shown := True\<rparr>);
            pageList = parsed_list all (opt options ''pageList'')
        in ebind (pager_html call options all pageList allSelected p) (\<lambda>html.
           let p = p\<lparr>pg_html := html, bar_shown := True, list_shown := True\<rparr>
           in if truthy (opt options ''onlyInfoPagination'') then Inr p
              else
                let p = (if truthy (opt options ''smartDisplay'')
                         then p\<lparr>bar_shown := \<not> totalPages p \<le> 1,
                                list_shown := \<not> (length pageList < 2 \<or> ge_rows (hd pageList) (totalRows p)),
                                pg_shown := rows \<noteq> 0\<rparr>
                         else p)
                in Inr (if allSelected then p\<lparr>pageSize := AllRows\<rparr> else p))))"

section \<open>The handlers of the links\<close>

text \<open>
  What each handler does to the page before it calls \<^verbatim>\<open>updatePagination\<close>; \<open>None\<close> where it returns without
  calling it.
\<close>

definition size_of_text :: "js_string \<Rightarrow> js_string \<Rightarrow> page_size" where
  "size_of_text all label =
     (if upper label = upper all then AllRows
      else (case to_number label of Fin x \<Rightarrow> if x = of_int \<lfloor>x\<rfloor> then Rows \<lfloor>x\<rfloor> else NoNumber | _ \<Rightarrow> NoNumber))"

definition onPageListChange :: "js_string \<Rightarrow> js_string \<Rightarrow> pager \<Rightarrow> pager" where
  "onPageListChange all label p = p\<lparr>pageSize := size_of_text all label\<rparr>"

definition onPageFirst :: "pager \<Rightarrow> pager" where
  "onPageFirst p = p\<lparr>pageNumber := Some 1\<rparr>"

definition onPagePre :: "pager \<Rightarrow> pager" where
  "onPagePre p =
     (if holds (\<lambda>n. n - 1 = 0) (pageNumber p) then p\<lparr>pageNumber := optTotalPages p\<rparr>
      else p\<lparr>pageNumber := map_option (\<lambda>n. n - 1) (pageNumber p)\<rparr>)"

definition onPageNext :: "pager \<Rightarrow> pager" where
  "onPageNext p =
     (if holds (\<lambda>n. holds (\<lambda>t. n + 1 > t) (optTotalPages p)) (pageNumber p) then p\<lparr>pageNumber := Some 1\<rparr>
      else p\<lparr>pageNumber := map_option (\<lambda>n. n + 1) (pageNumber p)\<rparr>)"

definition onPageLast :: "pager \<Rightarrow> pager" where
  "onPageLast p = p\<lparr>pageNumber := Some (totalPages p)\<rparr>"

definition number_of_text :: "js_string \<Rightarrow> int option" where
  "number_of_text label =
     (case to_number label of Fin x \<Rightarrow> if x = of_int \<lfloor>x\<rfloor> then Some \<lfloor>x\<rfloor> else None | _ \<Rightarrow> None)"

definition onPageNumber :: "js_string \<Rightarrow> pager \<Rightarrow> pager option" where
  "onPageNumber label p =
     (if pageNumber p \<noteq> None \<and> pageNumber p = number_of_text label then None
      else Some (p\<lparr>pageNumber := number_of_text label\<rparr>))"

definition selectPage :: "int \<Rightarrow> pager \<Rightarrow> pager option" where
  "selectPage page p =
     (if page > 0 \<and> holds (\<lambda>t. page \<le> t) (optTotalPages p) then Some (p\<lparr>pageNumber := Some page\<rparr>) else None)"

definition prevPage :: "pager \<Rightarrow> pager option" where
  "prevPage p =
     (if holds (\<lambda>n. n > 1) (pageNumber p) then Some (p\<lparr>pageNumber := map_option (\<lambda>n. n - 1) (pageNumber p)\<rparr>) else None)"

definition nextPage :: "pager \<Rightarrow> pager option" where
  "nextPage p =
     (if holds (\<lambda>n. holds (\<lambda>t. n < t) (optTotalPages p)) (pageNumber p)
      then Some (p\<lparr>pageNumber := map_option (\<lambda>n. n + 1) (pageNumber p)\<rparr>) else None)"

section \<open>The number of pages\<close>

lemma dbl_exp_cases: "dbl_exp k e x = e' \<Longrightarrow> e \<le> e' \<and> (e' = e \<or> pow2 (e' + 52) \<le> x)"
proof (induction k e x rule: dbl_exp.induct)
  case (2 k e x)
  show ?case
  proof (cases "x < pow2 (e + 53)")
    case False
    then have "e + 1 \<le> e' \<and> (e' = e + 1 \<or> pow2 (e' + 52) \<le> x)" using 2 by simp
    moreover have "pow2 (e + 1 + 52) \<le> x" using False by (simp add: add.commute add.left_commute)
    ultimately show ?thesis by auto
  qed (use 2 in simp)
qed simp

lemma pow2_pos [simp]: "0 < pow2 e"
  by (simp add: pow2_def)

lemma pow2_add_nat: "pow2 (e + int n) = 2 ^ n * pow2 e"
proof (induction n)
  case (Suc n)
  have step: "pow2 (i + 1) = 2 * pow2 i" for i
  proof (cases "i \<ge> 0")
    case True
    then have "nat (i + 1) = Suc (nat i)" by simp
    with True show ?thesis by (simp add: pow2_def)
  next
    case False
    then have "nat (- i) = Suc (nat (- (i + 1)))" by simp
    with False show ?thesis by (auto simp: pow2_def)
  qed
  have "pow2 (e + int (Suc n)) = pow2 ((e + int n) + 1)" by (simp add: algebra_simps)
  with Suc show ?case unfolding step by simp
qed simp

lemma round_even_near: "\<bar>of_int (round_even x) - x\<bar> \<le> 1 / 2"
proof -
  have "of_int \<lfloor>x\<rfloor> \<le> x" "x < of_int \<lfloor>x\<rfloor> + 1" by linarith+
  then show ?thesis unfolding round_even_def Let_def by (auto split: if_splits)
qed

lemma round_even_mono_int: "of_int m \<le> x \<Longrightarrow> m \<le> round_even x"
  using round_even_near [of x] by linarith

text \<open>The last place of a double of size \<open>a / b\<close> is finer than \<open>1 / b\<close>.\<close>

lemma dbl_exp_fine:
  fixes a b :: int
  assumes "0 \<le> a" "a < 2 ^ 31" "0 < b" "b < 2 ^ 31"
  shows "pow2 (dbl_exp 2200 (-1074) (of_int a / of_int b)) * of_int b < 1"
proof -
  define e where "e = dbl_exp 2200 (-1074) (of_int a / of_int b :: rat)"
  have b: "(0::rat) < of_int b" "(of_int b :: rat) < 2 ^ 31" using assms(3,4) by (simp_all flip: of_int_less_iff)
  have a: "(of_int a :: rat) < 2 ^ 31" using assms(2) by (simp flip: of_int_less_iff)
  from dbl_exp_cases [OF e_def [symmetric]] consider "e = -1074" | "pow2 (e + 52) \<le> of_int a / of_int b" by blast
  then have "pow2 e * of_int b < 1"
  proof cases
    case 1
    have "pow2 e * of_int b < pow2 e * 2 ^ 31" using b by simp
    also have "\<dots> = pow2 (e + int 31)" using pow2_add_nat [of e 31] by simp
    also have "\<dots> \<le> 1" using 1 by (simp add: pow2_def)
    finally show ?thesis .
  next
    case 2
    then have "2 ^ 52 * pow2 e * of_int b \<le> of_int a"
      using pow2_add_nat [of e 52] b by (simp add: field_simps)
    then have "2 ^ 52 * (pow2 e * of_int b) < 2 ^ 31" using a unfolding mult.assoc by (rule le_less_trans)
    moreover have "(2::rat) ^ 31 \<le> 2 ^ 52 * 1" by simp
    ultimately have "2 ^ 52 * (pow2 e * of_int b) < 2 ^ 52 * 1" by (rule less_le_trans)
    then show ?thesis by (rule mult_left_less_imp_less) simp
  qed
  then show ?thesis by (simp add: e_def)
qed

lemma pow2_less_1: "pow2 e < 1 \<Longrightarrow> e < 0"
  using one_le_power [of "2::rat" "nat e"] by (cases "e \<ge> 0") (simp_all add: pow2_def not_le [symmetric])

lemma pow2_frac: "e < 0 \<Longrightarrow> of_int q / pow2 e = (of_int (q * 2 ^ nat (- e)) :: rat)"
  by (simp add: pow2_def)

lemma quotient_bounds:
  fixes a b :: int
  assumes "0 < b"
  shows "(of_int (a div b) :: rat) \<le> of_int a / of_int b"
    and "of_int a / of_int b + 1 / of_int b \<le> (of_int (a div b) + 1 :: rat)"
proof -
  have b: "(0::rat) < of_int b" using assms by simp
  have "a div b * b \<le> a" "a + 1 \<le> (a div b + 1) * b"
    using mult_div_mod_eq [of b a] pos_mod_bound [OF assms, of a] pos_mod_sign [OF assms, of a]
    unfolding distrib_right mult.commute [of "a div b"] by linarith+
  then have "of_int (a div b * b) \<le> (of_int a :: rat)" "of_int (a + 1) \<le> (of_int ((a div b + 1) * b) :: rat)"
    by (simp_all only: of_int_le_iff)
  then show "(of_int (a div b) :: rat) \<le> of_int a / of_int b"
    "of_int a / of_int b + 1 / of_int b \<le> (of_int (a div b) + 1 :: rat)"
    using b by (simp_all add: field_simps)
qed

lemma pow2_1024: "(2::rat) ^ 31 + 1 < pow2 1024"
  by (simp add: pow2_def)

lemma js_div_floor:
  fixes a b :: int
  assumes "0 \<le> a" "a < 2 ^ 31" "0 < b" "b < 2 ^ 31"
  obtains y where "js_div a b = Fin y" "0 \<le> y" "\<lfloor>y\<rfloor> = a div b"
proof -
  define x :: rat where "x = of_int a / of_int b"
  define e where "e = dbl_exp 2200 (-1074) x"
  define y where "y = of_int (round_even (x / pow2 e)) * pow2 e"
  have b: "(0::rat) < of_int b" "(1::rat) \<le> of_int b" using assms(3) by simp_all
  have x0: "0 \<le> x" "x < 2 ^ 31"
  proof -
    have "(of_int a :: rat) < 2 ^ 31" using assms(2) by (simp flip: of_int_less_iff)
    moreover have "x \<le> of_int a" using b assms(1) by (simp add: x_def field_simps mult_le_cancel_left1)
    ultimately show "0 \<le> x" "x < 2 ^ 31" using assms b by (simp_all add: x_def)
  qed
  have fine: "pow2 e * of_int b < 1" using dbl_exp_fine [OF assms] by (simp add: e_def x_def)
  have "pow2 e \<le> pow2 e * of_int b" using b by simp
  also note fine
  finally have e: "e < 0" by (rule pow2_less_1)
  note q = quotient_bounds [OF assms(3), of a, folded x_def]
  have "of_int (a div b * 2 ^ nat (- e)) \<le> x / pow2 e"
    unfolding pow2_frac [OF e, symmetric] using q(1) by (intro divide_right_mono) (simp_all add: less_imp_le)
  then have "of_int (a div b * 2 ^ nat (- e)) \<le> (of_int (round_even (x / pow2 e)) :: rat)"
    using round_even_mono_int by (simp only: of_int_le_iff)
  then have lo: "of_int (a div b) \<le> y"
    unfolding y_def pow2_frac [OF e, symmetric] by (simp add: pos_divide_le_eq)
  have "y - x = (of_int (round_even (x / pow2 e)) - x / pow2 e) * pow2 e"
    using pow2_pos [of e] by (simp add: y_def left_diff_distrib del: pow2_pos)
  then have "\<bar>y - x\<bar> = \<bar>of_int (round_even (x / pow2 e)) - x / pow2 e\<bar> * pow2 e"
    using abs_of_pos [OF pow2_pos [of e]] by (simp add: abs_mult)
  also have "\<dots> \<le> 1 / 2 * pow2 e"
    using round_even_near pow2_pos [of e] by (intro mult_right_mono) (simp_all add: less_imp_le)
  finally have near: "\<bar>y - x\<bar> \<le> pow2 e / 2" by simp
  have fine2: "pow2 e < 1 / of_int b" using fine b by (simp add: pos_less_divide_eq)
  have "y - x < 1 / of_int b" using near fine2 pow2_pos [of e] by linarith
  then have hi: "y < of_int (a div b) + 1" using q(2) by linarith
  have yb: "y < pow2 1024" "\<not> y \<le> - pow2 1024"
  proof -
    have "1 / of_int b \<le> (1 :: rat)" using b by simp
    then have "y < 2 ^ 31 + 1" using near x0 fine2 pow2_pos [of e] by linarith
    then show "y < pow2 1024" using pow2_1024 by (rule less_trans)
    have "0 \<le> y" using lo assms by (simp add: pos_imp_zdiv_nonneg_iff order_trans [OF _ lo])
    then show "\<not> y \<le> - pow2 1024" using pow2_pos [of 1024] by linarith
  qed
  show ?thesis
  proof (cases "x = of_int \<lfloor>x\<rfloor> \<and> \<bar>x\<bar> \<le> 9007199254740992")
    case True
    then have "js_div a b = Fin x" using assms by (simp add: js_div_def to_double_def x_def)
    moreover have "\<lfloor>x\<rfloor> = a div b" by (simp add: x_def floor_divide_of_int_eq)
    ultimately show ?thesis using that x0 by simp
  next
    case False
    then have "to_double x = Fin y"
      using yb x0 unfolding to_double_def e_def [symmetric] by (simp add: e_def y_def Let_def)
    moreover have "\<lfloor>y\<rfloor> = a div b" using lo hi by (simp add: floor_eq_iff)
    moreover have "0 \<le> y" using lo assms by (meson order_trans of_int_0_le_iff pos_imp_zdiv_nonneg_iff)
    ultimately show ?thesis using that assms by (simp add: js_div_def x_def)
  qed
qed

lemma wrap32_small: "0 \<le> i \<Longrightarrow> i < 2 ^ 31 \<Longrightarrow> wrap32 i = i"
  by (simp add: wrap32_def)

lemma page_quotient:
  assumes "0 < n" "n \<le> 2 ^ 31" "0 < s" "s < 2 ^ 31"
  shows "to_int32 (js_div (n - 1) s) + 1 = (n - 1) div s + 1"
proof -
  obtain y where y: "js_div (n - 1) s = Fin y" "0 \<le> y" "\<lfloor>y\<rfloor> = (n - 1) div s"
    using js_div_floor [of "n - 1" s] assms by auto
  have "(n - 1) div s \<le> n - 1" "0 \<le> (n - 1) div s"
    using assms zdiv_mono2 [of "n - 1" 1 s] by (simp_all add: pos_imp_zdiv_nonneg_iff)
  then have "wrap32 ((n - 1) div s) = (n - 1) div s" using assms by (intro wrap32_small) auto
  with y show ?thesis by (simp add: trunc_def)
qed

section \<open>The page bar\<close>

fun shown_number :: "bar_item \<Rightarrow> int option" where
  "shown_number (First _) = Some 1"
| "shown_number (Number i _) = Some i"
| "shown_number (Last i _) = Some i"
| "shown_number _ = None"

fun active :: "bar_item \<Rightarrow> bool" where
  "active (First b) = b"
| "active (Number _ b) = b"
| "active (Last _ b) = b"
| "active _ = False"

text \<open>
  \<open>runs gap m items l\<close>: the numbers of \<open>items\<close> go on from \<open>m\<close> to \<open>l\<close>, one by one, except that a separator
  stands exactly where at least one number is left out.
\<close>

fun runs :: "bool \<Rightarrow> int \<Rightarrow> bar_item list \<Rightarrow> int \<Rightarrow> bool" where
  "runs gap m [] l = (\<not> gap \<and> m = l)"
| "runs gap m (x # xs) l =
     (case shown_number x of
        None \<Rightarrow> \<not> gap \<and> runs True m xs l
      | Some i \<Rightarrow> (if gap then m + 1 < i else i = m + 1) \<and> runs False i xs l)"

lemma runs_numbers:
  "from \<le> to \<Longrightarrow>
     runs gap m (map (\<lambda>i. Number i (f i)) [from..to] @ xs) l \<longleftrightarrow>
     (if gap then m + 1 < from else from = m + 1) \<and> runs False to xs l"
proof (induction "nat (to - from)" arbitrary: gap m "from")
  case 0
  then have "from = to" by simp
  then show ?case by simp
next
  case (Suc d)
  then have "from < to" by simp
  then have "[from..to] = from # [from + 1..to]" by (simp add: upto.simps)
  moreover have "d = nat (to - (from + 1))" using Suc.hyps(2) by simp
  ultimately show ?case using Suc.hyps(1) [of "from + 1" False "from"] \<open>from < to\<close> by simp
qed

lemma window_facts:
  assumes "1 \<le> n" "n \<le> pages" "window pages n = (from, to)"
  shows "from \<le> n" "n \<le> to"
    and "runs False 0 (bar_front pages n @ xs) l \<longleftrightarrow>
      (if from = 1 then runs False 0 xs l else if from = 2 then runs False 1 xs l else runs True 1 xs l)"
    and "1 \<le> from" "runs False to (bar_back pages n) pages"
proof -
  show "from \<le> n" "n \<le> to" "1 \<le> from"
    using assms unfolding window_def window0_def Let_def by (auto split: if_splits)
  show "runs False 0 (bar_front pages n @ xs) l \<longleftrightarrow>
      (if from = 1 then runs False 0 xs l else if from = 2 then runs False 1 xs l else runs True 1 xs l)"
    using assms unfolding window_def window0_def Let_def bar_front_def by (auto split: if_splits)
  show "runs False to (bar_back pages n) pages"
    using assms unfolding window_def window0_def Let_def bar_back_def by (auto split: if_splits)
qed

lemma filter_number: "filter active (map (\<lambda>i. Number i (i = n)) [from..to]) = (if from \<le> n \<and> n \<le> to then [Number n True] else [])"
proof (induction "nat (to - from + 1)" arbitrary: "from")
  case (Suc d)
  then have le: "from \<le> to" by simp
  have "d = nat (to - (from + 1) + 1)" using Suc.hyps(2) by simp
  from Suc.hyps(1) [OF this] show ?case using le by (subst upto.simps) auto
qed simp

text \<open>
  C13. The bar of page links of a table with \<open>pages\<close> pages on page \<open>n\<close>: the numbers it shows run from 1 to the
  last page without gaps except where it has a separator, every separator stands for at least one page, and
  the current page is the only active link.
\<close>

theorem page_bar_complete:
  assumes "1 \<le> n" "n \<le> pages"
  shows "runs False 0 (page_bar pages (Some n)) pages \<and> filter active (page_bar pages (Some n)) = [Number n True]"
proof -
  obtain "from" to where w: "window pages n = (from, to)" by fastforce
  note f = window_facts [OF assms w]
  have "runs False 0 (page_bar pages (Some n)) pages"
    using f by (auto simp: page_bar_def w runs_numbers)
  moreover have "filter active (bar_front pages n) = []" "filter active (bar_back pages n) = []"
    using assms by (auto simp: bar_front_def bar_back_def)
  ultimately show ?thesis using f by (simp add: page_bar_def w filter_number)
qed

theorem page_bar_complete_witness:
  "runs False 0 (page_bar 9 (Some 5)) 9 \<and> filter active (page_bar 9 (Some 5)) = [Number 5 True]"
  using page_bar_complete [of 5 9] by simp

section \<open>The rows of a page\<close>

text \<open>The rows \<^verbatim>\<open>getData(true)\<close> cuts out for the current page.\<close>

definition page_rows :: "js_string \<Rightarrow> jsv \<Rightarrow> pager \<Rightarrow> 'a list \<Rightarrow> 'a list" where
  "page_rows all pageList p xs =
     (let p = fst (page_counts all pageList (length xs) p) in
      case (pageFrom p, pageTo p) of (Some from, Some to) \<Rightarrow> js_slice xs (from - 1) to | _ \<Rightarrow> [])"

definition page_total :: "js_string \<Rightarrow> jsv \<Rightarrow> pager \<Rightarrow> 'a list \<Rightarrow> nat" where
  "page_total all pageList p xs = nat (totalPages (fst (page_counts all pageList (length xs) p)))"

definition nth_page :: "js_string \<Rightarrow> jsv \<Rightarrow> pager \<Rightarrow> 'a list \<Rightarrow> nat \<Rightarrow> 'a list" where
  "nth_page all pageList p xs k = page_rows all pageList (p\<lparr>pageNumber := Some (int k + 1)\<rparr>) xs"

lemma chunks: "concat (map (\<lambda>k. take s (drop (k * s) xs)) [0..<m]) = take (m * s) xs"
proof (induction m)
  case (Suc m)
  have "take (Suc m * s) xs = take (m * s) xs @ take s (drop (m * s) xs)" using take_add [of "m * s" s xs] by (simp add: add.commute)
  with Suc show ?case by simp
qed simp

lemma page_counts_rows:
  assumes "\<not> server_side p" "pageSize p = Rows s" "0 < s" "s < 2 ^ 31" "0 < n" "n \<le> 2 ^ 31"
  shows "totalPages (fst (page_counts all pageList n p)) = (int n - 1) div s + 1"
    and "1 \<le> k \<Longrightarrow> k \<le> (int n - 1) div s + 1 \<Longrightarrow> pageNumber p = Some k \<Longrightarrow>
      pageFrom (fst (page_counts all pageList n p)) = Some ((k - 1) * s + 1) \<and>
      pageTo (fst (page_counts all pageList n p)) = Some (min (k * s) (int n))"
proof -
  have q: "to_int32 (js_div (int n - 1) s) = (int n - 1) div s"
    using page_quotient [of "int n" s] assms by simp
  have q0: "0 \<le> (int n - 1) div s" using assms by (simp add: pos_imp_zdiv_nonneg_iff)
  show "totalPages (fst (page_counts all pageList n p)) = (int n - 1) div s + 1"
    using assms q by (simp add: page_counts_def count_pages_def page_range_def Let_def size_num_def)
  show "pageFrom (fst (page_counts all pageList n p)) = Some ((k - 1) * s + 1) \<and>
      pageTo (fst (page_counts all pageList n p)) = Some (min (k * s) (int n))"
    if "1 \<le> k" "k \<le> (int n - 1) div s + 1" "pageNumber p = Some k"
    using assms q q0 that
    by (simp add: page_counts_def count_pages_def page_range_def Let_def size_num_def holds_def map2_option_def min_def)
qed

lemma page_rows_chunk:
  assumes "\<not> server_side p" "pageSize p = Rows (int s)" "0 < s" "s < 2 ^ 31" "xs \<noteq> []" "length xs \<le> 2 ^ 31"
    and "int k \<le> (int (length xs) - 1) div int s"
  shows "page_rows all pageList (p\<lparr>pageNumber := Some (int k + 1)\<rparr>) xs = take s (drop (k * s) xs)"
proof -
  have p: "pageFrom (fst (page_counts all pageList (length xs) (p\<lparr>pageNumber := Some (int k + 1)\<rparr>))) = Some (int (k * s) + 1) \<and>
      pageTo (fst (page_counts all pageList (length xs) (p\<lparr>pageNumber := Some (int k + 1)\<rparr>))) =
        Some (min ((int k + 1) * int s) (int (length xs)))"
    using page_counts_rows(2) [of "p\<lparr>pageNumber := Some (int k + 1)\<rparr>" "int s" "length xs" "int k + 1"] assms by simp
  have "min ((int k + 1) * int s) (int (length xs)) = int (min (k * s + s) (length xs))"
    unfolding of_nat_min by (simp add: distrib_right)
  then have "page_rows all pageList (p\<lparr>pageNumber := Some (int k + 1)\<rparr>) xs =
      take (min (k * s + s) (length xs) - k * s) (drop (k * s) xs)"
    using p js_slice_nat [of xs "k * s" "min (k * s + s) (length xs)"] by (simp add: page_rows_def Let_def)
  also have "\<dots> = take s (drop (k * s) xs)" by (simp add: min_def)
  finally show ?thesis .
qed

text \<open>
  C12. Up to 2^31 rows, the pages of a table partition its rows: put one after the other they give all rows in
  order, every page has at least one row and at most as many as the page size.
\<close>

theorem pages_partition:
  assumes "\<not> server_side p" "pageSize p = Rows (int s)" "0 < s" "s < 2 ^ 31" "xs \<noteq> []" "length xs \<le> 2 ^ 31"
  shows "concat (map (nth_page all pageList p xs) [0..<page_total all pageList p xs]) = xs \<and>
    list_all (\<lambda>k. nth_page all pageList p xs k \<noteq> [] \<and> length (nth_page all pageList p xs k) \<le> s)
      [0..<page_total all pageList p xs]"
proof -
  let ?m = "page_total all pageList p xs" and ?page = "nth_page all pageList p xs"
  have len: "0 < length xs" using assms(5) by simp
  have "int (length xs) - 1 = int (length xs - 1)" using len by linarith
  then have d: "(int (length xs) - 1) div int s = int ((length xs - 1) div s)" by (simp only: zdiv_int)
  then have m: "?m = (length xs - 1) div s + 1"
    using page_counts_rows(1) [of p "int s" "length xs"] assms len by (simp add: page_total_def)
  have page: "?page k = take s (drop (k * s) xs)" if "k < ?m" for k
    using page_rows_chunk [of p s xs k] assms that m len d by (simp add: nth_page_def)
  have "map ?page [0..<?m] = map (\<lambda>k. take s (drop (k * s) xs)) [0..<?m]" using page by simp
  then have "concat (map ?page [0..<?m]) = take (?m * s) xs" by (simp only: chunks)
  moreover have "length xs \<le> ?m * s"
    using m dividend_less_div_times [OF assms(3), of "length xs - 1"] by simp
  moreover have "take s (drop (k * s) xs) \<noteq> []" if "k < ?m" for k
  proof -
    have "k * s \<le> (length xs - 1) div s * s" using that m by simp
    also have "\<dots> \<le> length xs - 1" by (rule div_times_less_eq_dividend)
    finally have "k * s < length xs" using len by linarith
    then show ?thesis using assms(3) by simp
  qed
  ultimately show ?thesis using page by (simp add: list_all_iff)
qed

definition sample_pager :: pager where
  "sample_pager = \<lparr>pagination = True, server_side = False, totalRows = 0, pageNumber = Some 1, pageSize = Rows (int 2),
        optTotalPages = None, totalPages = 0, pageFrom = None, pageTo = None, pg_html = [], pg_shown = True,
        bar_shown = True, list_shown = True\<rparr>"

theorem pages_partition_witness:
  "concat (map (nth_page (str ''All'') (JArr []) sample_pager ''abcde'')
     [0..<page_total (str ''All'') (JArr []) sample_pager ''abcde'']) = ''abcde''"
  using pages_partition [of sample_pager 2 "''abcde''" "str ''All''" "JArr []"] by (simp add: sample_pager_def)

section \<open>Moving between pages\<close>

text \<open>
  After the pages have been counted, the links for the next and the previous page stay within the pages
  and undo each other: they turn round at the ends.
\<close>

lemma next_pre_inverse:
  assumes "optTotalPages p = Some m" "pageNumber p = Some n" "1 \<le> n" "n \<le> m"
  shows "holds (\<lambda>k. 1 \<le> k \<and> k \<le> m) (pageNumber (onPageNext p)) \<and> holds (\<lambda>k. 1 \<le> k \<and> k \<le> m) (pageNumber (onPagePre p)) \<and>
    onPagePre (onPageNext p) = p \<and> onPageNext (onPagePre p) = p"
proof -
  have "p\<lparr>pageNumber := Some n\<rparr> = p" using assms(2) by (cases p) simp
  then show ?thesis using assms by (auto simp: onPageNext_def onPagePre_def holds_def)
qed

lemma next_pre_inverse_example:
  "onPagePre (onPageNext (sample_pager\<lparr>optTotalPages := Some 3, pageNumber := Some 3\<rparr>)) =
     sample_pager\<lparr>optTotalPages := Some 3, pageNumber := Some 3\<rparr>"
  using next_pre_inverse [of "sample_pager\<lparr>optTotalPages := Some 3, pageNumber := Some 3\<rparr>" 3 3] by simp

end
