(* ===== verification/TableState.thy ===== *)
theory TableState
  imports TablePages
begin

text \<open>
  The state of a table of \<^verbatim>\<open>bootstrap-table.js\<close>, sorting and searching.  Rows and the arrays that hold them
  are objects in a store: \<^verbatim>\<open>this.data\<close> and \<^verbatim>\<open>this.options.data\<close> are addresses, and are often the same
  array.  Rows are objects with named fields.  Functions the page supplies get copies of the rows: they
  compute values and do not change the table.
\<close>

section \<open>Environment and state\<close>

text \<open>
  \<open>engine_sort\<close> is \<^verbatim>\<open>Array.prototype.sort\<close> with a comparator that may throw, \<open>localeCompare\<close> the collation of
  the engine; neither is fixed by the language.
\<close>

record env =
  globals :: props
  call :: caller
  localeCompare :: "js_string \<Rightarrow> js_string \<Rightarrow> int"
  engine_sort :: "(nat \<Rightarrow> nat \<Rightarrow> js_error + jnum) \<Rightarrow> nat list \<Rightarrow> js_error + nat list"

record header =
  hfields :: "jsv list"
  styles :: "js_string list"
  classes :: "js_string list"
  formatters :: "jsv list"
  hevents :: "jsv list"
  sorters :: "jsv list"
  sortNames :: "jsv list"
  cellStyles :: "jsv list"
  searchables :: "jsv list"
  stateField :: jsv

record select_item =
  item_index :: nat
  item_checked :: bool
  item_enabled :: bool
  item_radio :: bool

text \<open>
  \<open>options\<close> holds the options the operations only read; those they write have a field of their own.
  \<open>selectItem\<close> are the check boxes of the rows shown, \<open>selectAll\<close> whether the box in the header is
  checked, \<open>body_html\<close> the content of the table body, \<open>ths\<close> the number of header cells, \<open>search_input\<close> the
  text of the search box, \<open>loading\<close> whether the loading message is shown, \<open>xhr_open\<close> the request under way with its
  \<^verbatim>\<open>silent\<close> flag, \<open>requests\<close> those sent, \<open>aborted\<close> how many were cut off, \<open>events\<close> the DOM events raised so far.
\<close>

record table =
  options :: props
  pg :: pager
  sortName :: jsv
  sortOrder :: jsv
  searchText :: jsv
  opt_searchText :: jsv
  filterColumns :: props
  filterColumnsPartial :: props
  hdr :: header
  columns :: "props list"
  fromHtml :: bool
  rows :: "nat \<Rightarrow> props"
  arrs :: "nat \<Rightarrow> nat list"
  next_row :: nat
  next_arr :: nat
  data :: nat
  opt_data :: nat
  selectItem :: "select_item list"
  selectAll :: bool
  body_html :: js_string
  scrollTop :: int
  ths :: nat
  search_input :: js_string
  loading :: bool
  xhr_open :: "bool option"
  requests :: "props list"
  aborted :: nat
  events :: "dom_event list"

definition table_opt :: "table \<Rightarrow> string \<Rightarrow> jsv" where
  "table_opt t k = lookup (options t) (str k)"

definition nth_jsv :: "jsv list \<Rightarrow> nat \<Rightarrow> jsv" where
  "nth_jsv xs i = (if i < length xs then xs ! i else Undefined)"

definition row_val :: "table \<Rightarrow> nat \<Rightarrow> jsv" where
  "row_val t r = JObj (rows t r)"

definition set_field :: "nat \<Rightarrow> js_string \<Rightarrow> jsv \<Rightarrow> table \<Rightarrow> table" where
  "set_field r k v t = t\<lparr>rows := (rows t)(r := set_prop k v (rows t r))\<rparr>"

definition new_array :: "nat list \<Rightarrow> table \<Rightarrow> table \<times> nat" where
  "new_array xs t = (t\<lparr>arrs := (arrs t)(next_arr t := xs), next_arr := Suc (next_arr t)\<rparr>, next_arr t)"

text \<open>A value that is an array of rows becomes new rows in a new array.\<close>

definition new_rows :: "jsv list \<Rightarrow> table \<Rightarrow> table \<times> nat" where
  "new_rows vs t =
     (let n = next_row t in
      new_array [n..<n + length vs]
        (t\<lparr>rows := (\<lambda>r. if n \<le> r \<and> r < n + length vs then option_props (vs ! (r - n)) else rows t r), next_row := n + length vs\<rparr>))"

definition set_array :: "nat \<Rightarrow> nat list \<Rightarrow> table \<Rightarrow> table" where
  "set_array a xs t = t\<lparr>arrs := (arrs t)(a := xs)\<rparr>"

definition fire :: "env \<Rightarrow> string \<Rightarrow> jsv list \<Rightarrow> table \<Rightarrow> js_error + table" where
  "fire env name args t =
     ebind (trigger (call env) (options t) (str name) args) (\<lambda>es. Inr (t\<lparr>events := events t @ es\<rparr>))"

section \<open>The rows on display\<close>

definition filtered :: "table \<Rightarrow> bool" where
  "filtered t \<longleftrightarrow> truthy (searchText t) \<or> filterColumns t \<noteq> [] \<or> filterColumnsPartial t \<noteq> []"

definition data_rows :: "table \<Rightarrow> nat list" where
  "data_rows t = arrs t (data t)"

definition opt_rows :: "table \<Rightarrow> nat list" where
  "opt_rows t = arrs t (opt_data t)"

definition getData :: "table \<Rightarrow> bool \<Rightarrow> nat list" where
  "getData t useCurrentPage =
     (let xs = (if filtered t then data_rows t else opt_rows t) in
      if useCurrentPage then
        (case (pageFrom (pg t), pageTo (pg t)) of (Some from, Some to) \<Rightarrow> js_slice xs (from - 1) to | _ \<Rightarrow> [])
      else xs)"

section \<open>Numbers\<close>

fun js_neg :: "jnum \<Rightarrow> jnum" where
  "js_neg (Fin x) = Fin (- x)"
| "js_neg PosInf = NegInf"
| "js_neg NegInf = PosInf"
| "js_neg NaN = NaN"

fun js_less :: "jnum \<Rightarrow> jnum \<Rightarrow> bool" where
  "js_less (Fin x) (Fin y) = (x < y)"
| "js_less NegInf (Fin y) = True"
| "js_less (Fin x) PosInf = True"
| "js_less NegInf PosInf = True"
| "js_less _ _ = False"

text \<open>\<^verbatim>\<open>parseFloat\<close> reads the longest prefix that is a decimal literal, \<^verbatim>\<open>parseInt(s, 10)\<close> the leading digits.\<close>

definition decimal_literal :: "js_string \<Rightarrow> jnum" where
  "decimal_literal s =
     (case s of [] \<Rightarrow> NaN | c # r \<Rightarrow> if c = 45 then signed_decimal True r else if c = 43 then signed_decimal False r
        else signed_decimal False s)"

definition parse_float :: "js_string \<Rightarrow> jnum" where
  "parse_float s0 =
     (let s = js_ltrim s0 in
      case filter (\<lambda>x. x \<noteq> NaN) (map (\<lambda>n. decimal_literal (take n s)) (rev [1..<Suc (length s)])) of
        [] \<Rightarrow> NaN | x # _ \<Rightarrow> x)"

definition parse_int :: "js_string \<Rightarrow> jnum" where
  "parse_int s0 =
     (let s = js_ltrim s0;
          (neg, r) = (case s of [] \<Rightarrow> (False, []) | c # r \<Rightarrow> if c = 45 then (True, r) else if c = 43 then (False, r) else (False, s));
          ds = takeWhile is_digit r
      in if ds = [] then NaN else to_double (of_int (if neg then - dec_val ds else dec_val ds)))"

text \<open>\<^verbatim>\<open>$.isNumeric\<close>: the number of the text is finite and at least what \<^verbatim>\<open>parseFloat\<close> reads, less one.\<close>

definition isNumeric :: "jsv \<Rightarrow> bool" where
  "isNumeric v =
     (case v of
        JArr _ \<Rightarrow> False
      | _ \<Rightarrow>
          if truthy v then
            (case (to_number (to_str v), parse_float (to_str v)) of
               (Fin x, Fin y) \<Rightarrow> x - y + 1 \<ge> 0
             | (PosInf, Fin _) \<Rightarrow> True
             | (PosInf, NegInf) \<Rightarrow> True
             | (Fin _, NegInf) \<Rightarrow> True
             | _ \<Rightarrow> False)
          else v = JNum (Fin 0))"

section \<open>Sorting\<close>

definition blank :: "jsv \<Rightarrow> jsv" where
  "blank v = (if v = Undefined \<or> v = JNull then JStr [] else v)"

definition signed :: "bool \<Rightarrow> jnum \<Rightarrow> jnum" where
  "signed desc x = (if desc then js_neg x else x)"

definition compare_values :: "env \<Rightarrow> bool \<Rightarrow> jsv \<Rightarrow> jsv \<Rightarrow> jnum" where
  "compare_values env desc aa bb =
     (if isNumeric aa \<and> isNumeric bb then
        (if js_less (parse_float (to_str aa)) (parse_float (to_str bb)) then signed desc (Fin (- 1)) else signed desc (Fin 1))
      else if strict_eq aa bb then Fin 0
      else if localeCompare env (to_str aa) (to_str bb) = - 1 then signed desc (Fin (- 1))
      else signed desc (Fin 1))"

definition sort_compare :: "env \<Rightarrow> table \<Rightarrow> nat \<Rightarrow> nat \<Rightarrow> nat \<Rightarrow> js_error + jnum" where
  "sort_compare env t index a b =
     (let desc = strict_eq (sortOrder t) (S ''desc'');
          name = (if truthy (nth_jsv (sortNames (hdr t)) index) then nth_jsv (sortNames (hdr t)) index else sortName t)
      in ebind (getItemField (row_val t a) name (truthy (table_opt t ''escape''))) (\<lambda>aa.
         ebind (getItemField (row_val t b) name (truthy (table_opt t ''escape''))) (\<lambda>bb.
         ebind (calculateObjectValue (globals env) (call env) (nth_jsv (sorters (hdr t)) index) [aa, bb] Undefined) (\<lambda>value.
         if value \<noteq> Undefined then Inr (signed desc (to_num value))
         else
           (let aa = blank aa; bb = blank bb;
                (aa, bb) = (if truthy (table_opt t ''sortStable'') \<and> strict_eq aa bb
                            then (lookup (rows t a) (str ''_position''), lookup (rows t b) (str ''_position'')) else (aa, bb))
            in Inr (compare_values env desc aa bb))))))"

fun number_positions :: "nat \<Rightarrow> nat list \<Rightarrow> table \<Rightarrow> table" where
  "number_positions i [] t = t"
| "number_positions i (r # rs) t =
     number_positions (Suc i) rs
       (if str ''_position'' \<in> fst ` set (rows t r) then t else set_field r (str ''_position'') (JInt (int i)) t)"

definition position_of :: "jsv \<Rightarrow> jsv list \<Rightarrow> nat option" where
  "position_of v xs = (case filter (\<lambda>i. strict_eq (xs ! i) v) [0..<length xs] of [] \<Rightarrow> None | i # _ \<Rightarrow> Some i)"

definition initSort :: "env \<Rightarrow> table \<Rightarrow> js_error + table" where
  "initSort env t =
     (if table_opt t ''customSort'' \<noteq> JFun ''noop'' then
        ebind (apply_fun (call env) (table_opt t ''customSort'') [sortName t, sortOrder t]) (\<lambda>_. Inr t)
      else
        (case position_of (sortName t) (hfields (hdr t)) of
           None \<Rightarrow> Inr t
         | Some index \<Rightarrow>
             (let t = (if truthy (table_opt t ''sortStable'') then number_positions 0 (data_rows t) t else t)
              in ebind (engine_sort env (sort_compare env t index) (data_rows t)) (\<lambda>xs. Inr (set_array (data t) xs t)))))"

datatype data_kind = Append | Prepend | Replace

definition initData :: "env \<Rightarrow> nat option \<Rightarrow> data_kind \<Rightarrow> table \<Rightarrow> js_error + table" where
  "initData env new kind t =
     (let t = (case (kind, new) of
          (Append, Some d) \<Rightarrow>
            (let (t, a) = new_array (data_rows t @ arrs t d) t; t = t\<lparr>data := a\<rparr>;
                 (t, b) = new_array (opt_rows t @ arrs t d) t
             in t\<lparr>opt_data := b\<rparr>)
        | (Prepend, Some d) \<Rightarrow>
            (let (t, a) = new_array (arrs t d @ data_rows t) t; t = t\<lparr>data := a\<rparr>;
                 (t, b) = new_array (arrs t d @ opt_rows t) t
             in t\<lparr>opt_data := b\<rparr>)
        | (_, Some d) \<Rightarrow> t\<lparr>data := d, opt_data := d\<rparr>
        | (_, None) \<Rightarrow> t\<lparr>data := opt_data t\<rparr>)
      in if server_side (pg t) then Inr t else initSort env t)"

section \<open>Searching\<close>

text \<open>The test of one filter column, as it stands: an array filter also fails the second comparison.\<close>

definition filter_rejects :: "props \<Rightarrow> js_string \<Rightarrow> jsv \<Rightarrow> bool" where
  "filter_rejects item key f \<longleftrightarrow>
     (case f of JArr vs \<Rightarrow> \<not> list_ex (\<lambda>v. strict_eq v (lookup item key)) vs | _ \<Rightarrow> False) \<or>
     \<not> strict_eq (lookup item key) f"

definition passes_filter :: "props \<Rightarrow> props \<Rightarrow> bool" where
  "passes_filter f item = list_all (\<lambda>(key, v). \<not> filter_rejects item key v) f"

definition search_key :: "jsv \<Rightarrow> jsv" where
  "search_key field = (if isNumeric field then JNum (parse_int (to_str field)) else field)"

definition search_value :: "env \<Rightarrow> table \<Rightarrow> nat \<Rightarrow> nat \<Rightarrow> nat \<Rightarrow> js_error + jsv" where
  "search_value env t r i j =
     (let key = search_key (nth_jsv (hfields (hdr t)) j);
          ci = getFieldIndex (columns t) key
      in case key of
           JStr k \<Rightarrow>
             ebind (path_value (row_val t r) (js_split 46 k)) (\<lambda>value.
             if ci \<ge> 0 \<and> truthy (lookup (columns t ! nat ci) (str ''searchFormatter''))
             then calculateObjectValue (globals env) (call env) (nth_jsv (formatters (hdr t)) j)
                    [value, row_val t r, JInt (int i)] value
             else Inr value)
         | _ \<Rightarrow> elem (row_val t r) key)"

definition search_hit :: "bool \<Rightarrow> js_string \<Rightarrow> jsv \<Rightarrow> bool" where
  "search_hit strict s value =
     (case value of
        JStr v \<Rightarrow> if strict then lower v = s else index_of (lower v) s \<noteq> - 1
      | JNum x \<Rightarrow> if strict then lower (num_str x) = s else index_of (lower (num_str x)) s \<noteq> - 1
      | _ \<Rightarrow> False)"

fun search_row :: "env \<Rightarrow> table \<Rightarrow> js_string \<Rightarrow> nat \<Rightarrow> nat \<Rightarrow> nat list \<Rightarrow> js_error + bool" where
  "search_row env t s r i [] = Inr False"
| "search_row env t s r i (j # js) =
     (if \<not> truthy (nth_jsv (searchables (hdr t)) j) then search_row env t s r i js
      else ebind (search_value env t r i j) (\<lambda>value.
           if search_hit (truthy (table_opt t ''strictSearch'')) s value then Inr True else search_row env t s r i js))"

fun grep_rows :: "(nat \<Rightarrow> nat \<Rightarrow> js_error + bool) \<Rightarrow> nat \<Rightarrow> nat list \<Rightarrow> js_error + nat list" where
  "grep_rows P i [] = Inr []"
| "grep_rows P i (r # rs) =
     ebind (P r i) (\<lambda>b. ebind (grep_rows P (Suc i) rs) (\<lambda>xs. Inr (if b then r # xs else xs)))"

definition search_string :: "table \<Rightarrow> js_string option" where
  "search_string t =
     (if truthy (searchText t)
      then Some (lower (to_str (if truthy (table_opt t ''escape'') then escapeHTML (searchText t) else searchText t)))
      else None)"

definition initSearch :: "env \<Rightarrow> table \<Rightarrow> js_error + table" where
  "initSearch env t =
     (if server_side (pg t) then Inr t
      else if table_opt t ''customSearch'' \<noteq> JFun ''noop'' then
        ebind (apply_fun (call env) (table_opt t ''customSearch'') [searchText t]) (\<lambda>_. Inr t)
      else
        (let t = (if filterColumns t \<noteq> []
                  then (let (t, a) = new_array (filter (\<lambda>r. passes_filter (filterColumns t) (rows t r)) (opt_rows t)) t
                        in t\<lparr>data := a\<rparr>)
                  else t\<lparr>data := opt_data t\<rparr>)
         in case search_string t of
              None \<Rightarrow> Inr t
            | Some s \<Rightarrow>
                ebind (grep_rows (\<lambda>r i. search_row env t s r i [0..<length (hfields (hdr t))]) 0 (data_rows t)) (\<lambda>xs.
                let (t, a) = new_array xs t in Inr (t\<lparr>data := a\<rparr>))))"

end
