(* ===== verification/TableBody.thy ===== *)
theory TableBody
  imports TableState
begin

text \<open>
  The body of a table of \<^verbatim>\<open>bootstrap-table.js\<close>: the markup of its rows and cells, the check boxes of the rows
  shown, and the state field that every rendering writes into the rows.  Element sizes and scroll bars
  are not modelled.
\<close>

section \<open>Check boxes\<close>

definition updateSelected :: "table \<Rightarrow> table" where
  "updateSelected t =
     (let en = filter item_enabled (selectItem t) in t\<lparr>selectAll := en \<noteq> [] \<and> list_all item_checked en\<rparr>)"

fun update_each :: "select_item list \<Rightarrow> table \<Rightarrow> js_error + table" where
  "update_each [] t = Inr t"
| "update_each (x # xs) t =
     (if item_index x < length (data_rows t)
      then update_each xs (set_field (data_rows t ! item_index x) (to_str (stateField (hdr t))) (JBool (item_checked x)) t)
      else Inl TypeError)"

definition updateRows :: "table \<Rightarrow> js_error + table" where
  "updateRows t = update_each (selectItem t) t"

definition clear_field :: "js_string \<Rightarrow> nat list \<Rightarrow> table \<Rightarrow> table" where
  "clear_field k rs t = fold (\<lambda>r. set_field r k (JBool False)) rs t"

definition resetRows :: "table \<Rightarrow> table" where
  "resetRows t =
     (if data_rows t = [] then t
      else
        (let t = t\<lparr>selectAll := False, selectItem := map (\<lambda>x. x\<lparr>item_checked := False\<rparr>) (selectItem t)\<rparr>
         in if truthy (stateField (hdr t)) then clear_field (to_str (stateField (hdr t))) (data_rows t) t else t))"

section \<open>Visible fields\<close>

fun visible_fields :: "props list \<Rightarrow> jsv list \<Rightarrow> js_error + jsv list" where
  "visible_fields cols [] = Inr []"
| "visible_fields cols (f # fs) =
     (let i = getFieldIndex cols f in
      if i < 0 then Inl TypeError
      else ebind (visible_fields cols fs) (\<lambda>r.
           Inr (if truthy (lookup (cols ! nat i) (str ''visible'')) then f # r else r)))"

definition getVisibleFields :: "table \<Rightarrow> js_error + jsv list" where
  "getVisibleFields t = visible_fields (columns t) (hfields (hdr t))"

section \<open>Cells\<close>

definition for_in :: "jsv \<Rightarrow> props" where
  "for_in v = (case v of JObj ps \<Rightarrow> ps | JArr vs \<Rightarrow> map (\<lambda>i. (digits i, vs ! i)) [0..<length vs] | _ \<Rightarrow> [])"

definition css_list :: "jsv \<Rightarrow> js_string list" where
  "css_list css = map (\<lambda>(k, v). k @ str '': '' @ to_str v) (for_in css)"

definition data_attrs :: "jsv \<Rightarrow> js_string" where
  \<open>data_attrs v =
     concat (map (\<lambda>(k, x). if k = str ''index'' then [] else sprintf (str '' data-%s="%s"'') [JStr k, x]) (for_in v))\<close>

definition cell_key :: "jsv \<Rightarrow> string \<Rightarrow> js_string" where
  "cell_key field suffix = [95] @ to_str field @ str suffix"

definition cell_attr :: "props \<Rightarrow> jsv \<Rightarrow> string \<Rightarrow> string \<Rightarrow> js_string \<Rightarrow> js_string" where
  "cell_attr item field suffix format other =
     (if truthy (lookup item (cell_key field suffix)) then sprintf (str format) [lookup item (cell_key field suffix)] else other)"

definition nth_str :: "js_string list \<Rightarrow> nat \<Rightarrow> jsv" where
  "nth_str xs i = (if i < length xs then JStr (xs ! i) else Undefined)"

text \<open>\<^verbatim>\<open>style\<close> of a cell: the given declarations, then those of the column, joined.\<close>

definition style_attr :: "js_string list \<Rightarrow> table \<Rightarrow> nat \<Rightarrow> js_string" where
  \<open>style_attr csses t j =
     sprintf (str ''style="%s"'')
       [JStr (js_join (str ''; '') (csses @ [case nth_str (styles (hdr t)) j of JStr s \<Rightarrow> s | _ \<Rightarrow> []]))]\<close>

definition member :: "jsv \<Rightarrow> string \<Rightarrow> js_error + jsv" where
  "member v k = (if truthy v then get_prop v (str k) else Inr v)"

definition checkbox_html :: "table \<Rightarrow> props \<Rightarrow> props \<Rightarrow> nat \<Rightarrow> nat \<Rightarrow> jsv \<Rightarrow> bool \<Rightarrow> bool \<Rightarrow> js_string" where
  \<open>checkbox_html t column item i j value is_checked is_disabled =
     sprintf (if truthy (table_opt t ''cardView'') then str ''<div class="card-view %s">'' else str ''<td class="bs-checkbox %s">'')
       [js_or (lookup column (str ''class'')) (JStr [])] @
     str ''<input'' @
     sprintf (str '' data-index="%s"'') [JInt (int i)] @
     sprintf (str '' name="%s"'') [table_opt t ''selectItemName''] @
     sprintf (str '' type="%s"'') [if truthy (lookup column (str ''radio'')) then S ''radio'' else S ''checkbox''] @
     sprintf (str '' value="%s"'') [lookup item (to_str (table_opt t ''idField''))] @
     sprintf (str '' checked="%s"'') [if is_checked then S ''checked'' else Undefined] @
     sprintf (str '' disabled="%s"'') [if is_disabled then S ''disabled'' else Undefined] @
     str '' />'' @
     (case value of JStr s \<Rightarrow> if truthy (nth_jsv (formatters (hdr t)) j) then s else [] | _ \<Rightarrow> []) @
     (if truthy (table_opt t ''cardView'') then str ''</div>'' else str ''</td>'')\<close>

definition value_html :: "table \<Rightarrow> jsv \<Rightarrow> jsv \<Rightarrow> js_string \<Rightarrow> js_string list \<Rightarrow> js_string" where
  \<open>value_html t field value0 style tags =
     (let value = (if value0 = Undefined \<or> value0 = JNull then table_opt t ''undefinedText'' else value0)
      in if truthy (table_opt t ''cardView'') then
           (if truthy (table_opt t ''smartDisplay'') \<and> value = JStr [] then str ''<div class="card-view"></div>''
            else
              str ''<div class="card-view">'' @
              (if truthy (table_opt t ''showHeader'')
               then sprintf (str ''<span class="title" %s>%s</span>'')
                      [JStr style, getPropertyFromOther (columns t) (str ''field'') (str ''title'') field]
               else []) @
              sprintf (str ''<span class="value">%s</span>'') [value] @ str ''</div>'')
         else
           sprintf (str ''<td%s %s %s %s %s %s %s>'') (map JStr tags) @
           (if value = Undefined \<or> value = JNull then [] else to_str value) @ str ''</td>'')\<close>

text \<open>
  One cell: its markup, the check box it shows, and the row with its state field written.  A field with no
  value in a table read from markup, and an invisible column, give nothing.
\<close>

definition cell_class :: "table \<Rightarrow> props \<Rightarrow> jsv \<Rightarrow> nat \<Rightarrow> js_string" where
  \<open>cell_class t item field j =
     cell_attr item field ''_class'' '' class="%s"'' (case nth_str (classes (hdr t)) j of JStr s \<Rightarrow> s | _ \<Rightarrow> [])\<close>

definition render_cell ::
  "env \<Rightarrow> table \<Rightarrow> nat \<Rightarrow> nat \<Rightarrow> js_string list \<Rightarrow> nat \<Rightarrow> jsv \<Rightarrow> props \<Rightarrow> jsv \<Rightarrow>
   js_error + (js_string \<times> select_item option \<times> table)" where
  \<open>render_cell env t r i csses j field column value0 =
     (let item = rows t r in
      ebind (calculateObjectValue (globals env) (call env) (nth_jsv (cellStyles (hdr t)) j)
               [value0, row_val t r, JInt (int i), field] (JObj [])) (\<lambda>cellStyle.
      ebind (get_prop cellStyle (str ''classes'')) (\<lambda>cs_classes.
      ebind (get_prop cellStyle (str ''css'')) (\<lambda>cs_css.
      ebind (calculateObjectValue (globals env) (call env) (nth_jsv (formatters (hdr t)) j)
               [value0, row_val t r, JInt (int i)] value0) (\<lambda>value.
      let class' = (if truthy cs_classes then sprintf (str '' class="%s"'') [cs_classes] else cell_class t item field j);
          style = style_attr (if truthy cs_css then css_list cs_css else csses) t j;
          data' = (if truthy (lookup item (cell_key field ''_data'')) then data_attrs (lookup item (cell_key field ''_data'')) else [])
      in if truthy (lookup column (str ''checkbox'')) \<or> truthy (lookup column (str ''radio'')) then
           ebind (member value ''checked'') (\<lambda>vc.
           ebind (member value ''disabled'') (\<lambda>vd.
           let state = (if value = JBool True then JBool True else vc);
               dis = (\<not> truthy (lookup column (str ''checkboxEnabled'')) \<or> truthy vd)
           in Inr (checkbox_html t column item i j value (truthy state) dis,
                   Some \<lparr>item_index = i, item_checked = truthy state, item_enabled = \<not> dis,
                         item_radio = truthy (lookup column (str ''radio''))\<rparr>,
                   set_field r (to_str (stateField (hdr t))) state t)))
         else
           Inr (value_html t field value style
                  [cell_attr item field ''_id'' '' id="%s"'' [], class', style, data',
                   cell_attr item field ''_rowspan'' '' rowspan="%s"'' [],
                   cell_attr item field ''_colspan'' '' colspan="%s"'' [],
                   cell_attr item field ''_title'' '' title="%s"'' []],
                None, t))))))\<close>

definition initCell ::
  "env \<Rightarrow> nat \<Rightarrow> nat \<Rightarrow> js_string list \<Rightarrow> nat \<Rightarrow> jsv \<Rightarrow> table \<Rightarrow> js_error + (js_string \<times> select_item list \<times> table)" where
  "initCell env r i csses j field t =
     ebind (getItemField (row_val t r) field (truthy (table_opt t ''escape''))) (\<lambda>value.
     if fromHtml t \<and> value = Undefined then Inr ([], [], t)
     else if j \<ge> length (columns t) then Inl TypeError
     else if \<not> truthy (lookup (columns t ! j) (str ''visible'')) then Inr ([], [], t)
     else if truthy (table_opt t ''cardView'') \<and> \<not> truthy (lookup (columns t ! j) (str ''cardVisible'')) then Inr ([], [], t)
     else ebind (render_cell env t r i csses j field (columns t ! j) value) (\<lambda>(html, box, t).
          Inr (html, (case box of None \<Rightarrow> [] | Some b \<Rightarrow> [b]), t)))"

fun initCells ::
  "env \<Rightarrow> nat \<Rightarrow> nat \<Rightarrow> js_string list \<Rightarrow> nat \<Rightarrow> jsv list \<Rightarrow> table \<Rightarrow> js_error + (js_string \<times> select_item list \<times> table)" where
  "initCells env r i csses j [] t = Inr ([], [], t)"
| "initCells env r i csses j (f # fs) t =
     ebind (initCell env r i csses j f t) (\<lambda>(h, xs, t).
     ebind (initCells env r i csses (Suc j) fs t) (\<lambda>(h', ys, t). Inr (h @ h', xs @ ys, t)))"

section \<open>Rows\<close>

definition row_open :: "table \<Rightarrow> nat \<Rightarrow> props \<Rightarrow> jsv \<Rightarrow> jsv \<Rightarrow> js_string" where
  \<open>row_open t i item cls attributes =
     str ''<tr'' @
     sprintf (str '' %s'') [JStr (js_join [32] (map (\<lambda>(k, v). sprintf (str ''%s="%s"'') [JStr k, escapeHTML v])
        (if truthy attributes then for_in attributes else [])))] @
     sprintf (str '' id="%s"'') [lookup item (str ''_id'')] @
     sprintf (str '' class="%s"'') [js_or cls (lookup item (str ''_class''))] @
     sprintf (str '' data-index="%s"'') [JInt (int i)] @
     sprintf (str '' data-uniqueid="%s"'') [lookup item (to_str (table_opt t ''uniqueId''))] @
     sprintf (str ''%s'') [JStr (if truthy (lookup item (str ''_data'')) then data_attrs (lookup item (str ''_data'')) else [])] @
     str ''>''\<close>

definition detail_icon :: "table \<Rightarrow> js_error + js_string" where
  \<open>detail_icon t =
     (if \<not> truthy (table_opt t ''cardView'') \<and> truthy (table_opt t ''detailView'') then
        ebind (get_prop (table_opt t ''icons'') (str ''detailOpen'')) (\<lambda>icon.
        Inr (str ''<td>'' @ str ''<a class="detail-icon" href="javascript:">'' @
          sprintf (str ''<i class="%s %s"></i>'') [table_opt t ''iconsPrefix'', icon] @ str ''</a>'' @ str ''</td>''))
      else Inr [])\<close>

definition initRow :: "env \<Rightarrow> nat list \<Rightarrow> nat \<Rightarrow> table \<Rightarrow> js_error + (js_string \<times> select_item list \<times> table)" where
  \<open>initRow env xs i t =
     (if i \<ge> length xs then Inl TypeError
      else
        (let r = xs ! i in
         ebind (calculateObjectValue (globals env) (call env) (table_opt t ''rowStyle'') [row_val t r, JInt (int i)] (JObj [])) (\<lambda>style.
         ebind (member style ''css'') (\<lambda>css.
         ebind (calculateObjectValue (globals env) (call env) (table_opt t ''rowAttributes'') [row_val t r, JInt (int i)] (JObj [])) (\<lambda>attributes.
         ebind (get_prop style (str ''classes'')) (\<lambda>cls.
         ebind (detail_icon t) (\<lambda>icon.
         ebind (initCells env r i (if truthy css then css_list css else []) 0 (hfields (hdr t)) t) (\<lambda>(cells, boxes, t').
         Inr (row_open t i (rows t r) cls attributes @
              (if truthy (table_opt t ''cardView'')
               then sprintf (str ''<td colspan="%s"><div class="card-views">'') [JInt (int (length (hfields (hdr t))))] else []) @
              icon @ cells @
              (if truthy (table_opt t ''cardView'') then str ''</div></td>'' else []) @ str ''</tr>'',
              boxes, t')))))))))\<close>

fun initRows :: "env \<Rightarrow> nat list \<Rightarrow> nat list \<Rightarrow> table \<Rightarrow> js_error + (js_string \<times> select_item list \<times> table)" where
  "initRows env xs [] t = Inr ([], [], t)"
| "initRows env xs (i # is) t =
     ebind (initRow env xs i t) (\<lambda>(h, bs, t).
     ebind (initRows env xs is t) (\<lambda>(h', bs', t). Inr (h @ h', bs @ bs', t)))"

section \<open>The body\<close>

definition resetView :: "env \<Rightarrow> table \<Rightarrow> js_error + table" where
  "resetView env t =
     (let t = t\<lparr>selectAll := selectItem t \<noteq> [] \<and> list_all item_checked (selectItem t)\<rparr>
      in if truthy (table_opt t ''cardView'') then Inr t
         else
           ebind (if truthy (table_opt t ''showHeader'') \<and> truthy (table_opt t ''height'') then Inr t
                  else fire env ''post-header'' [] t) (\<lambda>t.
           fire env ''reset-view'' [] t))"

text \<open>The indices the loop runs over; a range that is not a number is empty, a negative index has no row.\<close>

definition body_range :: "pager \<Rightarrow> js_error + nat list" where
  "body_range p =
     (case (pageFrom p, pageTo p) of
        (Some from, Some to) \<Rightarrow>
          if from - 1 < 0 \<and> from - 1 < to then Inl TypeError else Inr [nat (from - 1)..<nat to]
      | _ \<Rightarrow> Inr [])"

definition no_records :: "env \<Rightarrow> table \<Rightarrow> js_error + js_string" where
  \<open>no_records env t =
     ebind (call_text (call env) (options t) ''formatNoMatches'' []) (\<lambda>msg.
     Inr (str ''<tr class="no-records-found">'' @
          sprintf (str ''<td colspan="%s">%s</td>'') [JInt (int (ths t)), JStr msg] @ str ''</tr>''))\<close>

definition initBody :: "env \<Rightarrow> bool \<Rightarrow> table \<Rightarrow> js_error + table" where
  "initBody env fixedScroll t0 =
     (let xs = getData t0 False in
      ebind (fire env ''pre-body'' [JArr (map (row_val t0) xs)] t0) (\<lambda>t1.
      let t = (if \<not> pagination (pg t1) \<or> server_side (pg t1)
               then t1\<lparr>pg := (pg t1)\<lparr>pageFrom := Some 1, pageTo := Some (int (length xs))\<rparr>\<rparr> else t1)
      in ebind (body_range (pg t)) (\<lambda>is.
         ebind (initRows env xs is t) (\<lambda>(html, boxes, t).
         ebind (if is = [] then no_records env t else Inr html) (\<lambda>html.
         let t = t\<lparr>body_html := html, selectItem := boxes, scrollTop := (if fixedScroll then scrollTop t else 0)\<rparr>
         in ebind (resetView env (updateSelected t)) (\<lambda>t.
            fire env ''post-body'' [JArr (map (row_val t) xs)] t))))))"

end
