(* ===== verification/TableMethods.thy ===== *)
theory TableMethods
  imports TableBody
begin

text \<open>
  The operations of a table of \<^verbatim>\<open>bootstrap-table.js\<close>: changing pages, asking the server, the methods that
  load, add, change and remove rows, and selecting rows.  Every operation is the whole handler, with the
  search, the sort and the rendering it ends with.
\<close>

section \<open>Pages\<close>

definition paginate :: "env \<Rightarrow> table \<Rightarrow> js_error + table" where
  "paginate env t =
     ebind (initPagination (call env) (options t) (length (getData t False)) (pg t)) (\<lambda>p. Inr (t\<lparr>pg := p\<rparr>))"

definition page_size_val :: "env \<Rightarrow> table \<Rightarrow> js_error + jsv" where
  "page_size_val env t =
     ebind (call_text (call env) (options t) ''formatAllRows'' []) (\<lambda>all. Inr (size_jsv all (pageSize (pg t))))"

section \<open>Asking the server\<close>

definition limit_params :: "table \<Rightarrow> props" where
  "limit_params t =
     [(str ''search'', searchText t), (str ''sort'', sortName t), (str ''order'', sortOrder t)] @
     (if pagination (pg t)
      then [(str ''offset'', if pageSize (pg t) = AllRows then JInt 0
               else num_of (map2_option (\<lambda>s n. s * (n - 1)) (size_num (pageSize (pg t))) (pageNumber (pg t)))),
            (str ''limit'', if pageSize (pg t) = AllRows then JInt (totalRows (pg t)) else num_of (size_num (pageSize (pg t))))]
      else [])"

definition page_params :: "table \<Rightarrow> props" where
  "page_params t =
     [(str ''searchText'', searchText t), (str ''sortName'', sortName t), (str ''sortOrder'', sortOrder t)] @
     (if pagination (pg t)
      then [(str ''pageSize'', if pageSize (pg t) = AllRows then JInt (totalRows (pg t)) else num_of (size_num (pageSize (pg t)))),
            (str ''pageNumber'', num_of (pageNumber (pg t)))]
      else [])"

definition server_params :: "table \<Rightarrow> props" where
  "server_params t =
     (let params = (if strict_eq (table_opt t ''queryParamsType'') (S ''limit'') then limit_params t else page_params t)
      in if filterColumnsPartial t \<noteq> []
         then set_prop (str ''filter'') (case json (JObj (filterColumnsPartial t)) of None \<Rightarrow> Undefined | Some s \<Rightarrow> JStr s) params
         else params)"

definition server_request :: "table \<Rightarrow> jsv \<Rightarrow> jsv \<Rightarrow> jsv \<Rightarrow> props" where
  "server_request t url body ajaxOptions =
     jq_extend (jq_extend [] (for_in ajaxOptions))
       [(str ''type'', table_opt t ''method''),
        (str ''url'', js_or url (table_opt t ''url'')),
        (str ''data'', if strict_eq (table_opt t ''contentType'') (S ''application/json'') \<and> strict_eq (table_opt t ''method'') (S ''post'')
           then (case json body of None \<Rightarrow> Undefined | Some s \<Rightarrow> JStr s) else body),
        (str ''cache'', table_opt t ''cache''),
        (str ''contentType'', table_opt t ''contentType''),
        (str ''dataType'', table_opt t ''dataType''),
        (str ''success'', JFun ''success''),
        (str ''error'', JFun ''error'')]"

text \<open>The \<^verbatim>\<open>error\<close> callback; aborting a request runs it at once with status 0.\<close>

definition load_error :: "env \<Rightarrow> bool \<Rightarrow> jsv \<Rightarrow> table \<Rightarrow> js_error + table" where
  "load_error env silent status t =
     ebind (fire env ''load-error'' [status, JObj [(str ''status'', status)]] t) (\<lambda>t.
     Inr (if silent then t else t\<lparr>loading := False\<rparr>))"

definition abort_open :: "env \<Rightarrow> table \<Rightarrow> js_error + table" where
  "abort_open env t =
     (case xhr_open t of
        None \<Rightarrow> Inr t
      | Some silent \<Rightarrow> load_error env silent (JInt 0) (t\<lparr>xhr_open := None, aborted := Suc (aborted t)\<rparr>))"

definition initServer :: "env \<Rightarrow> bool \<Rightarrow> props \<Rightarrow> jsv \<Rightarrow> table \<Rightarrow> js_error + table" where
  "initServer env silent query url t =
     ebind (if pagination (pg t) then page_size_val env t else Inr Undefined) (\<lambda>_.
     if \<not> truthy (js_or url (table_opt t ''url'')) \<and> \<not> truthy (table_opt t ''ajax'') then Inr t
     else
       ebind (calculateObjectValue (globals env) (call env) (table_opt t ''queryParams'') [JObj (server_params t)] (JObj [])) (\<lambda>d.
       let d = (case d of JObj ps \<Rightarrow> JObj (jq_extend ps query) | _ \<Rightarrow> d)
       in if d = JBool False then Inr t
          else
            let t = (if silent then t else t\<lparr>loading := True\<rparr>)
            in ebind (calculateObjectValue (globals env) (call env) (table_opt t ''ajaxOptions'') [] Undefined) (\<lambda>ao.
               let request = server_request t url d ao
               in if truthy (table_opt t ''ajax'') then
                    ebind (calculateObjectValue (globals env) (call env) (table_opt t ''ajax'') [JObj request] JNull) (\<lambda>_. Inr t)
                  else
                    ebind (abort_open env t) (\<lambda>t.
                    Inr (t\<lparr>xhr_open := Some silent, requests := requests t @ [request]\<rparr>)))))"

definition updatePagination :: "env \<Rightarrow> bool \<Rightarrow> table \<Rightarrow> js_error + table" where
  "updatePagination env disabled t =
     (if disabled then Inr t
      else
        ebind (paginate env (if truthy (table_opt t ''maintainSelected'') then t else resetRows t)) (\<lambda>t.
        ebind (if server_side (pg t) then initServer env False [] Undefined t else initBody env False t) (\<lambda>t.
        ebind (page_size_val env t) (\<lambda>size.
        fire env ''page-change'' [num_of (pageNumber (pg t)), size] t))))"

definition on_pager :: "(pager \<Rightarrow> pager) \<Rightarrow> env \<Rightarrow> bool \<Rightarrow> table \<Rightarrow> js_error + table" where
  "on_pager f env disabled t = updatePagination env disabled (t\<lparr>pg := f (pg t)\<rparr>)"

definition on_pager_option :: "(pager \<Rightarrow> pager option) \<Rightarrow> env \<Rightarrow> bool \<Rightarrow> table \<Rightarrow> js_error + table" where
  "on_pager_option f env disabled t =
     (case f (pg t) of None \<Rightarrow> Inr t | Some p \<Rightarrow> updatePagination env disabled (t\<lparr>pg := p\<rparr>))"

definition click_page_size :: "js_string \<Rightarrow> env \<Rightarrow> bool \<Rightarrow> table \<Rightarrow> js_error + table" where
  "click_page_size label env disabled t =
     ebind (call_text (call env) (options t) ''formatAllRows'' []) (\<lambda>all. on_pager (onPageListChange all label) env disabled t)"

definition togglePagination :: "env \<Rightarrow> table \<Rightarrow> js_error + table" where
  "togglePagination env t =
     ebind (get_prop (table_opt t ''icons'') (str ''paginationSwitchDown'')) (\<lambda>_.
     updatePagination env False (t\<lparr>pg := (pg t)\<lparr>pagination := \<not> pagination (pg t)\<rparr>\<rparr>))"

section \<open>Sorting and searching by the user\<close>

text \<open>\<open>field\<close> and \<open>order\<close> are the \<^verbatim>\<open>data\<close> of the header cell that was clicked.\<close>

definition onSort :: "env \<Rightarrow> jsv \<Rightarrow> jsv \<Rightarrow> table \<Rightarrow> js_error + table" where
  "onSort env field order t =
     (let t = (if strict_eq (sortName t) field
               then t\<lparr>sortOrder := (if strict_eq (sortOrder t) (S ''asc'') then S ''desc'' else S ''asc'')\<rparr>
               else t\<lparr>sortName := field, sortOrder := (if strict_eq order (S ''asc'') then S ''desc'' else S ''asc'')\<rparr>)
      in ebind (fire env ''sort'' [sortName t, sortOrder t] t) (\<lambda>t.
         if server_side (pg t) then initServer env (truthy (table_opt t ''silentSort'')) [] Undefined t
         else ebind (initSort env t) (initBody env False)))"

definition onSearch :: "env \<Rightarrow> table \<Rightarrow> js_error + table" where
  "onSearch env t =
     (let s = js_trim (search_input t);
          t = (if truthy (table_opt t ''trimOnSearch'') \<and> search_input t \<noteq> s then t\<lparr>search_input := s\<rparr> else t)
      in if searchText t = JStr s then Inr t
         else
           ebind (initSearch env
             (t\<lparr>searchText := JStr s, opt_searchText := JStr s, pg := (pg t)\<lparr>pageNumber := Some 1\<rparr>\<rparr>)) (\<lambda>t.
           ebind (updatePagination env False t) (\<lambda>t. fire env ''search'' [JStr s] t)))"

definition initSearchText :: "env \<Rightarrow> table \<Rightarrow> js_error + table" where
  "initSearchText env t =
     (if truthy (table_opt t ''search'') \<and> opt_searchText t \<noteq> JStr []
      then onSearch env (t\<lparr>search_input := to_str (opt_searchText t)\<rparr>) else Inr t)"

definition resetSearch :: "env \<Rightarrow> jsv \<Rightarrow> table \<Rightarrow> js_error + table" where
  "resetSearch env label t = onSearch env (t\<lparr>search_input := to_str (js_or label (JStr []))\<rparr>)"

definition filterBy :: "env \<Rightarrow> props \<Rightarrow> table \<Rightarrow> js_error + table" where
  "filterBy env cols t =
     ebind (initSearch env (t\<lparr>filterColumns := cols, pg := (pg t)\<lparr>pageNumber := Some 1\<rparr>\<rparr>)) (updatePagination env False)"

section \<open>Loading and adding rows\<close>

definition rows_arg :: "jsv \<Rightarrow> table \<Rightarrow> js_error + table \<times> nat option" where
  "rows_arg d t =
     (case d of
        JArr vs \<Rightarrow> (let (t, a) = new_rows vs t in Inr (t, Some a))
      | _ \<Rightarrow> if truthy d then Inl TypeError else Inr (t, None))"

text \<open>The total a server sends is a whole number, or a text or a value that JavaScript converts to one.\<close>

definition load_input :: "jsv \<Rightarrow> table \<Rightarrow> js_error + table \<times> jsv \<times> jsv" where
  "load_input d t =
     (if server_side (pg t) then
        ebind (get_prop d (str ''total'')) (\<lambda>n.
        ebind (get_prop d (str ''fixedScroll'')) (\<lambda>fs.
        ebind (get_prop d (to_str (table_opt t ''dataField''))) (\<lambda>d.
        Inr (t\<lparr>pg := (pg t)\<lparr>totalRows := (case to_num n of Fin x \<Rightarrow> \<lfloor>x\<rfloor> | _ \<Rightarrow> 0)\<rparr>\<rparr>, fs, d))))
      else (case d of
              JArr _ \<Rightarrow> Inr (t, JBool False, d)
            | _ \<Rightarrow>
                ebind (get_prop d (str ''fixedScroll'')) (\<lambda>fs.
                ebind (get_prop d (str ''data'')) (\<lambda>d. Inr (t, fs, d)))))"

definition load_rows :: "env \<Rightarrow> bool \<Rightarrow> jsv \<Rightarrow> table \<Rightarrow> js_error + table" where
  "load_rows env fixedScroll d t =
     ebind (rows_arg d t) (\<lambda>(t, a).
     ebind (initData env a Replace t) (\<lambda>t.
     ebind (initSearch env t) (\<lambda>t.
     ebind (paginate env t) (initBody env fixedScroll))))"

definition load :: "env \<Rightarrow> jsv \<Rightarrow> table \<Rightarrow> js_error + table" where
  "load env d t = ebind (load_input d t) (\<lambda>(t, fs, d). load_rows env (truthy fs) d t)"

definition load_success :: "env \<Rightarrow> jsv \<Rightarrow> table \<Rightarrow> js_error + table" where
  "load_success env res t =
     (case xhr_open t of
        None \<Rightarrow> Inr t
      | Some silent \<Rightarrow>
          ebind (calculateObjectValue (globals env) (call env) (table_opt t ''responseHandler'') [res] res) (\<lambda>res.
          ebind (load env res (t\<lparr>xhr_open := None\<rparr>)) (\<lambda>t.
          ebind (fire env ''load-success'' [res] t) (\<lambda>t.
          Inr (if silent then t else t\<lparr>loading := False\<rparr>)))))"

text \<open>What most methods end with: search, pages, sort, body.\<close>

definition redraw :: "env \<Rightarrow> table \<Rightarrow> js_error + table" where
  "redraw env t =
     ebind (initSearch env t) (\<lambda>t. ebind (paginate env t) (\<lambda>t. ebind (initSort env t) (initBody env True)))"

definition concat_rows :: "jsv \<Rightarrow> jsv list" where
  "concat_rows d = (case d of JArr vs \<Rightarrow> vs | _ \<Rightarrow> [d])"

definition append_rows :: "env \<Rightarrow> jsv \<Rightarrow> table \<Rightarrow> js_error + table" where
  "append_rows env d t =
     (let (t, a) = new_rows (concat_rows d) t in ebind (initData env (Some a) Append t) (redraw env))"

definition prepend_rows :: "env \<Rightarrow> jsv \<Rightarrow> table \<Rightarrow> js_error + table" where
  "prepend_rows env d t =
     (let (t, a) = new_rows (concat_rows d) t in ebind (initData env (Some a) Prepend t) (redraw env))"

definition has_keys :: "string list \<Rightarrow> props \<Rightarrow> bool" where
  "has_keys ks params = list_all (\<lambda>k. str k \<in> fst ` set params) ks"

definition integer_of :: "jsv \<Rightarrow> int" where
  "integer_of v = (case to_num v of Fin x \<Rightarrow> trunc x | PosInf \<Rightarrow> 9007199254740992 | NegInf \<Rightarrow> - 9007199254740992 | NaN \<Rightarrow> 0)"

definition splice_in :: "int \<Rightarrow> 'a \<Rightarrow> 'a list \<Rightarrow> 'a list" where
  "splice_in i x xs = (let n = rel_index (length xs) i in take n xs @ x # drop n xs)"

definition insertRow :: "env \<Rightarrow> props \<Rightarrow> table \<Rightarrow> js_error + table" where
  "insertRow env params t =
     (if \<not> has_keys [''index'', ''row''] params then Inr t
      else
        (let r = next_row t;
             t = t\<lparr>rows := (rows t)(r := option_props (lookup params (str ''row''))), next_row := Suc r\<rparr>
         in redraw env (set_array (data t) (splice_in (integer_of (lookup params (str ''index''))) r (data_rows t)) t)))"

section \<open>Removing rows\<close>

text \<open>\<^verbatim>\<open>$.inArray\<close>, which also takes a string, as the array of its characters.\<close>

definition in_values :: "jsv \<Rightarrow> jsv \<Rightarrow> bool" where
  "in_values v values =
     (case values of
        JArr vs \<Rightarrow> list_ex (\<lambda>x. strict_eq x v) vs
      | JStr s \<Rightarrow> list_ex (\<lambda>c. strict_eq (JStr [c]) v) s
      | _ \<Rightarrow> False)"

definition remove_hit :: "table \<Rightarrow> props \<Rightarrow> nat \<Rightarrow> bool" where
  "remove_hit t params r =
     (let field = to_str (lookup params (str ''field'')) in
      field \<in> fst ` set (rows t r) \<and> in_values (lookup (rows t r) field) (lookup params (str ''values'')))"

text \<open>The loop runs down from the last row and cuts rows out of the array it reads.\<close>

fun remove_loop :: "(nat \<Rightarrow> bool) \<Rightarrow> nat \<Rightarrow> nat list \<Rightarrow> nat list" where
  "remove_loop hit 0 xs = xs"
| "remove_loop hit (Suc i) xs = remove_loop hit i (if hit (xs ! i) then take i xs @ drop (Suc i) xs else xs)"

definition remove_rows :: "env \<Rightarrow> props \<Rightarrow> table \<Rightarrow> js_error + table" where
  "remove_rows env params t =
     (if \<not> has_keys [''field'', ''values''] params then Inr t
      else
        (let xs = remove_loop (remove_hit t params) (length (opt_rows t)) (opt_rows t)
         in if length xs = length (opt_rows t) then Inr t else redraw env (set_array (opt_data t) xs t)))"

definition removeAll :: "env \<Rightarrow> table \<Rightarrow> js_error + table" where
  "removeAll env t =
     (if opt_rows t \<noteq> [] then
        ebind (initSearch env (set_array (opt_data t) [] t)) (\<lambda>t. ebind (paginate env t) (initBody env True))
      else Inr t)"

section \<open>Rows by their identifier\<close>

definition parse_int_any :: "js_string \<Rightarrow> jnum" where
  "parse_int_any s0 =
     (let s = js_ltrim s0;
          (neg, r) = (case s of [] \<Rightarrow> (False, []) | c # r \<Rightarrow> if c = 45 then (True, r) else if c = 43 then (False, r) else (False, s))
      in if length r \<ge> 2 \<and> hd r = 48 \<and> (r ! 1 = 120 \<or> r ! 1 = 88)
         then (case radix_val 16 (takeWhile (\<lambda>c. radix_digit 16 c \<noteq> None) (drop 2 r)) of
                 Fin x \<Rightarrow> Fin (if neg then - x else x) | v \<Rightarrow> v)
         else parse_int s0)"

text \<open>The identifier looked for is converted to the type of the row's, and stays converted.\<close>

definition convert_id :: "jsv \<Rightarrow> jsv \<Rightarrow> js_error + jsv" where
  "convert_id rowId ident =
     (case rowId of
        JStr _ \<Rightarrow> if is_nullish ident then Inl TypeError else Inr (JStr (to_str ident))
      | JNum (Fin x) \<Rightarrow>
          if x = of_int \<lfloor>x\<rfloor> then Inr (JNum (parse_int_any (to_str ident)))
          else Inr (JNum (parse_float (to_str ident)))
      | JNum NaN \<Rightarrow> Inr ident
      | JNum _ \<Rightarrow> Inr (JNum (parse_float (to_str ident)))
      | _ \<Rightarrow> Inr ident)"

definition row_unique :: "table \<Rightarrow> nat \<Rightarrow> js_error + jsv option" where
  "row_unique t r =
     (let k = to_str (table_opt t ''uniqueId'') in
      if k \<in> fst ` set (rows t r) then Inr (Some (lookup (rows t r) k))
      else (case lookup (rows t r) (str ''_data'') of
              Undefined \<Rightarrow> Inl TypeError
            | JNull \<Rightarrow> Inl TypeError
            | JObj ps \<Rightarrow> Inr (if k \<in> fst ` set ps then Some (lookup ps k) else None)
            | _ \<Rightarrow> Inr None))"

fun unique_loop :: "table \<Rightarrow> jsv \<Rightarrow> nat list \<Rightarrow> js_error + nat option" where
  "unique_loop t ident [] = Inr None"
| "unique_loop t ident (r # rs) =
     ebind (row_unique t r) (\<lambda>u.
     case u of
       None \<Rightarrow> unique_loop t ident rs
     | Some v \<Rightarrow>
         ebind (convert_id v ident) (\<lambda>ident.
         if strict_eq v ident then Inr (Some r) else unique_loop t ident rs))"

definition getRowByUniqueId :: "table \<Rightarrow> jsv \<Rightarrow> js_error + nat option" where
  "getRowByUniqueId t ident = unique_loop t ident (rev (opt_rows t))"

definition removeByUniqueId :: "env \<Rightarrow> jsv \<Rightarrow> table \<Rightarrow> js_error + table" where
  "removeByUniqueId env ident t =
     ebind (getRowByUniqueId t ident) (\<lambda>row.
     case row of
       None \<Rightarrow> Inr t
     | Some r \<Rightarrow>
         ebind (initSearch env (set_array (opt_data t) (remove1 r (opt_rows t)) t)) (\<lambda>t.
         ebind (paginate env t) (initBody env True)))"

definition extend_row :: "nat \<Rightarrow> jsv \<Rightarrow> table \<Rightarrow> table" where
  "extend_row r v t = t\<lparr>rows := (rows t)(r := jq_extend (rows t r) (option_props v))\<rparr>"

fun update_unique :: "props list \<Rightarrow> table \<Rightarrow> js_error + table" where
  "update_unique [] t = Inr t"
| "update_unique (params # ps) t =
     (if \<not> has_keys [''id'', ''row''] params then update_unique ps t
      else ebind (getRowByUniqueId t (lookup params (str ''id''))) (\<lambda>row.
           case row of
             None \<Rightarrow> update_unique ps t
           | Some r \<Rightarrow> update_unique ps (extend_row r (lookup params (str ''row'')) t)))"

definition resort :: "env \<Rightarrow> table \<Rightarrow> js_error + table" where
  "resort env t = ebind (initSearch env t) (\<lambda>t. ebind (initSort env t) (initBody env True))"

definition updateByUniqueId :: "env \<Rightarrow> props list \<Rightarrow> table \<Rightarrow> js_error + table" where
  "updateByUniqueId env allParams t = ebind (update_unique allParams t) (resort env)"

section \<open>Changing rows\<close>

text \<open>A row index as a property name of the array: only the indices of its elements have a row.\<close>

definition row_at :: "nat list \<Rightarrow> jsv \<Rightarrow> nat option" where
  "row_at xs index =
     (case to_num index of
        Fin x \<Rightarrow> if x = of_int \<lfloor>x\<rfloor> \<and> 0 \<le> x \<and> nat \<lfloor>x\<rfloor> < length xs then Some (xs ! nat \<lfloor>x\<rfloor>) else None
      | _ \<Rightarrow> None)"

definition update_row :: "props \<Rightarrow> table \<Rightarrow> table" where
  "update_row params t =
     (if \<not> has_keys [''index'', ''row''] params then t
      else (case row_at (opt_rows t) (lookup params (str ''index'')) of
              None \<Rightarrow> t
            | Some r \<Rightarrow> extend_row r (lookup params (str ''row'')) t))"

definition updateRow :: "env \<Rightarrow> props list \<Rightarrow> table \<Rightarrow> js_error + table" where
  "updateRow env allParams t = resort env (fold update_row allParams t)"

definition updateCell :: "env \<Rightarrow> props \<Rightarrow> table \<Rightarrow> js_error + table" where
  "updateCell env params t =
     (if \<not> has_keys [''index'', ''field'', ''value''] params then Inr t
      else (case row_at (data_rows t) (lookup params (str ''index'')) of
              None \<Rightarrow> Inl TypeError
            | Some r \<Rightarrow>
                (let t = set_field r (to_str (lookup params (str ''field''))) (lookup params (str ''value'')) t
                 in if lookup params (str ''reinit'') = JBool False then Inr t
                    else ebind (initSort env t) (initBody env True))))"

definition refresh :: "env \<Rightarrow> props option \<Rightarrow> table \<Rightarrow> js_error + table" where
  "refresh env params t =
     (let ps = (case params of None \<Rightarrow> [] | Some ps \<Rightarrow> ps);
          t = (if truthy (lookup ps (str ''url'')) then t\<lparr>pg := (pg t)\<lparr>pageNumber := Some 1\<rparr>\<rparr> else t)
      in ebind (initServer env (truthy (lookup ps (str ''silent''))) (option_props (lookup ps (str ''query''))) (lookup ps (str ''url'')) t) (\<lambda>t.
         fire env ''refresh'' [case params of None \<Rightarrow> Undefined | Some ps \<Rightarrow> JObj ps] t))"

section \<open>Selecting rows\<close>

definition getSelections :: "table \<Rightarrow> nat list" where
  "getSelections t = filter (\<lambda>r. truthy (lookup (rows t r) (to_str (stateField (hdr t))))) (opt_rows t)"

text \<open>A set of check boxes as an event argument: the rows they belong to.\<close>

definition boxes_val :: "(select_item \<Rightarrow> bool) \<Rightarrow> table \<Rightarrow> jsv" where
  "boxes_val P t = JArr (map (\<lambda>x. JInt (int (item_index x))) (filter P (selectItem t)))"

definition check_items :: "(select_item \<Rightarrow> bool) \<Rightarrow> (select_item \<Rightarrow> bool) \<Rightarrow> table \<Rightarrow> table" where
  "check_items P f t = t\<lparr>selectItem := map (\<lambda>x. if P x then x\<lparr>item_checked := f x\<rparr> else x) (selectItem t)\<rparr>"

definition checkAll' :: "env \<Rightarrow> bool \<Rightarrow> table \<Rightarrow> js_error + table" where
  "checkAll' env c t =
     (let old = getSelections t;
          t = check_items item_enabled (\<lambda>_. c) (t\<lparr>selectAll := c\<rparr>)
      in ebind (updateRows t) (\<lambda>t.
         fire env (if c then ''check-all'' else ''uncheck-all'')
           [JArr (map (row_val t) (if c then getSelections t else old))] t))"

definition checkInvert :: "env \<Rightarrow> table \<Rightarrow> js_error + table" where
  "checkInvert env t =
     (let checked = boxes_val (\<lambda>x. item_enabled x \<and> item_checked x) t in
     ebind (updateRows (check_items item_enabled (\<lambda>x. \<not> item_checked x) t)) (\<lambda>t.
     ebind (fire env ''uncheck-some'' [checked] (updateSelected t)) (\<lambda>t.
     fire env ''check-some'' [JArr (map (row_val t) (getSelections t))] t)))"

definition check' :: "env \<Rightarrow> bool \<Rightarrow> nat \<Rightarrow> table \<Rightarrow> js_error + table" where
  "check' env c index t =
     (if index \<ge> length (data_rows t) then Inl TypeError
      else
        (let t = set_field (data_rows t ! index) (to_str (stateField (hdr t))) (JBool c)
                   (check_items (\<lambda>x. item_index x = index) (\<lambda>_. c) t)
         in fire env (if c then ''check'' else ''uncheck'') [row_val t (data_rows t ! index), boxes_val (\<lambda>x. item_index x = index) t]
              (updateSelected t)))"

fun check_by_loop :: "env \<Rightarrow> bool \<Rightarrow> js_string \<Rightarrow> jsv \<Rightarrow> nat \<Rightarrow> nat list \<Rightarrow> table \<Rightarrow> js_error + table \<times> nat list" where
  "check_by_loop env c field values i [] t = Inr (t, [])"
| "check_by_loop env c field values i (r # rs) t =
     (if field \<notin> fst ` set (rows t r) then Inr (t, [])
      else if in_values (lookup (rows t r) field) values then
        (let t = set_field r (to_str (stateField (hdr t))) (JBool c)
                   (check_items (\<lambda>x. item_enabled x \<and> item_index x = i) (\<lambda>_. c) t)
         in ebind (fire env (if c then ''check'' else ''uncheck'')
                     [row_val t r, boxes_val (\<lambda>x. item_enabled x \<and> item_index x = i) t] t) (\<lambda>t.
            ebind (check_by_loop env c field values (Suc i) rs t) (\<lambda>(t, hits). Inr (t, r # hits))))
      else check_by_loop env c field values (Suc i) rs t)"

definition checkBy' :: "env \<Rightarrow> bool \<Rightarrow> props \<Rightarrow> table \<Rightarrow> js_error + table" where
  "checkBy' env c obj t =
     (if \<not> has_keys [''field'', ''values''] obj then Inr t
      else
        ebind (check_by_loop env c (to_str (lookup obj (str ''field''))) (lookup obj (str ''values'')) 0 (opt_rows t) t)
          (\<lambda>(t, hits).
            fire env (if c then ''check-some'' else ''uncheck-some'') [JArr (map (row_val t) hits)] (updateSelected t)))"

text \<open>A click on the \<open>n\<close>-th check box, which the browser has already set to \<open>c\<close>.\<close>

definition select_click :: "env \<Rightarrow> nat \<Rightarrow> bool \<Rightarrow> table \<Rightarrow> js_error + table" where
  "select_click env n c t0 =
     (if n \<ge> length (selectItem t0) then Inr t0
      else
        (let t = t0\<lparr>selectItem := (selectItem t0)[n := (selectItem t0 ! n)\<lparr>item_checked := c\<rparr>]\<rparr>;
             k = to_str (stateField (hdr t));
             x = selectItem t ! n
         in if item_index x \<ge> length (data_rows t) then Inl TypeError
            else
              (let r = data_rows t ! item_index x;
                   t = (if truthy (table_opt t ''maintainSelected'') \<and> item_radio x then clear_field k (opt_rows t) t else t);
                   t = set_field r k (JBool c) t
               in ebind (if truthy (table_opt t ''singleSelect'') then
                           (let others = map (\<lambda>i. selectItem t ! i) (filter (\<lambda>i. i \<noteq> n) [0..<length (selectItem t)])
                            in ebind (update_each (map (\<lambda>y. y\<lparr>item_checked := False\<rparr>) others) t) (\<lambda>t.
                               Inr (t\<lparr>selectItem := (map (\<lambda>y. y\<lparr>item_checked := False\<rparr>) (selectItem t))[n := selectItem t ! n]\<rparr>)))
                         else Inr t) (\<lambda>t.
                  fire env (if c then ''check'' else ''uncheck'') [row_val t r, JArr [JInt (int (item_index x))]] (updateSelected t)))))"

end
