(* ===== verification/TableProps.thy ===== *)
theory TableProps
  imports TableMethods
begin

text \<open>
  What the operations of a table keep and what they do to its rows.
\<close>

section \<open>What rendering leaves alone\<close>

definition same_data :: "table \<Rightarrow> table \<Rightarrow> bool" where
  "same_data t t' \<longleftrightarrow>
     arrs t' = arrs t \<and> data t' = data t \<and> opt_data t' = opt_data t \<and> next_arr t' = next_arr t \<and> next_row t' = next_row t \<and>
     options t' = options t \<and> hdr t' = hdr t \<and> columns t' = columns t \<and> searchText t' = searchText t \<and>
     filterColumns t' = filterColumns t \<and> filterColumnsPartial t' = filterColumnsPartial t \<and>
     server_side (pg t') = server_side (pg t) \<and> sortName t' = sortName t \<and> sortOrder t' = sortOrder t"

lemma same_data_refl [simp]: "same_data t t"
  by (simp add: same_data_def)

lemma same_data_trans [trans]: "same_data t u \<Longrightarrow> same_data u v \<Longrightarrow> same_data t v"
  by (simp add: same_data_def)

lemma same_data_fields [simp]:
  "same_data t (u\<lparr>events := x0\<rparr>) \<longleftrightarrow> same_data t u"
  "same_data (t\<lparr>events := x0\<rparr>) u \<longleftrightarrow> same_data t u"
  "same_data t (u\<lparr>selectAll := x1\<rparr>) \<longleftrightarrow> same_data t u"
  "same_data (t\<lparr>selectAll := x1\<rparr>) u \<longleftrightarrow> same_data t u"
  "same_data t (u\<lparr>selectItem := x2\<rparr>) \<longleftrightarrow> same_data t u"
  "same_data (t\<lparr>selectItem := x2\<rparr>) u \<longleftrightarrow> same_data t u"
  "same_data t (u\<lparr>rows := x3\<rparr>) \<longleftrightarrow> same_data t u"
  "same_data (t\<lparr>rows := x3\<rparr>) u \<longleftrightarrow> same_data t u"
  "same_data t (u\<lparr>loading := x4\<rparr>) \<longleftrightarrow> same_data t u"
  "same_data (t\<lparr>loading := x4\<rparr>) u \<longleftrightarrow> same_data t u"
  "same_data t (u\<lparr>body_html := x5\<rparr>) \<longleftrightarrow> same_data t u"
  "same_data (t\<lparr>body_html := x5\<rparr>) u \<longleftrightarrow> same_data t u"
  "same_data t (u\<lparr>scrollTop := x6\<rparr>) \<longleftrightarrow> same_data t u"
  "same_data (t\<lparr>scrollTop := x6\<rparr>) u \<longleftrightarrow> same_data t u"
  "same_data t (u\<lparr>xhr_open := x7\<rparr>) \<longleftrightarrow> same_data t u"
  "same_data (t\<lparr>xhr_open := x7\<rparr>) u \<longleftrightarrow> same_data t u"
  "same_data t (u\<lparr>requests := x8\<rparr>) \<longleftrightarrow> same_data t u"
  "same_data (t\<lparr>requests := x8\<rparr>) u \<longleftrightarrow> same_data t u"
  "same_data t (u\<lparr>aborted := x9\<rparr>) \<longleftrightarrow> same_data t u"
  "same_data (t\<lparr>aborted := x9\<rparr>) u \<longleftrightarrow> same_data t u"
  "same_data t (u\<lparr>search_input := x10\<rparr>) \<longleftrightarrow> same_data t u"
  "same_data (t\<lparr>search_input := x10\<rparr>) u \<longleftrightarrow> same_data t u"
  "same_data t (set_field r k v u) \<longleftrightarrow> same_data t u" "same_data (set_field r k v t) u \<longleftrightarrow> same_data t u"
  "same_data t (t\<lparr>pg := p\<rparr>) \<longleftrightarrow> server_side p = server_side (pg t)"
  by (simp_all add: same_data_def set_field_def)

lemma fire_keeps: "fire env n args t = Inr t' \<Longrightarrow> same_data t t'"
  by (auto simp: fire_def ebind_Inr)

lemma updateSelected_keeps [simp]:
  "same_data t (updateSelected u) \<longleftrightarrow> same_data t u" "same_data (updateSelected t) u \<longleftrightarrow> same_data t u"
  by (simp_all add: updateSelected_def Let_def)

lemma update_each_keeps: "update_each xs t = Inr t' \<Longrightarrow> same_data t t'"
proof (induction xs t rule: update_each.induct)
  case (2 x xs t)
  let ?u = "set_field (data_rows t ! item_index x) (to_str (stateField (hdr t))) (JBool (item_checked x)) t"
  have "same_data ?u t'" using 2 by (simp split: if_splits)
  moreover have "same_data t ?u" by simp
  ultimately show ?case using same_data_trans by blast
qed simp

lemma clear_field_keeps [simp]: "same_data t (clear_field k rs u) \<longleftrightarrow> same_data t u"
proof -
  have "same_data t (fold (\<lambda>r. set_field r k (JBool False)) rs u) \<longleftrightarrow> same_data t u"
    by (induction rs arbitrary: u) simp_all
  then show ?thesis by (simp add: clear_field_def)
qed

lemma resetRows_keeps [simp]: "same_data t (resetRows t)"
  by (simp add: resetRows_def Let_def)

lemma render_cell_keeps: "render_cell env t r i csses j field column value = Inr (h, b, t') \<Longrightarrow> same_data t t'"
  unfolding render_cell_def Let_def
  by (elim ebind_InrE) (auto elim!: ebind_InrE split: if_splits)

lemma initCell_keeps: "initCell env r i csses j f t = Inr (h, xs, t') \<Longrightarrow> same_data t t'"
  unfolding initCell_def by (elim ebind_InrE) (auto elim!: ebind_InrE dest: render_cell_keeps split: if_splits)

lemma initCells_keeps: "initCells env r i csses j fs t = Inr (h, xs, t') \<Longrightarrow> same_data t t'"
proof (induction fs arbitrary: j h xs t)
  case (Cons f fs)
  then obtain h1 xs1 t1 h2 xs2 where
    "initCell env r i csses j f t = Inr (h1, xs1, t1)" "initCells env r i csses (Suc j) fs t1 = Inr (h2, xs2, t')"
    by (auto simp: ebind_Inr)
  with Cons.IH initCell_keeps same_data_trans show ?case by blast
qed simp

lemma initRow_keeps: "initRow env xs i t = Inr (h, bs, t') \<Longrightarrow> same_data t t'"
  by (auto simp: initRow_def ebind_Inr Let_def split: if_splits dest: initCells_keeps)

lemma initRows_keeps: "initRows env xs is t = Inr (h, bs, t') \<Longrightarrow> same_data t t'"
proof (induction "is" arbitrary: h bs t)
  case (Cons i "is")
  then obtain h1 b1 t1 h2 b2 where "initRow env xs i t = Inr (h1, b1, t1)" "initRows env xs is t1 = Inr (h2, b2, t')"
    by (auto simp: ebind_Inr)
  with Cons.IH initRow_keeps same_data_trans show ?case by blast
qed simp

lemma resetView_keeps: "resetView env t = Inr t' \<Longrightarrow> same_data t t'"
  unfolding resetView_def Let_def
  by (auto elim!: ebind_InrE split: if_splits dest!: fire_keeps intro: same_data_trans)

lemma initBody_keeps: "initBody env fs t = Inr t' \<Longrightarrow> same_data t t'"
proof -
  assume "initBody env fs t = Inr t'"
  then obtain t1 "is" h bs t2 h' t3 where
    1: "fire env ''pre-body'' [JArr (map (row_val t) (getData t False))] t = Inr t1" and
    2: "initRows env (getData t False) is (if \<not> pagination (pg t1) \<or> server_side (pg t1)
          then t1\<lparr>pg := (pg t1)\<lparr>pageFrom := Some 1, pageTo := Some (int (length (getData t False)))\<rparr>\<rparr> else t1) = Inr (h, bs, t2)" and
    3: "resetView env (updateSelected (t2\<lparr>body_html := h', selectItem := bs, scrollTop := (if fs then scrollTop t2 else 0)\<rparr>)) = Inr t3" and
    4: "fire env ''post-body'' [JArr (map (row_val t3) (getData t False))] t3 = Inr t'"
    unfolding initBody_def Let_def by (auto simp: ebind_Inr)
  have "same_data t t1" using fire_keeps [OF 1] .
  also have "same_data t1 (if \<not> pagination (pg t1) \<or> server_side (pg t1)
          then t1\<lparr>pg := (pg t1)\<lparr>pageFrom := Some 1, pageTo := Some (int (length (getData t False)))\<rparr>\<rparr> else t1)" by simp
  also note initRows_keeps [OF 2]
  also have "same_data t2 (updateSelected (t2\<lparr>body_html := h', selectItem := bs, scrollTop := (if fs then scrollTop t2 else 0)\<rparr>))"
    by simp
  also note resetView_keeps [OF 3]
  also note fire_keeps [OF 4]
  finally show ?thesis .
qed

lemma page_range_server: "server_side (page_range p) = server_side p"
  by (simp add: page_range_def Let_def)

lemma count_pages_server: "server_side (fst (count_pages all pl p)) = server_side p"
  by (simp add: count_pages_def Let_def split: page_size.split)

lemma page_counts_server: "server_side (fst (page_counts all pl n p)) = server_side p"
proof -
  let ?p = "(if server_side p then p else p\<lparr>totalRows := int n\<rparr>)\<lparr>totalPages := 0\<rparr>"
  obtain q b where "count_pages all pl ?p = (q, b)" by fastforce
  with count_pages_server [of all pl ?p] show ?thesis by (simp add: page_counts_def page_range_server Let_def)
qed

lemma initPagination_server:
  assumes "initPagination c opts n p = Inr p'"
  shows "server_side p' = server_side p"
proof (cases "pagination p")
  case True
  then obtain all where "call_text c opts ''formatAllRows'' [] = Inr all"
    using assms by (auto simp: initPagination_def elim!: ebind_InrE)
  moreover obtain q b where q: "page_counts all (opt opts ''pageList'') n (p\<lparr>pg_shown := True\<rparr>) = (q, b)" by fastforce
  ultimately have "server_side p' = server_side q"
    using True assms unfolding initPagination_def by (auto simp: Let_def elim!: ebind_InrE split: if_splits)
  then show ?thesis using page_counts_server [of all "opt opts ''pageList''" n "p\<lparr>pg_shown := True\<rparr>"] q by simp
qed (use assms in \<open>auto simp: initPagination_def\<close>)

lemma paginate_keeps: "paginate env t = Inr t' \<Longrightarrow> same_data t t'"
  unfolding paginate_def by (auto elim!: ebind_InrE dest: initPagination_server)

lemma load_error_keeps: "load_error env silent status t = Inr t' \<Longrightarrow> same_data t t'"
  unfolding load_error_def by (auto elim!: ebind_InrE dest: fire_keeps)

lemma abort_open_keeps: "abort_open env t = Inr t' \<Longrightarrow> same_data t t'"
  unfolding abort_open_def by (auto split: option.splits dest!: load_error_keeps)

lemma initServer_keeps: "initServer env silent q url t = Inr t' \<Longrightarrow> same_data t t'"
  unfolding initServer_def Let_def by (elim ebind_InrE) (auto elim!: ebind_InrE dest!: abort_open_keeps split: if_splits)

lemma updatePagination_keeps: "updatePagination env d t = Inr t' \<Longrightarrow> same_data t t'"
proof (cases d)
  case False
  assume "updatePagination env d t = Inr t'"
  with False obtain t1 t2 where
    1: "paginate env (if truthy (table_opt t ''maintainSelected'') then t else resetRows t) = Inr t1" and
    2: "(if server_side (pg t1) then initServer env False [] Undefined t1 else initBody env False t1) = Inr t2" and
    3: "same_data t2 t'"
    unfolding updatePagination_def by (auto elim!: ebind_InrE dest: fire_keeps)
  have "same_data t (if truthy (table_opt t ''maintainSelected'') then t else resetRows t)" by simp
  also note paginate_keeps [OF 1]
  also have "same_data t1 t2" using 2 initServer_keeps initBody_keeps by (auto split: if_splits)
  also note 3
  finally show ?thesis .
qed (simp add: updatePagination_def)

section \<open>What sorting and searching do\<close>

text \<open>The engine's sort gives back the elements it got, in some order.\<close>

definition sorts_perm :: "env \<Rightarrow> bool" where
  "sorts_perm env \<longleftrightarrow> (\<forall>cmp xs ys. engine_sort env cmp xs = Inr ys \<longrightarrow> mset ys = mset xs)"

definition client :: "table \<Rightarrow> bool" where
  "client t \<longleftrightarrow> \<not> server_side (pg t) \<and> table_opt t ''customSearch'' = JFun ''noop''"

definition narrowed :: "table \<Rightarrow> bool" where
  "narrowed t \<longleftrightarrow> truthy (searchText t) \<or> filterColumns t \<noteq> []"

definition wf_table :: "table \<Rightarrow> bool" where
  "wf_table t \<longleftrightarrow> data t < next_arr t \<and> opt_data t < next_arr t \<and> (\<forall>a r. r \<in> set (arrs t a) \<longrightarrow> r < next_row t)"

definition display_inv :: "table \<Rightarrow> bool" where
  "display_inv t \<longleftrightarrow> client t \<and> wf_table t \<and> mset (data_rows t) \<subseteq># mset (opt_rows t) \<and> (\<not> narrowed t \<longrightarrow> data t = opt_data t)"

lemma same_data_inv: "same_data t t' \<Longrightarrow> display_inv t \<Longrightarrow> display_inv t'"
  by (simp add: same_data_def display_inv_def client_def wf_table_def data_rows_def opt_rows_def narrowed_def table_opt_def)

lemma number_positions_keeps: "same_data t (number_positions i xs t)"
proof -
  have "same_data t (number_positions i xs u)" if "same_data t u" for u
    using that by (induction xs arbitrary: i u) simp_all
  then show ?thesis by simp
qed

lemma initSort_effect:
  assumes "sorts_perm env" "initSort env t = Inr t'"
  obtains ys where "mset ys = mset (data_rows t)" "same_data (set_array (data t) ys t) t'"
proof (cases "t' = t \<or> table_opt t ''customSort'' \<noteq> JFun ''noop'' \<or> position_of (sortName t) (hfields (hdr t)) = None")
  case True
  then have "t' = t" using assms(2) by (auto simp: initSort_def ebind_Inr split: if_splits)
  moreover have "set_array (data t) (data_rows t) t = t" by (simp add: set_array_def data_rows_def)
  ultimately show ?thesis using that [of "data_rows t"] by simp
next
  case False
  define u where "u = (if truthy (table_opt t ''sortStable'') then number_positions 0 (data_rows t) t else t)"
  have u: "same_data t u" by (simp add: u_def number_positions_keeps)
  from False assms(2) obtain i ys where
    ys: "engine_sort env (sort_compare env u i) (data_rows u) = Inr ys" "t' = set_array (data u) ys u"
    unfolding initSort_def u_def [symmetric] Let_def by (auto elim!: ebind_InrE)
  then have "mset ys = mset (data_rows t)" using assms(1) u by (auto simp: sorts_perm_def same_data_def data_rows_def)
  moreover have "same_data (set_array (data t) ys t) t'" using u ys(2) by (simp add: same_data_def set_array_def)
  ultimately show ?thesis by (rule that)
qed

lemma initSort_inv:
  assumes "sorts_perm env" "initSort env t = Inr t'" "display_inv t"
  shows "display_inv t'"
proof -
  obtain ys where ys: "mset ys = mset (data_rows t)" "same_data (set_array (data t) ys t) t'"
    using initSort_effect [OF assms(1,2)] .
  have "set ys = set (data_rows t)" using ys(1) by (rule mset_eq_setD)
  with ys(1) assms(3) have "display_inv (set_array (data t) ys t)"
    by (auto simp: display_inv_def client_def wf_table_def data_rows_def opt_rows_def narrowed_def table_opt_def set_array_def)
  with ys(2) same_data_inv show ?thesis by blast
qed

lemma grep_rows_mset: "grep_rows P i xs = Inr ys \<Longrightarrow> mset ys \<subseteq># mset xs"
proof (induction xs arbitrary: i ys)
  case (Cons x xs)
  then obtain b zs where "grep_rows P (Suc i) xs = Inr zs" "ys = (if b then x # zs else zs)" by (auto simp: ebind_Inr)
  with Cons.IH [of "Suc i" zs] show ?case by (auto intro: subset_mset.order_trans)
qed simp

text \<open>\<open>rest_same\<close>: equal but for the arrays and \<^verbatim>\<open>this.data\<close>.\<close>

definition rest_same :: "table \<Rightarrow> table \<Rightarrow> bool" where
  "rest_same t t' \<longleftrightarrow> t'\<lparr>arrs := arrs t, data := data t, next_arr := next_arr t\<rparr> = t"

lemma rest_sameD:
  assumes "rest_same t t'"
  shows "opt_data t' = opt_data t" "options t' = options t" "pg t' = pg t" "searchText t' = searchText t"
    "filterColumns t' = filterColumns t" "next_row t' = next_row t" "hdr t' = hdr t" "rows t' = rows t"
    "filterColumnsPartial t' = filterColumnsPartial t"
proof -
  have e: "t = t'\<lparr>arrs := arrs t, data := data t, next_arr := next_arr t\<rparr>" using assms by (simp add: rest_same_def)
  show "opt_data t' = opt_data t" "options t' = options t" "pg t' = pg t" "searchText t' = searchText t"
    "filterColumns t' = filterColumns t" "next_row t' = next_row t" "hdr t' = hdr t" "rows t' = rows t"
    "filterColumnsPartial t' = filterColumnsPartial t"
    by (subst e, simp)+
qed

lemma rest_same_trans: "rest_same t u \<Longrightarrow> rest_same u v \<Longrightarrow> rest_same t v"
proof -
  assume a: "rest_same t u" "rest_same u v"
  have "v\<lparr>arrs := arrs t, data := data t, next_arr := next_arr t\<rparr> =
      (v\<lparr>arrs := arrs u, data := data u, next_arr := next_arr u\<rparr>)\<lparr>arrs := arrs t, data := data t, next_arr := next_arr t\<rparr>"
    by simp
  also have "\<dots> = t" using a by (simp only: rest_same_def)
  finally show ?thesis by (simp add: rest_same_def)
qed

definition first_pass :: "table \<Rightarrow> table" where
  "first_pass t =
     (if filterColumns t \<noteq> []
      then (let (t, a) = new_array (filter (\<lambda>r. passes_filter (filterColumns t) (rows t r)) (opt_rows t)) t in t\<lparr>data := a\<rparr>)
      else t\<lparr>data := opt_data t\<rparr>)"

lemma first_pass_effect:
  assumes "wf_table t"
  shows "rest_same t (first_pass t)" "opt_rows (first_pass t) = opt_rows t" "wf_table (first_pass t)"
    "mset (data_rows (first_pass t)) \<subseteq># mset (opt_rows t)" "filterColumns t = [] \<Longrightarrow> data (first_pass t) = opt_data t"
  using assms by (auto simp: first_pass_def rest_same_def new_array_def opt_rows_def wf_table_def data_rows_def)

lemma new_data_effect:
  assumes "wf_table t" "mset xs \<subseteq># mset (opt_rows t)"
  defines "t' \<equiv> (let (t, a) = new_array xs t in t\<lparr>data := a\<rparr>)"
  shows "rest_same t t'" "opt_rows t' = opt_rows t" "wf_table t'" "data_rows t' = xs"
proof -
  have "set xs \<subseteq> set (opt_rows t)" using assms(2) by (metis set_mset_mono set_mset_mset)
  then show "rest_same t t'" "opt_rows t' = opt_rows t" "wf_table t'" "data_rows t' = xs"
    using assms(1) by (auto simp: t'_def rest_same_def new_array_def opt_rows_def wf_table_def data_rows_def)
qed

lemma initSearch_effect:
  assumes "client t" "wf_table t" "initSearch env t = Inr t'"
  shows "rest_same t t' \<and> opt_rows t' = opt_rows t \<and> display_inv t'"
proof -
  note u = first_pass_effect [OF assms(2)]
  note eq = rest_sameD [OF u(1)]
  have r: "(case search_string (first_pass t) of
              None \<Rightarrow> Inr (first_pass t)
            | Some s \<Rightarrow>
                ebind (grep_rows (\<lambda>r i. search_row env (first_pass t) s r i [0..<length (hfields (hdr (first_pass t)))]) 0
                   (data_rows (first_pass t))) (\<lambda>xs.
                let (t, a) = new_array xs (first_pass t) in Inr (t\<lparr>data := a\<rparr>))) = Inr t'"
    using assms(1,3) unfolding initSearch_def client_def first_pass_def [symmetric] by (simp add: Let_def)
  show ?thesis
  proof (cases "search_string (first_pass t)")
    case None
    then have "t' = first_pass t" "\<not> truthy (searchText t)" using r eq by (auto simp: search_string_def split: if_splits)
    then show ?thesis using u eq assms(1) by (simp add: display_inv_def client_def narrowed_def table_opt_def)
  next
    case (Some s)
    with r obtain xs where xs: "mset xs \<subseteq># mset (data_rows (first_pass t))"
      and t': "t' = (let (t, a) = new_array xs (first_pass t) in t\<lparr>data := a\<rparr>)"
      by (auto simp: new_array_def elim!: ebind_InrE dest: grep_rows_mset)
    have "mset xs \<subseteq># mset (opt_rows (first_pass t))" using xs u(2,4) by (simp add: subset_mset.order_trans)
    note v = new_data_effect [OF u(3) this, folded t']
    note eq' = rest_sameD [OF v(1)]
    have "rest_same t t'" using u(1) v(1) by (rule rest_same_trans)
    moreover have "truthy (searchText t)" using Some eq by (auto simp: search_string_def split: if_splits)
    ultimately show ?thesis
      using v eq eq' u(2) xs u(4) assms(1)
      by (simp add: display_inv_def client_def narrowed_def table_opt_def subset_mset.order_trans)
  qed
qed

section \<open>Every operation keeps the invariant\<close>

datatype table_op =
    Load jsv | AppendRows jsv | PrependRows jsv | InsertRow props | RemoveRows props | RemoveAll | RemoveById jsv
  | UpdateById "props list" | UpdateRow "props list" | UpdateCell props
  | Sort jsv jsv | Search js_string | FilterBy props
  | PageFirst bool | PagePre bool | PageNext bool | PageLast bool | PageNumber js_string bool | PageSize js_string bool
  | SelectPage int | PrevPage | NextPage | TogglePagination
  | Refresh "props option" | Success jsv | Failure jsv
  | CheckAll bool | CheckInvert | Check bool nat | CheckBy bool props | Click nat bool

fun run :: "env \<Rightarrow> table_op \<Rightarrow> table \<Rightarrow> js_error + table" where
  "run env (Load d) t = load env d t"
| "run env (AppendRows d) t = append_rows env d t"
| "run env (PrependRows d) t = prepend_rows env d t"
| "run env (InsertRow ps) t = insertRow env ps t"
| "run env (RemoveRows ps) t = remove_rows env ps t"
| "run env RemoveAll t = removeAll env t"
| "run env (RemoveById v) t = removeByUniqueId env v t"
| "run env (UpdateById ps) t = updateByUniqueId env ps t"
| "run env (UpdateRow ps) t = updateRow env ps t"
| "run env (UpdateCell ps) t = updateCell env ps t"
| "run env (Sort f order) t = onSort env f order t"
| "run env (Search s) t = onSearch env (t\<lparr>search_input := s\<rparr>)"
| "run env (FilterBy ps) t = filterBy env ps t"
| "run env (PageFirst d) t = on_pager onPageFirst env d t"
| "run env (PagePre d) t = on_pager onPagePre env d t"
| "run env (PageNext d) t = on_pager onPageNext env d t"
| "run env (PageLast d) t = on_pager onPageLast env d t"
| "run env (PageNumber s d) t = on_pager_option (onPageNumber s) env d t"
| "run env (PageSize s d) t = click_page_size s env d t"
| "run env (SelectPage n) t = on_pager_option (selectPage n) env False t"
| "run env PrevPage t = on_pager_option prevPage env False t"
| "run env NextPage t = on_pager_option nextPage env False t"
| "run env TogglePagination t = togglePagination env t"
| "run env (Refresh ps) t = refresh env ps t"
| "run env (Success v) t = load_success env v t"
| "run env (Failure v) t = (case xhr_open t of None \<Rightarrow> Inr t | Some silent \<Rightarrow> load_error env silent v (t\<lparr>xhr_open := None\<rparr>))"
| "run env (CheckAll c) t = checkAll' env c t"
| "run env CheckInvert t = checkInvert env t"
| "run env (Check c i) t = check' env c i t"
| "run env (CheckBy c ps) t = checkBy' env c ps t"
| "run env (Click n c) t = select_click env n c t"

inductive reachable :: "env \<Rightarrow> table \<Rightarrow> table \<Rightarrow> bool" for env t0 where
  start: "reachable env t0 t0"
| step: "reachable env t0 t \<Longrightarrow> run env act t = Inr t' \<Longrightarrow> reachable env t0 t'"

lemmas keeps_rules = fire_keeps initBody_keeps paginate_keeps initServer_keeps updatePagination_keeps load_error_keeps
  update_each_keeps

lemmas inv_rules = keeps_rules [THEN same_data_inv]

definition ready :: "table \<Rightarrow> bool" where
  "ready t \<longleftrightarrow> client t \<and> wf_table t"

lemma inv_ready: "display_inv t \<Longrightarrow> ready t"
  by (simp add: display_inv_def ready_def)

lemma same_data_ready: "same_data t t' \<Longrightarrow> ready t \<Longrightarrow> ready t'"
  by (simp add: same_data_def ready_def client_def wf_table_def table_opt_def)

lemma set_array_ready:
  "ready t \<Longrightarrow> list_all (\<lambda>r. r < next_row t) xs \<Longrightarrow> ready (set_array a xs t)"
  by (auto simp: ready_def client_def wf_table_def set_array_def table_opt_def list_all_iff)

lemma initSort_ready:
  assumes "sorts_perm env" "initSort env t = Inr t'" "ready t"
  shows "ready t'"
proof -
  obtain ys where ys: "mset ys = mset (data_rows t)" "same_data (set_array (data t) ys t) t'"
    using initSort_effect [OF assms(1,2)] .
  have "set ys = set (data_rows t)" using ys(1) by (rule mset_eq_setD)
  with assms(3) have "list_all (\<lambda>r. r < next_row t) ys" by (auto simp: list_all_iff ready_def wf_table_def data_rows_def)
  with ys(2) assms(3) same_data_ready set_array_ready show ?thesis by blast
qed

lemma initSearch_inv: "ready t \<Longrightarrow> initSearch env t = Inr t' \<Longrightarrow> display_inv t'"
  using initSearch_effect unfolding ready_def by blast

lemma redraw_inv: "sorts_perm env \<Longrightarrow> ready t \<Longrightarrow> redraw env t = Inr t' \<Longrightarrow> display_inv t'"
  unfolding redraw_def by (elim ebind_InrE) (blast dest: initSearch_inv initSort_inv inv_rules)

lemma resort_inv: "sorts_perm env \<Longrightarrow> ready t \<Longrightarrow> resort env t = Inr t' \<Longrightarrow> display_inv t'"
  unfolding resort_def by (elim ebind_InrE) (blast dest: initSearch_inv initSort_inv inv_rules)

lemma new_rows_ready:
  assumes "ready t" "new_rows vs t = (t', a)"
  shows "ready t'" "a < next_arr t'" "display_inv t \<Longrightarrow> display_inv t'"
proof -
  have "x < next_row t + length vs" if "x \<in> set (arrs t b)" for x b
    using that assms(1) by (fastforce simp: ready_def wf_table_def)
  then show "ready t'" "a < next_arr t'" "display_inv t \<Longrightarrow> display_inv t'"
    using assms
    by (auto simp: new_rows_def new_array_def Let_def ready_def client_def wf_table_def table_opt_def display_inv_def data_rows_def
        opt_rows_def narrowed_def split: if_splits)
qed

lemma initData_ready:
  assumes "sorts_perm env" "ready t" "case new of None \<Rightarrow> True | Some a \<Rightarrow> a < next_arr t" "initData env new kind t = Inr t'"
  shows "ready t'"
proof -
  have "ready (case (kind, new) of
          (Append, Some d) \<Rightarrow>
            (let (t, a) = new_array (data_rows t @ arrs t d) t; t = t\<lparr>data := a\<rparr>;
                 (t, b) = new_array (opt_rows t @ arrs t d) t
             in t\<lparr>opt_data := b\<rparr>)
        | (Prepend, Some d) \<Rightarrow>
            (let (t, a) = new_array (arrs t d @ data_rows t) t; t = t\<lparr>data := a\<rparr>;
                 (t, b) = new_array (arrs t d @ opt_rows t) t
             in t\<lparr>opt_data := b\<rparr>)
        | (_, Some d) \<Rightarrow> t\<lparr>data := d, opt_data := d\<rparr>
        | (_, None) \<Rightarrow> t\<lparr>data := opt_data t\<rparr>)" (is "ready ?u")
    using assms(2,3)
    by (auto simp: ready_def client_def wf_table_def table_opt_def new_array_def data_rows_def opt_rows_def Let_def
        split: data_kind.splits option.splits)
  moreover have "initSort env ?u = Inr t'"
    using assms(4) \<open>ready ?u\<close> unfolding initData_def Let_def by (simp add: ready_def client_def)
  ultimately show ?thesis using initSort_ready [OF assms(1)] by blast
qed

lemma rows_arg_ready:
  assumes "ready t" "rows_arg d t = Inr (t', a)"
  shows "ready t'" "case a of None \<Rightarrow> True | Some a \<Rightarrow> a < next_arr t'"
  using assms new_rows_ready [OF assms(1)]
  by (auto simp: rows_arg_def split: jsv.splits if_splits prod.splits)

lemma load_rows_inv:
  assumes "sorts_perm env" "ready t" "load_rows env fs d t = Inr t'"
  shows "display_inv t'"
proof -
  from assms(3) obtain u a u1 u2 u3 where u: "rows_arg d t = Inr (u, a)" "initData env a Replace u = Inr u1"
    "initSearch env u1 = Inr u2" "paginate env u2 = Inr u3" "initBody env fs u3 = Inr t'"
    unfolding load_rows_def by (auto elim!: ebind_InrE)
  have "ready u1" using initData_ready [OF assms(1) rows_arg_ready [OF assms(2) u(1)] u(2)] .
  with u initSearch_inv show ?thesis using inv_rules by blast
qed

lemma load_input_client: "client t \<Longrightarrow> load_input d t = Inr (t', fs, d') \<Longrightarrow> t' = t"
  by (cases d) (auto simp: load_input_def client_def)

lemma load_inv: "sorts_perm env \<Longrightarrow> ready t \<Longrightarrow> load env d t = Inr t' \<Longrightarrow> display_inv t'"
  unfolding load_def using load_input_client load_rows_inv by (fastforce simp: ready_def elim!: ebind_InrE)

lemma append_inv: "sorts_perm env \<Longrightarrow> ready t \<Longrightarrow> append_rows env d t = Inr t' \<Longrightarrow> display_inv t'"
  and prepend_inv: "sorts_perm env \<Longrightarrow> ready t \<Longrightarrow> prepend_rows env d t = Inr t' \<Longrightarrow> display_inv t'"
proof -
  assume a: "sorts_perm env" "ready t"
  obtain u b where u: "new_rows (concat_rows d) t = (u, b)" by fastforce
  note r = new_rows_ready [OF a(2) u]
  have "display_inv t'" if "initData env (Some b) kind u = Inr v" "redraw env v = Inr t'" for v kind
    using initData_ready [OF a(1) r(1) _ that(1)] r(2) redraw_inv [OF a(1) _ that(2)] by simp
  then show "append_rows env d t = Inr t' \<Longrightarrow> display_inv t'" "prepend_rows env d t = Inr t' \<Longrightarrow> display_inv t'"
    by (auto simp: append_rows_def prepend_rows_def u elim!: ebind_InrE)
qed

lemma insertRow_inv:
  assumes "sorts_perm env" "display_inv t" "insertRow env params t = Inr t'"
  shows "display_inv t'"
proof (cases "has_keys [''index'', ''row''] params")
  case True
  define u where "u = t\<lparr>rows := (rows t)(next_row t := option_props (lookup params (str ''row''))), next_row := Suc (next_row t)\<rparr>"
  have "ready u" using inv_ready [OF assms(2)] by (auto simp: u_def ready_def client_def wf_table_def table_opt_def intro: less_SucI)
  moreover have "list_all (\<lambda>r. r < next_row u) (splice_in i (next_row t) (data_rows u))" for i
    using \<open>ready u\<close>
    by (auto simp: list_all_iff splice_in_def Let_def u_def ready_def wf_table_def data_rows_def dest: in_set_takeD in_set_dropD)
  ultimately have "ready (set_array (data u) (splice_in i (next_row t) (data_rows u)) u)" for i by (rule set_array_ready)
  then show ?thesis
    using redraw_inv [OF assms(1)] True assms(3) unfolding insertRow_def Let_def u_def [symmetric] by (auto simp: u_def)
qed (use assms in \<open>simp add: insertRow_def\<close>)

lemma remove_loop_filter: "i \<le> length xs \<Longrightarrow> remove_loop hit i xs = filter (\<lambda>x. \<not> hit x) (take i xs) @ drop i xs"
proof (induction i arbitrary: xs)
  case (Suc i)
  then have x: "take (Suc i) xs = take i xs @ [xs ! i]" "xs = take i xs @ xs ! i # drop (Suc i) xs"
    by (auto simp: take_Suc_conv_app_nth id_take_nth_drop)
  have "drop i xs = xs ! i # drop (Suc i) xs" using Suc.prems by (simp add: Cons_nth_drop_Suc)
  with Suc.IH [of xs] Suc.IH [of "take i xs @ drop (Suc i) xs"] Suc.prems show ?case
    by (auto simp: x(1) min_def)
qed simp

lemma opt_array_ready:
  "ready t \<Longrightarrow> set xs \<subseteq> set (opt_rows t) \<Longrightarrow> ready (set_array (opt_data t) xs t)"
  by (rule set_array_ready) (auto simp: list_all_iff ready_def wf_table_def opt_rows_def)

lemma remove_inv:
  assumes "sorts_perm env" "display_inv t" "remove_rows env params t = Inr t'"
  shows "display_inv t'"
proof -
  have "ready (set_array (opt_data t) (filter P (opt_rows t)) t)" for P
    by (rule opt_array_ready [OF inv_ready [OF assms(2)]]) simp
  note redraw_inv [OF assms(1) this]
  then show ?thesis using assms(2,3) by (auto simp: remove_rows_def Let_def remove_loop_filter split: if_splits)
qed

lemma search_body_inv:
  "ready t \<Longrightarrow> ebind (initSearch env t) (\<lambda>t. ebind (paginate env t) (initBody env True)) = Inr t' \<Longrightarrow> display_inv t'"
  by (elim ebind_InrE) (blast dest: initSearch_inv inv_rules)

lemma removeAll_inv: "display_inv t \<Longrightarrow> removeAll env t = Inr t' \<Longrightarrow> display_inv t'"
  using search_body_inv [OF opt_array_ready [OF inv_ready, of t "[]"]]
  by (simp add: removeAll_def split: if_splits)

lemma removeById_inv:
  assumes "display_inv t" "removeByUniqueId env v t = Inr t'"
  shows "display_inv t'"
proof -
  have "ready (set_array (opt_data t) (remove1 r (opt_rows t)) t)" for r
    by (rule opt_array_ready [OF inv_ready [OF assms(1)] set_remove1_subset])
  note search_body_inv [OF this]
  moreover obtain row where "getRowByUniqueId t v = Inr row" using assms(2) unfolding removeByUniqueId_def by (elim ebind_InrE)
  ultimately show ?thesis using assms by (cases row) (simp_all add: removeByUniqueId_def)
qed

lemma extend_row_keeps: "same_data t (extend_row r v t)"
  by (simp add: extend_row_def)

lemma update_unique_keeps: "update_unique ps t = Inr t' \<Longrightarrow> same_data t t'"
proof (induction ps t rule: update_unique.induct)
  case (2 params ps t)
  then show ?case
    using same_data_trans [OF extend_row_keeps] by (auto elim!: ebind_InrE split: if_splits option.splits) blast
qed simp

lemma update_row_keeps: "same_data u (update_row p u)"
  by (simp add: update_row_def extend_row_keeps split: option.split)

lemma update_rows_keeps: "same_data t (fold update_row ps t)"
proof (induction ps arbitrary: t)
  case (Cons p ps)
  have "same_data t (update_row p t)" by (rule update_row_keeps)
  also have "same_data (update_row p t) (fold update_row ps (update_row p t))" by (rule Cons.IH)
  finally show ?case by simp
qed simp

lemma updates_inv:
  assumes "sorts_perm env" "display_inv t"
  shows "updateByUniqueId env ps t = Inr t' \<Longrightarrow> display_inv t'" "updateRow env ps t = Inr t' \<Longrightarrow> display_inv t'"
    "updateCell env p t = Inr t' \<Longrightarrow> display_inv t'"
proof -
  show "updateByUniqueId env ps t = Inr t' \<Longrightarrow> display_inv t'"
    unfolding updateByUniqueId_def
    by (elim ebind_InrE) (blast intro: resort_inv [OF assms(1)] same_data_ready [OF update_unique_keeps] inv_ready [OF assms(2)])
  show "updateRow env ps t = Inr t' \<Longrightarrow> display_inv t'"
    unfolding updateRow_def
    by (blast intro: resort_inv [OF assms(1)] same_data_ready [OF update_rows_keeps] inv_ready [OF assms(2)])
  have "display_inv (set_field r k v t)" for r k v using assms(2) by (rule same_data_inv [rotated]) simp
  moreover have "display_inv t'" if "display_inv u" "ebind (initSort env u) (initBody env True) = Inr t'" for u
    using that by (elim ebind_InrE) (blast dest: initSort_inv [OF assms(1)] inv_rules)
  ultimately show "updateCell env p t = Inr t' \<Longrightarrow> display_inv t'"
    using assms(2) unfolding updateCell_def Let_def by (simp split: if_splits option.splits) blast+
qed

lemma onSort_inv:
  assumes "sorts_perm env" "display_inv t" "onSort env f order t = Inr t'"
  shows "display_inv t'"
proof -
  have *: "display_inv (t\<lparr>sortOrder := x\<rparr>)" "display_inv (t\<lparr>sortName := y, sortOrder := x\<rparr>)" for x y
    using assms(2)
    by (simp_all add: display_inv_def client_def wf_table_def table_opt_def narrowed_def data_rows_def opt_rows_def)
  define u where "u = (if strict_eq (sortName t) f
      then t\<lparr>sortOrder := (if strict_eq (sortOrder t) (S ''asc'') then S ''desc'' else S ''asc'')\<rparr>
      else t\<lparr>sortName := f, sortOrder := (if strict_eq order (S ''asc'') then S ''desc'' else S ''asc'')\<rparr>)"
  have u: "display_inv u" by (simp add: u_def *)
  obtain v where v: "fire env ''sort'' [sortName u, sortOrder u] u = Inr v"
    and r: "(if server_side (pg v) then initServer env (truthy (table_opt v ''silentSort'')) [] Undefined v
       else ebind (initSort env v) (initBody env False)) = Inr t'"
    using assms(3) unfolding onSort_def Let_def u_def [symmetric] by (elim ebind_InrE)
  have "display_inv v" using inv_rules(1) [OF v u] .
  with r show ?thesis by (auto elim!: ebind_InrE split: if_splits) (blast dest: initSort_inv [OF assms(1)] inv_rules)+
qed

lemma ready_search: "ready t \<Longrightarrow> ready (t\<lparr>searchText := x, opt_searchText := y, pg := (pg t)\<lparr>pageNumber := n\<rparr>\<rparr>)"
  "ready t \<Longrightarrow> ready (t\<lparr>filterColumns := f, pg := (pg t)\<lparr>pageNumber := n\<rparr>\<rparr>)" "ready (t\<lparr>search_input := s\<rparr>) = ready t"
  by (simp_all add: ready_def client_def wf_table_def table_opt_def)

lemma inv_search_input: "display_inv (t\<lparr>search_input := s\<rparr>) = display_inv t"
  by (simp add: display_inv_def client_def wf_table_def table_opt_def narrowed_def data_rows_def opt_rows_def)

lemma onSearch_inv:
  assumes "display_inv t" "onSearch env t = Inr t'"
  shows "display_inv t'"
proof -
  let ?s = "js_trim (search_input t)"
  define u where "u = (if truthy (table_opt t ''trimOnSearch'') \<and> search_input t \<noteq> ?s then t\<lparr>search_input := ?s\<rparr> else t)"
  have u: "display_inv u" using assms(1) by (simp add: u_def inv_search_input)
  show ?thesis
  proof (cases "searchText u = JStr ?s")
    case True
    then show ?thesis using assms(2) u unfolding onSearch_def Let_def u_def [symmetric] by simp
  next
    case False
    then obtain v w where
      v: "initSearch env (u\<lparr>searchText := JStr ?s, opt_searchText := JStr ?s, pg := (pg u)\<lparr>pageNumber := Some 1\<rparr>\<rparr>) = Inr v" and
      w: "updatePagination env False v = Inr w" "fire env ''search'' [JStr ?s] w = Inr t'"
      using assms(2) unfolding onSearch_def Let_def u_def [symmetric] by (auto elim!: ebind_InrE)
    have "display_inv v" using initSearch_inv [OF ready_search(1) [OF inv_ready [OF u]] v] .
    then show ?thesis using w by (blast dest: inv_rules)
  qed
qed

lemma filterBy_inv: "display_inv t \<Longrightarrow> filterBy env ps t = Inr t' \<Longrightarrow> display_inv t'"
  unfolding filterBy_def
  by (elim ebind_InrE) (blast dest: initSearch_inv [OF ready_search(2) [OF inv_ready]] inv_rules)

lemma inv_pg: "server_side p = server_side (pg t) \<Longrightarrow> display_inv t \<Longrightarrow> display_inv (t\<lparr>pg := p\<rparr>)"
  by (rule same_data_inv [of t]) simp_all

lemma updatePagination_inv: "updatePagination env d t = Inr t' \<Longrightarrow> display_inv t \<Longrightarrow> display_inv t'"
  by (rule same_data_inv [OF updatePagination_keeps])

lemma on_pager_inv:
  assumes "display_inv t" "\<And>p. server_side (f p) = server_side p"
  shows "on_pager f env d t = Inr t' \<Longrightarrow> display_inv t'"
  unfolding on_pager_def using inv_pg [OF assms(2) assms(1)] updatePagination_inv by blast

lemma on_pager_option_inv:
  assumes "display_inv t" "\<And>p q. f p = Some q \<Longrightarrow> server_side q = server_side p"
  shows "on_pager_option f env d t = Inr t' \<Longrightarrow> display_inv t'"
  unfolding on_pager_option_def using inv_pg [OF assms(2) assms(1)] updatePagination_inv assms(1)
  by (auto split: option.splits)

lemma handler_server:
  "server_side (onPageFirst p) = server_side p" "server_side (onPagePre p) = server_side p"
  "server_side (onPageNext p) = server_side p" "server_side (onPageLast p) = server_side p"
  "server_side (onPageListChange all s p) = server_side p"
  "onPageNumber s p = Some q \<Longrightarrow> server_side q = server_side p" "selectPage n p = Some q \<Longrightarrow> server_side q = server_side p"
  "prevPage p = Some q \<Longrightarrow> server_side q = server_side p" "nextPage p = Some q \<Longrightarrow> server_side q = server_side p"
  by (auto simp: onPageFirst_def onPagePre_def onPageNext_def onPageLast_def onPageNumber_def onPageListChange_def
      selectPage_def prevPage_def nextPage_def split: if_splits)

lemma page_option_inv:
  assumes "display_inv t"
  shows "on_pager_option (onPageNumber s) env d t = Inr t' \<Longrightarrow> display_inv t'"
    "on_pager_option (selectPage n) env d t = Inr t' \<Longrightarrow> display_inv t'"
    "on_pager_option prevPage env d t = Inr t' \<Longrightarrow> display_inv t'"
    "on_pager_option nextPage env d t = Inr t' \<Longrightarrow> display_inv t'"
  by (erule on_pager_option_inv [OF assms, rotated], erule handler_server)+

lemma check_items_keeps [simp]: "same_data t (check_items P f u) \<longleftrightarrow> same_data t u" "same_data (check_items P f t) u \<longleftrightarrow> same_data t u"
  by (simp_all add: check_items_def)

lemma check_by_keeps: "check_by_loop env c f vs i rs t = Inr (t', hits) \<Longrightarrow> same_data t t'"
proof (induction rs arbitrary: i t hits)
  case (Cons r rs)
  then show ?case
    by (auto simp: Let_def elim!: ebind_InrE dest!: fire_keeps split: if_splits intro: same_data_trans)
qed simp

lemma select_click_keeps: "select_click env n c t = Inr t' \<Longrightarrow> same_data t t'"
proof -
  assume a: "select_click env n c t = Inr t'"
  define k where "k = to_str (stateField (hdr t))"
  define u0 where "u0 = t\<lparr>selectItem := (selectItem t)[n := (selectItem t ! n)\<lparr>item_checked := c\<rparr>]\<rparr>"
  define r where "r = data_rows u0 ! item_index (selectItem u0 ! n)"
  define u where "u = set_field r k (JBool c)
     (if truthy (table_opt u0 ''maintainSelected'') \<and> item_radio (selectItem u0 ! n) then clear_field k (opt_rows u0) u0 else u0)"
  have u: "same_data t u" by (simp add: u_def u0_def)
  have h: "hdr u0 = hdr t" by (simp add: u0_def)
  show ?thesis
    using a u unfolding select_click_def Let_def
    apply (fold u0_def) apply (unfold h) apply (fold k_def) apply (fold r_def) apply (fold u_def)
    by (auto elim!: ebind_InrE split: if_splits dest!: fire_keeps update_each_keeps intro: same_data_trans)
qed

lemma run_inv:
  assumes "sorts_perm env" "display_inv t" "run env act t = Inr t'"
  shows "display_inv t'"
proof -
  note r = inv_ready [OF assms(2)] and k = same_data_inv [OF _ assms(2)]
  show ?thesis
  proof (cases act)
    case (Load d)
    then show ?thesis using load_inv [OF assms(1) r] assms(3) by simp
  next
    case (AppendRows d)
    then show ?thesis using append_inv [OF assms(1) r] assms(3) by simp
  next
    case (PrependRows d)
    then show ?thesis using prepend_inv [OF assms(1) r] assms(3) by simp
  next
    case (Refresh ps)
    define qs where "qs = (case ps of None \<Rightarrow> [] | Some qs \<Rightarrow> qs)"
    define u where "u = (if truthy (lookup qs (str ''url'')) then t\<lparr>pg := (pg t)\<lparr>pageNumber := Some 1\<rparr>\<rparr> else t)"
    have "same_data t u" by (simp add: u_def)
    moreover have "refresh env ps t = Inr t'" using assms(3) Refresh by simp
    then have "same_data u t'"
      unfolding refresh_def qs_def [symmetric] Let_def u_def [symmetric]
      by (auto elim!: ebind_InrE dest!: fire_keeps initServer_keeps intro: same_data_trans)
    ultimately show ?thesis using k same_data_trans by blast
  next
    case (Success v)
    then show ?thesis
    proof (cases "xhr_open t")
      case (Some silent)
      then obtain res u w where "load env res (t\<lparr>xhr_open := None\<rparr>) = Inr u" "fire env ''load-success'' [res] u = Inr w"
        "t' = w \<or> t' = w\<lparr>loading := False\<rparr>"
        using Success assms(3) by (auto simp: load_success_def elim!: ebind_InrE)
      moreover have "ready (t\<lparr>xhr_open := None\<rparr>)" using r by (rule same_data_ready [rotated]) simp
      ultimately have "display_inv w" using load_inv [OF assms(1)] inv_rules by blast
      then show ?thesis using \<open>t' = w \<or> t' = w\<lparr>loading := False\<rparr>\<close> same_data_inv [of w "w\<lparr>loading := False\<rparr>"] by auto
    qed (use assms in \<open>simp add: load_success_def\<close>)
  next
    case (Failure v)
    then have "same_data t t'" using assms(3) by (auto split: option.splits dest!: load_error_keeps)
    then show ?thesis by (rule k)
  next
    case (CheckAll c)
    then have "same_data t t'" using assms(3)
      by (auto simp: checkAll'_def updateRows_def Let_def elim!: ebind_InrE dest!: fire_keeps update_each_keeps intro: same_data_trans)
    then show ?thesis by (rule k)
  next
    case CheckInvert
    then have "same_data t t'" using assms(3)
      by (auto simp: checkInvert_def updateRows_def Let_def elim!: ebind_InrE dest!: fire_keeps update_each_keeps)
        (blast intro: same_data_trans)
    then show ?thesis by (rule k)
  next
    case (Check c i)
    then have "same_data t t'" using assms(3)
      by (auto simp: check'_def Let_def updateSelected_def dest!: fire_keeps split: if_splits)
    then show ?thesis by (rule k)
  next
    case (CheckBy c ps)
    then have "same_data t t'" using assms(3)
      by (auto simp: checkBy'_def Let_def updateSelected_def elim!: ebind_InrE dest!: fire_keeps check_by_keeps
          intro: same_data_trans split: if_splits)
    then show ?thesis by (rule k)
  next
    case (Click n c)
    then show ?thesis using k [OF select_click_keeps] assms(3) by simp
  next
    case (Search s)
    then show ?thesis using onSearch_inv [of "t\<lparr>search_input := s\<rparr>"] assms inv_search_input by simp
  next
    case (PageSize s d)
    then show ?thesis
      using assms(3) on_pager_inv [OF assms(2) handler_server(5)] by (auto simp: click_page_size_def elim!: ebind_InrE)
  next
    case TogglePagination
    then show ?thesis
      using assms inv_pg [OF _ assms(2), of "(pg t)\<lparr>pagination := \<not> pagination (pg t)\<rparr>"] updatePagination_inv
      by (auto simp: togglePagination_def elim!: ebind_InrE)
  qed ((insert assms(3), simp)[1],
      erule insertRow_inv [OF assms(1,2)] remove_inv [OF assms(1,2)] removeAll_inv [OF assms(2)] removeById_inv [OF assms(2)]
        updates_inv [OF assms(1,2)] onSort_inv [OF assms(1,2)] filterBy_inv [OF assms(2)]
        on_pager_inv [OF assms(2) handler_server(1)] on_pager_inv [OF assms(2) handler_server(2)]
        on_pager_inv [OF assms(2) handler_server(3)] on_pager_inv [OF assms(2) handler_server(4)]
        page_option_inv [OF assms(2)])+
qed

end
