(* ===== verification/TableSpec.thy ===== *)
theory TableSpec
  imports TableProps
begin

text \<open>
  A table without search, sort, formatters and check boxes is a list of rows: its methods return, and do to
  the table what the list operations do to the list.
\<close>

section \<open>Tables with default behaviour\<close>

definition plain_options :: "props \<Rightarrow> bool" where
  "plain_options os \<longleftrightarrow>
     list_all (\<lambda>n. is_fun (lookup os (handler_of n))) (''all'' # raised) \<and>
     opt os ''customSearch'' = JFun ''noop'' \<and> opt os ''customSort'' = JFun ''noop'' \<and>
     opt os ''rowStyle'' = JFun ''rowStyle'' \<and> opt os ''rowAttributes'' = JFun ''rowAttributes'' \<and>
     is_fun (opt os ''formatNoMatches'') \<and> is_fun (opt os ''formatAllRows'') \<and> \<not> truthy (opt os ''detailView'')"

definition plain_header :: "table \<Rightarrow> bool" where
  "plain_header t \<longleftrightarrow>
     list_all (\<lambda>v. v = Undefined) (cellStyles (hdr t)) \<and> list_all (\<lambda>v. v = Undefined) (formatters (hdr t)) \<and>
     length (hfields (hdr t)) \<le> length (columns t) \<and>
     list_all (\<lambda>c. \<not> truthy (lookup c (str ''checkbox'')) \<and> \<not> truthy (lookup c (str ''radio''))) (columns t) \<and>
     \<not> truthy (stateField (hdr t))"

text \<open>\<open>calm\<close>: default behaviour, no search and no pages; \<open>plain0\<close>: also no filter and no sort.\<close>

definition calm :: "env \<Rightarrow> table \<Rightarrow> bool" where
  "calm env t \<longleftrightarrow>
     call env = default_call \<and> plain_options (options t) \<and> plain_header t \<and> ready t \<and> distinct (opt_rows t) \<and>
     \<not> pagination (pg t) \<and> \<not> truthy (searchText t) \<and> filterColumnsPartial t = []"

definition plain0 :: "env \<Rightarrow> table \<Rightarrow> bool" where
  "plain0 env t \<longleftrightarrow> calm env t \<and> filterColumns t = [] \<and> position_of (sortName t) (hfields (hdr t)) = None"

definition plain :: "env \<Rightarrow> table \<Rightarrow> bool" where
  "plain env t \<longleftrightarrow> plain0 env t \<and> data t = opt_data t"

text \<open>The rows of a table, and what its methods do to them.\<close>

definition rows_of :: "table \<Rightarrow> props list" where
  "rows_of t = map (rows t) (opt_rows t)"

definition spec_update :: "props \<Rightarrow> props list \<Rightarrow> props list" where
  "spec_update ps xs =
     (if has_keys [''index'', ''row''] ps then
        (case row_at [0..<length xs] (lookup ps (str ''index'')) of
           None \<Rightarrow> xs
         | Some i \<Rightarrow> xs[i := jq_extend (xs ! i) (option_props (lookup ps (str ''row'')))])
      else xs)"

fun spec :: "table_op \<Rightarrow> props list \<Rightarrow> props list" where
  "spec (Load (JArr vs)) xs = map option_props vs"
| "spec (AppendRows d) xs = xs @ map option_props (concat_rows d)"
| "spec (PrependRows d) xs = map option_props (concat_rows d) @ xs"
| "spec (InsertRow ps) xs =
     (if has_keys [''index'', ''row''] ps
      then splice_in (integer_of (lookup ps (str ''index''))) (option_props (lookup ps (str ''row''))) xs else xs)"
| "spec (RemoveRows ps) xs =
     (if has_keys [''field'', ''values''] ps
      then filter (\<lambda>r. \<not> (to_str (lookup ps (str ''field'')) \<in> fst ` set r \<and>
             in_values (lookup r (to_str (lookup ps (str ''field'')))) (lookup ps (str ''values'')))) xs
      else xs)"
| "spec RemoveAll xs = []"
| "spec (UpdateRow pss) xs = fold spec_update pss xs"
| "spec _ xs = xs"

fun row_method :: "table_op \<Rightarrow> bool" where
  "row_method (Load (JArr vs)) = True"
| "row_method (AppendRows d) = True"
| "row_method (PrependRows d) = True"
| "row_method (InsertRow ps) = True"
| "row_method (RemoveRows ps) = True"
| "row_method RemoveAll = True"
| "row_method (UpdateRow pss) = True"
| "row_method _ = False"

section \<open>Rendering returns\<close>

lemma default_call_total: "\<exists>v. default_call f args = Inr v"
  by (simp add: default_call_def)

lemma apply_default: "is_fun f \<Longrightarrow> \<exists>v. apply_fun default_call f args = Inr v"
  by (cases f) (auto simp: is_fun_def apply_fun_def default_call_total)

lemma fire_plain:
  assumes "call env = default_call" "list_all (\<lambda>n. is_fun (lookup (options t) (handler_of n))) (''all'' # raised)" "n \<in> set raised"
  shows "\<exists>es. fire env n args t = Inr (t\<lparr>events := es\<rparr>)"
proof -
  have "is_fun (lookup (options t) (handler_of n))" "is_fun (lookup (options t) (str ''onAll''))"
    using assms(2,3) handler_all by (auto simp: list_all_iff)
  then obtain v w where "apply_fun default_call (lookup (options t) (handler_of n)) args = Inr v"
    "apply_fun default_call (lookup (options t) (str ''onAll'')) [JStr (str n @ str ''.bs.table''), JArr args] = Inr w"
    using apply_default by blast
  then have "trigger (call env) (options t) (str n) args =
      Inr [(str n @ str ''.bs.table'', args), (str ''all.bs.table'', [JStr (str n @ str ''.bs.table''), JArr args])]"
    using assms(1) by (simp add: trigger_def handler_of_def str_append Let_def)
  then show ?thesis by (auto simp: fire_def)
qed

lemma elem_truthy: "truthy v \<Longrightarrow> \<exists>x. elem v k = Inr x"
  by (cases v) (auto simp: elem_def Let_def)

lemma walk_total: "\<exists>x. walk v ps = Inr x"
proof (induction ps arbitrary: v)
  case (Cons p ps)
  then show ?case using elem_truthy [of v "JStr p"] by auto
qed simp

lemma getItemField_total: "\<exists>x. getItemField (JObj item) field escape = Inr x"
proof -
  have "\<exists>x. elem (JObj item) k = Inr x" for k by (rule elem_truthy) simp
  then have "\<exists>x. (case field of JStr f \<Rightarrow> if has_own (JObj item) f then elem (JObj item) field else walk (JObj item) (js_split 46 f)
      | _ \<Rightarrow> elem (JObj item) field) = Inr x"
    using walk_total by (auto split: jsv.splits)
  then show ?thesis by (cases field) (auto simp: getItemField_def)
qed

lemma calculate_undefined: "calculateObjectValue w c Undefined args d = Inr d"
  by (simp add: calculateObjectValue_def)

lemma nth_jsv_undefined: "list_all (\<lambda>v. v = Undefined) xs \<Longrightarrow> nth_jsv xs j = Undefined"
  by (simp add: nth_jsv_def list_all_length)

lemma initCell_plain:
  assumes "plain_header t" "j < length (columns t)"
  shows "\<exists>h. initCell env r i csses j field t = Inr (h, [], t)"
proof -
  obtain v where v: "getItemField (row_val t r) field (truthy (table_opt t ''escape'')) = Inr v"
    unfolding row_val_def using getItemField_total by blast
  have "\<not> truthy (lookup (columns t ! j) (str ''checkbox''))" "\<not> truthy (lookup (columns t ! j) (str ''radio''))"
    using assms by (simp_all add: plain_header_def list_all_length)
  then have "\<exists>h. render_cell env t r i csses j field (columns t ! j) v = Inr (h, None, t)"
    using assms(1) by (simp add: render_cell_def plain_header_def nth_jsv_undefined calculate_undefined Let_def lookup_def)
  then show ?thesis using v assms(2) by (auto simp: initCell_def)
qed

lemma initCells_plain:
  assumes "plain_header t" "j + length fs \<le> length (columns t)"
  shows "\<exists>h. initCells env r i csses j fs t = Inr (h, [], t)"
  using assms(2)
proof (induction fs arbitrary: j)
  case (Cons f fs)
  then have "j < length (columns t)" "Suc j + length fs \<le> length (columns t)" by simp_all
  then obtain h h' where "initCell env r i csses j f t = Inr (h, [], t)" "initCells env r i csses (Suc j) fs t = Inr (h', [], t)"
    using initCell_plain [OF assms(1)] Cons.IH by blast
  then show ?case by simp
qed simp

lemma calculate_fun: "calculateObjectValue w c (JFun f) args d = c f args"
  by (simp add: calculateObjectValue_def)

lemma default_row_functions: "default_call ''rowStyle'' args = Inr (JObj [])" "default_call ''rowAttributes'' args = Inr (JObj [])"
  by (simp_all add: default_call_def)

lemma initRow_plain:
  assumes "call env = default_call" "plain_options (options t)" "plain_header t" "i < length xs"
  shows "\<exists>h. initRow env xs i t = Inr (h, [], t)"
proof -
  obtain h where "initCells env (xs ! i) i [] 0 (hfields (hdr t)) t = Inr (h, [], t)"
    using initCells_plain [OF assms(3), of 0 "hfields (hdr t)" env "xs ! i" i "[]"] assms(3) unfolding plain_header_def by auto
  moreover have "table_opt t ''rowStyle'' = JFun ''rowStyle''" "table_opt t ''rowAttributes'' = JFun ''rowAttributes''"
    "\<not> truthy (table_opt t ''detailView'')"
    using assms(2) by (simp_all add: plain_options_def table_opt_def opt_def)
  ultimately show ?thesis using assms(1,4)
    by (simp add: initRow_def Let_def calculate_fun default_row_functions member_def lookup_def detail_icon_def)
qed

lemma initRows_plain:
  assumes "call env = default_call" "plain_options (options t)" "plain_header t" "list_all (\<lambda>i. i < length xs) is"
  shows "\<exists>h. initRows env xs is t = Inr (h, [], t)"
  using assms(4)
proof (induction "is")
  case (Cons i "is")
  then obtain h h' where "initRow env xs i t = Inr (h, [], t)" "initRows env xs is t = Inr (h', [], t)"
    using initRow_plain [OF assms(1-3), of i xs] by auto
  then show ?case by simp
qed simp

definition like :: "table \<Rightarrow> table \<Rightarrow> bool" where
  "like t t' \<longleftrightarrow> same_data t t' \<and> rows t' = rows t \<and> pagination (pg t') = pagination (pg t)"

lemma like_trans: "like t u \<Longrightarrow> like u v \<Longrightarrow> like t v"
  using same_data_trans by (auto simp: like_def)

lemma like_plain: "like t t' \<Longrightarrow> plain env t \<Longrightarrow> plain env t'"
proof -
  assume a: "like t t'" "plain env t"
  then have "ready t'" using same_data_ready by (auto simp: like_def plain_def plain0_def calm_def)
  then show ?thesis using a by (auto simp: like_def plain_def plain0_def calm_def same_data_def plain_header_def opt_rows_def)
qed

lemma like_fields [simp]: "like t (u\<lparr>events := e\<rparr>) \<longleftrightarrow> like t u" "like t (u\<lparr>selectAll := b\<rparr>) \<longleftrightarrow> like t u" "like t t"
  "like t (u\<lparr>body_html := h\<rparr>) \<longleftrightarrow> like t u" "like t (u\<lparr>selectItem := xs\<rparr>) \<longleftrightarrow> like t u" "like t (u\<lparr>scrollTop := s\<rparr>) \<longleftrightarrow> like t u"
  by (simp_all add: like_def)

lemma raised_names: "''pre-body'' \<in> set raised" "''post-body'' \<in> set raised" "''post-header'' \<in> set raised" "''reset-view'' \<in> set raised"
  by (simp_all add: raised_def)

lemma resetView_returns:
  assumes "call env = default_call" and h: "list_all (\<lambda>n. is_fun (lookup (options t) (handler_of n))) (''all'' # raised)"
  shows "\<exists>t'. resetView env t = Inr t' \<and> like t t'"
proof -
  define u where "u = t\<lparr>selectAll := selectItem t \<noteq> [] \<and> list_all item_checked (selectItem t)\<rparr>"
  have u: "options u = options t" "like t u" by (simp_all add: u_def)
  have "Inr u = Inr (u\<lparr>events := events u\<rparr>)" by simp
  moreover obtain e0 where "fire env ''post-header'' [] u = Inr (u\<lparr>events := e0\<rparr>)"
    using fire_plain [OF assms(1), of u "''post-header''" "[]"] h u raised_names by auto
  ultimately obtain e where e: "(if truthy (table_opt u ''showHeader'') \<and> truthy (table_opt u ''height'') then Inr u
      else fire env ''post-header'' [] u) = Inr (u\<lparr>events := e\<rparr>)"
    by (metis (full_types))
  obtain e2 where "fire env ''reset-view'' [] (u\<lparr>events := e\<rparr>) = Inr (u\<lparr>events := e2\<rparr>)"
    using fire_plain [OF assms(1), of "u\<lparr>events := e\<rparr>" "''reset-view''" "[]"] h u raised_names by auto
  then show ?thesis using e u unfolding resetView_def Let_def u_def [symmetric] by auto
qed

lemma resetView_plain:
  assumes "call env = default_call" "plain_options (options t)"
  shows "\<exists>t'. resetView env t = Inr t' \<and> like t t'"
  using resetView_returns [OF assms(1)] assms(2) by (simp add: plain_options_def)

lemma no_records_plain: "call env = default_call \<Longrightarrow> plain_options (options t) \<Longrightarrow> \<exists>h. no_records env t = Inr h"
proof -
  assume a: "call env = default_call" "plain_options (options t)"
  then obtain v where "apply_fun default_call (opt (options t) ''formatNoMatches'') [] = Inr v"
    using apply_default by (auto simp: plain_options_def)
  with a(1) show ?thesis by (simp add: no_records_def call_text_def)
qed

lemma initBody_plain:
  assumes "call env = default_call" "plain_options (options t)" "plain_header t" "\<not> pagination (pg t)"
  shows "\<exists>t'. initBody env fs t = Inr t' \<and> like t t'"
proof -
  have h: "list_all (\<lambda>n. is_fun (lookup (options t) (handler_of n))) (''all'' # raised)"
    using assms(2) by (simp add: plain_options_def)
  let ?xs = "getData t False"
  obtain e1 where 1: "fire env ''pre-body'' [JArr (map (row_val t) ?xs)] t = Inr (t\<lparr>events := e1\<rparr>)"
    using fire_plain [OF assms(1) h] raised_names by blast
  define u where "u = t\<lparr>events := e1, pg := (pg t)\<lparr>pageFrom := Some 1, pageTo := Some (int (length ?xs))\<rparr>\<rparr>"
  have u: "options u = options t" "plain_header u" "like t u" "body_range (pg u) = Inr [0..<length ?xs]"
    using assms(3) by (simp_all add: u_def plain_header_def like_def same_data_def body_range_def)
  obtain h1 where 2: "initRows env ?xs [0..<length ?xs] u = Inr (h1, [], u)"
    using initRows_plain [OF assms(1) _ u(2), of ?xs "[0..<length ?xs]"] assms(2) u(1) by (auto simp: list_all_iff)
  obtain h2 where 3: "(if [0..<length ?xs] = [] then no_records env u else Inr h1) = Inr h2"
    using no_records_plain [OF assms(1), of u] assms(2) u(1) by (cases "[0..<length ?xs] = []") auto
  define v where "v = updateSelected (u\<lparr>body_html := h2, selectItem := [], scrollTop := (if fs then scrollTop u else 0)\<rparr>)"
  have v: "options v = options t" "like u v" by (simp_all add: v_def updateSelected_def Let_def u(1))
  obtain w where 4: "resetView env v = Inr w" "like v w" using resetView_plain [OF assms(1), of v] assms(2) v(1) by auto
  then have "options w = options t" using v(1) by (simp add: like_def same_data_def)
  then obtain e2 where 5: "fire env ''post-body'' [JArr (map (row_val w) ?xs)] w = Inr (w\<lparr>events := e2\<rparr>)"
    using fire_plain [OF assms(1), of w "''post-body''"] h raised_names by auto
  have "initBody env fs t = Inr (w\<lparr>events := e2\<rparr>)"
    unfolding initBody_def Let_def 1 using assms(4) 2 3 4 5 u(4) by (simp flip: u_def add: v_def [symmetric])
  moreover have "like t (w\<lparr>events := e2\<rparr>)" using like_trans [OF like_trans [OF u(3) v(2)] 4(2)] by simp
  ultimately show ?thesis by blast
qed

section \<open>The methods\<close>

lemma plain0_view: "plain0 env t \<Longrightarrow> plain env (t\<lparr>data := opt_data t\<rparr>)"
  by (auto simp: plain_def plain0_def calm_def ready_def client_def wf_table_def table_opt_def opt_rows_def plain_header_def)

lemma initSearch_plain: "plain0 env t \<Longrightarrow> initSearch env t = Inr (t\<lparr>data := opt_data t\<rparr>)"
  by (simp add: plain0_def calm_def ready_def client_def initSearch_def search_string_def Let_def)

lemma initSort_plain: "plain0 env t \<Longrightarrow> initSort env t = Inr t"
  by (simp add: plain0_def calm_def plain_options_def plain_header_def initSort_def table_opt_def opt_def)

lemma paginate_plain: "plain env t \<Longrightarrow> \<exists>t'. paginate env t = Inr t' \<and> like t t'"
  by (simp add: plain_def plain0_def calm_def paginate_def initPagination_def like_def same_data_def)

lemma initBody_plain': "plain env t \<Longrightarrow> \<exists>t'. initBody env fs t = Inr t' \<and> like t t'"
  using initBody_plain by (simp add: plain_def plain0_def calm_def)

lemma rows_of_like: "like t t' \<Longrightarrow> rows_of t' = rows_of t"
  by (simp add: like_def same_data_def rows_of_def opt_rows_def)

text \<open>The common end of the methods, with and without the sort, returns and leaves the rows as they are.\<close>

lemma redraw_plain:
  assumes "plain0 env t"
  shows "\<exists>t'. redraw env t = Inr t' \<and> plain env t' \<and> rows_of t' = rows_of t"
    and "\<exists>t'. ebind (initSearch env t) (\<lambda>t. ebind (paginate env t) (initBody env fs)) = Inr t' \<and> plain env t' \<and> rows_of t' = rows_of t"
    and "\<exists>t'. resort env t = Inr t' \<and> plain env t' \<and> rows_of t' = rows_of t"
proof -
  define u where "u = t\<lparr>data := opt_data t\<rparr>"
  have u: "plain env u" "rows_of u = rows_of t" using plain0_view [OF assms] by (simp_all add: u_def rows_of_def opt_rows_def)
  obtain v where v: "paginate env u = Inr v" "like u v" using paginate_plain [OF u(1)] by blast
  have pv: "plain env v" using like_plain [OF v(2) u(1)] .
  obtain w where w: "initBody env True v = Inr w" "like v w" using initBody_plain' [OF pv] by blast
  obtain x where x: "initBody env fs v = Inr x" "like v x" using initBody_plain' [OF pv] by blast
  obtain y where y: "initBody env True u = Inr y" "like u y" using initBody_plain' [OF u(1)] by blast
  have s: "initSort env v = Inr v" "initSort env u = Inr u" using initSort_plain pv u(1) by (simp_all add: plain_def)
  note s0 = initSearch_plain [OF assms, folded u_def] and r = rows_of_like like_plain
  show "\<exists>t'. redraw env t = Inr t' \<and> plain env t' \<and> rows_of t' = rows_of t"
    using r [OF w(2)] r [OF v(2)] pv u by (simp add: redraw_def s0 v s w)
  show "\<exists>t'. ebind (initSearch env t) (\<lambda>t. ebind (paginate env t) (initBody env fs)) = Inr t' \<and> plain env t' \<and> rows_of t' = rows_of t"
    using r [OF x(2)] r [OF v(2)] pv u by (simp add: s0 v x)
  show "\<exists>t'. resort env t = Inr t' \<and> plain env t' \<and> rows_of t' = rows_of t"
    using r [OF y(2)] u by (simp add: resort_def s0 s y)
qed

lemma new_rows_plain:
  assumes "plain env t" "new_rows vs t = (t', a)"
  shows "plain env t'" "rows_of t' = rows_of t" "map (rows t') (arrs t' a) = map option_props vs" "distinct (arrs t' a)"
    "set (arrs t' a) \<inter> set (opt_rows t) = {}" "opt_rows t' = opt_rows t" "a < next_arr t'"
proof -
  have r: "r < next_row t" if "r \<in> set (opt_rows t)" for r
    using that assms(1) by (auto simp: plain_def plain0_def calm_def ready_def wf_table_def opt_rows_def)
  have o: "opt_data t < next_arr t" using assms(1) by (simp add: plain_def plain0_def calm_def ready_def wf_table_def)
  have t': "a = next_arr t" "t' = t\<lparr>rows := (\<lambda>r. if next_row t \<le> r \<and> r < next_row t + length vs then option_props (vs ! (r - next_row t)) else rows t r),
      next_row := next_row t + length vs, arrs := (arrs t)(next_arr t := [next_row t..<next_row t + length vs]), next_arr := Suc (next_arr t)\<rparr>"
    using assms(2) by (auto simp: new_rows_def new_array_def Let_def)
  show op: "opt_rows t' = opt_rows t" using o by (simp add: t' opt_rows_def)
  show "rows_of t' = rows_of t" using r unfolding rows_of_def op by (fastforce simp: t')
  show "map (rows t') (arrs t' a) = map option_props vs" by (auto simp: t' intro!: nth_equalityI)
  show "distinct (arrs t' a)" "set (arrs t' a) \<inter> set (opt_rows t) = {}" by (auto simp: t' dest: r)
  have "ready t'" using new_rows_ready(1) [OF _ assms(2)] assms(1) by (simp add: plain_def plain0_def calm_def)
  then show "plain env t'" using assms(1) op by (auto simp: t' plain_def plain0_def calm_def plain_header_def)
  show "a < next_arr t'" by (simp add: t')
qed

lemma plain0_set:
  assumes "plain env t" "list_all (\<lambda>r. r < next_row t) xs" "distinct xs"
  shows "plain0 env (set_array (opt_data t) xs t)"
proof -
  have "ready (set_array (opt_data t) xs t)" using assms(1,2) by (intro set_array_ready) (simp_all add: plain_def plain0_def calm_def)
  then show ?thesis using assms by (auto simp: plain_def plain0_def calm_def set_array_def opt_rows_def plain_header_def)
qed

lemma rows_of_set: "rows_of (set_array (opt_data t) xs t) = map (rows t) xs"
  by (simp add: rows_of_def opt_rows_def set_array_def)

lemma opt_rows_bound: "plain env t \<Longrightarrow> r \<in> set (opt_rows t) \<Longrightarrow> r < next_row t"
  by (auto simp: plain_def plain0_def calm_def ready_def wf_table_def opt_rows_def)

lemma load_plain:
  assumes "plain env t"
  shows "\<exists>t'. load env (JArr vs) t = Inr t' \<and> plain env t' \<and> rows_of t' = map option_props vs"
proof -
  obtain u a where u: "new_rows vs t = (u, a)" by fastforce
  note n = new_rows_plain [OF assms u]
  define v where "v = u\<lparr>data := a, opt_data := a\<rparr>"
  have "client t" "client u" using assms n(1) by (simp_all add: plain_def plain0_def calm_def ready_def)
  have "ready v" using n(1,7) by (auto simp: v_def plain_def plain0_def calm_def ready_def client_def wf_table_def table_opt_def)
  then have v: "plain0 env v" "rows_of v = map option_props vs"
    using n(1,3,4) by (auto simp: v_def plain_def plain0_def calm_def plain_header_def opt_rows_def rows_of_def)
  have "load env (JArr vs) t = ebind (initSearch env v) (\<lambda>t. ebind (paginate env t) (initBody env False))"
    using \<open>client t\<close> \<open>client u\<close> initSort_plain [OF v(1)]
    by (simp add: load_def load_input_def load_rows_def rows_arg_def u client_def initData_def flip: v_def)
  then show ?thesis using redraw_plain(2) [OF v(1), of False] v(2) by simp
qed

lemma two_arrays_plain:
  assumes "plain env u" "distinct xs" "set xs \<subseteq> {..<next_row u}" "set ys \<subseteq> {..<next_row u}"
  defines "v \<equiv> (let (t, a) = new_array ys u; t = t\<lparr>data := a\<rparr>; (t, b) = new_array xs t in t\<lparr>opt_data := b\<rparr>)"
  shows "plain0 env v" "rows_of v = map (rows u) xs"
proof -
  have "ready v" using assms(1,3,4)
    by (fastforce simp: v_def new_array_def plain_def plain0_def calm_def ready_def client_def wf_table_def table_opt_def split: if_splits)
  then show "plain0 env v" using assms(1,2)
    by (auto simp: v_def new_array_def plain_def plain0_def calm_def plain_header_def opt_rows_def)
  show "rows_of v = map (rows u) xs" by (simp add: v_def new_array_def rows_of_def opt_rows_def)
qed

lemma initData_plain:
  assumes "plain env u" "a < next_arr u" "distinct (arrs u a)" "set (arrs u a) \<inter> set (opt_rows u) = {}"
  shows "\<exists>v. initData env (Some a) Append u = Inr v \<and> plain0 env v \<and> rows_of v = map (rows u) (opt_rows u @ arrs u a)"
    and "\<exists>v. initData env (Some a) Prepend u = Inr v \<and> plain0 env v \<and> rows_of v = map (rows u) (arrs u a @ opt_rows u)"
proof -
  have b: "set (arrs u x) \<subseteq> {..<next_row u}" for x using assms(1) by (auto simp: plain_def plain0_def calm_def ready_def wf_table_def)
  have d: "opt_data u < next_arr u" "distinct (opt_rows u)" "client u"
    using assms(1) by (simp_all add: plain_def plain0_def calm_def ready_def wf_table_def)
  define v where "v = (let (t, a') = new_array (data_rows u @ arrs u a) u; t = t\<lparr>data := a'\<rparr>;
      (t, b) = new_array (opt_rows u @ arrs u a) t in t\<lparr>opt_data := b\<rparr>)"
  define w where "w = (let (t, a') = new_array (arrs u a @ data_rows u) u; t = t\<lparr>data := a'\<rparr>;
      (t, b) = new_array (arrs u a @ opt_rows u) t in t\<lparr>opt_data := b\<rparr>)"
  have v: "plain0 env v" "rows_of v = map (rows u) (opt_rows u @ arrs u a)"
    unfolding v_def using assms(3,4) b d(2)
    by (intro two_arrays_plain [OF assms(1)]; auto simp: data_rows_def opt_rows_def)+
  have w: "plain0 env w" "rows_of w = map (rows u) (arrs u a @ opt_rows u)"
    unfolding w_def using assms(3,4) b d(2)
    by (intro two_arrays_plain [OF assms(1)]; auto simp: data_rows_def opt_rows_def)+
  have "initData env (Some a) Append u = initSort env v" "initData env (Some a) Prepend u = initSort env w"
    using assms(2) d(1,3) by (simp_all add: initData_def v_def w_def new_array_def data_rows_def opt_rows_def client_def)
  then show "\<exists>v. initData env (Some a) Append u = Inr v \<and> plain0 env v \<and> rows_of v = map (rows u) (opt_rows u @ arrs u a)"
    "\<exists>v. initData env (Some a) Prepend u = Inr v \<and> plain0 env v \<and> rows_of v = map (rows u) (arrs u a @ opt_rows u)"
    using v w initSort_plain by auto
qed

lemma add_plain:
  assumes "plain env t"
  shows "\<exists>t'. append_rows env d t = Inr t' \<and> plain env t' \<and> rows_of t' = rows_of t @ map option_props (concat_rows d)"
    and "\<exists>t'. prepend_rows env d t = Inr t' \<and> plain env t' \<and> rows_of t' = map option_props (concat_rows d) @ rows_of t"
proof -
  obtain u a where u: "new_rows (concat_rows d) t = (u, a)" by fastforce
  note n = new_rows_plain [OF assms u]
  obtain v w where
    v: "initData env (Some a) Append u = Inr v" "plain0 env v" "rows_of v = map (rows u) (opt_rows u @ arrs u a)" and
    w: "initData env (Some a) Prepend u = Inr w" "plain0 env w" "rows_of w = map (rows u) (arrs u a @ opt_rows u)"
    using initData_plain [OF n(1,7,4)] n(5,6) by auto
  show "\<exists>t'. append_rows env d t = Inr t' \<and> plain env t' \<and> rows_of t' = rows_of t @ map option_props (concat_rows d)"
    using redraw_plain(1) [OF v(2)] v n(2,3) by (simp add: append_rows_def u rows_of_def)
  show "\<exists>t'. prepend_rows env d t = Inr t' \<and> plain env t' \<and> rows_of t' = map option_props (concat_rows d) @ rows_of t"
    using redraw_plain(1) [OF w(2)] w n(2,3) by (simp add: prepend_rows_def u rows_of_def)
qed

lemma map_splice_in: "map f (splice_in i x xs) = splice_in i (f x) (map f xs)"
  by (simp add: splice_in_def Let_def take_map drop_map)

lemma insert_plain:
  assumes "plain env t" "has_keys [''index'', ''row''] ps"
  shows "\<exists>t'. insertRow env ps t = Inr t' \<and> plain env t' \<and> rows_of t' = spec (InsertRow ps) (rows_of t)"
proof -
  let ?i = "integer_of (lookup ps (str ''index''))" and ?v = "option_props (lookup ps (str ''row''))"
  define u where "u = t\<lparr>rows := (rows t)(next_row t := ?v), next_row := Suc (next_row t)\<rparr>"
  have b: "r < next_row t" if "r \<in> set (opt_rows t)" for r using opt_rows_bound [OF assms(1) that] .
  have u: "plain env u" "opt_rows u = opt_rows t" "data u = opt_data u" "data_rows u = opt_rows t"
    using assms(1) by (auto simp: u_def plain_def plain0_def calm_def ready_def client_def wf_table_def table_opt_def plain_header_def
        opt_rows_def data_rows_def intro: less_SucI)
  define xs where "xs = splice_in ?i (next_row t) (opt_rows t)"
  have "distinct (opt_rows t)" using assms(1) by (simp add: plain_def plain0_def calm_def)
  then have "distinct (take n (opt_rows t) @ drop n (opt_rows t))" for n by simp
  then have d: "distinct xs" using b unfolding xs_def splice_in_def Let_def distinct_append
    by (auto dest: in_set_takeD in_set_dropD)
  have "list_all (\<lambda>r. r < next_row u) xs"
    using b by (auto simp: list_all_iff xs_def splice_in_def Let_def u_def less_SucI dest!: in_set_takeD in_set_dropD)
  note p = plain0_set [OF u(1) this d]
  have "map (rows u) (opt_rows t) = rows_of t" using b by (fastforce simp: u_def rows_of_def)
  then have "map (rows u) xs = splice_in ?i ?v (rows_of t)"
    unfolding xs_def map_splice_in by (simp add: u_def)
  moreover have "insertRow env ps t = redraw env (set_array (opt_data u) xs u)"
    using assms(2) u(3,4) unfolding insertRow_def Let_def u_def [symmetric] xs_def by simp
  ultimately show ?thesis using redraw_plain(1) [OF p] assms(2) by (simp add: rows_of_set)
qed

lemma filter_map_same: "filter P (map f xs) = map f (filter (\<lambda>x. P (f x)) xs)"
  by (induction xs) simp_all

lemma filter_same_length: "length (filter P xs) = length xs \<Longrightarrow> filter P xs = xs"
  by (induction xs) (auto, metis Suc_n_not_le_n length_filter_le)

lemma remove_plain:
  assumes "plain env t" "has_keys [''field'', ''values''] ps"
  shows "\<exists>t'. remove_rows env ps t = Inr t' \<and> plain env t' \<and> rows_of t' = spec (RemoveRows ps) (rows_of t)"
proof -
  define xs where "xs = filter (\<lambda>r. \<not> remove_hit t ps r) (opt_rows t)"
  have s: "spec (RemoveRows ps) (rows_of t) = map (rows t) xs"
    using assms(2) by (simp add: rows_of_def filter_map_same xs_def remove_hit_def Let_def)
  have "list_all (\<lambda>r. r < next_row t) xs" "distinct xs"
    using opt_rows_bound [OF assms(1)] assms(1) by (auto simp: xs_def list_all_iff plain_def plain0_def calm_def)
  note p = plain0_set [OF assms(1) this]
  have r: "remove_rows env ps t = (if length xs = length (opt_rows t) then Inr t else redraw env (set_array (opt_data t) xs t))"
    using assms(2) by (simp add: remove_rows_def Let_def remove_loop_filter xs_def)
  show ?thesis
  proof (cases "length xs = length (opt_rows t)")
    case True
    then have "xs = opt_rows t" using filter_same_length unfolding xs_def by blast
    then show ?thesis using r s assms(1) by (simp add: rows_of_def)
  next
    case False
    then show ?thesis using r s redraw_plain(1) [OF p] by (simp add: rows_of_set)
  qed
qed

lemma removeAll_plain:
  assumes "plain env t"
  shows "\<exists>t'. removeAll env t = Inr t' \<and> plain env t' \<and> rows_of t' = []"
proof (cases "opt_rows t = []")
  case False
  then show ?thesis using redraw_plain(2) [OF plain0_set [OF assms, of "[]"], of True] by (simp add: removeAll_def rows_of_set)
qed (use assms in \<open>simp add: removeAll_def rows_of_def\<close>)

lemma row_at_map: "row_at xs v = map_option (\<lambda>i. xs ! i) (row_at [0..<length xs] v)"
  by (simp add: row_at_def split: jnum.split)

lemma row_at_bound: "row_at [0..<n] v = Some i \<Longrightarrow> i < n"
  by (auto simp: row_at_def split: jnum.splits if_splits)

lemma map_update_distinct:
  "distinct xs \<Longrightarrow> i < length xs \<Longrightarrow> map (f(xs ! i := v)) xs = (map f xs)[i := v]"
  by (rule nth_equalityI) (auto simp: nth_list_update nth_eq_iff_index_eq)

lemma update_row_plain:
  assumes "plain0 env t"
  shows "plain0 env (update_row ps t) \<and> rows_of (update_row ps t) = spec_update ps (rows_of t)"
proof (cases "row_at [0..<length (opt_rows t)] (lookup ps (str ''index''))")
  case None
  then show ?thesis using assms row_at_map [of "opt_rows t"] by (simp add: update_row_def spec_update_def rows_of_def)
next
  case (Some i)
  let ?v = "option_props (lookup ps (str ''row''))"
  have i: "i < length (opt_rows t)" "distinct (opt_rows t)" using row_at_bound [OF Some] assms by (simp_all add: plain0_def calm_def)
  have "update_row ps t = (if has_keys [''index'', ''row''] ps
      then t\<lparr>rows := (rows t)(opt_rows t ! i := jq_extend (rows t (opt_rows t ! i)) ?v)\<rparr> else t)"
    using Some row_at_map [of "opt_rows t" "lookup ps (str ''index'')"] by (simp add: update_row_def extend_row_def)
  moreover have "plain0 env (t\<lparr>rows := f\<rparr>)" for f
    using assms by (auto simp: plain0_def calm_def ready_def client_def wf_table_def table_opt_def plain_header_def opt_rows_def)
  moreover have "rows_of (t\<lparr>rows := (rows t)(opt_rows t ! i := v)\<rparr>) = (rows_of t)[i := v]" for v
    using map_update_distinct [OF i(2,1)] by (simp add: rows_of_def opt_rows_def)
  ultimately show ?thesis using Some i assms by (simp add: spec_update_def rows_of_def [of t])
qed

lemma updateRow_plain:
  assumes "plain env t"
  shows "\<exists>t'. updateRow env pss t = Inr t' \<and> plain env t' \<and> rows_of t' = fold spec_update pss (rows_of t)"
proof -
  have "plain0 env (fold update_row pss u) \<and> rows_of (fold update_row pss u) = fold spec_update pss (rows_of u)"
    if "plain0 env u" for u
    using that update_row_plain by (induction pss arbitrary: u) auto
  then show ?thesis using redraw_plain(3) [of env "fold update_row pss t"] assms by (auto simp: plain_def updateRow_def)
qed

text \<open>
  C1. A table with default behaviour and no search is the list of its rows: \<^verbatim>\<open>load\<close>, \<^verbatim>\<open>append\<close>, \<^verbatim>\<open>prepend\<close>, \<^verbatim>\<open>insertRow\<close>,
  \<^verbatim>\<open>remove\<close>, \<^verbatim>\<open>removeAll\<close> and \<^verbatim>\<open>updateRow\<close> return, do to the rows what the list operation does, and leave the table ready for
  the next method.
\<close>

theorem row_methods_refine:
  assumes "plain env t" "row_method act"
  shows "\<exists>t'. run env act t = Inr t' \<and> plain env t' \<and> rows_of t' = spec act (rows_of t)"
proof (cases act)
  case (Load d)
  then show ?thesis using assms load_plain by (cases d) auto
next
  case (InsertRow ps)
  then show ?thesis using assms insert_plain [OF assms(1), of ps] by (cases "has_keys [''index'', ''row''] ps") (auto simp: insertRow_def)
next
  case (RemoveRows ps)
  then show ?thesis using assms remove_plain [OF assms(1), of ps] by (cases "has_keys [''field'', ''values''] ps") (auto simp: remove_rows_def)
qed (use assms add_plain removeAll_plain updateRow_plain in auto)

text \<open>A table with the default options, two rows and one column, and an engine whose sort turns the rows round.\<close>

definition sample_env :: env where
  "sample_env = \<lparr>globals = [], call = default_call, localeCompare = (\<lambda>s s'. if s = s' then 0 else 1), engine_sort = (\<lambda>cmp xs. Inr (rev xs))\<rparr>"

definition sample_row :: "string \<Rightarrow> props" where
  "sample_row s = [(str ''topic'', S s)]"

definition sample_table :: table where
  "sample_table =
     \<lparr>options = DEFAULTS, pg = sample_pager\<lparr>pagination := False\<rparr>, sortName = Undefined, sortOrder = S ''asc'', searchText = Undefined,
      opt_searchText = JStr [], filterColumns = [], filterColumnsPartial = [],
      hdr = \<lparr>hfields = [S ''topic''], styles = [[]], classes = [[]], formatters = [Undefined], hevents = [Undefined], sorters = [Undefined],
             sortNames = [Undefined], cellStyles = [Undefined], searchables = [JBool True], stateField = Undefined\<rparr>,
      columns = [[(str ''field'', S ''topic''), (str ''visible'', JBool True)]], fromHtml = False,
      rows = (\<lambda>r. if r = 0 then sample_row ''orders'' else sample_row ''users''),
      arrs = (\<lambda>a. if a = 0 then [0, 1] else []), next_row = 2, next_arr = 1, data = 0, opt_data = 0,
      selectItem = [], selectAll = False, body_html = [], scrollTop = 0, ths = 1, search_input = [], loading = False,
      xhr_open = None, requests = [], aborted = 0, events = []\<rparr>"

lemma plain_DEFAULTS: "plain_options DEFAULTS"
proof -
  have "list_all (\<lambda>n. is_fun (lookup DEFAULTS (handler_of n))) (''all'' # raised)"
    using default_handlers by (simp add: list_all_iff)
  moreover have "opt DEFAULTS ''customSearch'' = JFun ''noop''" "opt DEFAULTS ''customSort'' = JFun ''noop''"
    "opt DEFAULTS ''rowStyle'' = JFun ''rowStyle''" "opt DEFAULTS ''rowAttributes'' = JFun ''rowAttributes''"
    "opt DEFAULTS ''formatNoMatches'' = JFun ''formatNoMatches''"
    "opt DEFAULTS ''formatAllRows'' = JFun ''formatAllRows''" "opt DEFAULTS ''detailView'' = JBool False"
    unfolding opt_def default_objects by (simp_all add: lookup_Cons lookup_Nil cong: lookup_key_cong)
  ultimately show ?thesis by (simp add: plain_options_def is_fun_def)
qed

lemma sample_plain: "plain sample_env sample_table"
  using plain_DEFAULTS
  by (auto simp: plain_def plain0_def calm_def sample_env_def sample_table_def plain_header_def ready_def client_def wf_table_def opt_rows_def
      table_opt_def plain_options_def opt_def sample_pager_def position_of_def lookup_Cons lookup_Nil)

theorem row_methods_refine_witness:
  "\<exists>t'. run sample_env (AppendRows (JArr [JObj (sample_row ''bills'')])) sample_table = Inr t' \<and> plain sample_env t' \<and>
     rows_of t' = [sample_row ''orders'', sample_row ''users'', sample_row ''bills'']"
  using row_methods_refine [OF sample_plain, of "AppendRows (JArr [JObj (sample_row ''bills'')])"]
  by (simp add: concat_rows_def option_props_def rows_of_def opt_rows_def sample_table_def del: run.simps)

text \<open>
  C8. Whatever the user and the page do with a table that sorts and searches in the browser, the rows on display are
  rows of the table, none of them more often than it is there, and while nothing is searched or filtered the display and the table
  are the same array.  The engine's sort is assumed to return the elements it was given.
\<close>

theorem reachable_display:
  assumes "reachable env t0 t" "sorts_perm env" "display_inv t0"
  shows "mset (data_rows t) \<subseteq># mset (opt_rows t) \<and> (\<not> truthy (searchText t) \<and> filterColumns t = [] \<longrightarrow> data t = opt_data t)"
proof -
  from assms have "display_inv t"
  proof (induction rule: reachable.induct)
    case (step t act t')
    then show ?case using run_inv by blast
  qed
  then show ?thesis by (simp add: display_inv_def narrowed_def)
qed

theorem reachable_display_witness:
  "\<exists>t. reachable sample_env sample_table t \<and> map (rows t) (data_rows t) = [sample_row ''bills'', sample_row ''users''] \<and>
     mset (data_rows t) \<subseteq># mset (opt_rows t)"
proof -
  let ?cell = "[(str ''index'', JInt 0), (str ''field'', S ''topic''), (str ''value'', S ''bills''), (str ''reinit'', JBool False)]"
  define t where "t = set_field 0 (str ''topic'') (S ''bills'') sample_table"
  have "run sample_env (UpdateCell ?cell) sample_table = Inr t"
    by (simp add: updateCell_def has_keys_def row_at_def lookup_Cons data_rows_def sample_table_def t_def)
  then have r: "reachable sample_env sample_table t" using reachable.step [OF reachable.start] by blast
  have "sorts_perm sample_env" by (simp add: sorts_perm_def sample_env_def)
  moreover have "display_inv sample_table"
    using sample_plain by (auto simp: plain_def plain0_def calm_def ready_def display_inv_def data_rows_def opt_rows_def)
  moreover have "map (rows t) (data_rows t) = [sample_row ''bills'', sample_row ''users'']"
    by (simp add: t_def set_field_def data_rows_def sample_table_def sample_row_def set_prop_def)
  ultimately have "reachable sample_env sample_table t \<and> map (rows t) (data_rows t) = [sample_row ''bills'', sample_row ''users''] \<and>
      mset (data_rows t) \<subseteq># mset (opt_rows t)"
    using reachable_display [OF r] r by simp
  then show ?thesis by (rule exI)
qed

end
