(* ===== verification/TableCorners.thy ===== *)
theory TableCorners
  imports TableSpec
begin

text \<open>
  Filters, and the cases in which a table of \<^verbatim>\<open>bootstrap-table.js\<close> loses track of its rows: a filter with a list of
  values, a row inserted while a filter is active, a sort done while a filter is active, rows without the field
  asked for, and a request that overtakes another.
\<close>

section \<open>Calm tables\<close>

lemma calm_search: "calm env t \<Longrightarrow> initSearch env t = Inr (first_pass t)"
proof -
  assume a: "calm env t"
  have "searchText (first_pass t) = searchText t" by (simp add: first_pass_def new_array_def Let_def)
  then have "search_string (first_pass t) = None" using a by (simp add: calm_def search_string_def)
  then show ?thesis using a unfolding initSearch_def first_pass_def [symmetric] by (simp add: calm_def ready_def client_def Let_def)
qed

lemma first_pass_fields [simp]:
  "options (first_pass t) = options t" "hdr (first_pass t) = hdr t" "columns (first_pass t) = columns t" "pg (first_pass t) = pg t"
  "searchText (first_pass t) = searchText t" "filterColumnsPartial (first_pass t) = filterColumnsPartial t"
  "rows (first_pass t) = rows t" "filterColumns (first_pass t) = filterColumns t" "opt_data (first_pass t) = opt_data t"
  "sortName (first_pass t) = sortName t" "next_row (first_pass t) = next_row t"
  by (simp_all add: first_pass_def new_array_def Let_def)

lemma calm_first_pass: "calm env t \<Longrightarrow> calm env (first_pass t)"
proof -
  assume a: "calm env t"
  then have "wf_table t" by (simp add: calm_def ready_def)
  note f = first_pass_effect [OF this]
  then show ?thesis using a by (auto simp: calm_def ready_def client_def table_opt_def plain_header_def)
qed

lemma calm_like: "like t t' \<Longrightarrow> calm env t \<Longrightarrow> calm env t'"
proof -
  assume a: "like t t'" "calm env t"
  then have "ready t'" using same_data_ready by (auto simp: like_def calm_def)
  then show ?thesis using a by (auto simp: like_def calm_def same_data_def plain_header_def opt_rows_def)
qed

lemma calm_body: "calm env t \<Longrightarrow> \<exists>t'. initBody env fs t = Inr t' \<and> like t t'"
  using initBody_plain by (simp add: calm_def)

lemma calm_paginate: "calm env t \<Longrightarrow> \<exists>t'. paginate env t = Inr t' \<and> like t t'"
  by (simp add: calm_def paginate_def initPagination_def like_def same_data_def)

lemma resetRows_calm: "plain_header t \<Longrightarrow> like t (resetRows t)"
  by (simp add: resetRows_def plain_header_def Let_def)

lemma calm_fire: "calm env t \<Longrightarrow> n \<in> set raised \<Longrightarrow> \<exists>t'. fire env n args t = Inr t' \<and> like t t'"
  using fire_plain by (fastforce simp: calm_def plain_options_def)

lemma calm_update:
  assumes "calm env t"
  shows "\<exists>t'. updatePagination env False t = Inr t' \<and> like t t'"
proof -
  define u where "u = (if truthy (table_opt t ''maintainSelected'') then t else resetRows t)"
  have "like t u" using resetRows_calm assms by (simp add: u_def calm_def)
  note cu = calm_like [OF this assms]
  obtain v where v: "paginate env u = Inr v" "like u v" using calm_paginate [OF cu] by blast
  note cv = calm_like [OF v(2) cu]
  obtain w where w: "initBody env False v = Inr w" "like v w" using calm_body [OF cv] by blast
  note cw = calm_like [OF w(2) cv]
  obtain x where "apply_fun default_call (opt (options w) ''formatAllRows'') [] = Inr x"
    using cw apply_default by (auto simp: calm_def plain_options_def)
  then obtain size where s: "page_size_val env w = Inr size" using cw by (auto simp: page_size_val_def call_text_def calm_def)
  have "''page-change'' \<in> set raised" by (simp add: raised_def)
  then obtain z where z: "fire env ''page-change'' [num_of (pageNumber (pg w)), size] w = Inr z" "like w z"
    using calm_fire [OF cw] by blast
  have "\<not> server_side (pg v)" using cv by (simp add: calm_def ready_def client_def)
  then have "updatePagination env False t = Inr z" using v w s z by (simp add: updatePagination_def u_def)
  moreover have "like t z" using \<open>like t u\<close> v(2) w(2) z(2) like_trans by blast
  ultimately show ?thesis by blast
qed

section \<open>Filters\<close>

definition is_array :: "jsv \<Rightarrow> bool" where
  "is_array v = (case v of JArr _ \<Rightarrow> True | _ \<Rightarrow> False)"

lemma filter_rejects_iff: "filter_rejects item k f \<longleftrightarrow> is_array f \<or> \<not> strict_eq (lookup item k) f"
  by (cases f; cases "lookup item k") (auto simp: filter_rejects_def is_array_def)

lemma passes_filter_iff:
  "passes_filter f item \<longleftrightarrow> \<not> list_ex (\<lambda>(k, v). is_array v) f \<and> list_all (\<lambda>(k, v). strict_eq (lookup item k) v) f"
  by (induction f) (auto simp: passes_filter_def filter_rejects_iff)

lemma data_first_pass:
  "filterColumns t \<noteq> [] \<Longrightarrow> data_rows (first_pass t) = filter (\<lambda>r. passes_filter (filterColumns t) (rows t r)) (opt_rows t)"
  by (simp add: first_pass_def new_array_def data_rows_def Let_def)

text \<open>
  C35. \<^verbatim>\<open>filterBy\<close> with plain values shows exactly the rows that have these values; as soon as one of the values
  is a list, which the code means as a choice of values, it shows no row at all.
\<close>

theorem filterBy_rows:
  assumes "calm env t" "cols \<noteq> []"
  shows "\<exists>t'. filterBy env cols t = Inr t' \<and>
    map (rows t') (getData t' False) =
      (if list_ex (\<lambda>(k, v). is_array v) cols then []
       else filter (\<lambda>item. list_all (\<lambda>(k, v). strict_eq (lookup item k) v) cols) (rows_of t))"
proof -
  define u where "u = t\<lparr>filterColumns := cols, pg := (pg t)\<lparr>pageNumber := Some 1\<rparr>\<rparr>"
  have u: "calm env u"
    using assms(1) by (auto simp: u_def calm_def ready_def client_def wf_table_def table_opt_def plain_header_def opt_rows_def)
  obtain t' where t': "updatePagination env False (first_pass u) = Inr t'" "like (first_pass u) t'"
    using calm_update [OF calm_first_pass [OF u]] by blast
  have "getData t' False = filter (\<lambda>r. passes_filter cols (rows t r)) (opt_rows t)"
    using t'(2) data_first_pass [of u] assms(2)
    by (simp add: getData_def filtered_def like_def same_data_def data_rows_def u_def opt_rows_def)
  moreover have "rows t' = rows t" using t'(2) by (simp add: like_def u_def)
  ultimately have "map (rows t') (getData t' False) = filter (passes_filter cols) (rows_of t)"
    by (simp add: rows_of_def filter_map_same)
  moreover have "filterBy env cols t = Inr t'" using t'(1) calm_search [OF u] by (simp add: filterBy_def u_def)
  ultimately show ?thesis by (auto simp: passes_filter_iff list_ex_iff cong: filter_cong)
qed

lemma sample_calm: "calm sample_env sample_table"
  using sample_plain by (simp add: plain_def plain0_def)

theorem filterBy_rows_witness:
  "(\<exists>t'. filterBy sample_env [(str ''topic'', S ''users'')] sample_table = Inr t' \<and>
      map (rows t') (getData t' False) = [sample_row ''users'']) \<and>
   (\<exists>t'. filterBy sample_env [(str ''topic'', JArr [S ''users'', S ''orders''])] sample_table = Inr t' \<and>
      map (rows t') (getData t' False) = [])"
  using filterBy_rows [OF sample_calm, of "[(str ''topic'', S ''users'')]"]
    filterBy_rows [OF sample_calm, of "[(str ''topic'', JArr [S ''users'', S ''orders''])]"]
  by (simp add: is_array_def rows_of_def opt_rows_def sample_table_def sample_row_def lookup_Cons)

section \<open>Rows inserted under a filter\<close>

lemma calm_redraw:
  assumes "calm env t" "position_of (sortName t) (hfields (hdr t)) = None"
  shows "\<exists>t'. redraw env t = Inr t' \<and> like (first_pass t) t'"
proof -
  obtain v where v: "paginate env (first_pass t) = Inr v" "like (first_pass t) v"
    using calm_paginate [OF calm_first_pass [OF assms(1)]] by blast
  note cv = calm_like [OF v(2) calm_first_pass [OF assms(1)]]
  obtain w where w: "initBody env True v = Inr w" "like v w" using calm_body [OF cv] by blast
  have "initSort env v = Inr v"
    using cv v(2) assms(2) by (simp add: initSort_def calm_def plain_options_def table_opt_def opt_def like_def same_data_def)
  then show ?thesis using v w calm_search [OF assms(1)] like_trans [OF v(2) w(2)] by (simp add: redraw_def)
qed

text \<open>
  C36. A row inserted while a filter is active is lost: \<^verbatim>\<open>insertRow\<close> puts it into the filtered copy, which the search
  that follows replaces, so the rows of the table stay what they were.
\<close>

theorem insert_under_filter_lost:
  assumes "calm env t" "data t \<noteq> opt_data t" "position_of (sortName t) (hfields (hdr t)) = None"
  shows "\<exists>t'. insertRow env params t = Inr t' \<and> rows_of t' = rows_of t"
proof (cases "has_keys [''index'', ''row''] params")
  case True
  let ?i = "integer_of (lookup params (str ''index''))"
  define u where "u = t\<lparr>rows := (rows t)(next_row t := option_props (lookup params (str ''row''))), next_row := Suc (next_row t)\<rparr>"
  define v where "v = set_array (data u) (splice_in ?i (next_row t) (data_rows u)) u"
  have b: "r < next_row t" if "r \<in> set (arrs t a)" for r a using assms(1) that by (auto simp: calm_def ready_def wf_table_def)
  have "ready u" using assms(1) by (auto simp: u_def calm_def ready_def client_def wf_table_def table_opt_def intro: less_SucI)
  moreover have "list_all (\<lambda>r. r < next_row u) (splice_in ?i (next_row t) (data_rows u))"
    using b by (auto simp: list_all_iff splice_in_def Let_def u_def data_rows_def less_SucI dest!: in_set_takeD in_set_dropD)
  ultimately have "ready v" unfolding v_def by (rule set_array_ready)
  then have cv: "calm env v"
    using assms(1,2) by (auto simp: v_def u_def set_array_def calm_def plain_header_def opt_rows_def)
  obtain t' where t': "redraw env v = Inr t'" "like (first_pass v) t'"
    using calm_redraw [OF cv] assms(3) by (auto simp: v_def u_def set_array_def)
  have "insertRow env params t = redraw env v"
    using True unfolding insertRow_def Let_def v_def u_def by simp
  moreover have "opt_rows (first_pass v) = opt_rows v"
    using first_pass_effect(2) cv by (simp add: calm_def ready_def)
  then have "rows_of t' = rows_of v" using t'(2) by (simp add: rows_of_def like_def same_data_def opt_rows_def)
  moreover have "rows_of v = rows_of t"
    using assms(2) b by (fastforce simp: rows_of_def v_def u_def set_array_def opt_rows_def)
  ultimately show ?thesis using t' by simp
qed (use assms in \<open>simp add: insertRow_def\<close>)

definition filtered_table :: table where
  "filtered_table = first_pass (sample_table\<lparr>filterColumns := [(str ''topic'', S ''users'')]\<rparr>)"

lemma filtered_calm: "calm sample_env filtered_table" "data filtered_table \<noteq> opt_data filtered_table" "sortName filtered_table = Undefined"
  "hfields (hdr filtered_table) = [S ''topic'']" "rows_of filtered_table = [sample_row ''orders'', sample_row ''users'']"
proof -
  have "calm sample_env (sample_table\<lparr>filterColumns := [(str ''topic'', S ''users'')]\<rparr>)"
    using sample_calm by (auto simp: calm_def ready_def client_def wf_table_def table_opt_def plain_header_def opt_rows_def)
  then show "calm sample_env filtered_table" unfolding filtered_table_def by (rule calm_first_pass)
qed (simp_all add: filtered_table_def first_pass_def new_array_def sample_table_def rows_of_def opt_rows_def)

theorem insert_under_filter_lost_witness:
  "\<exists>t'. insertRow sample_env [(str ''index'', JInt 0), (str ''row'', JObj (sample_row ''users''))] filtered_table = Inr t' \<and>
     rows_of t' = [sample_row ''orders'', sample_row ''users'']"
  using insert_under_filter_lost [of sample_env filtered_table "[(str ''index'', JInt 0), (str ''row'', JObj (sample_row ''users''))]"]
    filtered_calm by (simp add: position_of_def)

section \<open>Sorts under a filter\<close>

lemma onSort_filtered:
  assumes "sorts_perm env" "data t \<noteq> opt_data t" "\<not> server_side (pg t)" "onSort env f order t = Inr t'"
  shows "opt_rows t' = opt_rows t" "searchText t' = searchText t" "filterColumnsPartial t' = filterColumnsPartial t"
    "opt_data t' = opt_data t" "next_arr t' = next_arr t" "options t' = options t" "pg t' = pg t \<or> server_side (pg t') = server_side (pg t)"
proof -
  define u where "u = (if strict_eq (sortName t) f
      then t\<lparr>sortOrder := (if strict_eq (sortOrder t) (S ''asc'') then S ''desc'' else S ''asc'')\<rparr>
      else t\<lparr>sortName := f, sortOrder := (if strict_eq order (S ''asc'') then S ''desc'' else S ''asc'')\<rparr>)"
  have u: "opt_data u = opt_data t" "data u = data t" "arrs u = arrs t" "searchText u = searchText t" "pg u = pg t"
    "filterColumnsPartial u = filterColumnsPartial t" "next_arr u = next_arr t" "options u = options t" by (simp_all add: u_def)
  obtain v where v: "fire env ''sort'' [sortName u, sortOrder u] u = Inr v"
    and r: "(if server_side (pg v) then initServer env (truthy (table_opt v ''silentSort'')) [] Undefined v
       else ebind (initSort env v) (initBody env False)) = Inr t'"
    using assms(4) unfolding onSort_def Let_def u_def [symmetric] by (elim ebind_InrE)
  note sv = fire_keeps [OF v]
  then have "\<not> server_side (pg v)" using assms(3) u by (simp add: same_data_def)
  with r obtain w where w: "initSort env v = Inr w" "initBody env False w = Inr t'" by (auto elim: ebind_InrE)
  obtain ys where ys: "same_data (set_array (data v) ys v) w" using initSort_effect [OF assms(1) w(1)] by blast
  note sw = initBody_keeps [OF w(2)]
  show "opt_rows t' = opt_rows t" "searchText t' = searchText t" "filterColumnsPartial t' = filterColumnsPartial t"
    "opt_data t' = opt_data t" "next_arr t' = next_arr t" "options t' = options t" "pg t' = pg t \<or> server_side (pg t') = server_side (pg t)"
    using sv ys sw u assms(2) by (auto simp: same_data_def set_array_def opt_rows_def)
qed

text \<open>
  A sort done while a filter is active is lost with the filter: it orders the filtered copy only, so once the
  filter is taken away the rows appear in the order they had before, under a header that says they are sorted.
\<close>

lemma sort_under_filter_lost:
  assumes "sorts_perm env" "display_inv t" "data t \<noteq> opt_data t" "\<not> truthy (searchText t)" "filterColumnsPartial t = []"
    and sort: "onSort env f order t = Inr t1" and unfilter: "filterBy env [] t1 = Inr t2"
  shows "getData t2 False = opt_rows t"
proof -
  have "\<not> server_side (pg t)" using assms(2) by (simp add: display_inv_def client_def)
  note s = onSort_filtered [OF assms(1,3) this sort]
  have "display_inv t1" using onSort_inv [OF assms(1,2) sort] .
  then have "ready t1" by (rule inv_ready)
  define u where "u = t1\<lparr>filterColumns := [], pg := (pg t1)\<lparr>pageNumber := Some 1\<rparr>\<rparr>"
  obtain v where v: "initSearch env u = Inr v" "updatePagination env False v = Inr t2"
    using unfilter unfolding filterBy_def u_def [symmetric] by (elim ebind_InrE)
  have "client u" "wf_table u" using \<open>ready t1\<close> by (auto simp: u_def ready_def client_def wf_table_def table_opt_def)
  note e = initSearch_effect [OF this v(1)]
  then have "opt_rows v = opt_rows t" "searchText v = searchText t" "filterColumns v = []" "filterColumnsPartial v = []"
    using rest_sameD [of u v] s(1,2,3) assms(5) by (simp_all add: u_def opt_rows_def)
  then show ?thesis
    using updatePagination_keeps [OF v(2)] assms(4) by (simp add: getData_def filtered_def same_data_def opt_rows_def)
qed

lemma calm_sort:
  assumes "calm env t" "sorts_perm env" "data t \<noteq> opt_data t" "\<not> truthy (table_opt t ''sortStable'')"
    and engine: "\<And>cmp xs. \<exists>ys. engine_sort env cmp xs = Inr ys"
  shows "\<exists>t'. initSort env t = Inr t' \<and> calm env t'"
proof -
  have "table_opt t ''customSort'' = JFun ''noop''" using assms(1) by (simp add: calm_def plain_options_def table_opt_def opt_def)
  moreover obtain ys where "engine_sort env (sort_compare env t (the (position_of (sortName t) (hfields (hdr t))))) (data_rows t) = Inr ys"
    using engine by blast
  ultimately obtain t' where t': "initSort env t = Inr t'"
    using assms(4) by (cases "position_of (sortName t) (hfields (hdr t))") (auto simp: initSort_def Let_def)
  obtain ys where "t' = t \<or> t' = set_array (data t) ys t"
    using t' assms(4) by (auto simp: initSort_def Let_def elim!: ebind_InrE split: if_splits option.splits)
  moreover have "ready t'" using initSort_ready [OF assms(2) t'] assms(1) by (simp add: calm_def)
  ultimately have "calm env t'" using assms(1,3) by (auto simp: calm_def set_array_def plain_header_def opt_rows_def)
  with t' show ?thesis by blast
qed

lemma calm_onSort:
  assumes "calm env t" "sorts_perm env" "data t \<noteq> opt_data t" "\<not> truthy (table_opt t ''sortStable'')"
    and engine: "\<And>cmp xs. \<exists>ys. engine_sort env cmp xs = Inr ys"
  shows "\<exists>t'. onSort env f order t = Inr t' \<and> calm env t'"
proof -
  define u where "u = (if strict_eq (sortName t) f
      then t\<lparr>sortOrder := (if strict_eq (sortOrder t) (S ''asc'') then S ''desc'' else S ''asc'')\<rparr>
      else t\<lparr>sortName := f, sortOrder := (if strict_eq order (S ''asc'') then S ''desc'' else S ''asc'')\<rparr>)"
  have u: "calm env u" "data u \<noteq> opt_data u" "options u = options t"
    using assms(1,3) by (auto simp: u_def calm_def ready_def client_def wf_table_def table_opt_def plain_header_def opt_rows_def)
  have "''sort'' \<in> set raised" by (simp add: raised_def)
  then obtain v where v: "fire env ''sort'' [sortName u, sortOrder u] u = Inr v" "like u v" using calm_fire [OF u(1)] by blast
  note cv = calm_like [OF v(2) u(1)]
  have "data v \<noteq> opt_data v" "\<not> truthy (table_opt v ''sortStable'')" "\<not> server_side (pg v)"
    using v(2) u assms(4) cv by (simp_all add: like_def same_data_def table_opt_def calm_def ready_def client_def)
  then obtain w x where w: "initSort env v = Inr w" "calm env w" "initBody env False w = Inr x" "like w x"
    using calm_sort [OF cv assms(2) _ _ engine] calm_body by blast
  have "onSort env f order t = Inr x"
    using v w \<open>\<not> server_side (pg v)\<close> unfolding onSort_def Let_def u_def [symmetric] by simp
  then show ?thesis using calm_like [OF w(4,2)] by blast
qed

lemma calm_unfilter:
  assumes "calm env t"
  shows "\<exists>t'. filterBy env [] t = Inr t'"
proof -
  define u where "u = t\<lparr>filterColumns := [], pg := (pg t)\<lparr>pageNumber := Some 1\<rparr>\<rparr>"
  have "calm env u"
    using assms by (auto simp: u_def calm_def ready_def client_def wf_table_def table_opt_def plain_header_def opt_rows_def)
  then show ?thesis using calm_update [OF calm_first_pass] calm_search by (fastforce simp: filterBy_def u_def)
qed

lemma sample_engine: "sorts_perm sample_env" "\<exists>ys. engine_sort sample_env cmp xs = Inr ys"
  by (simp_all add: sorts_perm_def sample_env_def)

lemma filtered_inv: "display_inv filtered_table" "\<not> truthy (table_opt filtered_table ''sortStable'')"
proof -
  have "calm sample_env (sample_table\<lparr>filterColumns := [(str ''topic'', S ''users'')]\<rparr>)"
    using sample_calm by (auto simp: calm_def ready_def client_def wf_table_def table_opt_def plain_header_def opt_rows_def)
  from initSearch_inv [OF _ calm_search [OF this]] this show "display_inv filtered_table"
    unfolding filtered_table_def by (simp add: calm_def)
  have "table_opt filtered_table ''sortStable'' = JBool False"
    by (simp add: filtered_table_def table_opt_def sample_table_def, unfold default_objects, simp add: lookup_Cons lookup_Nil cong: lookup_key_cong)
  then show "\<not> truthy (table_opt filtered_table ''sortStable'')" by simp
qed

lemma sort_under_filter_lost_example:
  "\<exists>t1 t2. onSort sample_env (S ''topic'') (S ''asc'') filtered_table = Inr t1 \<and> filterBy sample_env [] t1 = Inr t2 \<and>
     getData t2 False = [0, 1]"
proof -
  obtain t1 t2 where t: "onSort sample_env (S ''topic'') (S ''asc'') filtered_table = Inr t1" "filterBy sample_env [] t1 = Inr t2"
    using calm_onSort [OF filtered_calm(1) sample_engine(1) filtered_calm(2) filtered_inv(2) sample_engine(2)] calm_unfilter by blast
  have "\<not> truthy (searchText filtered_table)" "filterColumnsPartial filtered_table = []" "opt_rows filtered_table = [0, 1]"
    by (simp_all add: filtered_table_def first_pass_def new_array_def sample_table_def opt_rows_def)
  then show ?thesis
    using sort_under_filter_lost [OF sample_engine(1) filtered_inv(1) filtered_calm(2) _ _ t] t by auto
qed

section \<open>Requests that overtake each other\<close>

lemma abort_open_loading:
  assumes "abort_open env t = Inr t'" "xhr_open t = Some False"
  shows "\<not> loading t' \<and> aborted t' = Suc (aborted t) \<and> requests t' = requests t"
  using assms by (auto simp: abort_open_def load_error_def fire_def elim!: ebind_InrE)

text \<open>
  C37. A table asks the server again while its last visible request is under way: the new request is sent and the old one
  aborted, but aborting runs the old request's error callback, which hides the loading message the new request has just shown.
\<close>

theorem overtaking_request_hides_loading:
  assumes "xhr_open t = Some False" "initServer env False query url t = Inr t'" "requests t' \<noteq> requests t"
  shows "xhr_open t' = Some False \<and> \<not> loading t' \<and> aborted t' = Suc (aborted t)"
proof -
  from assms(2,3) obtain v where u: "abort_open env (t\<lparr>loading := True\<rparr>) = Inr v"
    and t': "xhr_open t' = Some False" "loading t' = loading v" "aborted t' = aborted v"
    unfolding initServer_def Let_def by (elim ebind_InrE) (auto elim!: ebind_InrE split: if_splits)
  then show ?thesis using abort_open_loading [OF u] assms(1) by simp
qed

definition server_table :: table where
  "server_table = sample_table\<lparr>options := jq_extend DEFAULTS [(str ''url'', S ''/topics'')], xhr_open := Some False, loading := True\<rparr>"

lemma server_opt: "table_opt server_table k = (if k = ''url'' then S ''/topics'' else lookup DEFAULTS (str k))"
  by (simp add: server_table_def table_opt_def lookup_set_prop)

lemma server_table_asks: "\<exists>t'. initServer sample_env False [] Undefined server_table = Inr t' \<and> requests t' \<noteq> requests server_table"
proof -
  let ?t = "server_table\<lparr>loading := True\<rparr>"
  have o: "table_opt server_table ''url'' = S ''/topics''" "table_opt server_table ''ajax'' = Undefined"
    "table_opt server_table ''queryParams'' = JFun ''queryParams''" "table_opt server_table ''ajaxOptions'' = JObj []"
    unfolding server_opt default_objects by (simp_all add: lookup_Cons lookup_Nil cong: lookup_key_cong)
  have "list_all (\<lambda>n. is_fun (lookup (options ?t) (handler_of n))) (''all'' # raised)"
  proof -
    have "\<not> handler_key (str ''url'')" by (simp add: handler_key_def str_def)
    then have "handler_of n \<noteq> str ''url''" if "n \<in> set (''all'' # raised)" for n
      using raised_handlers that unfolding list_all_iff by force
    then have "is_fun (lookup (options ?t) (handler_of n))" if "n \<in> set (''all'' # raised)" for n
      using default_handlers [OF that] that by (simp add: server_table_def lookup_set_prop del: set_simps)
    then show ?thesis by (simp add: list_all_iff)
  qed
  then have "list_all (\<lambda>n. is_fun (lookup (options (?t\<lparr>xhr_open := None, aborted := 1\<rparr>)) (handler_of n))) (''all'' # raised)" by simp
  moreover have "''load-error'' \<in> set raised" by (simp add: raised_def)
  ultimately obtain es where "fire sample_env ''load-error'' [JInt 0, JObj [(str ''status'', JInt 0)]] (?t\<lparr>xhr_open := None, aborted := 1\<rparr>) =
      Inr (?t\<lparr>xhr_open := None, aborted := 1, events := es\<rparr>)"
    using fire_plain [of sample_env "?t\<lparr>xhr_open := None, aborted := 1\<rparr>"] by (fastforce simp: sample_env_def)
  then obtain v where v: "abort_open sample_env ?t = Inr v" "requests v = []"
    by (auto simp: abort_open_def load_error_def server_table_def sample_table_def)
  have q: "default_call ''queryParams'' [x] = Inr x" for x by (simp add: default_call_def arg_def)
  have "calculateObjectValue w c (JObj ps) args d = Inr (JObj ps)" for w c ps args d by (simp add: calculateObjectValue_def)
  moreover have "str ''/topics'' \<noteq> []" by (simp add: str_def)
  ultimately show ?thesis using v o q
    by (auto simp: initServer_def calculate_fun Let_def js_or_def server_table_def sample_table_def sample_pager_def sample_env_def table_opt_def)
qed

theorem overtaking_request_hides_loading_witness:
  "\<exists>t'. initServer sample_env False [] Undefined server_table = Inr t' \<and> xhr_open t' = Some False \<and> \<not> loading t'"
  using server_table_asks overtaking_request_hides_loading [of server_table sample_env "[]" Undefined]
  by (auto simp: server_table_def)

section \<open>Rows without the field\<close>

text \<open>
  Identifiers need every row: once the search for an identifier, which starts at the last row, meets a row that neither
  has the identifier's field nor was read from markup, \<^verbatim>\<open>removeByUniqueId\<close> throws, whatever the rows before it are.
\<close>

lemma removeByUniqueId_throws:
  assumes "opt_rows t = xs @ [r]" "to_str (table_opt t ''uniqueId'') \<notin> fst ` set (rows t r)" "lookup (rows t r) (str ''_data'') = Undefined"
  shows "removeByUniqueId env ident t = Inl TypeError"
  using assms by (simp add: removeByUniqueId_def getRowByUniqueId_def row_unique_def)

lemma removeByUniqueId_throws_example: "removeByUniqueId sample_env (S ''7'') sample_table = Inl TypeError"
proof -
  have "table_opt sample_table ''uniqueId'' = Undefined"
    by (simp add: sample_table_def table_opt_def, unfold default_objects, simp add: lookup_Cons lookup_Nil cong: lookup_key_cong)
  then show ?thesis
    using removeByUniqueId_throws [of sample_table "[0]" 1 sample_env "S ''7''"]
    by (simp add: sample_table_def opt_rows_def sample_row_def lookup_Cons lookup_Nil)
qed

end
