(* ===== verification/TableHeader.thy ===== *)
theory TableHeader
  imports TableMethods
begin

text \<open>
  The columns of a table of \<^verbatim>\<open>bootstrap-table.js\<close>: how \<^verbatim>\<open>initTable\<close> reads columns and rows from options and markup,
  the header \<^verbatim>\<open>initHeader\<close> builds from the columns, the toolbar with its menu of columns, and the methods
  that show and hide columns, rows and cells.  Element sizes are not modelled.
\<close>

section \<open>Arrays with holes\<close>

definition set_at :: "'a \<Rightarrow> int \<Rightarrow> 'a \<Rightarrow> 'a list \<Rightarrow> 'a list" where
  "set_at hole i x xs =
     (if i < 0 then xs
      else if nat i < length xs then xs[nat i := x]
      else xs @ replicate (nat i - length xs) hole @ [x])"

section \<open>Deep copies\<close>

text \<open>\<^verbatim>\<open>$.extend(true, target, options)\<close>: objects and arrays are merged, other values replace what was there.\<close>

fun deep_value :: "jsv \<Rightarrow> jsv \<Rightarrow> jsv"
  and deep_extend :: "props \<Rightarrow> props \<Rightarrow> props"
  and deep_list :: "jsv list \<Rightarrow> jsv list \<Rightarrow> jsv list" where
  "deep_value src (JObj ps) = JObj (deep_extend (case src of JObj qs \<Rightarrow> qs | _ \<Rightarrow> []) ps)"
| "deep_value src (JArr vs) = JArr (deep_list (case src of JArr us \<Rightarrow> us | _ \<Rightarrow> []) vs)"
| "deep_value src Undefined = src"
| "deep_value src v = v"
| "deep_extend target [] = target"
| "deep_extend target ((k, v) # ps) =
     deep_extend (if v = Undefined then target else set_prop k (deep_value (lookup target k) v) target) ps"
| "deep_list us [] = us"
| "deep_list [] (v # vs) = deep_value Undefined v # deep_list [] vs"
| "deep_list (u # us) (v # vs) = deep_value u v # deep_list us vs"

section \<open>Columns\<close>

text \<open>A header cell of the page: its markup, its attributes and its data.\<close>

record th_el =
  th_html :: js_string
  th_attrs :: props
  th_data :: props

definition span_number :: "props \<Rightarrow> string \<Rightarrow> jsv" where
  "span_number attributes k =
     (let v = lookup attributes (str k) in if truthy v then JNum (to_num v) else Undefined)"

definition th_column :: "th_el \<Rightarrow> props" where
  "th_column th =
     (let field = lookup (th_data th) (str ''field'');
          d = (if field = Undefined then th_data th else set_prop (str ''field'') (JStr (to_str field)) (th_data th))
      in jq_extend
           (jq_extend []
              [(str ''title'', JStr (th_html th)), (str ''class'', lookup (th_attrs th) (str ''class'')),
               (str ''titleTooltip'', lookup (th_attrs th) (str ''title'')),
               (str ''rowspan'', span_number (th_attrs th) ''rowspan''),
               (str ''colspan'', span_number (th_attrs th) ''colspan'')])
           d)"

text \<open>\<^verbatim>\<open>options.columns\<close> as header rows: a list of columns is one row.\<close>

definition column_rows :: "jsv list \<Rightarrow> jsv list" where
  "column_rows cs = (case cs of JArr _ # _ \<Rightarrow> cs | _ \<Rightarrow> [JArr cs])"

definition merged_columns :: "th_el list list \<Rightarrow> jsv list \<Rightarrow> props list list" where
  "merged_columns thead cs =
     map (\<lambda>row. case row of JArr vs \<Rightarrow> map option_props vs | _ \<Rightarrow> [])
       (deep_list (map (\<lambda>row. JArr (map (\<lambda>th. JObj (th_column th)) row)) thead) (column_rows cs))"

text \<open>The spans of a column are natural numbers; 0 stands for a missing one.\<close>

definition span_nat :: "props \<Rightarrow> string \<Rightarrow> nat" where
  "span_nat c k = (case lookup c (str k) of JNum (Fin x) \<Rightarrow> nat \<lfloor>x\<rfloor> | _ \<Rightarrow> 0)"

definition cell_of :: "props \<Rightarrow> hcell" where
  "cell_of c = \<lparr>rowspan = span_nat c ''rowspan'', colspan = span_nat c ''colspan'',
     cell_field = lookup c (str ''field''), fieldIndex = None\<rparr>"

definition with_cell :: "props \<Rightarrow> hcell \<Rightarrow> props" where
  "with_cell c h =
     (case fieldIndex h of
        None \<Rightarrow> c
      | Some i \<Rightarrow>
          (let c = set_prop (str ''fieldIndex'') (JInt i) c
           in if lookup c (str ''field'') = Undefined then set_prop (str ''field'') (cell_field h) c else c))"

text \<open>
  \<^verbatim>\<open>this.columns\<close> holds a column with a field index at that index, the same object as in \<^verbatim>\<open>options.columns\<close>.
  \<open>Shared\<close> is such a column, \<open>Own\<close> one that is only in \<^verbatim>\<open>options.columns\<close>.
\<close>

datatype hcol = Shared nat | Own props

definition index_of_column :: "props \<Rightarrow> int option" where
  "index_of_column c = (case lookup c (str ''fieldIndex'') of JNum (Fin x) \<Rightarrow> Some \<lfloor>x\<rfloor> | _ \<Rightarrow> None)"

definition put_column :: "props \<Rightarrow> props option list \<Rightarrow> props option list" where
  "put_column c cs = (case index_of_column c of None \<Rightarrow> cs | Some i \<Rightarrow> set_at None i (Some c) cs)"

fun share_row :: "props list \<Rightarrow> props list \<Rightarrow> hcol list" where
  "share_row [] later = []"
| "share_row (c # cs) later =
     (case index_of_column c of
        Some i \<Rightarrow> if i \<ge> 0 \<and> Some i \<notin> set (map index_of_column (cs @ later)) then Shared (nat i) else Own c
      | None \<Rightarrow> Own c) # share_row cs later"

fun share_rows :: "props list list \<Rightarrow> hcol list list" where
  "share_rows [] = []"
| "share_rows (r # rs) = share_row r (concat rs) # share_rows rs"

definition initColumns :: "th_el list list \<Rightarrow> jsv list \<Rightarrow> js_error + (props option list \<times> hcol list list)" where
  "initColumns thead cs =
     (let g = merged_columns thead cs in
      ebind (setFieldIndex (map (map cell_of) g)) (\<lambda>hs.
      let g = map2 (map2 (\<lambda>c h. jq_extend (jq_extend [] COLUMN_DEFAULTS) (with_cell c h))) g hs
      in Inr (fold put_column (concat g) [], share_rows g)))"

section \<open>Rows in the markup\<close>

record td_el =
  td_html :: js_string
  td_attrs :: props
  td_data :: props

record tr_el =
  tr_attrs :: props
  tr_data :: props
  tr_cells :: "td_el list"

text \<open>The turns of a loop up to a span: \<^verbatim>\<open>+attr || 1\<close>; an infinite span makes the loop endless.\<close>

definition span_attr :: "props \<Rightarrow> string \<Rightarrow> js_error + nat" where
  "span_attr attributes k =
     (case to_num (lookup attributes (str k)) of
        NaN \<Rightarrow> Inr 1
      | Fin x \<Rightarrow> Inr (if x = 0 then 1 else nat \<lceil>x\<rceil>)
      | NegInf \<Rightarrow> Inr 0
      | PosInf \<Rightarrow> Inl OutOfFuel)"

definition taken_at :: "bool list list \<Rightarrow> nat \<Rightarrow> nat \<Rightarrow> bool" where
  "taken_at m y x \<longleftrightarrow> y < length m \<and> x < length (m ! y) \<and> m ! y ! x"

definition take_cell :: "nat \<Rightarrow> nat \<Rightarrow> bool list list \<Rightarrow> bool list list" where
  "take_cell ty tx m =
     set_at [] (int ty) (set_at False (int tx) True (if ty < length m then m ! ty else [])) m"

definition skip_taken :: "bool list list \<Rightarrow> nat \<Rightarrow> nat \<Rightarrow> nat" where
  "skip_taken m y x = x + length (takeWhile (\<lambda>b. b) (drop x (if y < length m then m ! y else [])))"

definition take_block :: "nat \<Rightarrow> nat \<Rightarrow> nat \<Rightarrow> nat \<Rightarrow> bool list list \<Rightarrow> bool list list" where
  "take_block y x rspan cspan m = fold (\<lambda>tx. fold (\<lambda>ty. take_cell ty tx) [y..<y + rspan]) [x..<x + cspan] m"

definition td_props :: "jsv \<Rightarrow> td_el \<Rightarrow> props \<Rightarrow> props" where
  "td_props field td row =
     fold (\<lambda>(k, v). set_prop k v)
       [(to_str field, JStr (td_html td)),
        (cell_key field ''_id'', lookup (td_attrs td) (str ''id'')),
        (cell_key field ''_class'', lookup (td_attrs td) (str ''class'')),
        (cell_key field ''_rowspan'', lookup (td_attrs td) (str ''rowspan'')),
        (cell_key field ''_colspan'', lookup (td_attrs td) (str ''colspan'')),
        (cell_key field ''_title'', lookup (td_attrs td) (str ''title'')),
        (cell_key field ''_data'', JObj (getRealDataAttr (td_data td)))] row"

text \<open>\<open>x\<close> is the number of the cell in its row, \<open>y\<close> the number of the row.\<close>

fun read_cells ::
  "props option list \<Rightarrow> nat \<Rightarrow> nat \<Rightarrow> td_el list \<Rightarrow> bool list list \<Rightarrow> props \<Rightarrow> js_error + (bool list list \<times> props)" where
  "read_cells cols y x [] m row = Inr (m, row)"
| "read_cells cols y x (td # tds) m row =
     ebind (span_attr (td_attrs td) ''colspan'') (\<lambda>cspan.
     ebind (span_attr (td_attrs td) ''rowspan'') (\<lambda>rspan.
     let x' = skip_taken m y x; m = take_block y x' rspan cspan m
     in ebind (deref (if x' < length cols then cols ! x' else None)) (\<lambda>c.
        read_cells cols y (Suc x) tds m (td_props (lookup c (str ''field'')) td row))))"

fun read_rows :: "props option list \<Rightarrow> nat \<Rightarrow> tr_el list \<Rightarrow> bool list list \<Rightarrow> js_error + props list" where
  "read_rows cols y [] m = Inr []"
| "read_rows cols y (tr # trs) m =
     ebind (read_cells cols y 0 (tr_cells tr) m
              [(str ''_id'', lookup (tr_attrs tr) (str ''id'')), (str ''_class'', lookup (tr_attrs tr) (str ''class'')),
               (str ''_data'', JObj (getRealDataAttr (tr_data tr)))]) (\<lambda>(m, row).
     ebind (read_rows cols (Suc y) trs m) (\<lambda>rs. Inr (row # rs)))"

text \<open>
  \<^verbatim>\<open>initTable\<close>: the columns, the header rows, and the rows read from the markup when the options bring none
  (\<open>None\<close>: the data of the options stay).
\<close>

definition initTable ::
  "th_el list list \<Rightarrow> jsv list \<Rightarrow> nat \<Rightarrow> tr_el list \<Rightarrow>
   js_error + (props option list \<times> hcol list list \<times> props list option)" where
  "initTable thead cs option_rows tbody =
     ebind (initColumns thead cs) (\<lambda>(cols, g).
     if option_rows > 0 then Inr (cols, g, None)
     else ebind (read_rows cols 0 tbody []) (\<lambda>rs. Inr (cols, g, Some rs)))"

section \<open>The header\<close>

text \<open>
  A cell of the header: the \<^verbatim>\<open>data-field\<close> attribute, the data copied from its column, and the classes of
  its inner element, which has \<^verbatim>\<open>sortable\<close> when a click sorts.
\<close>

record hth =
  hth_field :: jsv
  hth_column :: props
  hth_sortable :: bool
  hth_classes :: "js_string list"

text \<open>A box of the menu of columns: its value (the index of the column), whether it is checked and disabled.\<close>

record citem =
  ci_index :: nat
  ci_checked :: bool
  ci_disabled :: bool

record widget =
  tab :: table
  grid :: "hcol list list"
  head_html :: js_string
  head_cells :: "hth list"
  head_shown :: bool
  toolbar_html :: js_string
  menu :: "citem list"

definition col_prop :: "props \<Rightarrow> string \<Rightarrow> jsv" where
  "col_prop c k = lookup c (str k)"

definition column_of :: "table \<Rightarrow> hcol \<Rightarrow> props" where
  "column_of t c = (case c of Shared i \<Rightarrow> columns t ! i | Own p \<Rightarrow> p)"

definition replace_first :: "js_string \<Rightarrow> string \<Rightarrow> js_string" where
  "replace_first s p =
     (let i = index_of s (str p) in if i < 0 then s else take (nat i) s @ drop (nat i + length p) s)"

definition unit_width :: "bool \<Rightarrow> jsv \<Rightarrow> js_string" where
  "unit_width cardView w =
     (case w of JStr s \<Rightarrow> if \<not> cardView \<and> index_of s (str ''%'') \<noteq> - 1 then str ''%'' else str ''px'' | _ \<Rightarrow> str ''px'')"

definition plain_width :: "jsv \<Rightarrow> jsv" where
  "plain_width w = (case w of JStr s \<Rightarrow> JStr (replace_first (replace_first s ''%'') ''px'') | _ \<Rightarrow> w)"

definition is_box :: "props \<Rightarrow> bool" where
  "is_box c \<longleftrightarrow> truthy (col_prop c ''checkbox'') \<or> truthy (col_prop c ''radio'')"

definition width_style :: "bool \<Rightarrow> props \<Rightarrow> js_string" where
  "width_style cardView c =
     (let w = plain_width (col_prop c ''width'') in
      sprintf (str ''width: %s; '')
        [if is_box c \<and> \<not> truthy w then S ''36px''
         else if truthy w then JStr (to_str w @ unit_width cardView (col_prop c ''width'')) else Undefined])"

definition column_style :: "bool \<Rightarrow> props \<Rightarrow> js_string" where
  "column_style cardView c = sprintf (str ''vertical-align: %s; '') [col_prop c ''valign''] @ width_style cardView c"

definition column_align :: "jsv \<Rightarrow> js_string" where
  "column_align v = sprintf (str ''text-align: %s; '') [v]"

definition column_class :: "props \<Rightarrow> js_string" where
  \<open>column_class c = sprintf (str '' class="%s"'') [col_prop c ''class'']\<close>

definition empty_header :: header where
  "empty_header = \<lparr>hfields = [], styles = [], classes = [], formatters = [], hevents = [], sorters = [], sortNames = [],
     cellStyles = [], searchables = [], stateField = Undefined\<rparr>"

definition header_slot :: "bool \<Rightarrow> int \<Rightarrow> props \<Rightarrow> header \<Rightarrow> header" where
  "header_slot cardView i c h =
     h\<lparr>hfields := set_at Undefined i (col_prop c ''field'') (hfields h),
       styles := set_at [] i (column_align (col_prop c ''align'') @ column_style cardView c) (styles h),
       classes := set_at [] i (column_class c) (classes h),
       formatters := set_at Undefined i (col_prop c ''formatter'') (formatters h),
       hevents := set_at Undefined i (col_prop c ''events'') (hevents h),
       sorters := set_at Undefined i (col_prop c ''sorter'') (sorters h),
       sortNames := set_at Undefined i (col_prop c ''sortName'') (sortNames h),
       cellStyles := set_at Undefined i (col_prop c ''cellStyle'') (cellStyles h),
       searchables := set_at Undefined i (col_prop c ''searchable'') (searchables h)\<rparr>"

definition column_shown :: "bool \<Rightarrow> props \<Rightarrow> bool" where
  "column_shown cardView c \<longleftrightarrow> truthy (col_prop c ''visible'') \<and> (cardView \<longrightarrow> truthy (col_prop c ''cardVisible''))"

definition piece :: "jsv \<Rightarrow> js_string" where
  "piece v = (if v = Undefined \<or> v = JNull then [] else to_str v)"

definition header_text :: "props \<Rightarrow> props \<Rightarrow> js_string" where
  \<open>header_text os c =
     (if truthy (col_prop c ''radio'') then []
      else if truthy (col_prop c ''checkbox'') \<and> \<not> truthy (opt os ''singleSelect'') \<and> truthy (opt os ''checkboxHeader'')
      then str ''<input name="btSelectAll" type="checkbox" />''
      else piece (col_prop c ''title''))\<close>

definition sorts :: "props \<Rightarrow> props \<Rightarrow> bool" where
  "sorts os c \<longleftrightarrow> truthy (opt os ''sortable'') \<and> truthy (col_prop c ''sortable'')"

definition th_markup :: "props \<Rightarrow> props \<Rightarrow> js_string" where
  \<open>th_markup os c =
     str ''<th'' @ sprintf (str '' title="%s"'') [col_prop c ''titleTooltip''] @
     (if is_box c then sprintf (str '' class="bs-checkbox %s"'') [js_or (col_prop c ''class'') (JStr [])] else column_class c) @
     sprintf (str '' style="%s"'')
       [JStr (column_align (if truthy (col_prop c ''halign'') then col_prop c ''halign'' else col_prop c ''align'') @
              column_style (truthy (opt os ''cardView'')) c)] @
     sprintf (str '' rowspan="%s"'') [col_prop c ''rowspan''] @
     sprintf (str '' colspan="%s"'') [col_prop c ''colspan''] @
     sprintf (str '' data-field="%s"'') [col_prop c ''field''] @
     str ''tabindex='' @ [39, 48, 39] @ str ''>'' @
     sprintf (str ''<div class="th-inner %s">'') [if sorts os c then S ''sortable both'' else JStr []] @
     header_text os c @ str ''</div>'' @ str ''<div class="fht-cell"></div>'' @ str ''</div>'' @ str ''</th>''\<close>

text \<open>
  One column of \<^verbatim>\<open>initHeader\<close>: the arrays of the header, the state field and \<^verbatim>\<open>singleSelect\<close>, the markup, the
  cells and \<^verbatim>\<open>visibleColumns\<close>.  A hidden column with a field index only fills the arrays.
\<close>

record hbuild =
  hb_tab :: table
  hb_html :: js_string
  hb_cells :: "hth list"
  hb_visible :: "(js_string \<times> props) list"

definition set_state_field :: "props \<Rightarrow> table \<Rightarrow> table" where
  "set_state_field c t =
     (let t = (if is_box c then t\<lparr>hdr := (hdr t)\<lparr>stateField := col_prop c ''field''\<rparr>\<rparr> else t)
      in if truthy (col_prop c ''radio'') then t\<lparr>options := set_prop (str ''singleSelect'') (JBool True) (options t)\<rparr> else t)"

definition header_column :: "hcol \<Rightarrow> hbuild \<Rightarrow> hbuild" where
  "header_column hc b =
     (let t = hb_tab b; c = column_of t hc; cardView = truthy (table_opt t ''cardView'');
          t' = (case index_of_column c of None \<Rightarrow> t | Some i \<Rightarrow> t\<lparr>hdr := header_slot cardView i c (hdr t)\<rparr>)
      in if index_of_column c \<noteq> None \<and> \<not> column_shown cardView c then b\<lparr>hb_tab := t'\<rparr>
         else
           b\<lparr>hb_tab := set_state_field c t',
             hb_html := hb_html b @ th_markup (options t) c,
             hb_cells := hb_cells b @ [\<lparr>hth_field = col_prop c ''field'', hth_column = [], hth_sortable = sorts (options t) c,
                                        hth_classes = (if sorts (options t) c then [str ''both''] else [])\<rparr>],
             hb_visible := (if index_of_column c = None then hb_visible b
                            else (to_str (col_prop c ''field''), c) # hb_visible b)\<rparr>)"

definition detail_th :: "nat \<Rightarrow> js_string" where
  \<open>detail_th n = sprintf (str ''<th class="detail" rowspan="%s"><div class="fht-cell"></div></th>'') [JInt (int n)]\<close>

definition header_row :: "nat \<Rightarrow> nat \<Rightarrow> hcol list \<Rightarrow> hbuild \<Rightarrow> hbuild" where
  "header_row n i cs b =
     (let os = options (hb_tab b);
          b = b\<lparr>hb_html := hb_html b @ str ''<tr>''\<rparr>;
          b = (if i = 0 \<and> \<not> truthy (opt os ''cardView'') \<and> truthy (opt os ''detailView'')
               then b\<lparr>hb_html := hb_html b @ detail_th n,
                      hb_cells := hb_cells b @ [\<lparr>hth_field = Undefined, hth_column = [], hth_sortable = False, hth_classes = []\<rparr>]\<rparr>
               else b);
          b = fold header_column cs b
      in b\<lparr>hb_html := hb_html b @ str ''</tr>''\<rparr>)"

fun header_rows :: "nat \<Rightarrow> nat \<Rightarrow> hcol list list \<Rightarrow> hbuild \<Rightarrow> hbuild" where
  "header_rows n i [] b = b"
| "header_rows n i (cs # css) b = header_rows n (Suc i) css (header_row n i cs b)"

definition fill_cell :: "(js_string \<times> props) list \<Rightarrow> hth \<Rightarrow> hth" where
  "fill_cell vis th =
     (if hth_field th = Undefined then th
      else case map_of vis (to_str (hth_field th)) of None \<Rightarrow> th | Some c \<Rightarrow> th\<lparr>hth_column := c\<rparr>)"

definition th_field :: "hth \<Rightarrow> jsv" where
  "th_field th = (if hth_column th = [] then hth_field th else col_prop (hth_column th) ''field'')"

definition caret_classes :: "table \<Rightarrow> hth \<Rightarrow> js_string list" where
  "caret_classes t th =
     (let cs = filter (\<lambda>c. c \<noteq> str ''desc'' \<and> c \<noteq> str ''asc'') (hth_classes th);
          c = (if strict_eq (th_field th) (sortName t) then to_str (sortOrder t) else str ''both'')
      in if c \<in> set cs then cs else cs @ [c])"

definition getCaret :: "widget \<Rightarrow> widget" where
  "getCaret w = w\<lparr>head_cells := map (\<lambda>th. if hth_sortable th then th\<lparr>hth_classes := caret_classes (tab w) th\<rparr> else th) (head_cells w)\<rparr>"

definition initHeader :: "widget \<Rightarrow> widget" where
  "initHeader w =
     (let b = header_rows (length (grid w)) 0 (grid w)
                \<lparr>hb_tab = (tab w)\<lparr>hdr := empty_header\<rparr>, hb_html = [], hb_cells = [], hb_visible = []\<rparr>;
          t = (hb_tab b)\<lparr>ths := length (hb_cells b), selectAll := False\<rparr>;
          shown = (truthy (table_opt t ''showHeader'') \<and> \<not> truthy (table_opt t ''cardView''));
          w = w\<lparr>tab := t, head_html := hb_html b, head_cells := map (fill_cell (hb_visible b)) (hb_cells b), head_shown := shown\<rparr>
      in if shown then getCaret w else w)"

text \<open>A click on the text of a header cell, or Enter on the cell (\<^verbatim>\<open>keypress\<close> with code 13).\<close>

definition header_click :: "env \<Rightarrow> nat \<Rightarrow> widget \<Rightarrow> js_error + widget" where
  "header_click env k w =
     (if k < length (head_cells w) then
        (let th = head_cells w ! k in
         if truthy (table_opt (tab w) ''sortable'') \<and> truthy (col_prop (hth_column th) ''sortable'') then
           ebind (onSort env (th_field th) (col_prop (hth_column th) ''order'') (tab w)) (\<lambda>t.
           Inr (getCaret (w\<lparr>tab := t, head_cells := (head_cells w)[k := th\<lparr>hth_column := set_prop (str ''order'') (sortOrder t) (hth_column th)\<rparr>]\<rparr>)))
         else Inr w)
      else Inr w)"

section \<open>The toolbar\<close>

definition at_most :: "nat \<Rightarrow> jsv \<Rightarrow> bool" where
  "at_most n v = (case to_num v of Fin x \<Rightarrow> of_nat n \<le> x | PosInf \<Rightarrow> True | _ \<Rightarrow> False)"

definition button_classes :: "table \<Rightarrow> js_string" where
  "button_classes t =
     sprintf (str '' btn-%s'') [table_opt t ''buttonsClass''] @ sprintf (str '' btn-%s'') [table_opt t ''iconSize'']"

definition icon_markup :: "table \<Rightarrow> string \<Rightarrow> js_error + js_string" where
  \<open>icon_markup t icon =
     ebind (get_prop (table_opt t ''icons'') (str icon)) (\<lambda>i.
     Inr (sprintf (str ''<i class="%s %s"></i>'') [table_opt t ''iconsPrefix'', i]))\<close>

definition toolbar_button :: "env \<Rightarrow> table \<Rightarrow> string \<Rightarrow> string \<Rightarrow> string \<Rightarrow> string \<Rightarrow> js_error + js_string list" where
  \<open>toolbar_button env t show name title icon =
     (if truthy (table_opt t show) then
        ebind (apply_fun (call env) (table_opt t title) []) (\<lambda>label.
        ebind (icon_markup t icon) (\<lambda>i.
        Inr [sprintf (str ''<button class="btn'' @ button_classes t @ str ''" type="button" name="'' @ str name @ str ''" title="%s">'') [label],
             i, str ''</button>'']))
      else Inr [])\<close>

text \<open>The entry of a column: nothing when its field or its title is undefined.\<close>

definition menu_entry :: "nat \<Rightarrow> props \<Rightarrow> js_string" where
  \<open>menu_entry i c =
     sprintf (str ''<li>'' @ str ''<label><input type="checkbox" data-field="%s" value="%s"%s> %s</label>'' @ str ''</li>'')
       [col_prop c ''field'', JInt (int i), if truthy (col_prop c ''visible'') then S '' checked="checked"'' else JStr [],
        col_prop c ''title'']\<close>

definition switchable_columns :: "table \<Rightarrow> nat list" where
  "switchable_columns t =
     filter (\<lambda>i. let c = columns t ! i in
               \<not> is_box c \<and> \<not> (truthy (table_opt t ''cardView'') \<and> \<not> truthy (col_prop c ''cardVisible'')) \<and>
               truthy (col_prop c ''switchable'')) [0..<length (columns t)]"

definition menu_items :: "table \<Rightarrow> citem list" where
  "menu_items t =
     (if truthy (table_opt t ''showColumns'')
      then map (\<lambda>i. \<lparr>ci_index = i, ci_checked = truthy (col_prop (columns t ! i) ''visible''),
                       ci_disabled = at_most (length (switchable_columns t)) (table_opt t ''minimumCountColumns'')\<rparr>)
             (filter (\<lambda>i. menu_entry i (columns t ! i) \<noteq> []) (switchable_columns t))
      else [])"

definition columns_menu :: "env \<Rightarrow> table \<Rightarrow> js_error + js_string list" where
  \<open>columns_menu env t =
     (if truthy (table_opt t ''showColumns'') then
        ebind (apply_fun (call env) (table_opt t ''formatColumns'') []) (\<lambda>label.
        ebind (icon_markup t ''columns'') (\<lambda>i.
        Inr ([sprintf (str ''<div class="keep-open btn-group" title="%s">'') [label],
              str ''<button type="button" class="btn'' @ button_classes t @ str '' dropdown-toggle" data-toggle="dropdown">'',
              i, str '' <span class="caret"></span>'', str ''</button>'', str ''<ul class="dropdown-menu" role="menu">''] @
             map (\<lambda>i. menu_entry i (columns t ! i)) (switchable_columns t) @ [str ''</ul>'', str ''</div>''])))
      else Inr [])\<close>

definition search_box :: "env \<Rightarrow> table \<Rightarrow> js_error + js_string" where
  \<open>search_box env t =
     (if truthy (table_opt t ''search'') then
        ebind (apply_fun (call env) (table_opt t ''formatSearch'') []) (\<lambda>label.
        Inr (str ''<div class="pull-'' @ to_str (table_opt t ''searchAlign'') @ str '' search">'' @
             sprintf (str ''<input class="form-control'' @ sprintf (str '' input-%s'') [table_opt t ''iconSize''] @
                      str ''" type="text" placeholder="%s">'') [label] @ str ''</div>''))
      else Inr [])\<close>

text \<open>
  \<^verbatim>\<open>initToolbar\<close>.  The buttons are shown when there is one; the boxes of the menu are disabled when there
  are at most \<^verbatim>\<open>minimumCountColumns\<close> columns to switch.
\<close>

definition initToolbar :: "env \<Rightarrow> widget \<Rightarrow> js_error + widget" where
  \<open>initToolbar env w =
     (let t = tab w;
          bars = (case table_opt t ''toolbar'' of Undefined \<Rightarrow> [] | JBool _ \<Rightarrow> [] | JNum _ \<Rightarrow> [] | JFun _ \<Rightarrow> []
                  | _ \<Rightarrow> str ''<div class="bs-bars text-left"></div>'')
      in ebind (case table_opt t ''icons'' of
                  JStr _ \<Rightarrow> ebind (calculateObjectValue (globals env) (call env) (table_opt t ''icons'') [] Undefined) (\<lambda>v.
                    Inr (t\<lparr>options := set_prop (str ''icons'') v (options t)\<rparr>))
                | _ \<Rightarrow> Inr t) (\<lambda>t.
         ebind (toolbar_button env t ''showPaginationSwitch'' ''paginationSwitch'' ''formatPaginationSwitch'' ''paginationSwitchDown'') (\<lambda>h1.
         ebind (toolbar_button env t ''showRefresh'' ''refresh'' ''formatRefresh'' ''refresh'') (\<lambda>h2.
         ebind (toolbar_button env t ''showToggle'' ''toggle'' ''formatToggle'' ''toggle'') (\<lambda>h3.
         ebind (columns_menu env t) (\<lambda>h4.
         ebind (search_box env t) (\<lambda>search.
         let html = [sprintf (str ''<div class="columns columns-%s btn-group pull-%s">'')
                       [table_opt t ''buttonsAlign'', table_opt t ''buttonsAlign'']] @ h1 @ h2 @ h3 @ h4 @ [str ''</div>'']
         in Inr (w\<lparr>tab := t, toolbar_html := bars @ (if length html > 2 then concat html else []) @ search, menu := menu_items t\<rparr>))))))))\<close>

text \<open>A key in the search box: whether the search is put off again, to be made after \<^verbatim>\<open>searchTimeOut\<close>.\<close>

definition search_key :: "table \<Rightarrow> nat \<Rightarrow> bool" where
  "search_key t keyCode \<longleftrightarrow>
     \<not> (truthy (table_opt t ''searchOnEnterKey'') \<and> keyCode \<noteq> 13) \<and> keyCode \<notin> {37, 38, 39, 40}"

section \<open>Showing and hiding columns\<close>

definition checked_items :: "citem list \<Rightarrow> nat" where
  "checked_items xs = length (filter ci_checked xs)"

text \<open>All boxes are enabled; when too few are checked, the checked ones are disabled.\<close>

definition guard_items :: "jsv \<Rightarrow> citem list \<Rightarrow> citem list" where
  "guard_items minimum xs =
     map (\<lambda>x. x\<lparr>ci_disabled := ci_checked x \<and> at_most (checked_items xs) minimum\<rparr>) xs"

definition check_item :: "nat \<Rightarrow> bool \<Rightarrow> citem list \<Rightarrow> citem list" where
  "check_item i b xs = map (\<lambda>x. if ci_index x = i then x\<lparr>ci_checked := b\<rparr> else x) xs"

definition set_visible :: "nat \<Rightarrow> bool \<Rightarrow> table \<Rightarrow> table" where
  "set_visible i b t = t\<lparr>columns := (columns t)[i := set_prop (str ''visible'') (JBool b) (columns t ! i)]\<rparr>"

definition redraw_all :: "env \<Rightarrow> widget \<Rightarrow> js_error + widget" where
  "redraw_all env w =
     (let w = initHeader w in
      ebind (initSearch env (tab w)) (\<lambda>t. ebind (paginate env t) (\<lambda>t. ebind (initBody env False t) (\<lambda>t. Inr (w\<lparr>tab := t\<rparr>)))))"

definition toggleColumn :: "env \<Rightarrow> int \<Rightarrow> bool \<Rightarrow> bool \<Rightarrow> widget \<Rightarrow> js_error + widget" where
  "toggleColumn env index checked needUpdate w =
     (if index = - 1 then Inr w
      else if index < 0 \<or> nat index \<ge> length (columns (tab w)) then Inl TypeError
      else
        ebind (redraw_all env (w\<lparr>tab := set_visible (nat index) checked (tab w)\<rparr>)) (\<lambda>w.
        Inr (if truthy (table_opt (tab w) ''showColumns'')
             then w\<lparr>menu := guard_items (table_opt (tab w) ''minimumCountColumns'')
                      (if needUpdate then check_item (nat index) checked (menu w) else menu w)\<rparr>
             else w)))"

definition showColumn :: "env \<Rightarrow> jsv \<Rightarrow> widget \<Rightarrow> js_error + widget" where
  "showColumn env field w = toggleColumn env (getFieldIndex (columns (tab w)) field) True True w"

definition hideColumn :: "env \<Rightarrow> jsv \<Rightarrow> widget \<Rightarrow> js_error + widget" where
  "hideColumn env field w = toggleColumn env (getFieldIndex (columns (tab w)) field) False True w"

text \<open>
  A click on a box of the menu.  The browser ignores it when the box is disabled and otherwise changes the box
  before the handler runs.
\<close>

definition menu_click :: "env \<Rightarrow> nat \<Rightarrow> widget \<Rightarrow> js_error + widget" where
  "menu_click env k w =
     (if k < length (menu w) \<and> \<not> ci_disabled (menu w ! k) then
        (let i = ci_index (menu w ! k); b = (\<not> ci_checked (menu w ! k)) in
         ebind (toggleColumn env (int i) b False (w\<lparr>menu := (menu w)[k := (menu w ! k)\<lparr>ci_checked := b\<rparr>]\<rparr>)) (\<lambda>w.
         ebind (fire env ''column-switch'' [col_prop (columns (tab w) ! i) ''field'', JBool b] (tab w)) (\<lambda>t.
         Inr (w\<lparr>tab := t\<rparr>))))
      else Inr w)"

definition getHiddenColumns :: "table \<Rightarrow> props list" where
  "getHiddenColumns t = filter (\<lambda>c. \<not> truthy (col_prop c ''visible'')) (columns t)"

definition getVisibleColumns :: "table \<Rightarrow> props list" where
  "getVisibleColumns t = filter (\<lambda>c. truthy (col_prop c ''visible'')) (columns t)"

text \<open>
  \<^verbatim>\<open>toggleAllColumns\<close>: in the callback of \<^verbatim>\<open>$.each\<close>, \<^verbatim>\<open>this\<close> is the column, so \<^verbatim>\<open>this.columns\<close> is a property of the
  column.  In strict code an assignment to a property of a value that is not an object throws.
\<close>

definition mark_visible :: "bool \<Rightarrow> jsv \<Rightarrow> js_error + jsv" where
  "mark_visible visible v =
     (case v of
        JObj ps \<Rightarrow> Inr (JObj (set_prop (str ''visible'') (JBool visible) ps))
      | JArr _ \<Rightarrow> Inr v
      | JFun _ \<Rightarrow> Inr v
      | _ \<Rightarrow> Inl TypeError)"

definition all_step :: "nat \<Rightarrow> bool \<Rightarrow> props \<Rightarrow> js_error + props" where
  "all_step i visible c =
     (case lookup c (str ''columns'') of
        JArr vs \<Rightarrow>
          if i < length vs
          then ebind (mark_visible visible (vs ! i)) (\<lambda>v. Inr (set_prop (str ''columns'') (JArr (vs[i := v])) c))
          else Inl TypeError
      | JObj ps \<Rightarrow>
          ebind (mark_visible visible (lookup ps (digits i))) (\<lambda>v.
          Inr (set_prop (str ''columns'') (JObj (set_prop (digits i) v ps)) c))
      | _ \<Rightarrow> Inl TypeError)"

fun all_steps :: "nat \<Rightarrow> bool \<Rightarrow> props list \<Rightarrow> js_error + props list" where
  "all_steps i visible [] = Inr []"
| "all_steps i visible (c # cs) =
     ebind (all_step i visible c) (\<lambda>c. ebind (all_steps (Suc i) visible cs) (\<lambda>cs. Inr (c # cs)))"

definition toggleAllColumns :: "env \<Rightarrow> bool \<Rightarrow> widget \<Rightarrow> js_error + widget" where
  "toggleAllColumns env visible w =
     ebind (all_steps 0 visible (columns (tab w))) (\<lambda>cs.
     ebind (redraw_all env (w\<lparr>tab := (tab w)\<lparr>columns := cs\<rparr>\<rparr>)) (\<lambda>w.
     Inr (if truthy (table_opt (tab w) ''showColumns'')
          then w\<lparr>menu := guard_items (table_opt (tab w) ''minimumCountColumns'') (menu w)\<rparr> else w)))"

definition showAllColumns :: "env \<Rightarrow> widget \<Rightarrow> js_error + widget" where
  "showAllColumns env w = toggleAllColumns env True w"

definition hideAllColumns :: "env \<Rightarrow> widget \<Rightarrow> js_error + widget" where
  "hideAllColumns env w = toggleAllColumns env False w"

definition toggleView :: "env \<Rightarrow> widget \<Rightarrow> js_error + widget" where
  "toggleView env w =
     (let t = tab w; b = (\<not> truthy (table_opt t ''cardView''));
          w = initHeader (w\<lparr>tab := t\<lparr>options := set_prop (str ''cardView'') (JBool b) (options t)\<rparr>\<rparr>)
      in ebind (initBody env False (tab w)) (\<lambda>t. ebind (fire env ''toggle'' [JBool b] t) (\<lambda>t. Inr (w\<lparr>tab := t\<rparr>))))"

section \<open>Showing and hiding rows and cells\<close>

text \<open>The rows of the table body in the page, with their attributes; cells with their spans.\<close>

record dom_cell =
  dc_shown :: bool
  dc_rowspan :: int
  dc_colspan :: int

record dom_row =
  dr_index :: jsv
  dr_uniqueid :: jsv
  dr_shown :: bool
  dr_cells :: "dom_cell list"

definition toggleRow :: "jsv \<Rightarrow> jsv \<Rightarrow> bool \<Rightarrow> dom_row list \<Rightarrow> dom_row list" where
  "toggleRow index uniqueId visible trs =
     (if strict_eq index (JInt (- 1)) then trs
      else
        (let hit = (\<lambda>tr. if index \<noteq> Undefined then dr_index tr \<noteq> Undefined \<and> to_str (dr_index tr) = to_str index
                         else uniqueId \<noteq> Undefined \<and> dr_uniqueid tr \<noteq> Undefined \<and> to_str (dr_uniqueid tr) = to_str uniqueId)
         in map (\<lambda>tr. if hit tr then tr\<lparr>dr_shown := visible\<rparr> else tr) trs))"

definition showRow :: "props \<Rightarrow> dom_row list \<Rightarrow> dom_row list" where
  "showRow params trs =
     (if \<not> has_keys [''index''] params \<and> \<not> has_keys [''uniqueId''] params then trs
      else toggleRow (lookup params (str ''index'')) (lookup params (str ''uniqueId'')) True trs)"

definition hideRow :: "props \<Rightarrow> dom_row list \<Rightarrow> dom_row list" where
  "hideRow params trs =
     (if \<not> has_keys [''index''] params \<and> \<not> has_keys [''uniqueId''] params then trs
      else toggleRow (lookup params (str ''index'')) (lookup params (str ''uniqueId'')) False trs)"

text \<open>\<^verbatim>\<open>getRowsHidden\<close> returns the rows hidden before it shows them.\<close>

definition getRowsHidden :: "bool \<Rightarrow> dom_row list \<Rightarrow> nat list \<times> dom_row list" where
  "getRowsHidden sh trs =
     (filter (\<lambda>i. \<not> dr_shown (trs ! i)) [0..<length trs],
      if sh then map (\<lambda>tr. tr\<lparr>dr_shown := True\<rparr>) trs else trs)"

text \<open>\<^verbatim>\<open>$tr.eq(i).find('>td').eq(j)\<close>, for indices that are not negative.\<close>

definition on_cell :: "int \<Rightarrow> int \<Rightarrow> (dom_cell \<Rightarrow> dom_cell) \<Rightarrow> dom_row list \<Rightarrow> dom_row list" where
  "on_cell i j f trs =
     (if 0 \<le> i \<and> nat i < length trs \<and> 0 \<le> j \<and> nat j < length (dr_cells (trs ! nat i))
      then trs[nat i := (trs ! nat i)\<lparr>dr_cells := (dr_cells (trs ! nat i))[nat j := f (dr_cells (trs ! nat i) ! nat j)]\<rparr>]
      else trs)"

definition field_position :: "jsv \<Rightarrow> jsv list \<Rightarrow> int" where
  "field_position f fs = (case position_of f fs of None \<Rightarrow> - 1 | Some i \<Rightarrow> int i)"

text \<open>Row and spans are given as integers; a span of 0 is the default.\<close>

definition span_or_one :: "int \<Rightarrow> int" where
  "span_or_one n = (if n = 0 then 1 else n)"

definition mergeCells :: "table \<Rightarrow> int \<Rightarrow> jsv \<Rightarrow> int \<Rightarrow> int \<Rightarrow> dom_row list \<Rightarrow> js_error + dom_row list" where
  "mergeCells t row field rspan cspan trs =
     ebind (getVisibleFields t) (\<lambda>fs.
     let rspan = span_or_one rspan; cspan = span_or_one cspan;
         col = field_position field fs;
         col = (if truthy (table_opt t ''detailView'') \<and> \<not> truthy (table_opt t ''cardView'') then col + 1 else col)
     in if row < 0 \<or> col < 0 \<or> row \<ge> int (length (data_rows t)) then Inr trs
        else
          Inr (on_cell row col (\<lambda>d. d\<lparr>dc_rowspan := rspan, dc_colspan := cspan, dc_shown := True\<rparr>)
            (fold (\<lambda>i. fold (\<lambda>j. on_cell i j (\<lambda>d. d\<lparr>dc_shown := False\<rparr>)) [col..col + cspan - 1]) [row..row + rspan - 1] trs)))"

section \<open>Container and footer\<close>

definition pagination_at :: "table \<Rightarrow> string \<Rightarrow> bool" where
  "pagination_at t place \<longleftrightarrow>
     strict_eq (table_opt t ''paginationVAlign'') (S place) \<or> strict_eq (table_opt t ''paginationVAlign'') (S ''both'')"

definition initContainer :: "env \<Rightarrow> table \<Rightarrow> js_error + js_string" where
  \<open>initContainer env t =
     ebind (apply_fun (call env) (table_opt t ''formatLoadingMessage'') []) (\<lambda>msg.
     Inr (str ''<div class="bootstrap-table">'' @ str ''<div class="fixed-table-toolbar"></div>'' @
          (if pagination_at t ''top'' then str ''<div class="fixed-table-pagination" style="clear: both;"></div>'' else []) @
          str ''<div class="fixed-table-container">'' @ str ''<div class="fixed-table-header"><table></table></div>'' @
          str ''<div class="fixed-table-body">'' @ str ''<div class="fixed-table-loading">'' @ piece msg @ str ''</div>'' @ str ''</div>'' @
          str ''<div class="fixed-table-footer"><table><tr></tr></table></div>'' @
          (if pagination_at t ''bottom'' then str ''<div class="fixed-table-pagination"></div>'' else []) @
          str ''</div>'' @ str ''</div>''))\<close>

text \<open>The classes \<^verbatim>\<open>initContainer\<close> gives the table, and whether its container has no border.\<close>

definition container_classes :: "table \<Rightarrow> js_error + (js_string \<times> bool)" where
  "container_classes t =
     (case table_opt t ''classes'' of
        JStr s \<Rightarrow> Inr (s @ (if truthy (table_opt t ''striped'') then str '' table-striped'' else []),
                      str ''table-no-bordered'' \<in> set (js_split 32 s))
      | _ \<Rightarrow> Inl TypeError)"

definition footer_shown :: "table \<Rightarrow> bool" where
  "footer_shown t \<longleftrightarrow> truthy (table_opt t ''showFooter'') \<and> \<not> truthy (table_opt t ''cardView'')"

definition footer_cell :: "env \<Rightarrow> table \<Rightarrow> jsv \<Rightarrow> props \<Rightarrow> js_error + js_string" where
  \<open>footer_cell env t d c =
     (if \<not> truthy (col_prop c ''visible'') then Inr []
      else
        ebind (calculateObjectValue (globals env) (call env) (table_opt t ''footerStyle'') [] Undefined) (\<lambda>style.
        ebind (member style ''css'') (\<lambda>css.
        ebind (calculateObjectValue (globals env) (call env) (col_prop c ''footerFormatter'') [d] (S ''&nbsp;'')) (\<lambda>content.
        Inr (str ''<td'' @ column_class c @
             sprintf (str '' style="%s"'')
               [JStr (column_align (if truthy (col_prop c ''falign'') then col_prop c ''falign'' else col_prop c ''align'') @
                      sprintf (str ''vertical-align: %s; '') [col_prop c ''valign''] @
                      js_join (str ''; '') (if truthy style \<and> truthy css then css_list css else []))] @ str ''>'' @
             str ''<div class="th-inner">'' @ (if truthy content then to_str content else str ''&nbsp;'') @
             str ''</div>'' @ str ''<div class="fht-cell"></div>'' @ str ''</div>'' @ str ''</td>'')))))\<close>

fun footer_cells :: "env \<Rightarrow> table \<Rightarrow> jsv \<Rightarrow> props list \<Rightarrow> js_error + js_string" where
  "footer_cells env t d [] = Inr []"
| "footer_cells env t d (c # cs) =
     ebind (footer_cell env t d c) (\<lambda>h. ebind (footer_cells env t d cs) (\<lambda>h'. Inr (h @ h')))"

definition resetFooter :: "env \<Rightarrow> table \<Rightarrow> js_error + js_string option" where
  \<open>resetFooter env t =
     (if \<not> footer_shown t then Inr None
      else
        ebind (footer_cells env t (JArr (map (row_val t) (getData t False))) (columns t)) (\<lambda>html.
        Inr (Some ((if truthy (table_opt t ''detailView'')
                    then str ''<td><div class="th-inner">&nbsp;</div><div class="fht-cell"></div></td>'' else []) @ html))))\<close>

end
