(* ===== verification/TableColumns.thy ===== *)
theory TableColumns
  imports TableHeader TableSpec
begin

text \<open>
  What the columns of a table promise: the header arrays follow \<^verbatim>\<open>this.columns\<close> whatever the layout of the header
  rows, the menu of columns follows their visibility and keeps a minimum of them, cells of the markup are filed
  under the column a browser shows them in, merged cells hide a rectangle.
\<close>

section \<open>The arrays of the header\<close>

lemma length_set_at [simp]: "length (set_at h (int i) x xs) = max (length xs) (Suc i)"
  by (simp add: set_at_def)

lemma nth_set_at: "j < max (length xs) (Suc i) \<Longrightarrow>
    set_at h (int i) x xs ! j = (if j = i then x else if j < length xs then xs ! j else h)"
  by (auto simp: set_at_def nth_append nth_Cons' nth_list_update)

lemma fold_set_at_length:
  "length (fold (\<lambda>i. set_at h (int i) (f i)) is xs) = foldr max (map Suc is) (length xs)"
proof (induction "is" arbitrary: xs)
  case (Cons i "is")
  have "foldr max (map Suc is) (max n (Suc i)) = max (Suc i) (foldr max (map Suc is) n)" for n
    by (induction "is") auto
  then show ?case using Cons by simp
qed simp

lemma fold_set_at_nth:
  "j < length xs \<and> xs ! j = f j \<or> j \<in> set is \<Longrightarrow>
     j < length (fold (\<lambda>i. set_at h (int i) (f i)) is xs) \<and> fold (\<lambda>i. set_at h (int i) (f i)) is xs ! j = f j"
proof (induction "is" arbitrary: xs)
  case (Cons i "is")
  have "j < length (set_at h (int i) (f i) xs) \<and> set_at h (int i) (f i) xs ! j = f j \<or> j \<in> set is"
    using Cons.prems by (cases "j = i") (auto simp: nth_set_at less_max_iff_disj)
  then show ?case using Cons.IH [of "set_at h (int i) (f i) xs"] by simp
qed simp

lemma fold_set_at:
  assumes "set is = {..<n}" shows "fold (\<lambda>i. set_at h (int i) (f i)) is [] = map f [0..<n]"
proof (rule nth_equalityI)
  have m: "foldr max (map Suc is) 0 = (if is = [] then 0 else Suc (Max (set is)))"
    by (induction "is") (auto simp: max_def)
  have "(if is = [] then 0 else Suc (Max (set is))) = n"
  proof (cases "n = 0")
    case False
    have "Max {..<n} = n - 1" by (rule Max_eqI) (use False in auto)
    moreover have "0 \<in> set is" using assms False by simp
    then have "is \<noteq> []" by (cases "is") simp_all
    ultimately show ?thesis using False by (simp add: assms)
  next
    case True
    then have "set is = {}" using assms by (simp only: lessThan_0)
    then show ?thesis using True by simp
  qed
  then show len: "length (fold (\<lambda>i. set_at h (int i) (f i)) is []) = length (map f [0..<n])"
    using m by (simp add: fold_set_at_length)
  fix j assume "j < length (fold (\<lambda>i. set_at h (int i) (f i)) is [])"
  then have j: "j < n" using len by simp
  then have "j \<in> set is" using assms by simp
  then show "fold (\<lambda>i. set_at h (int i) (f i)) is [] ! j = map f [0..<n] ! j"
    using fold_set_at_nth [of j "[]" f "is" h] j by simp
qed

text \<open>A header over the columns \<open>cs\<close>.\<close>

definition header_of :: "bool \<Rightarrow> props list \<Rightarrow> header" where
  "header_of cardView cs =
     \<lparr>hfields = map (\<lambda>c. col_prop c ''field'') cs,
      styles = map (\<lambda>c. column_align (col_prop c ''align'') @ column_style cardView c) cs,
      classes = map column_class cs, formatters = map (\<lambda>c. col_prop c ''formatter'') cs,
      hevents = map (\<lambda>c. col_prop c ''events'') cs,
      sorters = map (\<lambda>c. col_prop c ''sorter'') cs, sortNames = map (\<lambda>c. col_prop c ''sortName'') cs,
      cellStyles = map (\<lambda>c. col_prop c ''cellStyle'') cs, searchables = map (\<lambda>c. col_prop c ''searchable'') cs,
      stateField = Undefined\<rparr>"

lemma header_slots:
  "hfields (fold (\<lambda>i. header_slot cv (int i) (cs ! i)) is h) =
     fold (\<lambda>i. set_at Undefined (int i) (col_prop (cs ! i) ''field'')) is (hfields h)"
  "styles (fold (\<lambda>i. header_slot cv (int i) (cs ! i)) is h) =
     fold (\<lambda>i. set_at [] (int i) (column_align (col_prop (cs ! i) ''align'') @ column_style cv (cs ! i))) is (styles h)"
  "classes (fold (\<lambda>i. header_slot cv (int i) (cs ! i)) is h) =
     fold (\<lambda>i. set_at [] (int i) (column_class (cs ! i))) is (classes h)"
  "formatters (fold (\<lambda>i. header_slot cv (int i) (cs ! i)) is h) =
     fold (\<lambda>i. set_at Undefined (int i) (col_prop (cs ! i) ''formatter'')) is (formatters h)"
  "hevents (fold (\<lambda>i. header_slot cv (int i) (cs ! i)) is h) =
     fold (\<lambda>i. set_at Undefined (int i) (col_prop (cs ! i) ''events'')) is (hevents h)"
  "sorters (fold (\<lambda>i. header_slot cv (int i) (cs ! i)) is h) =
     fold (\<lambda>i. set_at Undefined (int i) (col_prop (cs ! i) ''sorter'')) is (sorters h)"
  "sortNames (fold (\<lambda>i. header_slot cv (int i) (cs ! i)) is h) =
     fold (\<lambda>i. set_at Undefined (int i) (col_prop (cs ! i) ''sortName'')) is (sortNames h)"
  "cellStyles (fold (\<lambda>i. header_slot cv (int i) (cs ! i)) is h) =
     fold (\<lambda>i. set_at Undefined (int i) (col_prop (cs ! i) ''cellStyle'')) is (cellStyles h)"
  "searchables (fold (\<lambda>i. header_slot cv (int i) (cs ! i)) is h) =
     fold (\<lambda>i. set_at Undefined (int i) (col_prop (cs ! i) ''searchable'')) is (searchables h)"
  "stateField (fold (\<lambda>i. header_slot cv (int i) (cs ! i)) is h) = stateField h"
  by (induction "is" arbitrary: h) (simp_all add: header_slot_def)

lemma header_slots_all:
  assumes "set is = {..<length cs}"
  shows "fold (\<lambda>i. header_slot cv (int i) (cs ! i)) is empty_header = header_of cv cs"
  by (rule header.equality; simp add: header_slots fold_set_at [OF assms] empty_header_def header_of_def)
    (rule nth_equalityI; simp)+

text \<open>The grid of header rows: every column stands once at its index, spanning cells have none.\<close>

definition hcol_in :: "nat \<Rightarrow> hcol \<Rightarrow> bool" where
  "hcol_in n c = (case c of Shared i \<Rightarrow> i < n | Own p \<Rightarrow> index_of_column p = None)"

definition grid_ok :: "widget \<Rightarrow> bool" where
  "grid_ok w \<longleftrightarrow>
     (\<forall>i<length (columns (tab w)). Shared i \<in> set (concat (grid w)) \<and> index_of_column (columns (tab w) ! i) = Some (int i)) \<and>
     list_all (hcol_in (length (columns (tab w)))) (concat (grid w))"

text \<open>What a step of \<^verbatim>\<open>initHeader\<close> does to the table: \<^verbatim>\<open>hdr\<close>, and \<^verbatim>\<open>singleSelect\<close> among the options.\<close>

definition arrays :: "header \<Rightarrow> header" where
  "arrays h = h\<lparr>stateField := Undefined\<rparr>"

definition header_frame :: "table \<Rightarrow> table \<Rightarrow> bool" where
  "header_frame t u \<longleftrightarrow> columns u = columns t \<and>
     (\<forall>k. k \<noteq> ''singleSelect'' \<longrightarrow> table_opt u k = table_opt t k) \<and> u\<lparr>hdr := hdr t, options := options t\<rparr> = t"

lemma header_frame_refl [simp]: "header_frame t t"
  by (simp add: header_frame_def)

lemma header_frame_trans: "header_frame t u \<Longrightarrow> header_frame u v \<Longrightarrow> header_frame t v"
  unfolding header_frame_def by (metis (no_types, lifting) table.surjective table.update_convs(1,9))

text \<open>The table after one column, without the markup.\<close>

definition column_step :: "hcol \<Rightarrow> table \<Rightarrow> table" where
  "column_step hc t = hb_tab (header_column hc \<lparr>hb_tab = t, hb_html = [], hb_cells = [], hb_visible = []\<rparr>)"

lemma header_column_step: "hb_tab (header_column hc b) = column_step hc (hb_tab b)"
  by (simp add: column_step_def header_column_def Let_def)

lemma fold_column_step: "hb_tab (fold header_column cs b) = fold column_step cs (hb_tab b)"
  by (induction cs arbitrary: b) (simp_all add: header_column_step)

lemma header_rows_step: "hb_tab (header_rows n i g b) = fold column_step (concat g) (hb_tab b)"
  by (induction g arbitrary: i b) (simp_all add: header_row_def Let_def fold_column_step)

lemma column_step_frame: "header_frame t (column_step hc t)"
  by (auto simp: header_frame_def column_step_def header_column_def Let_def set_state_field_def table_opt_def lookup_set_prop
      split: option.splits)

lemma column_step_shared:
  assumes "index_of_column (columns t ! i) = Some (int i)"
  shows "arrays (hdr (column_step (Shared i) t)) =
    header_slot (truthy (table_opt t ''cardView'')) (int i) (columns t ! i) (arrays (hdr t))"
  using assms by (simp add: column_step_def header_column_def column_of_def Let_def set_state_field_def arrays_def header_slot_def)

lemma column_step_own:
  "index_of_column p = None \<Longrightarrow> arrays (hdr (column_step (Own p) t)) = arrays (hdr t)"
  by (simp add: column_step_def header_column_def column_of_def Let_def set_state_field_def arrays_def)

definition shared :: "hcol list \<Rightarrow> nat list" where
  "shared cs = concat (map (\<lambda>c. case c of Shared i \<Rightarrow> [i] | Own _ \<Rightarrow> []) cs)"

lemma shared_simps [simp]:
  "shared [] = []" "shared (Shared i # cs) = i # shared cs" "shared (Own p # cs) = shared cs"
  by (simp_all add: shared_def)

lemma set_shared: "set (shared cs) = {i. Shared i \<in> set cs}"
  by (auto simp: shared_def split: hcol.splits)

definition fits :: "props list \<Rightarrow> hcol \<Rightarrow> bool" where
  "fits cols c = (case c of Shared i \<Rightarrow> index_of_column (cols ! i) = Some (int i) | Own p \<Rightarrow> index_of_column p = None)"

lemma column_steps:
  assumes "list_all (fits (columns t)) cs"
  shows "header_frame t (fold column_step cs t) \<and> arrays (hdr (fold column_step cs t)) =
    fold (\<lambda>i. header_slot (truthy (table_opt t ''cardView'')) (int i) (columns t ! i)) (shared cs) (arrays (hdr t))"
  using assms
proof (induction cs arbitrary: t)
  case (Cons c cs)
  let ?u = "column_step c t"
  have fr: "header_frame t ?u" by (rule column_step_frame)
  then have same: "columns ?u = columns t" "table_opt ?u ''cardView'' = table_opt t ''cardView''"
    by (simp_all add: header_frame_def)
  have IH: "header_frame ?u (fold column_step cs ?u) \<and> arrays (hdr (fold column_step cs ?u)) =
      fold (\<lambda>i. header_slot (truthy (table_opt t ''cardView'')) (int i) (columns t ! i)) (shared cs) (arrays (hdr ?u))"
    using Cons.IH [of ?u] Cons.prems same by simp
  have "arrays (hdr ?u) = (case c of Shared i \<Rightarrow> header_slot (truthy (table_opt t ''cardView'')) (int i) (columns t ! i) (arrays (hdr t))
      | Own p \<Rightarrow> arrays (hdr t))"
    using Cons.prems by (cases c) (simp_all add: column_step_shared column_step_own fits_def)
  then show ?case using IH header_frame_trans [OF fr] by (cases c) simp_all
qed simp

lemma initHeader_tab:
  "tab (initHeader w) = (fold column_step (concat (grid w)) ((tab w)\<lparr>hdr := empty_header\<rparr>))
     \<lparr>ths := ths (tab (initHeader w)), selectAll := False\<rparr>"
  by (simp add: initHeader_def getCaret_def Let_def header_rows_step)

lemma initHeader_keeps:
  assumes "grid_ok w"
  shows "header_frame (tab w) ((tab (initHeader w))\<lparr>ths := ths (tab w), selectAll := selectAll (tab w)\<rparr>)"
    and "arrays (hdr (tab (initHeader w))) = header_of (truthy (table_opt (tab w) ''cardView'')) (columns (tab w))"
proof -
  let ?t = "(tab w)\<lparr>hdr := empty_header\<rparr>" and ?cs = "concat (grid w)"
  have "list_all (fits (columns ?t)) ?cs"
    using assms by (auto simp: grid_ok_def list_all_iff fits_def hcol_in_def split: hcol.splits)
  note steps = column_steps [OF this]
  have sh: "set (shared ?cs) = {..<length (columns ?t)}"
    using assms unfolding set_shared grid_ok_def by (auto simp: list_all_iff hcol_in_def split: hcol.splits)
  have "arrays empty_header = empty_header" by (simp add: arrays_def empty_header_def)
  then show "arrays (hdr (tab (initHeader w))) = header_of (truthy (table_opt (tab w) ''cardView'')) (columns (tab w))"
    using steps header_slots_all [OF sh] by (subst initHeader_tab) (simp add: table_opt_def)
  show "header_frame (tab w) ((tab (initHeader w))\<lparr>ths := ths (tab w), selectAll := selectAll (tab w)\<rparr>)"
    unfolding header_frame_def
  proof (intro conjI allI impI)
    let ?F = "fold column_step ?cs ?t"
    have "?F\<lparr>hdr := hdr ?t, options := options ?t\<rparr> = ?t" using steps by (simp add: header_frame_def)
    from arg_cong [OF this, of "\<lambda>u. u\<lparr>ths := ths (tab w), selectAll := selectAll (tab w), hdr := hdr (tab w), options := options (tab w)\<rparr>"]
    show "(tab (initHeader w))\<lparr>ths := ths (tab w), selectAll := selectAll (tab w), hdr := hdr (tab w), options := options (tab w)\<rparr> = tab w"
      by (subst initHeader_tab) simp
  qed (use steps in \<open>(subst initHeader_tab, simp add: header_frame_def table_opt_def)+\<close>)
qed

lemma field_index_at:
  assumes "list_all (\<lambda>c. \<exists>s. col_prop c ''field'' = JStr s) cs" "distinct (map (\<lambda>c. col_prop c ''field'') cs)" "j < length cs"
  shows "field_index_from i cs (col_prop (cs ! j) ''field'') = i + int j"
  using assms
proof (induction cs arbitrary: i j)
  case (Cons c cs)
  obtain s where s: "col_prop c ''field'' = JStr s" using Cons.prems by auto
  show ?case
  proof (cases j)
    case 0
    then show ?thesis using s by (simp add: col_prop_def)
  next
    case (Suc k)
    then have k: "k < length cs" using Cons.prems by simp
    then obtain s' where s': "col_prop (cs ! k) ''field'' = JStr s'" using Cons.prems(1) by (auto simp: list_all_length)
    then have "s \<noteq> s'" using Cons.prems(2) s imageI [OF nth_mem [OF k], of "\<lambda>c. col_prop c ''field''"] by auto
    then show ?thesis using Cons.IH [of k "i + 1"] Cons.prems k Suc s s' by (simp add: col_prop_def)
  qed
qed simp

lemma visible_fields_columns:
  assumes "list_all (\<lambda>c. \<exists>s. col_prop c ''field'' = JStr s) cs" "distinct (map (\<lambda>c. col_prop c ''field'') cs)" "set js \<subseteq> {..<length cs}"
  shows "visible_fields cs (map (\<lambda>j. col_prop (cs ! j) ''field'') js) =
    Inr (map (\<lambda>j. col_prop (cs ! j) ''field'') (filter (\<lambda>j. truthy (col_prop (cs ! j) ''visible'')) js))"
  using assms(3)
  by (induction js) (simp_all add: Let_def getFieldIndex_def field_index_at [OF assms(1,2), unfolded col_prop_def] col_prop_def)

lemma visible_fields_all:
  assumes "list_all (\<lambda>c. \<exists>s. col_prop c ''field'' = JStr s) cs" "distinct (map (\<lambda>c. col_prop c ''field'') cs)"
  shows "visible_fields cs (map (\<lambda>c. col_prop c ''field'') cs) =
    Inr (map (\<lambda>c. col_prop c ''field'') (filter (\<lambda>c. truthy (col_prop c ''visible'')) cs))"
proof -
  have e: "map (\<lambda>j. cs ! j) [0..<length cs] = cs" by (rule map_nth)
  have "map (\<lambda>j. col_prop (cs ! j) ''field'') [0..<length cs] = map (\<lambda>c. col_prop c ''field'') cs"
    by (subst (2) e [symmetric]) (simp add: comp_def)
  moreover have "map (\<lambda>j. col_prop (cs ! j) ''field'') (filter (\<lambda>j. truthy (col_prop (cs ! j) ''visible'')) [0..<length cs]) =
      map (\<lambda>c. col_prop c ''field'') (filter (\<lambda>c. truthy (col_prop c ''visible'')) cs)"
    by (subst (3) e [symmetric]) (simp add: comp_def filter_map)
  ultimately show ?thesis using visible_fields_columns [OF assms, of "[0..<length cs]"] by (simp add: atLeast0LessThan)
qed

lemma header_fields:
  assumes "grid_ok w"
  shows "columns (tab (initHeader w)) = columns (tab w)"
    "hfields (hdr (tab (initHeader w))) = map (\<lambda>c. col_prop c ''field'') (columns (tab w))"
  using initHeader_keeps [OF assms] by (auto simp: header_frame_def arrays_def header_of_def dest: arg_cong [of _ _ hfields])

lemma header_visible_fields:
  assumes "grid_ok w" "list_all (\<lambda>c. \<exists>s. col_prop c ''field'' = JStr s) (columns (tab w))"
    "distinct (map (\<lambda>c. col_prop c ''field'') (columns (tab w)))"
  shows "getVisibleFields (tab (initHeader w)) = Inr (map (\<lambda>c. col_prop c ''field'') (getVisibleColumns (tab w)))"
  using visible_fields_all [OF assms(2,3)] by (simp add: getVisibleFields_def getVisibleColumns_def header_fields [OF assms(1)])

text \<open>
  C9. The header follows the columns.  Whatever the layout of the header rows, after \<^verbatim>\<open>initHeader\<close> the arrays of the
  header hold the fields, styles, classes, formatters, sorters and the other attributes of \<^verbatim>\<open>this.columns\<close> in their order,
  hidden columns included; the columns and the rest of the table stay, but for \<^verbatim>\<open>singleSelect\<close>; and
  \<^verbatim>\<open>getVisibleFields\<close> returns the fields of the visible columns.
\<close>

theorem header_follows_columns:
  assumes "grid_ok w" "list_all (\<lambda>c. \<exists>s. col_prop c ''field'' = JStr s) (columns (tab w))"
    "distinct (map (\<lambda>c. col_prop c ''field'') (columns (tab w)))"
  shows "(hdr (tab (initHeader w)))\<lparr>stateField := Undefined\<rparr> =
      header_of (truthy (table_opt (tab w) ''cardView'')) (columns (tab w)) \<and>
    (tab (initHeader w))\<lparr>ths := ths (tab w), selectAll := selectAll (tab w), hdr := hdr (tab w), options := options (tab w)\<rparr> = tab w \<and>
    getVisibleFields (tab (initHeader w)) = Inr (map (\<lambda>c. col_prop c ''field'') (getVisibleColumns (tab w)))"
  using initHeader_keeps [OF assms(1)] header_visible_fields [OF assms] by (simp add: arrays_def header_frame_def)

section \<open>Columns from the options\<close>

lemma put_columns:
  "map index_of_column cs = map (\<lambda>i. Some (int i)) [length xs..<length xs + length cs] \<Longrightarrow>
     fold put_column cs (map Some xs) = map Some (xs @ cs)"
proof (induction cs arbitrary: xs)
  case (Cons c cs)
  then have i: "index_of_column c = Some (int (length xs))"
    and r: "map index_of_column cs = map (\<lambda>i. Some (int i)) [length (xs @ [c])..<length (xs @ [c]) + length cs]"
    by (simp_all add: upt_conv_Cons del: upt_Suc)
  have "put_column c (map Some xs) = map Some (xs @ [c])" using i by (simp add: put_column_def set_at_def)
  then show ?case using Cons.IH [OF r] by simp
qed simp

lemma share_columns:
  "map index_of_column cs = map (\<lambda>i. Some (int i)) [n..<n + length cs] \<Longrightarrow> share_row cs [] = map Shared [n..<n + length cs]"
proof (induction cs arbitrary: n)
  case (Cons c cs)
  then have i: "index_of_column c = Some (int n)"
    and r: "map index_of_column cs = map (\<lambda>i. Some (int i)) [Suc n..<Suc n + length cs]"
    by (simp_all add: upt_conv_Cons del: upt_Suc)
  have "Some (int n) \<notin> set (map index_of_column cs)" unfolding r by auto
  then show ?case using Cons.IH [OF r] i by (simp add: upt_conv_Cons del: upt_Suc)
qed simp

lemma deep_list_Nil: "deep_list [] vs = map (deep_value Undefined) vs"
  by (induction vs) simp_all

lemma keys_deep_extend: "distinct (map fst target) \<Longrightarrow> distinct (map fst (deep_extend target ps))"
proof (induction ps arbitrary: target)
  case (Cons p ps)
  then show ?case by (cases p) (simp add: keys_set_prop)
qed simp

lemma lookup_deep_extend:
  assumes "distinct (map fst ps)"
  shows "lookup (deep_extend target ps) k =
    (if lookup ps k = Undefined then lookup target k else deep_value (lookup target k) (lookup ps k))"
  using assms
proof (induction ps arbitrary: target)
  case (Cons p ps)
  obtain k' v where p: "p = (k', v)" by (cases p)
  have "k' \<notin> fst ` set ps" "distinct (map fst ps)" using Cons.prems p by auto
  then show ?case using Cons.IH p by (auto simp: lookup_set_prop lookup_Cons lookup_notin)
qed (simp add: lookup_def)

text \<open>A column of the options: an object with a textual field and no spans.\<close>

definition simple_column :: "props \<Rightarrow> bool" where
  "simple_column ps \<longleftrightarrow> distinct (map fst ps) \<and> (\<exists>s. lookup ps (str ''field'') = JStr s) \<and>
     lookup ps (str ''rowspan'') = Undefined \<and> lookup ps (str ''colspan'') = Undefined"

definition made_column :: "nat \<Rightarrow> props \<Rightarrow> props" where
  "made_column i ps =
     jq_extend (jq_extend [] COLUMN_DEFAULTS) (set_prop (str ''fieldIndex'') (JInt (int i)) (deep_extend [] ps))"

lemma lookup_made_column:
  assumes "distinct (map fst ps)"
  shows "lookup (made_column i ps) k =
    (if k = str ''fieldIndex'' then JInt (int i)
     else if lookup ps k = Undefined \<or> deep_value Undefined (lookup ps k) = Undefined then lookup COLUMN_DEFAULTS k
     else deep_value Undefined (lookup ps k))"
proof -
  let ?ps = "set_prop (str ''fieldIndex'') (JInt (int i)) (deep_extend [] ps)"
  have d: "distinct (map fst ?ps)" using keys_deep_extend [of "[]" ps] by (auto simp: keys_set_prop)
  have D: "distinct (map fst COLUMN_DEFAULTS)" by (simp add: COLUMN_DEFAULTS_def)
  show ?thesis
    unfolding made_column_def lookup_extend [OF d] lookup_extend [OF D] lookup_set_prop lookup_deep_extend [OF assms] lookup_Nil
    by simp
qed

lemma simple_cell:
  assumes "simple_column ps"
  shows "with_cell (deep_extend [] ps) (with_index i (cell_of (deep_extend [] ps))) =
    set_prop (str ''fieldIndex'') (JInt (int i)) (deep_extend [] ps)"
    "rowspan (cell_of (deep_extend [] ps)) \<le> 1" "span_of (colspan (cell_of (deep_extend [] ps))) = 1"
  using assms
  by (auto simp: simple_column_def with_cell_def with_index_def cell_of_def span_nat_def span_of_def lookup_deep_extend lookup_Nil
      lookup_set_prop)

lemma indexed_simple:
  "list_all (\<lambda>c. span_of (colspan c) = 1) hs \<Longrightarrow> indexed n hs = map2 with_index [n..<n + length hs] hs"
proof (induction hs arbitrary: n)
  case (Cons h hs)
  then show ?case using Cons.IH [of "Suc n"] by (simp add: upt_conv_Cons del: upt_Suc)
qed simp

lemma initColumns_simple:
  assumes "list_all simple_column pss"
  shows "initColumns [] (map JObj pss) =
    Inr (map Some (map2 made_column [0..<length pss] pss), [map Shared [0..<length pss]])"
proof -
  define ds cols where "ds = map (deep_extend []) pss" and "cols = map2 made_column [0..<length pss] pss"
  have len: "length ds = length pss" "length cols = length pss" by (simp_all add: ds_def cols_def)
  have rows: "column_rows (map JObj pss) = [JArr (map JObj pss)]" by (cases pss) (simp_all add: column_rows_def)
  have g: "merged_columns [] (map JObj pss) = [ds]"
    unfolding merged_columns_def rows by (simp add: deep_list_Nil option_props_def comp_def ds_def)
  have "list_all (\<lambda>h. span_of (colspan h) = 1) (map cell_of ds)" "list_all (\<lambda>h. rowspan h \<le> 1) (map cell_of ds)"
    using assms simple_cell by (auto simp: list_all_iff ds_def)
  then have sf: "setFieldIndex [map cell_of ds] = Inr [map2 with_index [0..<length pss] (map cell_of ds)]"
    by (simp add: setFieldIndex_single_row indexed_simple len del: map_map)
  have cs: "map2 (\<lambda>c h. jq_extend (jq_extend [] COLUMN_DEFAULTS) (with_cell c h)) ds
      (map2 with_index [0..<length pss] (map cell_of ds)) = cols"
    using assms by (intro nth_equalityI) (auto simp: made_column_def simple_cell list_all_length ds_def cols_def)
  have "map index_of_column cols = map (\<lambda>i. Some (int i)) [0..<0 + length cols]"
    using assms by (intro nth_equalityI)
      (auto simp: index_of_column_def lookup_made_column simple_column_def list_all_length cols_def)
  then have "fold put_column cols [] = map Some cols" "share_row cols [] = map Shared [0..<length pss]"
    using put_columns [of cols "[]"] share_columns [of cols 0] len by simp_all
  then show ?thesis by (simp add: initColumns_def g sf cs cols_def [symmetric] del: map_map)
qed

lemma truthy_deep [simp]: "truthy (deep_value Undefined v) = truthy v"
  by (cases v) simp_all

definition column_visible :: "props \<Rightarrow> bool" where
  "column_visible ps \<longleftrightarrow> lookup ps (str ''visible'') = Undefined \<or> truthy (lookup ps (str ''visible''))"

lemma made_column_props:
  assumes "simple_column ps"
  shows "col_prop (made_column i ps) ''field'' = lookup ps (str ''field'')"
    "truthy (col_prop (made_column i ps) ''visible'') = column_visible ps"
    "index_of_column (made_column i ps) = Some (int i)"
proof -
  have d: "distinct (map fst ps)" using assms by (simp add: simple_column_def)
  obtain s where "lookup ps (str ''field'') = JStr s" using assms by (auto simp: simple_column_def)
  then show "col_prop (made_column i ps) ''field'' = lookup ps (str ''field'')"
    by (simp add: col_prop_def lookup_made_column [OF d])
  have "lookup COLUMN_DEFAULTS (str ''visible'') = JBool True" by (simp add: COLUMN_DEFAULTS_def lookup_Cons)
  then show "truthy (col_prop (made_column i ps) ''visible'') = column_visible ps"
    by (cases "lookup ps (str ''visible'')") (simp_all add: col_prop_def lookup_made_column [OF d] column_visible_def)
  show "index_of_column (made_column i ps) = Some (int i)"
    by (simp add: index_of_column_def lookup_made_column [OF d])
qed

lemma deep_value_Undefined: "deep_value Undefined v = Undefined \<longleftrightarrow> v = Undefined"
  by (cases v) simp_all

text \<open>
  C24. Columns given in the options.  A list of columns with textual, distinct fields and without spans becomes one header
  row, which shares its columns with \<^verbatim>\<open>this.columns\<close>.  There the column at position \<open>i\<close> has \<^verbatim>\<open>fieldIndex\<close> \<open>i\<close>, every
  other property that was given, copied, and the value of \<^verbatim>\<open>COLUMN_DEFAULTS\<close> for every property that was not.  After
  \<^verbatim>\<open>initHeader\<close> the header has the fields in order and \<^verbatim>\<open>getVisibleFields\<close> returns the fields of those whose
  \<^verbatim>\<open>visible\<close> is true or not given.
\<close>

theorem columns_from_options:
  assumes "list_all simple_column pss" "distinct (map (\<lambda>ps. lookup ps (str ''field'')) pss)"
  shows "\<exists>cols. initTable [] (map JObj pss) 1 [] = Inr (map Some cols, [map Shared [0..<length pss]], None) \<and>
    length cols = length pss \<and>
    (\<forall>i<length pss. \<forall>k. lookup (cols ! i) k =
      (if k = str ''fieldIndex'' then JInt (int i)
       else if lookup (pss ! i) k = Undefined then lookup COLUMN_DEFAULTS k
       else deep_value Undefined (lookup (pss ! i) k))) \<and>
    (\<forall>w. columns (tab w) = cols \<and> grid w = [map Shared [0..<length pss]] \<longrightarrow>
      hfields (hdr (tab (initHeader w))) = map (\<lambda>ps. lookup ps (str ''field'')) pss \<and>
      getVisibleFields (tab (initHeader w)) = Inr (map (\<lambda>ps. lookup ps (str ''field'')) (filter column_visible pss)))"
proof -
  define cols where "cols = map2 made_column [0..<length pss] pss"
  have len: "length cols = length pss" by (simp add: cols_def)
  have nth: "cols ! i = made_column i (pss ! i)" "simple_column (pss ! i)" if "i < length pss" for i
    using that assms(1) by (simp_all add: cols_def list_all_length)
  have fields: "map (\<lambda>c. col_prop c ''field'') cols = map (\<lambda>ps. lookup ps (str ''field'')) pss"
    by (rule nth_equalityI) (simp_all add: len nth made_column_props)
  have vis: "map (\<lambda>c. col_prop c ''field'') (filter (\<lambda>c. truthy (col_prop c ''visible'')) cols) =
      map (\<lambda>ps. lookup ps (str ''field'')) (filter column_visible pss)"
  proof -
    have "map (\<lambda>c. (col_prop c ''field'', truthy (col_prop c ''visible''))) cols =
        map (\<lambda>ps. (lookup ps (str ''field''), column_visible ps)) pss"
      by (rule nth_equalityI) (simp_all add: len nth made_column_props)
    from arg_cong [OF this, of "\<lambda>xs. map fst (filter snd xs)"] show ?thesis by (simp add: filter_map comp_def)
  qed
  have strs: "list_all (\<lambda>c. \<exists>s. col_prop c ''field'' = JStr s) cols"
    using nth by (auto simp: list_all_length len made_column_props simple_column_def)
  have "grid_ok w" if w: "columns (tab w) = cols" "grid w = [map Shared [0..<length pss]]" for w
    using nth by (auto simp: grid_ok_def w len made_column_props list_all_iff hcol_in_def)
  then have "hfields (hdr (tab (initHeader w))) = map (\<lambda>ps. lookup ps (str ''field'')) pss \<and>
      getVisibleFields (tab (initHeader w)) = Inr (map (\<lambda>ps. lookup ps (str ''field'')) (filter column_visible pss))"
    if "columns (tab w) = cols \<and> grid w = [map Shared [0..<length pss]]" for w
    using that assms(2) strs vis fields
    by (simp add: header_fields header_visible_fields getVisibleColumns_def)
  moreover have "initTable [] (map JObj pss) 1 [] = Inr (map Some cols, [map Shared [0..<length pss]], None)"
    by (simp add: initTable_def initColumns_simple [OF assms(1)] cols_def)
  moreover have "lookup (cols ! i) k =
      (if k = str ''fieldIndex'' then JInt (int i)
       else if lookup (pss ! i) k = Undefined then lookup COLUMN_DEFAULTS k
       else deep_value Undefined (lookup (pss ! i) k))" if "i < length pss" for i k
    using nth [OF that] by (simp add: lookup_made_column simple_column_def deep_value_Undefined)
  ultimately show ?thesis using len by blast
qed

end
