(* ===== verification/TableMenu.thy ===== *)
theory TableMenu
  imports TableColumns
begin

text \<open>
  The menu of columns of a table of \<^verbatim>\<open>bootstrap-table.js\<close>: its boxes follow the visibility of the columns, and clicks
  in it leave the minimum number of columns.
\<close>

section \<open>What redrawing keeps\<close>

definition same_columns :: "table \<Rightarrow> table \<Rightarrow> bool" where
  "same_columns t u \<longleftrightarrow> columns u = columns t \<and> (\<forall>k. k \<noteq> ''singleSelect'' \<longrightarrow> table_opt u k = table_opt t k)"

lemma same_columns_refl [simp]: "same_columns t t"
  by (simp add: same_columns_def)

lemma same_columns_trans: "same_columns t u \<Longrightarrow> same_columns u v \<Longrightarrow> same_columns t v"
  by (simp add: same_columns_def)

lemma fold_frame: "header_frame t (fold column_step cs t)"
  by (induction cs arbitrary: t) (auto intro: header_frame_trans column_step_frame)

lemma initHeader_same: "same_columns (tab w) (tab (initHeader w))"
proof -
  have "header_frame ((tab w)\<lparr>hdr := empty_header\<rparr>) (fold column_step (concat (grid w)) ((tab w)\<lparr>hdr := empty_header\<rparr>))"
    by (rule fold_frame)
  then show ?thesis unfolding same_columns_def by (subst (1 2) initHeader_tab) (simp add: header_frame_def table_opt_def)
qed

lemma initHeader_other [simp]: "menu (initHeader w) = menu w" "grid (initHeader w) = grid w" "toolbar_html (initHeader w) = toolbar_html w"
  by (simp_all add: initHeader_def getCaret_def Let_def)

lemma initSearch_same: "initSearch env t = Inr u \<Longrightarrow> same_columns t u"
  by (auto simp: initSearch_def same_columns_def table_opt_def new_array_def Let_def elim!: ebind_InrE split: if_splits option.splits)

lemma paginate_same: "paginate env t = Inr u \<Longrightarrow> same_columns t u"
  by (auto simp: paginate_def same_columns_def table_opt_def elim!: ebind_InrE)

lemma same_data_columns: "same_data t u \<Longrightarrow> same_columns t u"
  by (simp add: same_data_def same_columns_def table_opt_def)

lemma redraw_all_same:
  assumes "redraw_all env w = Inr w'"
  shows "same_columns (tab w) (tab w')" "menu w' = menu w"
proof -
  obtain t u v where t: "initSearch env (tab (initHeader w)) = Inr t" and u: "paginate env t = Inr u"
    and v: "initBody env False u = Inr v" and w': "w' = (initHeader w)\<lparr>tab := v\<rparr>"
    using assms by (auto simp: redraw_all_def Let_def ebind_Inr)
  show "same_columns (tab w) (tab w')"
    using same_columns_trans [OF initHeader_same same_columns_trans [OF initSearch_same [OF t]
        same_columns_trans [OF paginate_same [OF u] same_data_columns [OF initBody_keeps [OF v]]]]] w' by simp
  show "menu w' = menu w" using w' by simp
qed

section \<open>The boxes follow the columns\<close>

definition shown_at :: "table \<Rightarrow> nat \<Rightarrow> bool" where
  "shown_at t i \<longleftrightarrow> truthy (col_prop (columns t ! i) ''visible'')"

definition box_ok :: "table \<Rightarrow> citem \<Rightarrow> bool" where
  "box_ok t x \<longleftrightarrow> ci_index x < length (columns t) \<and> ci_checked x = shown_at t (ci_index x)"

definition menu_ok :: "widget \<Rightarrow> bool" where
  "menu_ok w \<longleftrightarrow> distinct (map ci_index (menu w)) \<and> list_all (box_ok (tab w)) (menu w) \<and>
     (\<not> truthy (table_opt (tab w) ''showColumns'') \<longrightarrow> menu w = [])"

text \<open>The boxes that are disabled are the checked ones, when there are no more than the minimum.\<close>

definition guarded :: "widget \<Rightarrow> bool" where
  "guarded w \<longleftrightarrow> list_all (\<lambda>x. ci_disabled x = (ci_checked x \<and>
     at_most (checked_items (menu w)) (table_opt (tab w) ''minimumCountColumns''))) (menu w)"

lemma same_columns_box: "same_columns t u \<Longrightarrow> box_ok u x = box_ok t x"
  by (simp add: same_columns_def box_ok_def shown_at_def)

lemma same_columns_opt: "same_columns t u \<Longrightarrow> k \<noteq> ''singleSelect'' \<Longrightarrow> table_opt u k = table_opt t k"
  by (simp add: same_columns_def)

lemma menu_ok_same: "same_columns (tab w) (tab w') \<Longrightarrow> menu w' = menu w \<Longrightarrow> menu_ok w \<Longrightarrow> menu_ok w'"
  by (simp add: menu_ok_def same_columns_box same_columns_opt list_all_iff)

lemma checked_guard [simp]: "checked_items (guard_items v xs) = checked_items xs"
  by (simp add: checked_items_def guard_items_def filter_map comp_def)

lemma guard_items_ok:
  "map ci_index (guard_items v xs) = map ci_index xs" "list_all (box_ok t) (guard_items v xs) = list_all (box_ok t) xs"
  by (simp_all add: guard_items_def comp_def list_all_iff box_ok_def)

lemma set_visible_shown:
  "i < length (columns t) \<Longrightarrow> j < length (columns t) \<Longrightarrow> shown_at (set_visible i b t) j = (if j = i then b else shown_at t j)"
  by (simp add: shown_at_def set_visible_def col_prop_def lookup_set_prop nth_list_update)

lemma length_set_visible [simp]: "length (columns (set_visible i b t)) = length (columns t)"
  by (simp add: set_visible_def)

lemma table_opt_set_visible [simp]: "table_opt (set_visible i b t) k = table_opt t k"
  by (simp add: set_visible_def table_opt_def)

text \<open>
  The effect of \<^verbatim>\<open>toggleColumn\<close>: when the boxes agree with the columns but for the box of the column, which
  either is brought up to date by the call or has been changed already, they agree afterwards.
\<close>

definition box_but :: "nat \<Rightarrow> bool \<Rightarrow> bool \<Rightarrow> table \<Rightarrow> citem \<Rightarrow> bool" where
  "box_but i b upd t x \<longleftrightarrow> ci_index x < length (columns t) \<and>
     (ci_index x = i \<and> (upd \<or> ci_checked x = b) \<or> ci_index x \<noteq> i \<and> ci_checked x = shown_at t (ci_index x))"

lemma toggleColumn_ok:
  assumes "toggleColumn env (int i) b upd w = Inr w'" "distinct (map ci_index (menu w))"
    "list_all (box_but i b upd (tab w)) (menu w)"
    "truthy (table_opt (tab w) ''showColumns'') \<or> menu w = []"
  shows "menu_ok w'" "guarded w'" "menu w = [] \<or> checked_items (menu w') = checked_items (if upd then check_item i b (menu w) else menu w)"
    "table_opt (tab w') ''minimumCountColumns'' = table_opt (tab w) ''minimumCountColumns''"
    "table_opt (tab w') ''showColumns'' = table_opt (tab w) ''showColumns''"
proof -
  let ?xs = "if upd then check_item i b (menu w) else menu w"
  have i: "i < length (columns (tab w))" using assms(1) by (auto simp: toggleColumn_def split: if_splits)
  obtain v where v: "redraw_all env (w\<lparr>tab := set_visible i b (tab w)\<rparr>) = Inr v"
    and w': "w' = (if truthy (table_opt (tab v) ''showColumns'')
      then v\<lparr>menu := guard_items (table_opt (tab v) ''minimumCountColumns'') (if upd then check_item i b (menu v) else menu v)\<rparr> else v)"
  proof -
    have "ebind (redraw_all env (w\<lparr>tab := set_visible i b (tab w)\<rparr>)) (\<lambda>v. Inr (if truthy (table_opt (tab v) ''showColumns'')
      then v\<lparr>menu := guard_items (table_opt (tab v) ''minimumCountColumns'') (if upd then check_item i b (menu v) else menu v)\<rparr> else v)) = Inr w'"
      using assms(1) i unfolding toggleColumn_def nat_int by simp
    then show ?thesis using that by (elim ebind_InrE) (simp only: sum.inject)
  qed
  note R = redraw_all_same [OF v, simplified]
  have o: "table_opt (tab v) k = table_opt (tab w) k" if "k \<noteq> ''singleSelect''" for k
    using same_columns_opt [OF R(1) that] by simp
  have tab: "tab w' = tab v" using w' by simp
  then show "table_opt (tab w') ''minimumCountColumns'' = table_opt (tab w) ''minimumCountColumns''"
    "table_opt (tab w') ''showColumns'' = table_opt (tab w) ''showColumns''" using o by simp_all
  have box: "list_all (box_ok (tab v)) ?xs" unfolding list_all_iff
  proof
    fix x assume x: "x \<in> set ?xs"
    then obtain y where y: "y \<in> set (menu w)" "x = (if upd \<and> ci_index y = i then y\<lparr>ci_checked := b\<rparr> else y)"
      by (cases upd) (auto simp: check_item_def)
    have "box_but i b upd (tab w) y" using assms(3) y(1) by (simp add: list_all_iff)
    then have "box_ok (set_visible i b (tab w)) x"
      using i y(2) by (cases "ci_index y = i"; cases upd) (simp_all add: box_but_def box_ok_def set_visible_shown)
    then show "box_ok (tab v) x" by (simp add: same_columns_box [OF R(1)])
  qed
  have dist: "distinct (map ci_index ?xs)" using assms(2) by (simp add: check_item_def comp_def if_distrib cong: if_cong)
  have "menu w' = guard_items (table_opt (tab v) ''minimumCountColumns'') ?xs \<or> menu w = [] \<and> menu w' = []"
    using w' R(2) o assms(4) by auto
  then consider (on) "menu w' = guard_items (table_opt (tab v) ''minimumCountColumns'') ?xs" | (off) "menu w = []" "menu w' = []"
    by blast
  then have "menu_ok w' \<and> guarded w' \<and> (menu w = [] \<or> checked_items (menu w') = checked_items ?xs)"
  proof cases
    case on
    have "menu w = [] \<Longrightarrow> menu w' = []" using on by (simp add: check_item_def guard_items_def split: if_splits)
    then show ?thesis using on box dist tab o assms(4)
      by (auto simp: menu_ok_def guarded_def guard_items_ok) (auto simp: guard_items_def list_all_iff)
  qed (simp add: menu_ok_def guarded_def)
  then show "menu_ok w'" "guarded w'" "menu w = [] \<or> checked_items (menu w') = checked_items ?xs" by blast+
qed

section \<open>Runs\<close>

lemma getFieldIndex_cases:
  obtains "getFieldIndex cs f = - 1" | i where "getFieldIndex cs f = int i"
proof -
  have "field_index_from k cs f = - 1 \<or> field_index_from k cs f \<ge> k" for k
  proof (induction cs arbitrary: k)
    case (Cons c cs)
    from Cons.IH [of "k + 1"] show ?case by auto
  qed simp
  from this [of 0] have "getFieldIndex cs f = - 1 \<or> getFieldIndex cs f = int (nat (getFieldIndex cs f))"
    by (auto simp: getFieldIndex_def)
  then show thesis using that by blast
qed

lemma toggle_field_ok:
  assumes "toggleColumn env (getFieldIndex (columns (tab w)) f) b True w = Inr w'" "menu_ok w" shows "menu_ok w'"
proof (cases rule: getFieldIndex_cases [of "columns (tab w)" f])
  case 1
  then show ?thesis using assms by (simp add: toggleColumn_def)
next
  case (2 i)
  from assms(1) have "toggleColumn env (int i) b True w = Inr w'" by (simp add: 2)
  then show ?thesis
    by (rule toggleColumn_ok(1)) (use assms(2) in \<open>auto simp: menu_ok_def list_all_iff box_ok_def box_but_def\<close>)
qed

text \<open>A click on a box that is not disabled.\<close>

lemma click_effect:
  assumes "menu_click env k w = Inr w'" "menu_ok w" "k < length (menu w)" "\<not> ci_disabled (menu w ! k)"
  shows "menu_ok w' \<and> guarded w' \<and>
    checked_items (menu w') = checked_items ((menu w)[k := (menu w ! k)\<lparr>ci_checked := \<not> ci_checked (menu w ! k)\<rparr>]) \<and>
    table_opt (tab w') ''minimumCountColumns'' = table_opt (tab w) ''minimumCountColumns''"
proof -
  define i b ys where "i = ci_index (menu w ! k)" and "b = (\<not> ci_checked (menu w ! k))"
    and "ys = (menu w)[k := (menu w ! k)\<lparr>ci_checked := b\<rparr>]"
  obtain v t where v: "toggleColumn env (int i) b False (w\<lparr>menu := ys\<rparr>) = Inr v"
    and t: "fire env ''column-switch'' [col_prop (columns (tab v) ! i) ''field'', JBool b] (tab v) = Inr t" "w' = v\<lparr>tab := t\<rparr>"
    using assms(1,3,4) unfolding menu_click_def i_def b_def ys_def by (auto simp: Let_def ebind_Inr)
  have D: "distinct (map ci_index (menu w))" "\<And>x. x \<in> set (menu w) \<Longrightarrow> box_ok (tab w) x"
    "truthy (table_opt (tab w) ''showColumns'')"
    using assms(2,3) by (auto simp: menu_ok_def list_all_iff)
  have idx: "map ci_index ys = map ci_index (menu w)"
    using assms(3) by (auto simp: ys_def map_update list_update_id [symmetric] intro!: list_update_same_conv [THEN iffD2])
  have boxes: "box_but i b False (tab w) x" if x: "x \<in> set ys" for x
  proof -
    obtain j where j: "j < length (menu w)" "x = ys ! j" using x by (auto simp: in_set_conv_nth ys_def)
    have "j = k" if "ci_index (menu w ! j) = i"
      using that D(1) j(1) assms(3) by (auto simp: i_def distinct_conv_nth)
    then show ?thesis using D(2) [OF nth_mem [OF j(1)]] j assms(3)
      by (cases "j = k") (auto simp: ys_def box_ok_def box_but_def i_def)
  qed
  have "distinct (map ci_index (menu (w\<lparr>menu := ys\<rparr>)))" "list_all (box_but i b False (tab (w\<lparr>menu := ys\<rparr>))) (menu (w\<lparr>menu := ys\<rparr>))"
    "truthy (table_opt (tab (w\<lparr>menu := ys\<rparr>)) ''showColumns'') \<or> menu (w\<lparr>menu := ys\<rparr>) = []"
    using D(1,3) idx boxes by (simp_all add: list_all_iff)
  note T = toggleColumn_ok [OF v this, simplified]
  have ne: "ys \<noteq> []" using assms(3) by (auto simp: ys_def)
  have s: "same_columns (tab v) (tab w')" using same_data_columns [OF fire_keeps [OF t(1)]] t(2) by simp
  have "menu_ok w'" by (rule menu_ok_same [OF s _ T(1)]) (simp add: t(2))
  moreover have "guarded w'" using T(2) t(2) same_columns_opt [OF s] by (simp add: guarded_def)
  ultimately show ?thesis using T(3,4) ne t(2) same_columns_opt [OF s, of "''minimumCountColumns''"] by (simp add: ys_def b_def)
qed

lemma toggleView_ok:
  assumes "toggleView env w = Inr w'" "menu_ok w" shows "menu_ok w'"
proof -
  define b where "b = (\<not> truthy (table_opt (tab w) ''cardView''))"
  define v where "v = initHeader (w\<lparr>tab := (tab w)\<lparr>options := set_prop (str ''cardView'') (JBool b) (options (tab w))\<rparr>\<rparr>)"
  obtain t u where t: "initBody env False (tab v) = Inr t" "fire env ''toggle'' [JBool b] t = Inr u" "w' = v\<lparr>tab := u\<rparr>"
    using assms(1) unfolding toggleView_def Let_def v_def b_def by (auto simp: ebind_Inr)
  have s: "same_columns (tab v) u"
    using same_columns_trans [OF same_data_columns [OF initBody_keeps [OF t(1)]] same_data_columns [OF fire_keeps [OF t(2)]]] .
  have "same_columns ((tab w)\<lparr>options := set_prop (str ''cardView'') (JBool b) (options (tab w))\<rparr>) (tab v)"
    using initHeader_same [of "w\<lparr>tab := (tab w)\<lparr>options := set_prop (str ''cardView'') (JBool b) (options (tab w))\<rparr>\<rparr>"]
    by (simp add: v_def)
  then have "columns u = columns (tab w)" "table_opt u ''showColumns'' = table_opt (tab w) ''showColumns''"
    using s by (simp_all add: same_columns_def table_opt_def lookup_set_prop)
  then show ?thesis using assms(2) t(3) by (simp add: menu_ok_def box_ok_def shown_at_def list_all_iff v_def)
qed

lemma initToolbar_menu: "initToolbar env w = Inr w' \<Longrightarrow> menu w' = menu_items (tab w')"
  unfolding initToolbar_def Let_def
  by (elim ebind_InrE) (drule sum.inject(2) [THEN iffD1], erule subst, simp)

lemma initToolbar_ok: "initToolbar env w = Inr w' \<Longrightarrow> menu_ok w'"
  by (auto simp: menu_ok_def initToolbar_menu menu_items_def list_all_iff box_ok_def shown_at_def comp_def switchable_columns_def)

inductive menu_run :: "env \<Rightarrow> widget \<Rightarrow> widget \<Rightarrow> bool" for env w where
  menu_start: "menu_run env w w"
| menu_show: "menu_run env w v \<Longrightarrow> showColumn env f v = Inr u \<Longrightarrow> menu_run env w u"
| menu_hide: "menu_run env w v \<Longrightarrow> hideColumn env f v = Inr u \<Longrightarrow> menu_run env w u"
| menu_view: "menu_run env w v \<Longrightarrow> toggleView env v = Inr u \<Longrightarrow> menu_run env w u"
| menu_box: "menu_run env w v \<Longrightarrow> menu_click env k v = Inr u \<Longrightarrow> menu_run env w u"

lemma click_ok: "menu_click env k w = Inr w' \<Longrightarrow> menu_ok w \<Longrightarrow> menu_ok w'"
  using click_effect [of env k w w'] by (cases "k < length (menu w) \<and> \<not> ci_disabled (menu w ! k)") (auto simp: menu_click_def)

lemma menu_run_ok: "menu_run env w w' \<Longrightarrow> menu_ok w \<Longrightarrow> menu_ok w'"
  by (induction rule: menu_run.induct) (auto simp: showColumn_def hideColumn_def intro: toggle_field_ok toggleView_ok click_ok)

text \<open>
  C10. The menu of columns tells the truth: from the moment \<^verbatim>\<open>initToolbar\<close> builds it, after any sequence of
  \<^verbatim>\<open>showColumn\<close>, \<^verbatim>\<open>hideColumn\<close>, \<^verbatim>\<open>toggleView\<close> and clicks in the menu that return, each box belongs to another column and is
  checked exactly when that column is visible.
\<close>

theorem menu_follows_columns:
  assumes "initToolbar env w0 = Inr w" "menu_run env w w'"
  shows "distinct (map ci_index (menu w')) \<and>
    list_all (\<lambda>x. ci_index x < length (columns (tab w')) \<and>
      ci_checked x = truthy (col_prop (columns (tab w') ! ci_index x) ''visible'')) (menu w')"
  using menu_run_ok [OF assms(2) initToolbar_ok [OF assms(1)]]
  by (simp add: menu_ok_def list_all_iff box_ok_def shown_at_def)

section \<open>The minimum of columns\<close>

lemma checked_update:
  assumes "k < length xs"
  shows "checked_items (xs[k := y]) + of_bool (ci_checked (xs ! k)) = checked_items xs + of_bool (ci_checked y)"
proof -
  obtain x ys zs where xs: "xs = ys @ x # zs" "length ys = k"
    using id_take_nth_drop [OF assms] assms by (metis length_take min.absorb4)
  then have "xs ! k = x" "xs[k := y] = ys @ y # zs" by auto
  then show ?thesis by (simp add: checked_items_def xs(1))
qed

lemma at_most_int: "at_most n (JInt m) \<longleftrightarrow> int n \<le> m"
proof -
  have "(of_nat n :: rat) \<le> of_int m \<longleftrightarrow> of_int (int n) \<le> (of_int m :: rat)" by simp
  then show ?thesis by (simp only: at_most_def to_num.simps jnum.case of_int_le_iff)
qed

inductive clicks :: "env \<Rightarrow> widget \<Rightarrow> widget \<Rightarrow> bool" for env w where
  clicks_none: "clicks env w w"
| clicks_step: "clicks env w v \<Longrightarrow> menu_click env k v = Inr u \<Longrightarrow> clicks env w u"

lemma click_minimum:
  assumes "menu_click env k w = Inr w'" "menu_ok w" "guarded w" "table_opt (tab w) ''minimumCountColumns'' = JInt m"
    "m \<le> int (checked_items (menu w))"
  shows "menu_ok w' \<and> guarded w' \<and> table_opt (tab w') ''minimumCountColumns'' = JInt m \<and> m \<le> int (checked_items (menu w'))"
proof (cases "k < length (menu w) \<and> \<not> ci_disabled (menu w ! k)")
  case True
  let ?x = "menu w ! k"
  note C = click_effect [OF assms(1,2) True [THEN conjunct1] True [THEN conjunct2]]
  have "\<not> ci_checked ?x \<or> m < int (checked_items (menu w))"
    using assms(3,4) True by (auto simp: guarded_def list_all_length at_most_int)
  moreover have "checked_items (menu w') + of_bool (ci_checked ?x) = checked_items (menu w) + of_bool (\<not> ci_checked ?x)"
    using C checked_update [of k "menu w" "?x\<lparr>ci_checked := \<not> ci_checked ?x\<rparr>"] True by simp
  ultimately have "m \<le> int (checked_items (menu w'))" using assms(5) by (cases "ci_checked ?x") auto
  then show ?thesis using C assms(4) by simp
next
  case False
  then have "w' = w" using assms(1) by (auto simp: menu_click_def)
  then show ?thesis using assms by simp
qed

lemma checked_visible:
  assumes "menu_ok w" shows "checked_items (menu w) \<le> length (getVisibleColumns (tab w))"
proof -
  let ?cs = "columns (tab w)" and ?is = "map ci_index (filter ci_checked (menu w))"
  let ?S = "{i. i < length ?cs \<and> truthy (col_prop (?cs ! i) ''visible'')}"
  have "distinct (map ci_index (menu w))" using assms by (simp add: menu_ok_def)
  then have "length ?is = card (set ?is)" by (rule distinct_card [OF distinct_map_filter, symmetric])
  moreover have "card (set ?is) \<le> card ?S"
    by (rule card_mono) (use assms in \<open>auto simp: menu_ok_def list_all_iff box_ok_def shown_at_def\<close>)
  ultimately have "length ?is \<le> card ?S" by simp
  then show ?thesis by (simp add: checked_items_def getVisibleColumns_def length_filter_conv_card)
qed

text \<open>The menu counts the switchable columns at first: right when each has a checked box.\<close>

lemma initToolbar_guarded:
  assumes "initToolbar env w0 = Inr w" "checked_items (menu w) = length (switchable_columns (tab w))"
  shows "guarded w"
proof -
  note m = initToolbar_menu [OF assms(1)]
  have "length (menu w) \<le> length (switchable_columns (tab w))" by (simp add: m menu_items_def)
  then have "length (filter ci_checked (menu w)) = length (menu w)"
    using assms(2) length_filter_le [of ci_checked "menu w"] by (simp add: checked_items_def)
  then have "ci_checked x" if "x \<in> set (menu w)" for x using that length_filter_less [of x "menu w" ci_checked] by fastforce
  moreover have "ci_disabled x = at_most (checked_items (menu w)) (table_opt (tab w) ''minimumCountColumns'')"
    if "x \<in> set (menu w)" for x
    using that unfolding assms(2) by (auto simp: m menu_items_def split: if_splits)
  ultimately show ?thesis by (simp add: guarded_def list_all_iff)
qed

text \<open>
  C21. Clicks in the menu keep the minimum of columns.  Start where \<^verbatim>\<open>initToolbar\<close> has built the menu with a checked
  box for every switchable column, or where a \<^verbatim>\<open>showColumn\<close> or \<^verbatim>\<open>hideColumn\<close> that found its column has
  returned; let at least \<^verbatim>\<open>minimumCountColumns\<close> boxes be checked there.  Then after any sequence of clicks in the
  menu that return at least so many boxes are checked, and at least as many columns are visible.  (With a column
  hidden from the start and no call yet, \<^verbatim>\<open>initToolbar\<close> counts wrongly and the first click may go below.)
\<close>

theorem menu_keeps_minimum:
  assumes "initToolbar env w0 = Inr w \<and> checked_items (menu w) = length (switchable_columns (tab w)) \<or>
      menu_ok w0 \<and> getFieldIndex (columns (tab w0)) f \<noteq> - 1 \<and> (showColumn env f w0 = Inr w \<or> hideColumn env f w0 = Inr w)"
    "table_opt (tab w) ''minimumCountColumns'' = JInt m" "m \<le> int (checked_items (menu w))"
    "clicks env w w'"
  shows "m \<le> int (checked_items (menu w')) \<and> checked_items (menu w') \<le> length (getVisibleColumns (tab w'))"
proof -
  have "menu_ok w \<and> guarded w"
    using assms(1)
  proof
    assume "initToolbar env w0 = Inr w \<and> checked_items (menu w) = length (switchable_columns (tab w))"
    then show ?thesis using initToolbar_ok initToolbar_guarded by blast
  next
    assume c: "menu_ok w0 \<and> getFieldIndex (columns (tab w0)) f \<noteq> - 1 \<and> (showColumn env f w0 = Inr w \<or> hideColumn env f w0 = Inr w)"
    then obtain i b where i: "toggleColumn env (int i) b True w0 = Inr w"
      by (cases rule: getFieldIndex_cases [of "columns (tab w0)" f]) (auto simp: showColumn_def hideColumn_def)
    have "menu_ok w" "guarded w"
      by (rule toggleColumn_ok [OF i]; use c in \<open>auto simp: menu_ok_def list_all_iff box_ok_def box_but_def\<close>)+
    then show ?thesis ..
  qed
  then have "menu_ok w" "guarded w" by blast+
  with assms(4,2,3) have "menu_ok w' \<and> guarded w' \<and> table_opt (tab w') ''minimumCountColumns'' = JInt m \<and> m \<le> int (checked_items (menu w'))"
  proof induction
    case (clicks_step v k u)
    then show ?case using click_minimum [of env k v u m] by blast
  qed blast
  then show ?thesis using checked_visible [of w'] by blast
qed

end
