(* ===== verification/TableToggle.thy ===== *)
theory TableToggle
  imports TableMenu
begin

text \<open>
  Showing and hiding columns of a table with default behaviour: the methods return, change the visibility of the
  one column and nothing of the rows.
\<close>

section \<open>Tables with plain columns\<close>

definition plain_column :: "props \<Rightarrow> bool" where
  "plain_column c \<longleftrightarrow> \<not> is_box c \<and> col_prop c ''formatter'' = Undefined \<and> col_prop c ''cellStyle'' = Undefined"

definition plain_widget :: "env \<Rightarrow> widget \<Rightarrow> bool" where
  "plain_widget env w \<longleftrightarrow>
     grid_ok w \<and> plain0 env (tab w) \<and> list_all plain_column (columns (tab w)) \<and>
     (\<forall>p. Own p \<in> set (concat (grid w)) \<longrightarrow> \<not> is_box p) \<and>
     position_of (sortName (tab w)) (map (\<lambda>c. col_prop c ''field'') (columns (tab w))) = None"

lemma column_step_plain:
  assumes "\<not> is_box (column_of t c)"
  shows "options (column_step c t) = options t" "stateField (hdr (column_step c t)) = stateField (hdr t)"
  using assms
  by (auto simp: column_step_def header_column_def Let_def set_state_field_def is_box_def header_slot_def split: option.splits)

lemma column_steps_plain:
  assumes "\<And>c. c \<in> set cs \<Longrightarrow> \<not> is_box (column_of t c)"
  shows "options (fold column_step cs t) = options t \<and> stateField (hdr (fold column_step cs t)) = stateField (hdr t)"
  using assms
proof (induction cs arbitrary: t)
  case (Cons c cs)
  have "columns (column_step c t) = columns t" using column_step_frame [of t c] by (simp add: header_frame_def)
  then have "column_of (column_step c t) d = column_of t d" for d by (simp add: column_of_def split: hcol.split)
  then show ?case using Cons column_step_plain [of t c] by simp
qed simp

lemma initHeader_plain:
  assumes "plain_widget env w"
  shows "tab (initHeader w) = (tab w)\<lparr>hdr := header_of (truthy (table_opt (tab w) ''cardView'')) (columns (tab w)),
      ths := ths (tab (initHeader w)), selectAll := False\<rparr>"
proof -
  let ?t = "(tab w)\<lparr>hdr := empty_header\<rparr>" and ?cs = "concat (grid w)"
  have ok: "grid_ok w" using assms by (simp add: plain_widget_def)
  have "\<not> is_box (column_of ?t c)" if "c \<in> set ?cs" for c
  proof (cases c)
    case (Shared i)
    then have "hcol_in (length (columns (tab w))) (Shared i)" using ok that by (auto simp: grid_ok_def list_all_iff)
    then have "i < length (columns (tab w))" by (simp add: hcol_in_def)
    then show ?thesis using assms Shared by (simp add: plain_widget_def column_of_def list_all_length plain_column_def)
  next
    case (Own p)
    then show ?thesis using assms that by (auto simp: plain_widget_def column_of_def)
  qed
  then have P: "options (fold column_step ?cs ?t) = options (tab w)" "stateField (hdr (fold column_step ?cs ?t)) = Undefined"
    using column_steps_plain [of ?cs ?t] by (simp_all add: empty_header_def)
  note K = initHeader_keeps [OF ok]
  have o: "options (tab (initHeader w)) = options (tab w)" "stateField (hdr (tab (initHeader w))) = Undefined"
    using P by (subst initHeader_tab, simp)+
  have "hdr (tab (initHeader w)) = arrays (hdr (tab (initHeader w)))" using o(2) by (simp add: arrays_def)
  then have h: "hdr (tab (initHeader w)) = header_of (truthy (table_opt (tab w) ''cardView'')) (columns (tab w))"
    using K(2) by simp
  have s: "selectAll (tab (initHeader w)) = False" by (subst initHeader_tab) simp
  have f: "(tab (initHeader w))\<lparr>ths := ths (tab w), selectAll := selectAll (tab w), hdr := hdr (tab w), options := options (tab w)\<rparr> = tab w"
    using K(1) by (simp add: header_frame_def)
  define X where "X = tab (initHeader w)"
  obtain a c h' o' where e: "tab w = X\<lparr>ths := a, selectAll := c, hdr := h', options := o'\<rparr>"
    using f [symmetric] unfolding X_def by blast
  have "o' = options X" using o(1) e by (simp add: X_def)
  then have "(tab w)\<lparr>hdr := hdr X, ths := ths X, selectAll := selectAll X\<rparr> = X" unfolding e by simp
  then show ?thesis using h s unfolding X_def by simp
qed

section \<open>Toggling a column\<close>

lemma set_visible_props:
  "i < length (columns t) \<Longrightarrow> k \<noteq> ''visible'' \<Longrightarrow> col_prop (columns (set_visible i b t) ! j) k = col_prop (columns t ! j) k"
  by (cases "j = i") (simp_all add: set_visible_def col_prop_def lookup_set_prop)

lemma set_visible_index:
  "i < length (columns t) \<Longrightarrow> index_of_column (columns (set_visible i b t) ! j) = index_of_column (columns t ! j)"
  using set_visible_props [of i t "''fieldIndex''" b j] by (simp add: index_of_column_def col_prop_def)

lemma set_visible_fields:
  "i < length (columns t) \<Longrightarrow> k \<noteq> ''visible'' \<Longrightarrow>
     map (\<lambda>c. col_prop c k) (columns (set_visible i b t)) = map (\<lambda>c. col_prop c k) (columns t)"
  by (rule nth_equalityI) (simp_all add: set_visible_props)

lemma set_visible_plain:
  assumes "plain_widget env w" "i < length (columns (tab w))"
  shows "plain_widget env (w\<lparr>tab := set_visible i b (tab w)\<rparr>)"
proof -
  have "is_box (columns (set_visible i b (tab w)) ! j) = is_box (columns (tab w) ! j)" for j
    using set_visible_props [OF assms(2)] by (simp add: is_box_def)
  then have "list_all plain_column (columns (set_visible i b (tab w)))"
    using assms by (simp add: plain_widget_def list_all_length plain_column_def set_visible_props)
  moreover have "plain0 env (set_visible i b (tab w))"
  proof -
    have "list_all (\<lambda>c. \<not> truthy (lookup c (str ''checkbox'')) \<and> \<not> truthy (lookup c (str ''radio''))) (columns (set_visible i b (tab w)))"
      using calculation by (simp add: list_all_length plain_column_def is_box_def col_prop_def)
    then show ?thesis using assms(1)
      by (simp add: plain_widget_def plain0_def calm_def plain_header_def ready_def client_def wf_table_def set_visible_def
          opt_rows_def table_opt_def)
  qed
  ultimately show ?thesis
    using assms by (simp add: plain_widget_def grid_ok_def set_visible_index set_visible_fields) (simp add: set_visible_def)
qed

lemma header_of_plain:
  assumes "plain_widget env w"
  shows "plain0 env (tab (initHeader w))" "rows_of (tab (initHeader w)) = rows_of (tab w)"
proof -
  have "list_all (\<lambda>v. v = Undefined) (map (\<lambda>c. col_prop c ''cellStyle'') (columns (tab w)))"
    "list_all (\<lambda>v. v = Undefined) (map (\<lambda>c. col_prop c ''formatter'') (columns (tab w)))"
    using assms by (auto simp: plain_widget_def list_all_iff plain_column_def)
  then show "plain0 env (tab (initHeader w))"
    using assms by (subst initHeader_plain [OF assms])
      (simp add: plain_widget_def plain0_def calm_def plain_header_def ready_def client_def wf_table_def opt_rows_def table_opt_def header_of_def)
  show "rows_of (tab (initHeader w)) = rows_of (tab w)"
    by (subst initHeader_plain [OF assms]) (simp add: rows_of_def opt_rows_def)
qed

lemma redraw_all_plain:
  assumes "plain_widget env w"
  shows "\<exists>w'. redraw_all env w = Inr w' \<and> plain_widget env w' \<and> rows_of (tab w') = rows_of (tab w) \<and> columns (tab w') = columns (tab w) \<and>
    hdr (tab w') = hdr (tab (initHeader w)) \<and> menu w' = menu w \<and> grid w' = grid w \<and> options (tab w') = options (tab w)"
proof -
  let ?v = "initHeader w"
  obtain t where t: "ebind (initSearch env (tab ?v)) (\<lambda>t. ebind (paginate env t) (initBody env False)) = Inr t"
    "plain env t" "rows_of t = rows_of (tab ?v)"
    using redraw_plain(2) [OF header_of_plain(1) [OF assms], of False] by blast
  obtain a b where a: "initSearch env (tab ?v) = Inr a" "paginate env a = Inr b" "initBody env False b = Inr t"
    using t(1) by (auto simp: ebind_Inr)
  have r: "redraw_all env w = Inr (?v\<lparr>tab := t\<rparr>)" using a by (simp add: redraw_all_def)
  have ad: "a = (tab ?v)\<lparr>data := opt_data (tab ?v)\<rparr>" using a(1) initSearch_plain [OF header_of_plain(1) [OF assms]] by simp
  have "same_data a t" using same_data_trans [OF paginate_keeps [OF a(2)] initBody_keeps [OF a(3)]] .
  then have k: "columns t = columns (tab ?v)" "hdr t = hdr (tab ?v)" "options t = options (tab ?v)" "sortName t = sortName (tab ?v)"
    by (simp_all add: same_data_def ad)
  have v: "columns (tab ?v) = columns (tab w)" "options (tab ?v) = options (tab w)" "sortName (tab ?v) = sortName (tab w)"
    by (subst initHeader_plain [OF assms], simp)+
  have "plain_widget env (?v\<lparr>tab := t\<rparr>)"
    using assms t(2) by (simp add: plain_widget_def grid_ok_def plain_def k v)
  then show ?thesis using r k v t(3) header_of_plain(2) [OF assms] by simp
qed

lemma redraw_visible_fields:
  assumes "plain_widget env w" "redraw_all env w = Inr w'"
    "list_all (\<lambda>c. \<exists>s. col_prop c ''field'' = JStr s) (columns (tab w))" "distinct (map (\<lambda>c. col_prop c ''field'') (columns (tab w)))"
  shows "getVisibleFields (tab w') = Inr (map (\<lambda>c. col_prop c ''field'') (getVisibleColumns (tab w')))"
proof -
  have ok: "grid_ok w" using assms(1) by (simp add: plain_widget_def)
  have "columns (tab w') = columns (tab w)" "hdr (tab w') = hdr (tab (initHeader w))"
    using redraw_all_plain [OF assms(1)] assms(2) by auto
  then show ?thesis
    using header_visible_fields [OF ok assms(3,4)] by (simp add: getVisibleFields_def getVisibleColumns_def header_fields [OF ok])
qed

lemma toggleColumn_plain:
  assumes "plain_widget env w" "i < length (columns (tab w))"
  shows "\<exists>w' v. toggleColumn env (int i) b upd w = Inr w' \<and> redraw_all env (w\<lparr>tab := set_visible i b (tab w)\<rparr>) = Inr v \<and> tab w' = tab v \<and>
    plain_widget env w' \<and> rows_of (tab w') = rows_of (tab w) \<and> columns (tab w') = columns (set_visible i b (tab w)) \<and>
    options (tab w') = options (tab w) \<and> (truthy (table_opt (tab w) ''showColumns'') \<longrightarrow>
      menu w' = guard_items (table_opt (tab w) ''minimumCountColumns'') (if upd then check_item i b (menu w) else menu w))"
proof -
  note P = set_visible_plain [OF assms, of b]
  obtain v where v: "redraw_all env (w\<lparr>tab := set_visible i b (tab w)\<rparr>) = Inr v" "plain_widget env v"
    "rows_of (tab v) = rows_of (set_visible i b (tab w))" "columns (tab v) = columns (set_visible i b (tab w))"
    "options (tab v) = options (set_visible i b (tab w))" "menu v = menu w"
    using redraw_all_plain [OF P] by auto
  define w' where "w' = (if truthy (table_opt (tab v) ''showColumns'')
             then v\<lparr>menu := guard_items (table_opt (tab v) ''minimumCountColumns'')
                      (if upd then check_item i b (menu v) else menu v)\<rparr> else v)"
  have "toggleColumn env (int i) b upd w = Inr w'"
    using assms(2) v(1) unfolding toggleColumn_def nat_int w'_def by simp
  moreover have "tab w' = tab v" "grid w' = grid v" by (simp_all add: w'_def)
  moreover have "plain_widget env w'" using v(2) \<open>tab w' = tab v\<close> \<open>grid w' = grid v\<close> by (simp add: plain_widget_def grid_ok_def)
  moreover have "table_opt (tab v) k = table_opt (tab w) k" for k using v(5) by (simp add: table_opt_def set_visible_def)
  then have "truthy (table_opt (tab w) ''showColumns'') \<longrightarrow>
      menu w' = guard_items (table_opt (tab w) ''minimumCountColumns'') (if upd then check_item i b (menu w) else menu w)"
    by (simp add: w'_def v(6))
  ultimately show ?thesis using v by (auto simp: set_visible_def rows_of_def opt_rows_def)
qed

text \<open>
  C25. Showing and hiding a column of a table with default behaviour: \<^verbatim>\<open>toggleColumn\<close> returns, the rows and the other columns stay,
  the column is visible exactly when asked for, and afterwards \<^verbatim>\<open>getVisibleFields\<close> returns the fields of the visible columns.
\<close>

theorem toggleColumn_returns:
  assumes "plain_widget env w" "i < length (columns (tab w))"
    "list_all (\<lambda>c. \<exists>s. col_prop c ''field'' = JStr s) (columns (tab w))" "distinct (map (\<lambda>c. col_prop c ''field'') (columns (tab w)))"
  shows "\<exists>w'. toggleColumn env (int i) b needUpdate w = Inr w' \<and> plain_widget env w' \<and> rows_of (tab w') = rows_of (tab w) \<and>
    columns (tab w') = (columns (tab w))[i := set_prop (str ''visible'') (JBool b) (columns (tab w) ! i)] \<and>
    getVisibleFields (tab w') = Inr (map (\<lambda>c. col_prop c ''field'') (getVisibleColumns (tab w')))"
proof -
  let ?w = "w\<lparr>tab := set_visible i b (tab w)\<rparr>"
  obtain w' v where w': "toggleColumn env (int i) b needUpdate w = Inr w'" "redraw_all env ?w = Inr v" "tab w' = tab v" "plain_widget env w'"
    "rows_of (tab w') = rows_of (tab w)" "columns (tab w') = columns (set_visible i b (tab w))"
    using toggleColumn_plain [OF assms(1,2), of b needUpdate] by blast
  have "list_all (\<lambda>c. \<exists>s. col_prop c ''field'' = JStr s) (columns (set_visible i b (tab w)))"
    using assms(2,3) by (simp add: list_all_length set_visible_props)
  moreover have "distinct (map (\<lambda>c. col_prop c ''field'') (columns (set_visible i b (tab w))))"
    using assms(2,4) by (simp add: set_visible_fields)
  ultimately have "getVisibleFields (tab w') = Inr (map (\<lambda>c. col_prop c ''field'') (getVisibleColumns (tab w')))"
    using redraw_visible_fields [OF set_visible_plain [OF assms(1,2)] w'(2)] w'(3) by simp
  then show ?thesis using w' by (auto simp: set_visible_def)
qed

section \<open>A table with two columns\<close>

lemma initToolbar_plain:
  assumes "call env = default_call" "\<exists>ps. table_opt (tab w) ''icons'' = JObj ps"
    "list_all (\<lambda>f. is_fun (table_opt (tab w) f)) [''formatPaginationSwitch'', ''formatRefresh'', ''formatToggle'', ''formatColumns'', ''formatSearch'']"
  shows "\<exists>w'. initToolbar env w = Inr w' \<and> tab w' = tab w \<and> grid w' = grid w \<and> menu w' = menu_items (tab w)"
proof -
  let ?t = "tab w"
  obtain ps where ps: "table_opt ?t ''icons'' = JObj ps" using assms(2) by blast
  have ic: "\<exists>h. icon_markup ?t i = Inr h" for i by (simp add: icon_markup_def ps)
  have call: "\<exists>v. apply_fun (call env) (table_opt ?t f) [] = Inr v"
    if "f \<in> {''formatPaginationSwitch'', ''formatRefresh'', ''formatToggle'', ''formatColumns'', ''formatSearch''}" for f
    using that assms(1,3) apply_default by auto
  have b: "\<exists>h. toolbar_button env ?t s n f i = Inr h"
    if "f \<in> {''formatPaginationSwitch'', ''formatRefresh'', ''formatToggle'', ''formatColumns'', ''formatSearch''}" for s n f i
    using call [OF that] ic [of i] by (auto simp: toolbar_button_def)
  obtain h1 where h1:
    "toolbar_button env ?t ''showPaginationSwitch'' ''paginationSwitch'' ''formatPaginationSwitch'' ''paginationSwitchDown'' = Inr h1"
    using b [of "''formatPaginationSwitch''" "''showPaginationSwitch''" "''paginationSwitch''" "''paginationSwitchDown''"] by auto
  obtain h2 where h2: "toolbar_button env ?t ''showRefresh'' ''refresh'' ''formatRefresh'' ''refresh'' = Inr h2"
    using b [of "''formatRefresh''" "''showRefresh''" "''refresh''" "''refresh''"] by auto
  obtain h3 where h3: "toolbar_button env ?t ''showToggle'' ''toggle'' ''formatToggle'' ''toggle'' = Inr h3"
    using b [of "''formatToggle''" "''showToggle''" "''toggle''" "''toggle''"] by auto
  obtain v i where "apply_fun (call env) (table_opt ?t ''formatColumns'') [] = Inr v" "icon_markup ?t ''columns'' = Inr i"
    using call [of "''formatColumns''"] ic [of "''columns''"] by auto
  then have "\<exists>h. columns_menu env ?t = Inr h"
    unfolding columns_menu_def by (simp only: ebind_simps) (simp split: if_split)
  then obtain h4 where h4: "columns_menu env ?t = Inr h4" by blast
  obtain u where "apply_fun (call env) (table_opt ?t ''formatSearch'') [] = Inr u" using call [of "''formatSearch''"] by auto
  then have "\<exists>h. search_box env ?t = Inr h" unfolding search_box_def by (simp only: ebind_simps) (simp split: if_split)
  then obtain h5 where h5: "search_box env ?t = Inr h5" by blast
  show ?thesis
    unfolding initToolbar_def Let_def ps jsv.case
    by (simp only: ebind_simps h1 h2 h3 h4 h5) (intro exI conjI, rule refl, simp_all)
qed

definition sample_widget :: widget where
  "sample_widget =
     \<lparr>tab = sample_table\<lparr>options := set_prop (str ''showColumns'') (JBool True) DEFAULTS,
        columns := [made_column 0 [(str ''field'', S ''topic''), (str ''title'', S ''Topic'')],
                    made_column 1 [(str ''field'', S ''group''), (str ''title'', S ''Group'')]]\<rparr>,
      grid = [[Shared 0, Shared 1]], head_html = [], head_cells = [], head_shown = True, toolbar_html = [], menu = []\<rparr>"

lemma sample_columns:
  "col_prop (made_column i [(str ''field'', v), (str ''title'', u)]) k =
    (if k = ''fieldIndex'' then JInt (int i) else if k = ''field'' \<and> deep_value Undefined v \<noteq> Undefined then deep_value Undefined v
     else if k = ''title'' \<and> deep_value Undefined u \<noteq> Undefined then deep_value Undefined u else lookup COLUMN_DEFAULTS (str k))"
proof -
  have d: "distinct (map fst [(str ''field'', v), (str ''title'', u)])" by simp
  show ?thesis unfolding col_prop_def lookup_made_column [OF d] by (auto simp: lookup_Cons lookup_Nil)
qed

lemma sample_tab:
  "columns (tab sample_widget) = [made_column 0 [(str ''field'', S ''topic''), (str ''title'', S ''Topic'')],
     made_column 1 [(str ''field'', S ''group''), (str ''title'', S ''Group'')]]"
  "table_opt (tab sample_widget) k = (if k = ''showColumns'' then JBool True else lookup DEFAULTS (str k))"
  "grid sample_widget = [[Shared 0, Shared 1]]"
  by (simp_all add: sample_widget_def table_opt_def lookup_set_prop)

lemma sample_index: "index_of_column (made_column i [(str ''field'', v), (str ''title'', u)]) = Some (int i)"
  using sample_columns [of i v u "''fieldIndex''"] by (simp add: index_of_column_def col_prop_def)

lemma column_defaults:
  "lookup COLUMN_DEFAULTS (str ''visible'') = JBool True" "lookup COLUMN_DEFAULTS (str ''checkbox'') = JBool False"
  "lookup COLUMN_DEFAULTS (str ''radio'') = JBool False" "lookup COLUMN_DEFAULTS (str ''formatter'') = Undefined"
  "lookup COLUMN_DEFAULTS (str ''cellStyle'') = Undefined" "lookup COLUMN_DEFAULTS (str ''switchable'') = JBool True"
  by (simp_all add: COLUMN_DEFAULTS_def lookup_Cons)

lemma plain_showColumns: "plain_options os \<Longrightarrow> plain_options (set_prop (str ''showColumns'') v os)"
proof -
  have "\<not> handler_key (str ''showColumns'')" by (simp add: handler_key_def str_def)
  note h = handlers_set_prop [OF this, of os v]
  show "plain_options os \<Longrightarrow> plain_options (set_prop (str ''showColumns'') v os)"
    using h unfolding plain_options_def by (simp add: opt_def lookup_set_prop)
qed

lemma sample_plain_widget: "plain_widget sample_env sample_widget"
proof -
  have p: "plain0 sample_env sample_table" using sample_plain by (simp add: plain_def)
  have b: "\<not> is_box (made_column i [(str ''field'', S a), (str ''title'', S c)])" for i a c
    by (simp add: is_box_def sample_columns column_defaults)
  then have "\<not> truthy (lookup (made_column i [(str ''field'', S a), (str ''title'', S c)]) (str ''checkbox''))"
    "\<not> truthy (lookup (made_column i [(str ''field'', S a), (str ''title'', S c)]) (str ''radio''))" for i a c
    by (simp_all add: is_box_def col_prop_def)
  moreover have "plain_options (options (tab sample_widget))"
    using plain_showColumns [OF plain_DEFAULTS] by (simp add: sample_widget_def)
  ultimately have "plain0 sample_env (tab sample_widget)"
    using p by (simp add: plain0_def calm_def plain_header_def ready_def client_def wf_table_def opt_rows_def table_opt_def
        sample_widget_def sample_table_def lookup_set_prop)
  moreover have "grid_ok sample_widget"
    by (auto simp: grid_ok_def sample_tab sample_index hcol_in_def less_Suc_eq numeral_2_eq_2)
  moreover have "sortName (tab sample_widget) = Undefined" by (simp add: sample_widget_def sample_table_def)
  ultimately show ?thesis
    by (simp add: plain_widget_def sample_tab plain_column_def b sample_columns column_defaults position_of_def)
qed

lemma sample_defaults:
  "lookup DEFAULTS (str ''minimumCountColumns'') = JInt 1" "lookup DEFAULTS (str ''cardView'') = JBool False"
  "\<exists>ps. lookup DEFAULTS (str ''icons'') = JObj ps"
  "list_all (\<lambda>f. is_fun (lookup DEFAULTS (str f))) [''formatPaginationSwitch'', ''formatRefresh'', ''formatToggle'', ''formatColumns'', ''formatSearch'']"
  unfolding default_objects list.pred_inject by (simp_all add: lookup_Cons lookup_Nil is_fun_def cong: lookup_key_cong)

text \<open>\<^verbatim>\<open>sprintf\<close> gives something when there is an argument for every \<^verbatim>\<open>%s\<close>.\<close>

fun holes :: "js_string \<Rightarrow> nat" where
  "holes (x # y # s) = (if x = 37 \<and> y = 115 then Suc (holes s) else holes (y # s))"
| "holes s = 0"

lemma sprintf_flag: "holes s \<le> length args \<Longrightarrow> Undefined \<notin> set args \<Longrightarrow> snd (sprintf_loop s args)"
proof (induction s args rule: sprintf_loop.induct)
  case (3 x y s args)
  show ?case
  proof (cases "x = 37 \<and> y = 115")
    case True
    then obtain a as where "args = a # as" using "3.prems"(1) by (cases args) auto
    then show ?thesis using 3 True by (auto simp: case_prod_unfold)
  next
    case False
    then show ?thesis using 3 by (auto simp: case_prod_unfold)
  qed
qed simp_all

lemma sprintf_nonempty:
  assumes "holes (x # y # s) \<le> length args" "Undefined \<notin> set args" "x \<noteq> 37" shows "sprintf (x # y # s) args \<noteq> []"
  using sprintf_flag [OF assms(1,2)] assms(3) by (auto simp: sprintf_def case_prod_unfold Let_def)

lemma menu_entry_nonempty:
  assumes "col_prop c ''field'' \<noteq> Undefined" "col_prop c ''title'' \<noteq> Undefined" shows "menu_entry i c \<noteq> []"
proof -
  have "sprintf (str ''<li>'' @ str ''<label><input type=\"checkbox\" data-field=\"%s\" value=\"%s\"%s> %s</label>'' @ str ''</li>'') [u, v, x, y] \<noteq> []"
    if "Undefined \<notin> {u, v, x, y}" for u v x y
    using that by (simp add: str_def sprintf_nonempty)
  then show ?thesis using assms unfolding menu_entry_def by simp
qed

lemma sample_menu:
  "menu_items (tab sample_widget) = [\<lparr>ci_index = 0, ci_checked = True, ci_disabled = False\<rparr>, \<lparr>ci_index = 1, ci_checked = True, ci_disabled = False\<rparr>]"
proof -
  have sw: "switchable_columns (tab sample_widget) = [0, 1]"
    by (simp add: switchable_columns_def sample_tab upt_rec is_box_def sample_columns column_defaults sample_defaults)
  have "\<not> at_most 2 (JInt 1)" by (simp add: at_most_int del: of_int_1)
  then show ?thesis
    by (simp add: menu_items_def sw sample_tab sample_columns column_defaults sample_defaults numeral_2_eq_2 menu_entry_nonempty)
qed

lemma sample_toolbar:
  obtains w where "initToolbar sample_env sample_widget = Inr w" "tab w = tab sample_widget" "grid w = grid sample_widget"
    "menu w = menu_items (tab sample_widget)" "plain_widget sample_env w" "menu_ok w"
proof -
  obtain w where w: "initToolbar sample_env sample_widget = Inr w" "tab w = tab sample_widget" "grid w = grid sample_widget"
    "menu w = menu_items (tab sample_widget)"
    using initToolbar_plain [of sample_env sample_widget] sample_defaults(3,4) by (auto simp: sample_tab sample_env_def)
  then have "plain_widget sample_env w" using sample_plain_widget by (simp add: plain_widget_def grid_ok_def)
  then show thesis using that w initToolbar_ok [OF w(1)] by blast
qed

lemma sample_field: "getFieldIndex (columns (tab sample_widget)) (S ''topic'') = int 0"
  using sample_columns [of 0 "S ''topic''" "S ''Topic''" "''field''"]
  by (simp add: getFieldIndex_def sample_tab col_prop_def)

lemma sample_fields:
  "list_all (\<lambda>c. \<exists>s. col_prop c ''field'' = JStr s) (columns (tab sample_widget))"
  "distinct (map (\<lambda>c. col_prop c ''field'') (columns (tab sample_widget)))"
  by (simp_all add: sample_tab sample_columns)

theorem toggleColumn_returns_witness:
  "\<exists>w'. toggleColumn sample_env 0 False True sample_widget = Inr w' \<and> rows_of (tab w') = rows_of (tab sample_widget) \<and>
     getVisibleFields (tab w') = Inr [S ''group'']"
proof -
  have "0 < length (columns (tab sample_widget))" by (simp add: sample_tab)
  from toggleColumn_returns [OF sample_plain_widget this sample_fields, of False True] obtain w' where
    w': "toggleColumn sample_env 0 False True sample_widget = Inr w'" "rows_of (tab w') = rows_of (tab sample_widget)"
    "columns (tab w') = (columns (tab sample_widget))[0 := set_prop (str ''visible'') (JBool False) (columns (tab sample_widget) ! 0)]"
    "getVisibleFields (tab w') = Inr (map (\<lambda>c. col_prop c ''field'') (getVisibleColumns (tab w')))"
    by auto
  have "map (\<lambda>c. col_prop c ''field'') (getVisibleColumns (tab w')) = [S ''group'']"
    by (simp add: getVisibleColumns_def w'(3) sample_tab sample_columns column_defaults)
      (simp add: col_prop_def lookup_set_prop)
  then show ?thesis using w' by simp
qed

theorem header_follows_columns_witness:
  "hfields (hdr (tab (initHeader sample_widget))) = [S ''topic'', S ''group''] \<and>
   getVisibleFields (tab (initHeader sample_widget)) = Inr [S ''topic'', S ''group'']"
proof -
  have "grid_ok sample_widget" using sample_plain_widget by (simp add: plain_widget_def)
  note H = header_follows_columns [OF this sample_fields]
  have "hfields ((hdr (tab (initHeader sample_widget)))\<lparr>stateField := Undefined\<rparr>) = [S ''topic'', S ''group'']"
    using H by (simp only: header_of_def) (simp add: sample_tab sample_columns)
  then have "hfields (hdr (tab (initHeader sample_widget))) = [S ''topic'', S ''group'']" by simp
  then show ?thesis using H [THEN conjunct2, THEN conjunct2] by (simp add: getVisibleColumns_def sample_tab sample_columns column_defaults)
qed

theorem columns_from_options_witness:
  "\<exists>c0 c1. initTable [] [JObj [(str ''field'', S ''topic'')], JObj [(str ''field'', S ''group''), (str ''visible'', JBool False)]] 1 [] =
      Inr ([Some c0, Some c1], [[Shared 0, Shared 1]], None) \<and>
    col_prop c0 ''field'' = S ''topic'' \<and> col_prop c0 ''fieldIndex'' = JInt 0 \<and> col_prop c0 ''visible'' = JBool True \<and>
    col_prop c0 ''order'' = S ''asc'' \<and> col_prop c1 ''fieldIndex'' = JInt 1 \<and> col_prop c1 ''visible'' = JBool False \<and>
    col_prop c1 ''searchable'' = JBool True"
proof -
  let ?pss = "[[(str ''field'', S ''topic'')], [(str ''field'', S ''group''), (str ''visible'', JBool False)]]"
  obtain cols where c: "initTable [] (map JObj ?pss) 1 [] = Inr (map Some cols, [map Shared [0..<length ?pss]], None)"
    "length cols = 2" and l: "\<And>i k. i < 2 \<Longrightarrow> lookup (cols ! i) k =
      (if k = str ''fieldIndex'' then JInt (int i)
       else if lookup (?pss ! i) k = Undefined then lookup COLUMN_DEFAULTS k
       else deep_value Undefined (lookup (?pss ! i) k))"
    using columns_from_options [of ?pss] by (auto simp: simple_column_def lookup_Cons lookup_Nil numeral_2_eq_2)
  obtain c0 c1 where "cols = [c0, c1]" using c(2) by (metis length_0_conv length_Suc_conv numeral_2_eq_2)
  then have cs: "lookup c0 k = (if k = str ''fieldIndex'' then JInt 0
       else if lookup [(str ''field'', S ''topic'')] k = Undefined then lookup COLUMN_DEFAULTS k
       else deep_value Undefined (lookup [(str ''field'', S ''topic'')] k))"
    "lookup c1 k = (if k = str ''fieldIndex'' then JInt 1
       else if lookup [(str ''field'', S ''group''), (str ''visible'', JBool False)] k = Undefined then lookup COLUMN_DEFAULTS k
       else deep_value Undefined (lookup [(str ''field'', S ''group''), (str ''visible'', JBool False)] k))" for k
    using l [of 0 k] l [of 1 k] by simp_all
  have "col_prop c0 ''field'' = S ''topic''" "col_prop c0 ''fieldIndex'' = JInt 0" "col_prop c0 ''visible'' = JBool True"
    "col_prop c0 ''order'' = S ''asc''" "col_prop c1 ''fieldIndex'' = JInt 1" "col_prop c1 ''visible'' = JBool False"
    "col_prop c1 ''searchable'' = JBool True"
    unfolding col_prop_def cs COLUMN_DEFAULTS_def
    by (simp_all add: lookup_Cons lookup_Nil cong: lookup_key_cong)
  then show ?thesis using c(1) \<open>cols = [c0, c1]\<close> by (auto simp: upt_rec)
qed

theorem menu_follows_columns_witness:
  "\<exists>w w'. initToolbar sample_env sample_widget = Inr w \<and> hideColumn sample_env (S ''topic'') w = Inr w' \<and>
     list_all (\<lambda>x. ci_index x < length (columns (tab w')) \<and>
       ci_checked x = truthy (col_prop (columns (tab w') ! ci_index x) ''visible'')) (menu w')"
proof -
  obtain w where w: "initToolbar sample_env sample_widget = Inr w" "tab w = tab sample_widget" "plain_widget sample_env w"
    by (rule sample_toolbar)
  obtain w' where "hideColumn sample_env (S ''topic'') w = Inr w'"
    using toggleColumn_plain [OF w(3), of 0 False True] sample_field by (auto simp: hideColumn_def w(2) sample_tab(1))
  then show ?thesis
    using menu_follows_columns [OF w(1) menu_hide [OF menu_start]] w(1) by blast
qed

lemma sample_call: "call sample_env = default_call"
  by (simp add: sample_env_def)

lemma plain_handlers: "plain_widget env v \<Longrightarrow> list_all (\<lambda>n. is_fun (lookup (options (tab v)) (handler_of n))) (''all'' # raised)"
  unfolding plain_widget_def plain0_def calm_def plain_options_def by blast

lemma column_switch_raised: "''column-switch'' \<in> set raised"
  by (simp add: raised_def)

theorem menu_keeps_minimum_witness:
  "\<exists>w0 w w'. initToolbar sample_env sample_widget = Inr w0 \<and> showColumn sample_env (S ''topic'') w0 = Inr w \<and>
     menu_click sample_env 0 w = Inr w' \<and> 1 \<le> int (checked_items (menu w')) \<and>
     checked_items (menu w') \<le> length (getVisibleColumns (tab w'))"
proof -
  obtain w0 where w0: "initToolbar sample_env sample_widget = Inr w0" "tab w0 = tab sample_widget"
    "menu w0 = menu_items (tab sample_widget)" "plain_widget sample_env w0" "menu_ok w0"
    by (rule sample_toolbar)
  have min: "table_opt (tab sample_widget) ''minimumCountColumns'' = JInt 1" "truthy (table_opt (tab sample_widget) ''showColumns'')"
    by (simp_all add: sample_tab sample_defaults)
  obtain w where w: "toggleColumn sample_env (int 0) True True w0 = Inr w" "plain_widget sample_env w" "options (tab w) = options (tab sample_widget)"
    "length (columns (tab w)) = 2" "menu w = guard_items (JInt 1) (check_item 0 True (menu_items (tab sample_widget)))"
    using toggleColumn_plain [OF w0(4), of 0 True True] min by (auto simp: w0(2,3) sample_tab(1))
  have two: "\<not> at_most 2 (JInt 1)" by (simp add: at_most_int del: of_int_1)
  then have m: "menu w = [\<lparr>ci_index = 0, ci_checked = True, ci_disabled = False\<rparr>, \<lparr>ci_index = 1, ci_checked = True, ci_disabled = False\<rparr>]"
    unfolding w(5) by (simp add: sample_menu check_item_def guard_items_def checked_items_def numeral_2_eq_2)
  have o: "table_opt (tab w) k = table_opt (tab sample_widget) k" for k using w(3) by (simp add: table_opt_def)
  have pw: "plain_widget sample_env (w\<lparr>menu := ys\<rparr>)" for ys using w(2) by (simp add: plain_widget_def grid_ok_def)
  obtain v where v: "toggleColumn sample_env (int 0) False False (w\<lparr>menu := (menu w)[0 := (menu w ! 0)\<lparr>ci_checked := False\<rparr>]\<rparr>) = Inr v"
    "plain_widget sample_env v"
    using toggleColumn_plain [OF pw, of 0 _ False False] w(4) by auto
  obtain es where "fire sample_env ''column-switch'' [col_prop (columns (tab v) ! 0) ''field'', JBool False] (tab v) = Inr ((tab v)\<lparr>events := es\<rparr>)"
    using fire_plain [OF sample_call plain_handlers [OF v(2)] column_switch_raised] by blast
  then have c: "menu_click sample_env 0 w = Inr (v\<lparr>tab := (tab v)\<lparr>events := es\<rparr>\<rparr>)"
    using v(1) by (simp add: menu_click_def m)
  have s: "showColumn sample_env (S ''topic'') w0 = Inr w" using w(1) by (simp add: showColumn_def w0(2) sample_field)
  have "getFieldIndex (columns (tab w0)) (S ''topic'') \<noteq> - 1" by (simp add: w0(2) sample_field)
  moreover have "1 \<le> int (checked_items (menu w))" by (simp add: m checked_items_def)
  ultimately show ?thesis
    using menu_keeps_minimum [of sample_env w0 w "S ''topic''" 1, OF disjI2 _ _ clicks_step [OF clicks_none c]]
      o min w0(1,5) s c by auto
qed

end
