(* ===== verification/TableLayout.thy ===== *)
theory TableLayout
  imports TableColumns
begin

text \<open>
  The rows \<^verbatim>\<open>initTable\<close> reads from the markup: the cells are placed as in the table model of HTML, each in
  the first slot of its row that is free, whatever spans reach into the row from above.
\<close>

section \<open>Reference layout\<close>

text \<open>The slots are pairs of a row and a column; a cell covers a block of them.\<close>

definition td_span :: "string \<Rightarrow> td_el \<Rightarrow> nat" where
  "td_span k td = (case span_attr (td_attrs td) k of Inl _ \<Rightarrow> 0 | Inr n \<Rightarrow> n)"

definition spans_positive :: "td_el \<Rightarrow> bool" where
  "spans_positive td \<longleftrightarrow> td_span ''colspan'' td > 0 \<and> td_span ''rowspan'' td > 0"

definition first_free :: "(nat \<times> nat) set \<Rightarrow> nat \<Rightarrow> nat" where
  "first_free occ y = (LEAST x. (y, x) \<notin> occ)"

definition block :: "nat \<Rightarrow> nat \<Rightarrow> td_el \<Rightarrow> (nat \<times> nat) set" where
  "block y x td = {y..<y + td_span ''rowspan'' td} \<times> {x..<x + td_span ''colspan'' td}"

fun place_tds :: "nat \<Rightarrow> td_el list \<Rightarrow> (nat \<times> nat) set \<Rightarrow> nat list \<times> (nat \<times> nat) set" where
  "place_tds y [] occ = ([], occ)"
| "place_tds y (td # tds) occ =
     (let x = first_free occ y; (xs, occ') = place_tds y tds (occ \<union> block y x td) in (x # xs, occ'))"

fun html_layout :: "nat \<Rightarrow> tr_el list \<Rightarrow> (nat \<times> nat) set \<Rightarrow> nat list list" where
  "html_layout y [] occ = []"
| "html_layout y (tr # trs) occ =
     (let (xs, occ') = place_tds y (tr_cells tr) occ in xs # html_layout (Suc y) trs occ')"

definition has_column :: "props option list \<Rightarrow> nat \<Rightarrow> bool" where
  "has_column cols x \<longleftrightarrow> x < length cols \<and> cols ! x \<noteq> None"

fun cells_at :: "props option list \<Rightarrow> td_el list \<Rightarrow> nat list \<Rightarrow> props \<Rightarrow> props" where
  "cells_at cols (td # tds) (x # xs) row = cells_at cols tds xs (td_props (lookup (the (cols ! x)) (str ''field'')) td row)"
| "cells_at cols _ _ row = row"

definition markup_row :: "props option list \<Rightarrow> tr_el \<Rightarrow> nat list \<Rightarrow> props" where
  "markup_row cols tr xs =
     cells_at cols (tr_cells tr) xs
       [(str ''_id'', lookup (tr_attrs tr) (str ''id'')), (str ''_class'', lookup (tr_attrs tr) (str ''class'')),
        (str ''_data'', JObj (getRealDataAttr (tr_data tr)))]"

section \<open>The matrix as a set of slots\<close>

definition occupied :: "bool list list \<Rightarrow> (nat \<times> nat) set" where
  "occupied m = {(y, x). taken_at m y x}"

lemma occupied_iff [simp]: "(y, x) \<in> occupied m \<longleftrightarrow> taken_at m y x"
  by (simp add: occupied_def)

lemma occupied_Nil [simp]: "occupied [] = {}"
  by (simp add: occupied_def taken_at_def)

lemma set_flag_at: "(x < length (set_at False (int i) True r) \<and> set_at False (int i) True r ! x) \<longleftrightarrow> x = i \<or> (x < length r \<and> r ! x)"
  by (cases "x < max (length r) (Suc i)") (auto simp: nth_set_at)

lemma taken_take_cell: "taken_at (take_cell ty tx m) y x \<longleftrightarrow> (y = ty \<and> x = tx) \<or> taken_at m y x"
proof (cases "y < max (length m) (Suc ty)")
  case True
  then show ?thesis
    using set_flag_at [of x tx "if ty < length m then m ! ty else []"]
    by (auto simp: taken_at_def take_cell_def nth_set_at)
next
  case False
  then show ?thesis by (auto simp: taken_at_def take_cell_def)
qed

lemma occupied_take_cell: "occupied (take_cell ty tx m) = insert (ty, tx) (occupied m)"
  by (auto simp: taken_take_cell)

lemma occupied_take_column:
  "occupied (fold (\<lambda>ty. take_cell ty tx) ys m) = occupied m \<union> set ys \<times> {tx}"
  by (induction ys arbitrary: m) (auto simp: occupied_take_cell)

lemma occupied_take_columns:
  "occupied (fold (\<lambda>tx. fold (\<lambda>ty. take_cell ty tx) ys) xs m) = occupied m \<union> set ys \<times> set xs"
  by (induction xs arbitrary: m) (auto simp: occupied_take_column)

lemma occupied_take_block:
  "occupied (take_block y x r c m) = occupied m \<union> {y..<y + r} \<times> {x..<x + c}"
  by (simp add: take_block_def occupied_take_columns)

text \<open>The loop over the taken slots starts at the number of the cell, before which every slot is taken.\<close>

lemma skip_taken_first:
  assumes before: "\<And>j. j < x \<Longrightarrow> taken_at m y j"
  shows "skip_taken m y x = first_free (occupied m) y"
proof -
  define r where "r = (if y < length m then m ! y else [])"
  define n where "n = length (takeWhile (\<lambda>b. b) (drop x r))"
  have t: "taken_at m y j \<longleftrightarrow> j < length r \<and> r ! j" for j by (simp add: taken_at_def r_def)
  have sk: "skip_taken m y x = x + n" by (simp add: skip_taken_def r_def n_def)
  have free: "\<not> taken_at m y (x + n)"
    using nth_length_takeWhile [of "\<lambda>b. b" "drop x r"] by (auto simp: t n_def)
  have taken: "taken_at m y j" if "j < x + n" for j
  proof (cases "j < x")
    case False
    with that have j: "j - x < n" "x + (j - x) = j" by auto
    then have "takeWhile (\<lambda>b. b) (drop x r) ! (j - x)"
      using nth_mem [of "j - x" "takeWhile (\<lambda>b. b) (drop x r)"] set_takeWhileD [of _ "\<lambda>b. b" "drop x r"]
      unfolding n_def by blast
    moreover have "j - x < length (drop x r)"
      using j(1) length_takeWhile_le [of "\<lambda>b. b" "drop x r"] unfolding n_def by linarith
    ultimately show ?thesis using j takeWhile_nth [of "j - x" "\<lambda>b. b" "drop x r"] by (simp add: t n_def)
  qed (rule before)
  have "(LEAST k. \<not> taken_at m y k) = x + n"
    by (rule Least_equality [where P = "\<lambda>k. \<not> taken_at m y k", OF free]) (meson taken not_le)
  then show ?thesis by (simp add: sk first_free_def)
qed

section \<open>Rows\<close>

lemma span_attr_positive:
  "spans_positive td \<Longrightarrow> span_attr (td_attrs td) ''colspan'' = Inr (td_span ''colspan'' td)"
  "spans_positive td \<Longrightarrow> span_attr (td_attrs td) ''rowspan'' = Inr (td_span ''rowspan'' td)"
  by (auto simp: spans_positive_def td_span_def split: sum.splits)

lemma deref_column:
  "has_column cols x \<Longrightarrow> deref (if x < length cols then cols ! x else None) = Inr (the (cols ! x))"
  "\<not> has_column cols x \<Longrightarrow> deref (if x < length cols then cols ! x else None) = Inl TypeError"
  by (auto simp: has_column_def deref_def)

lemma read_cells_layout:
  assumes "list_all spans_positive tds" "\<And>j. j < x \<Longrightarrow> taken_at m y j" "place_tds y tds (occupied m) = (xs, occ)"
  shows "if list_all (has_column cols) xs
    then \<exists>m'. read_cells cols y x tds m row = Inr (m', cells_at cols tds xs row) \<and> occupied m' = occ
    else read_cells cols y x tds m row = Inl TypeError"
  using assms
proof (induction tds arbitrary: x m row xs)
  case (Cons td tds)
  define x' where "x' = first_free (occupied m) y"
  define m' where "m' = take_block y x' (td_span ''rowspan'' td) (td_span ''colspan'' td) m"
  have sk: "skip_taken m y x = x'" unfolding x'_def by (rule skip_taken_first) (rule Cons.prems(2))
  have td: "spans_positive td" "list_all spans_positive tds" using Cons.prems(1) by simp_all
  have occ': "occupied m' = occupied m \<union> block y x' td" by (simp add: m'_def occupied_take_block block_def)
  obtain xs' where xs': "place_tds y tds (occupied m') = (xs', occ)" "xs = x' # xs'"
    using Cons.prems(3) by (auto simp: Let_def occ' simp flip: x'_def split: prod.splits)
  have before: "taken_at m' y j" if "j < Suc x" for j
  proof -
    have "x \<le> x'" using sk by (auto simp: skip_taken_def)
    with that td(1) have "j < x' \<or> (y, j) \<in> block y x' td" by (auto simp: block_def spans_positive_def)
    moreover have "(y, j) \<in> occupied m" if "j < x'" using not_less_Least [OF that [unfolded x'_def first_free_def]] by simp
    ultimately have "(y, j) \<in> occupied m'" unfolding occ' by blast
    then show ?thesis by simp
  qed
  note ih = Cons.IH [OF td(2) before xs'(1)]
  show ?case
  proof (cases "has_column cols x'")
    case True
    with ih show ?thesis
      by (auto simp: span_attr_positive [OF td(1)] sk Let_def deref_column xs'(2) simp flip: m'_def split: if_splits)
  next
    case False
    then show ?thesis by (simp add: span_attr_positive [OF td(1)] sk Let_def deref_column xs'(2))
  qed
qed simp

lemma read_rows_layout:
  assumes "list_all (\<lambda>tr. list_all spans_positive (tr_cells tr)) trs"
  shows "read_rows cols y trs m =
    (if list_all (list_all (has_column cols)) (html_layout y trs (occupied m))
     then Inr (map2 (markup_row cols) trs (html_layout y trs (occupied m))) else Inl TypeError)"
  using assms
proof (induction trs arbitrary: y m)
  case (Cons tr trs)
  obtain xs occ where p: "place_tds y (tr_cells tr) (occupied m) = (xs, occ)" by fastforce
  have ps: "list_all spans_positive (tr_cells tr)" using Cons.prems by simp
  note r = read_cells_layout [OF ps _ p, of 0 cols "[(str ''_id'', lookup (tr_attrs tr) (str ''id'')),
    (str ''_class'', lookup (tr_attrs tr) (str ''class'')), (str ''_data'', JObj (getRealDataAttr (tr_data tr)))]"]
  show ?case
  proof (cases "list_all (has_column cols) xs")
    case True
    with r obtain m' where m': "occupied m' = occ" and rc: "read_cells cols y 0 (tr_cells tr) m [(str ''_id'', lookup (tr_attrs tr) (str ''id'')),
      (str ''_class'', lookup (tr_attrs tr) (str ''class'')), (str ''_data'', JObj (getRealDataAttr (tr_data tr)))] = Inr (m', markup_row cols tr xs)"
      by (auto simp: markup_row_def)
    show ?thesis using True Cons.IH [of "Suc y" m'] Cons.prems by (simp add: rc p m')
  next
    case False
    with r show ?thesis by (simp add: p)
  qed
qed simp

text \<open>
  C20. The rows read from the markup are those of the reference layout: every cell, whatever its spans and
  those of the rows above, is stored under the field of the first free column of its row; when a cell
  falls beyond the columns \<^verbatim>\<open>initTable\<close> throws.
\<close>

theorem markup_rows_layout:
  assumes "initColumns thead cs = Inr (cols, g)" "list_all (\<lambda>tr. list_all spans_positive (tr_cells tr)) tbody"
  shows "initTable thead cs 0 tbody =
    (if list_all (list_all (has_column cols)) (html_layout 0 tbody {})
     then Inr (cols, g, Some (map2 (markup_row cols) tbody (html_layout 0 tbody {}))) else Inl TypeError)"
  using read_rows_layout [OF assms(2), of cols 0 "[]"] by (simp add: initTable_def assms(1))

definition sample_body :: "tr_el list" where
  "sample_body =
     [\<lparr>tr_attrs = [], tr_data = [],
        tr_cells = [\<lparr>td_html = str ''a'', td_attrs = [(str ''rowspan'', JStr (digits 2))], td_data = []\<rparr>,
                    \<lparr>td_html = str ''b'', td_attrs = [], td_data = []\<rparr>]\<rparr>,
      \<lparr>tr_attrs = [], tr_data = [], tr_cells = [\<lparr>td_html = str ''c'', td_attrs = [], td_data = []\<rparr>]\<rparr>]"

lemma first_free_at: "(y, x) \<notin> occ \<Longrightarrow> (\<And>j. j < x \<Longrightarrow> (y, j) \<in> occ) \<Longrightarrow> first_free occ y = x"
  unfolding first_free_def by (rule Least_equality) (auto simp: not_less [symmetric])

lemma sample_spans:
  "td_span k \<lparr>td_html = h, td_attrs = [], td_data = d\<rparr> = 1"
  "td_span ''rowspan'' \<lparr>td_html = h, td_attrs = [(str ''rowspan'', JStr (digits 2))], td_data = d\<rparr> = 2"
  "td_span ''colspan'' \<lparr>td_html = h, td_attrs = [(str ''rowspan'', JStr (digits 2))], td_data = d\<rparr> = 1"
  by (simp_all add: td_span_def span_attr_def lookup_Cons lookup_Nil to_number_digits)

lemma sample_layout: "html_layout 0 sample_body {} = [[0, 1], [1]]"
proof -
  have "first_free {} 0 = 0" "first_free ({0..<Suc (Suc 0)} \<times> {0}) 0 = Suc 0"
    "first_free (insert (0, Suc 0) ({0..<Suc (Suc 0)} \<times> {0})) (Suc 0) = Suc 0"
    by (rule first_free_at; simp)+
  then show ?thesis by (simp add: sample_body_def block_def sample_spans Let_def)
qed

theorem markup_rows_layout_witness:
  "\<exists>cols g r r'. initTable [] [JObj [(str ''field'', S ''topic'')], JObj [(str ''field'', S ''group'')]] 0 sample_body =
      Inr (cols, g, Some [r, r']) \<and> lookup r (str ''topic'') = S ''a'' \<and> lookup r (str ''group'') = S ''b'' \<and>
      lookup r' (str ''topic'') = Undefined \<and> lookup r' (str ''group'') = S ''c''"
proof -
  let ?pss = "[[(str ''field'', S ''topic'')], [(str ''field'', S ''group'')]]"
  let ?cols = "map Some (map2 made_column [0..<length ?pss] ?pss)"
  have simple: "list_all simple_column ?pss" by (simp add: simple_column_def lookup_Cons lookup_Nil)
  have spans: "list_all (\<lambda>tr. list_all spans_positive (tr_cells tr)) sample_body"
    by (simp add: sample_body_def spans_positive_def sample_spans)
  have field: "lookup (made_column i [(str ''field'', S s)]) (str ''field'') = S s" for i s
    by (simp add: lookup_made_column lookup_Cons)
  have ne: "str ''topic'' \<noteq> 95 # ys" "str ''group'' \<noteq> 95 # ys" for ys by (simp_all add: str_def)
  have "list_all (list_all (has_column ?cols)) (html_layout 0 sample_body {})"
    by (simp add: sample_layout has_column_def)
  with markup_rows_layout [OF initColumns_simple [OF simple] spans]
  have "initTable [] (map JObj ?pss) 0 sample_body =
      Inr (?cols, [map Shared [0..<length ?pss]], Some (map2 (markup_row ?cols) sample_body [[0, 1], [1]]))"
    by (simp add: sample_layout)
  then show ?thesis
    by (simp add: sample_body_def markup_row_def td_props_def field cell_key_def lookup_set_prop lookup_Cons lookup_Nil ne)
qed

section \<open>Merged cells\<close>

definition cell_at :: "dom_row list \<Rightarrow> int \<Rightarrow> int \<Rightarrow> dom_cell option" where
  "cell_at trs i j =
     (if 0 \<le> i \<and> nat i < length trs \<and> 0 \<le> j \<and> nat j < length (dr_cells (trs ! nat i))
      then Some (dr_cells (trs ! nat i) ! nat j) else None)"

lemma cell_at_on_cell:
  "cell_at (on_cell i j f trs) a b = (if a = i \<and> b = j then map_option f (cell_at trs a b) else cell_at trs a b)"
  by (auto simp: cell_at_def on_cell_def nth_list_update)

lemma cell_at_columns:
  "cell_at (fold (\<lambda>j. on_cell i j (\<lambda>d. d\<lparr>dc_shown := False\<rparr>)) js trs) a b =
    (if a = i \<and> b \<in> set js then map_option (\<lambda>d. d\<lparr>dc_shown := False\<rparr>) (cell_at trs a b) else cell_at trs a b)"
  by (induction js arbitrary: trs) (auto simp: cell_at_on_cell option.map_comp comp_def)

lemma cell_at_block:
  "cell_at (fold (\<lambda>i. fold (\<lambda>j. on_cell i j (\<lambda>d. d\<lparr>dc_shown := False\<rparr>)) js) is trs) a b =
    (if a \<in> set is \<and> b \<in> set js then map_option (\<lambda>d. d\<lparr>dc_shown := False\<rparr>) (cell_at trs a b) else cell_at trs a b)"
  by (induction "is" arbitrary: trs) (auto simp: cell_at_columns option.map_comp comp_def)

text \<open>\<^verbatim>\<open>mergeCells\<close> gives the spans to one cell and hides exactly the others of the block.\<close>

lemma mergeCells_block:
  assumes "mergeCells t row field rspan cspan trs = Inr trs'" "getVisibleFields t = Inr fs" "position_of field fs = Some col"
    "\<not> truthy (table_opt t ''detailView'')" "0 \<le> row" "row < int (length (data_rows t))" "rspan > 0" "cspan > 0"
  shows "cell_at trs' i j =
    map_option (\<lambda>d. if i = row \<and> j = int col then d\<lparr>dc_rowspan := rspan, dc_colspan := cspan, dc_shown := True\<rparr>
                    else if i \<in> {row..<row + rspan} \<and> j \<in> {int col..<int col + cspan} then d\<lparr>dc_shown := False\<rparr> else d)
      (cell_at trs i j)"
proof -
  have "trs' = on_cell row (int col) (\<lambda>d. d\<lparr>dc_rowspan := rspan, dc_colspan := cspan, dc_shown := True\<rparr>)
      (fold (\<lambda>i. fold (\<lambda>j. on_cell i j (\<lambda>d. d\<lparr>dc_shown := False\<rparr>)) [int col..int col + cspan - 1]) [row..row + rspan - 1] trs)"
    using assms by (simp add: mergeCells_def field_position_def span_or_one_def Let_def)
  then show ?thesis using assms(7,8)
    by (cases "cell_at trs i j") (auto simp: cell_at_on_cell cell_at_block)
qed

text \<open>\<^verbatim>\<open>toggleAllColumns\<close> throws on every table whose first column has no property \<^verbatim>\<open>columns\<close> of its own.\<close>

lemma toggleAllColumns_throws:
  "columns (tab w) = c # cs \<Longrightarrow> lookup c (str ''columns'') = Undefined \<Longrightarrow> toggleAllColumns env visible w = Inl TypeError"
  by (simp add: toggleAllColumns_def all_step_def)

end
