(* ===== verification/TableDetail.thy ===== *)
theory TableDetail
  imports TableHeader TableSpec
begin

text \<open>
  Clicks on the body of a table of \<^verbatim>\<open>bootstrap-table.js\<close>: cells, which raise events and select their row, and the
  icons that open and close a detail row below a row, with \<^verbatim>\<open>expandRow\<close>, \<^verbatim>\<open>collapseRow\<close> and their variants for all rows.
\<close>

section \<open>Clicks on cells\<close>

text \<open>
  What the handler reads before it acts: item, field, value and column.  \<open>j\<close> is \<^verbatim>\<open>cellIndex\<close>; the cell of the detail icon comes
  before the fields.
\<close>

definition detail_cells :: "table \<Rightarrow> bool" where
  "detail_cells t \<longleftrightarrow> truthy (table_opt t ''detailView'') \<and> \<not> truthy (table_opt t ''cardView'')"

definition cell_target :: "table \<Rightarrow> nat \<Rightarrow> nat \<Rightarrow> js_error + (jsv \<times> jsv \<times> jsv \<times> props option)" where
  "cell_target t index j =
     (let item = (if index < length (data_rows t) then row_val t (data_rows t ! index) else Undefined) in
      ebind (getVisibleFields t) (\<lambda>fs.
      let k = (if detail_cells t then int j - 1 else int j);
          field = (if 0 \<le> k \<and> nat k < length fs then fs ! nat k else Undefined);
          c = getFieldIndex (columns t) field
      in ebind (getItemField item field (truthy (table_opt t ''escape''))) (\<lambda>value.
         Inr (item, field, value, if 0 \<le> c \<and> nat c < length (columns t) then Some (columns t ! nat c) else None))))"

text \<open>\<^verbatim>\<open>$selectItem[0].click()\<close>: the browser checks a radio button, changes a check box, and ignores a disabled one.\<close>

definition press_box :: "env \<Rightarrow> nat \<Rightarrow> table \<Rightarrow> js_error + table" where
  "press_box env index t =
     (case filter (\<lambda>n. item_index (selectItem t ! n) = index) [0..<length (selectItem t)] of
        [] \<Rightarrow> Inr t
      | n # _ \<Rightarrow>
          (let x = selectItem t ! n in
           if item_enabled x then select_click env n (item_radio x \<or> \<not> item_checked x) t else Inr t))"

text \<open>The handler; elements are passed on as the numbers of their row and cell.\<close>

definition cell_click :: "env \<Rightarrow> bool \<Rightarrow> nat \<Rightarrow> nat \<Rightarrow> bool \<Rightarrow> table \<Rightarrow> js_error + table" where
  "cell_click env dbl index j icon t =
     ebind (cell_target t index j) (\<lambda>(item, field, value, column).
     if icon then Inr t
     else
       ebind (fire env (if dbl then ''dbl-click-cell'' else ''click-cell'')
                [field, value, item, JArr [JInt (int index), JInt (int j)]] t) (\<lambda>t.
       ebind (fire env (if dbl then ''dbl-click-row'' else ''click-row'') [item, JArr [JInt (int index)], field] t) (\<lambda>t.
       if \<not> dbl \<and> truthy (table_opt t ''clickToSelect'') then
         ebind (deref column) (\<lambda>c. if truthy (col_prop c ''clickToSelect'') then press_box env index t else Inr t)
       else Inr t)))"

section \<open>Detail rows\<close>

text \<open>
  The rows of the body: an item with its \<^verbatim>\<open>data-index\<close>, the number of its cells and the class of its detail icon, if it has one;
  and a detail row with its \<^verbatim>\<open>colspan\<close> and content.
\<close>

record drow =
  dw_index :: nat
  dw_cells :: nat
  dw_icon :: "js_string option"

datatype body_tr = Item drow | Detail nat jsv

text \<open>\<open>d_data\<close> is the array \<^verbatim>\<open>data\<close> of the \<^verbatim>\<open>initBody\<close> that drew the rows.\<close>

record detail_body =
  d_tab :: table
  d_trs :: "body_tr list"
  d_data :: "nat list"

definition icon_class :: "table \<Rightarrow> string \<Rightarrow> js_error + js_string" where
  "icon_class t icon =
     ebind (get_prop (table_opt t ''icons'') (str icon)) (\<lambda>i. Inr (sprintf (str ''%s %s'') [table_opt t ''iconsPrefix'', i]))"

definition detail_at :: "nat \<Rightarrow> body_tr list \<Rightarrow> bool" where
  "detail_at n trs = (n < length trs \<and> (case trs ! n of Detail _ _ \<Rightarrow> True | Item _ \<Rightarrow> False))"

definition detail_row :: "detail_body \<Rightarrow> nat \<Rightarrow> jsv" where
  "detail_row b index = (if index < length (d_data b) then row_val (d_tab b) (d_data b ! index) else Undefined)"

definition open_detail :: "env \<Rightarrow> nat \<Rightarrow> drow \<Rightarrow> detail_body \<Rightarrow> js_error + detail_body" where
  "open_detail env n r b =
     (let t = d_tab b; index = JInt (int (dw_index r)); row = detail_row b (dw_index r); element = JArr [index] in
      ebind (icon_class t ''detailClose'') (\<lambda>c.
      ebind (calculateObjectValue (globals env) (call env) (table_opt t ''detailFormatter'') [index, row, element] (JStr [])) (\<lambda>content.
      ebind (fire env ''expand-row'' [index, row, element] t) (\<lambda>t.
      Inr (b\<lparr>d_tab := t,
             d_trs := take n (d_trs b) @ [Item (r\<lparr>dw_icon := Some c\<rparr>), Detail (dw_cells r) content] @ drop (Suc n) (d_trs b)\<rparr>)))))"

definition close_detail :: "env \<Rightarrow> nat \<Rightarrow> drow \<Rightarrow> detail_body \<Rightarrow> js_error + detail_body" where
  "close_detail env n r b =
     (let t = d_tab b in
      ebind (icon_class t ''detailOpen'') (\<lambda>c.
      ebind (fire env ''collapse-row'' [JInt (int (dw_index r)), detail_row b (dw_index r)] t) (\<lambda>t.
      Inr (b\<lparr>d_tab := t, d_trs := take n (d_trs b) @ [Item (r\<lparr>dw_icon := Some c\<rparr>)] @ drop (Suc (Suc n)) (d_trs b)\<rparr>))))"

text \<open>
  A click on the detail icon of the \<open>n\<close>-th row.  The event goes on to the cell of the icon, whose handler only
  reads what it would need.
\<close>

definition icon_click :: "env \<Rightarrow> nat \<Rightarrow> detail_body \<Rightarrow> js_error + detail_body" where
  "icon_click env n b =
     (case (if n < length (d_trs b) then d_trs b ! n else Detail 0 Undefined) of
        Detail _ _ \<Rightarrow> Inr b
      | Item r \<Rightarrow>
          if dw_icon r = None then Inr b
          else
            ebind (if detail_at (Suc n) (d_trs b) then close_detail env n r b else open_detail env n r b) (\<lambda>b.
            ebind (resetView env (d_tab b)) (\<lambda>t.
            ebind (cell_click env False (dw_index r) 0 True t) (\<lambda>t. Inr (b\<lparr>d_tab := t\<rparr>)))))"

text \<open>\<^verbatim>\<open>expandRow_\<close>: the row is looked for by its \<^verbatim>\<open>data-index\<close>.\<close>

definition is_row :: "jsv \<Rightarrow> body_tr \<Rightarrow> bool" where
  "is_row index tr =
     (case tr of Item r \<Rightarrow> index \<noteq> Undefined \<and> to_str index = to_str (JInt (int (dw_index r))) | Detail _ _ \<Rightarrow> False)"

definition expandRow_to :: "env \<Rightarrow> bool \<Rightarrow> jsv \<Rightarrow> detail_body \<Rightarrow> js_error + detail_body" where
  "expandRow_to env expand index b =
     (case filter (\<lambda>n. is_row index (d_trs b ! n)) [0..<length (d_trs b)] of
        [] \<Rightarrow> Inr b
      | n # _ \<Rightarrow> if detail_at (Suc n) (d_trs b) = (\<not> expand) then icon_click env n b else Inr b)"

definition expandRow :: "env \<Rightarrow> jsv \<Rightarrow> detail_body \<Rightarrow> js_error + detail_body" where
  "expandRow env index b = expandRow_to env True index b"

definition collapseRow :: "env \<Rightarrow> jsv \<Rightarrow> detail_body \<Rightarrow> js_error + detail_body" where
  "collapseRow env index b = expandRow_to env False index b"

definition data_index :: "body_tr \<Rightarrow> jsv" where
  "data_index tr = (case tr of Item r \<Rightarrow> JInt (int (dw_index r)) | Detail _ _ \<Rightarrow> Undefined)"

fun expand_each :: "env \<Rightarrow> bool \<Rightarrow> jsv list \<Rightarrow> detail_body \<Rightarrow> js_error + detail_body" where
  "expand_each env expand [] b = Inr b"
| "expand_each env expand (i # is) b = ebind (expandRow_to env expand i b) (expand_each env expand is)"

text \<open>\<^verbatim>\<open>expandAllRows\<close> without \<^verbatim>\<open>isSubTable\<close>: the rows are those at the start of the loop.\<close>

definition expandAllRows :: "env \<Rightarrow> detail_body \<Rightarrow> js_error + detail_body" where
  "expandAllRows env b = expand_each env True (map data_index (d_trs b)) b"

definition collapseAllRows :: "env \<Rightarrow> bool \<Rightarrow> detail_body \<Rightarrow> js_error + detail_body" where
  "collapseAllRows env isSubTable b =
     (if isSubTable then expandRow_to env False (JInt 0) b else expand_each env False (map data_index (d_trs b)) b)"

section \<open>Rows with their details\<close>

text \<open>The body as a list of rows, each with its detail row if it is open.\<close>

type_synonym detail_rows = "(drow \<times> (nat \<times> jsv) option) list"

definition shown :: "drow \<times> (nat \<times> jsv) option \<Rightarrow> body_tr list" where
  "shown p = Item (fst p) # (case snd p of None \<Rightarrow> [] | Some (n, v) \<Rightarrow> [Detail n v])"

definition flat :: "detail_rows \<Rightarrow> body_tr list" where
  "flat ps = concat (map shown ps)"

definition row_indices :: "detail_rows \<Rightarrow> nat list" where
  "row_indices ps = map (\<lambda>p. dw_index (fst p)) ps"

lemma flat_simps [simp]: "flat [] = []" "flat (p # ps) = shown p @ flat ps" "flat (ps @ qs) = flat ps @ flat qs"
  by (simp_all add: flat_def)

lemma row_indices_simps [simp]:
  "row_indices [] = []" "row_indices (p # ps) = dw_index (fst p) # row_indices ps" "row_indices (ps @ qs) = row_indices ps @ row_indices qs"
  by (simp_all add: row_indices_def)

lemma flat_items [simp]: "flat (map (\<lambda>r. (r, None)) rs) = map Item rs"
  by (induction rs) (simp_all add: shown_def)

lemma flat_head: "flat ps = [] \<or> (\<exists>r trs. flat ps = Item r # trs)"
  by (cases ps) (auto simp: shown_def)

lemma detail_at_append: "detail_at (length xs + n) (xs @ ys) = detail_at n ys"
  by (simp add: detail_at_def)

lemma detail_after:
  "detail_at (Suc (length (flat ps))) (flat (ps @ (r, d) # qs)) \<longleftrightarrow> d \<noteq> None"
proof -
  have "detail_at (length (flat ps) + 1) (flat ps @ shown (r, d) @ flat qs) \<longleftrightarrow> d \<noteq> None"
    using flat_head [of qs] unfolding detail_at_append by (auto simp: detail_at_def shown_def split: option.splits)
  then show ?thesis by simp
qed

lemma item_split:
  assumes "n < length (flat ps)" "flat ps ! n = Item r"
  shows "\<exists>qs d qs'. ps = qs @ (r, d) # qs' \<and> n = length (flat qs)"
  using assms
proof (induction ps arbitrary: n)
  case (Cons p ps)
  obtain r' d' where p: "p = (r', d')" by fastforce
  show ?case
  proof (cases "n < length (shown p)")
    case True
    with Cons.prems have "n = 0 \<and> r = r'"
      by (cases n) (auto simp: p shown_def nth_append split: option.splits)
    then have "p # ps = [] @ (r, d') # ps \<and> n = length (flat [])" by (simp add: p)
    then show ?thesis by blast
  next
    case False
    then obtain m where m: "n = length (shown p) + m" using le_Suc_ex not_less by blast
    with Cons.prems Cons.IH [of m] obtain qs d qs' where "ps = qs @ (r, d) # qs'" "m = length (flat qs)" by auto
    then have "p # ps = (p # qs) @ (r, d) # qs' \<and> n = length (flat (p # qs))" by (simp add: m)
    then show ?thesis by blast
  qed
qed simp

text \<open>What a click on an icon does, whatever the page functions do, when it returns.\<close>

definition icon_ok :: "table \<Rightarrow> drow \<times> (nat \<times> jsv) option \<Rightarrow> bool" where
  "icon_ok t p =
     (case dw_icon (fst p) of
        None \<Rightarrow> snd p = None
      | Some c \<Rightarrow> icon_class t (if snd p = None then ''detailOpen'' else ''detailClose'') = Inr c)"

lemma icon_class_same: "same_data t u \<Longrightarrow> icon_class u = icon_class t"
  by (simp add: fun_eq_iff icon_class_def table_opt_def same_data_def)

lemma icon_ok_same: "same_data t u \<Longrightarrow> icon_ok u = icon_ok t"
  by (auto simp: fun_eq_iff icon_ok_def dest: icon_class_same split: option.splits)

lemma cell_click_icon: "cell_click env dbl i j True t = Inr t' \<Longrightarrow> t' = t"
  by (auto simp: cell_click_def elim!: ebind_InrE)

lemma icon_click_effect:
  assumes "d_trs b = flat (qs @ (r, d) # qs')" "dw_icon r \<noteq> None" "icon_click env (length (flat qs)) b = Inr b'"
  shows "\<exists>c d'. d_trs b' = flat (qs @ (r\<lparr>dw_icon := Some c\<rparr>, d') # qs') \<and> (d' = None) = (d \<noteq> None) \<and>
    icon_class (d_tab b) (if d = None then ''detailClose'' else ''detailOpen'') = Inr c \<and> same_data (d_tab b) (d_tab b')"
proof -
  have n: "length (flat qs) < length (d_trs b)" "d_trs b ! length (flat qs) = Item r"
    using assms(1) by (simp_all add: shown_def)
  obtain b1 t where 1: "(if d = None then open_detail env (length (flat qs)) r b else close_detail env (length (flat qs)) r b) = Inr b1"
    and t: "resetView env (d_tab b1) = Inr t" and b': "b' = b1\<lparr>d_tab := t\<rparr>"
    using assms(3) n assms(2) detail_after [of qs r d qs']
    unfolding icon_click_def assms(1) by (cases d) (auto elim!: ebind_InrE dest!: cell_click_icon split: if_splits)
  note same = resetView_keeps [OF t]
  show ?thesis
  proof (cases d)
    case None
    with 1 obtain c v u where c: "icon_class (d_tab b) ''detailClose'' = Inr c" and u: "same_data (d_tab b) u"
      and b1: "b1 = b\<lparr>d_tab := u, d_trs := flat qs @ [Item (r\<lparr>dw_icon := Some c\<rparr>), Detail (dw_cells r) v] @ flat qs'\<rparr>"
      using assms(1) unfolding open_detail_def Let_def by (auto elim!: ebind_InrE dest!: fire_keeps simp: shown_def)
    have "d_trs b' = flat (qs @ (r\<lparr>dw_icon := Some c\<rparr>, Some (dw_cells r, v)) # qs')" by (simp add: b' b1 shown_def)
    moreover have "same_data (d_tab b) (d_tab b')" using same_data_trans [OF u] same by (simp add: b' b1)
    ultimately show ?thesis using c None by (intro exI conjI) auto
  next
    case (Some p)
    with 1 obtain c u where c: "icon_class (d_tab b) ''detailOpen'' = Inr c" and u: "same_data (d_tab b) u"
      and b1: "b1 = b\<lparr>d_tab := u, d_trs := flat qs @ [Item (r\<lparr>dw_icon := Some c\<rparr>)] @ flat qs'\<rparr>"
      using assms(1) unfolding close_detail_def Let_def by (auto elim!: ebind_InrE dest!: fire_keeps simp: shown_def split: prod.splits)
    have "d_trs b' = flat (qs @ (r\<lparr>dw_icon := Some c\<rparr>, None) # qs')" by (simp add: b' b1 shown_def)
    moreover have "same_data (d_tab b) (d_tab b')" using same_data_trans [OF u] same by (simp add: b' b1)
    ultimately show ?thesis using c Some by (intro exI conjI) auto
  qed
qed

section \<open>Details belong to their rows\<close>

definition body_ok :: "nat list \<Rightarrow> detail_body \<Rightarrow> bool" where
  "body_ok is b \<longleftrightarrow> (\<exists>ps. d_trs b = flat ps \<and> row_indices ps = is \<and> list_all (icon_ok (d_tab b)) ps)"

lemma icon_click_ok:
  assumes "icon_click env n b = Inr b'" "body_ok is b"
  shows "body_ok is b'"
proof -
  obtain ps where ps: "d_trs b = flat ps" "row_indices ps = is" "list_all (icon_ok (d_tab b)) ps"
    using assms(2) by (auto simp: body_ok_def)
  show ?thesis
  proof (cases "\<exists>r. n < length (d_trs b) \<and> d_trs b ! n = Item r \<and> dw_icon r \<noteq> None")
    case True
    then obtain r qs d qs' where r: "dw_icon r \<noteq> None" and q: "ps = qs @ (r, d) # qs'" "n = length (flat qs)"
      using item_split [of n ps] ps(1) by metis
    from icon_click_effect [OF ps(1) [unfolded q(1)] r assms(1) [unfolded q(2)]]
    obtain c d' where e: "d_trs b' = flat (qs @ (r\<lparr>dw_icon := Some c\<rparr>, d') # qs')" "(d' = None) = (d \<noteq> None)"
      "icon_class (d_tab b) (if d = None then ''detailClose'' else ''detailOpen'') = Inr c" "same_data (d_tab b) (d_tab b')" by blast
    have "icon_ok (d_tab b) (r\<lparr>dw_icon := Some c\<rparr>, d')" using e(2,3) by (auto simp: icon_ok_def split: if_splits)
    then have "list_all (icon_ok (d_tab b')) (qs @ (r\<lparr>dw_icon := Some c\<rparr>, d') # qs')"
      using ps(3) unfolding icon_ok_same [OF e(4)] by (simp add: q(1))
    with e(1) ps(2) show ?thesis unfolding body_ok_def by (intro exI [of _ "qs @ (r\<lparr>dw_icon := Some c\<rparr>, d') # qs'"]) (simp add: q(1))
  next
    case False
    then have "b' = b" using assms(1) by (auto simp: icon_click_def split: body_tr.splits if_splits)
    with assms(2) show ?thesis by simp
  qed
qed

lemma expandRow_to_ok: "expandRow_to env e i b = Inr b' \<Longrightarrow> body_ok is b \<Longrightarrow> body_ok is b'"
  by (auto simp: expandRow_to_def intro: icon_click_ok split: list.splits if_splits)

lemma expand_each_ok: "expand_each env e js b = Inr b' \<Longrightarrow> body_ok is b \<Longrightarrow> body_ok is b'"
  by (induction js arbitrary: b) (auto elim!: ebind_InrE intro: expandRow_to_ok)

lemma press_box_keeps: "press_box env i t = Inr t' \<Longrightarrow> same_data t t'"
  by (auto simp: press_box_def Let_def dest: select_click_keeps split: list.splits if_splits)

lemma cell_click_keeps: "cell_click env dbl i j icon t = Inr t' \<Longrightarrow> same_data t t'"
  unfolding cell_click_def
  by (auto elim!: ebind_InrE dest!: fire_keeps press_box_keeps split: if_splits) (meson same_data_trans)+

text \<open>What a user and the page can do to the rows of the body until \<^verbatim>\<open>initBody\<close> draws them again.\<close>

inductive detail_run :: "env \<Rightarrow> detail_body \<Rightarrow> detail_body \<Rightarrow> bool" for env b0 where
  start: "detail_run env b0 b0"
| icon: "detail_run env b0 b \<Longrightarrow> icon_click env n b = Inr b' \<Longrightarrow> detail_run env b0 b'"
| cell: "detail_run env b0 b \<Longrightarrow> cell_click env dbl i j has_icon (d_tab b) = Inr t \<Longrightarrow> detail_run env b0 (b\<lparr>d_tab := t\<rparr>)"
| expand: "detail_run env b0 b \<Longrightarrow> expandRow env v b = Inr b' \<Longrightarrow> detail_run env b0 b'"
| collapse: "detail_run env b0 b \<Longrightarrow> collapseRow env v b = Inr b' \<Longrightarrow> detail_run env b0 b'"
| expand_all: "detail_run env b0 b \<Longrightarrow> expandAllRows env b = Inr b' \<Longrightarrow> detail_run env b0 b'"
| collapse_all: "detail_run env b0 b \<Longrightarrow> collapseAllRows env sub b = Inr b' \<Longrightarrow> detail_run env b0 b'"

lemma detail_run_ok: "detail_run env b b' \<Longrightarrow> body_ok is b \<Longrightarrow> body_ok is b'"
proof (induction rule: detail_run.induct)
  case (cell b dbl i j has_icon t)
  then show ?case using icon_ok_same [OF cell_click_keeps [OF cell.hyps(2)]] by (simp add: body_ok_def)
qed (auto simp: expandRow_def collapseRow_def expandAllRows_def collapseAllRows_def
    intro: icon_click_ok expandRow_to_ok expand_each_ok split: if_splits)

text \<open>
  C22. Details belong to their rows.  Starting from rows whose icons offer to open, after any sequence of clicks on icons and
  cells and of calls of \<^verbatim>\<open>expandRow\<close>, \<^verbatim>\<open>collapseRow\<close>, \<^verbatim>\<open>expandAllRows\<close> and \<^verbatim>\<open>collapseAllRows\<close> that return, the body has the same rows in their
  order, each followed by at most one detail row, and the icon of a row offers to close exactly when its detail row is there.
\<close>

theorem details_follow_icons:
  assumes "d_trs b = map Item rs" "list_all (\<lambda>r. icon_ok (d_tab b) (r, None)) rs" "detail_run env b b'"
  shows "\<exists>ps. d_trs b' = flat ps \<and> row_indices ps = map dw_index rs \<and> list_all (icon_ok (d_tab b')) ps"
proof -
  let ?ps = "map (\<lambda>r. (r, None)) rs"
  have "d_trs b = flat ?ps \<and> row_indices ?ps = map dw_index rs \<and> list_all (icon_ok (d_tab b)) ?ps"
    using assms(1,2) by (simp add: row_indices_def list.pred_map comp_def)
  then have "body_ok (map dw_index rs) b" unfolding body_ok_def by blast
  from detail_run_ok [OF assms(3) this] show ?thesis by (simp add: body_ok_def)
qed

section \<open>Opening and closing all rows\<close>

text \<open>A table whose page functions are the defaults, with icons and a detail formatter.\<close>

definition detail_ready :: "env \<Rightarrow> table \<Rightarrow> bool" where
  "detail_ready env t \<longleftrightarrow>
     call env = default_call \<and> list_all (\<lambda>n. is_fun (lookup (options t) (handler_of n))) (''all'' # raised) \<and>
     is_fun (table_opt t ''detailFormatter'') \<and> (\<exists>ps. table_opt t ''icons'' = JObj ps) \<and> (\<exists>fs. getVisibleFields t = Inr fs)"

lemma detail_ready_same: "same_data t u \<Longrightarrow> detail_ready env t \<Longrightarrow> detail_ready env u"
  by (simp add: detail_ready_def same_data_def table_opt_def getVisibleFields_def)

lemma data_rows_same: "same_data t u \<Longrightarrow> data_rows u = data_rows t"
  by (simp add: same_data_def data_rows_def)

lemma icon_class_returns: "detail_ready env t \<Longrightarrow> \<exists>c. icon_class t k = Inr c"
  by (auto simp: detail_ready_def icon_class_def)

lemma fire_ready:
  "detail_ready env t \<Longrightarrow> n \<in> set raised \<Longrightarrow> \<exists>es. fire env n args t = Inr (t\<lparr>events := es\<rparr>)"
  unfolding detail_ready_def by (intro fire_plain) blast+

lemma cell_target_returns:
  assumes "detail_ready env t" "i < length (data_rows t)"
  shows "\<exists>x. cell_target t i j = Inr x"
proof -
  obtain fs where fs: "getVisibleFields t = Inr fs" using assms(1) by (auto simp: detail_ready_def)
  let ?k = "if detail_cells t then int j - 1 else int j"
  obtain v where "getItemField (row_val t (data_rows t ! i)) (if 0 \<le> ?k \<and> nat ?k < length fs then fs ! nat ?k else Undefined)
      (truthy (table_opt t ''escape'')) = Inr v"
    using getItemField_total unfolding row_val_def by blast
  then show ?thesis unfolding cell_target_def Let_def fs ebind_simps using assms(2) by simp
qed

lemma open_close_returns:
  assumes "detail_ready env (d_tab b)"
  shows "\<exists>b'. open_detail env n r b = Inr b' \<and> same_data (d_tab b) (d_tab b')"
    "\<exists>b'. close_detail env n r b = Inr b' \<and> same_data (d_tab b) (d_tab b')"
proof -
  obtain f where "table_opt (d_tab b) ''detailFormatter'' = JFun f" "call env = default_call"
    using assms by (auto simp: detail_ready_def is_fun_def split: jsv.splits)
  then have v: "\<exists>v. calculateObjectValue (globals env) (call env) (table_opt (d_tab b) ''detailFormatter'') args d = Inr v" for args d
    by (simp add: calculate_fun default_call_total)
  have n: "''expand-row'' \<in> set raised" "''collapse-row'' \<in> set raised" by (simp_all add: raised_def)
  show "\<exists>b'. open_detail env n r b = Inr b' \<and> same_data (d_tab b) (d_tab b')"
  proof -
    let ?i = "JInt (int (dw_index r))"
    obtain c where c: "icon_class (d_tab b) ''detailClose'' = Inr c" using icon_class_returns [OF assms] by blast
    obtain v where v: "calculateObjectValue (globals env) (call env) (table_opt (d_tab b) ''detailFormatter'')
      [?i, detail_row b (dw_index r), JArr [?i]] (JStr []) = Inr v" using v by blast
    obtain es where "fire env ''expand-row'' [?i, detail_row b (dw_index r), JArr [?i]] (d_tab b) = Inr ((d_tab b)\<lparr>events := es\<rparr>)"
      using fire_ready [OF assms n(1)] by blast
    then show ?thesis unfolding open_detail_def Let_def c ebind_simps v by (simp add: same_data_def)
  qed
  show "\<exists>b'. close_detail env n r b = Inr b' \<and> same_data (d_tab b) (d_tab b')"
  proof -
    obtain c where c: "icon_class (d_tab b) ''detailOpen'' = Inr c" using icon_class_returns [OF assms] by blast
    obtain es where "fire env ''collapse-row'' [JInt (int (dw_index r)), detail_row b (dw_index r)] (d_tab b) = Inr ((d_tab b)\<lparr>events := es\<rparr>)"
      using fire_ready [OF assms n(2)] by blast
    then show ?thesis unfolding close_detail_def Let_def c ebind_simps by (simp add: same_data_def)
  qed
qed

lemma icon_click_returns:
  assumes "detail_ready env (d_tab b)" "n < length (d_trs b)" "d_trs b ! n = Item r" "dw_icon r \<noteq> None"
    "dw_index r < length (data_rows (d_tab b))"
  shows "\<exists>b'. icon_click env n b = Inr b'"
proof -
  obtain b1 where b1: "(if detail_at (Suc n) (d_trs b) then close_detail env n r b else open_detail env n r b) = Inr b1"
    "same_data (d_tab b) (d_tab b1)"
    using open_close_returns [OF assms(1), of n r] by (cases "detail_at (Suc n) (d_trs b)") auto
  have r1: "detail_ready env (d_tab b1)" using detail_ready_same [OF b1(2) assms(1)] .
  then obtain t where t: "resetView env (d_tab b1) = Inr t"
    using resetView_returns [of env "d_tab b1"] by (auto simp: detail_ready_def)
  have "detail_ready env t" "data_rows t = data_rows (d_tab b)"
    using detail_ready_same [OF resetView_keeps [OF t] r1] data_rows_same [OF resetView_keeps [OF t]] data_rows_same [OF b1(2)] by simp_all
  then obtain x where "cell_target t (dw_index r) 0 = Inr x" using cell_target_returns assms(5) by metis
  then have "cell_click env False (dw_index r) 0 True t = Inr t" by (cases x) (simp add: cell_click_def)
  then show ?thesis using assms(2,3,4) t unfolding icon_click_def by (simp add: b1(1))
qed

text \<open>Rows of a JavaScript array have indices below \<open>2 ^ 32\<close>, which are printed without an exponent.\<close>

lemma int_str_index: "i < 2 ^ 32 \<Longrightarrow> to_str (JInt (int i)) = int_str (int i)"
  by (simp add: rat_str_def)

lemma index_str_inject: "i < 2 ^ 32 \<Longrightarrow> j < 2 ^ 32 \<Longrightarrow> to_str (JInt (int i)) = to_str (JInt (int j)) \<longleftrightarrow> i = j"
  unfolding int_str_index by (metis digits_val_digits int_str_def nat_int not_less of_nat_0_le_iff)

lemma filter_first:
  "\<not> list_ex P xs \<Longrightarrow> P y \<Longrightarrow> \<exists>ns. filter (\<lambda>n. P ((xs @ y # ys) ! n)) [0..<length (xs @ y # ys)] = length xs # ns"
proof -
  assume a: "\<not> list_ex P xs" "P y"
  have "[0..<length (xs @ y # ys)] = [0..<length xs] @ length xs # [Suc (length xs)..<length (xs @ y # ys)]"
    using upt_add_eq_append [of 0 "length xs" "Suc (length ys)"] by (simp add: upt_conv_Cons del: upt_Suc)
  moreover have "filter (\<lambda>n. P ((xs @ y # ys) ! n)) [0..<length xs] = []"
    using a(1) by (auto simp: filter_empty_conv nth_append list_ex_length)
  ultimately show ?thesis using a(2) by simp
qed

lemma expandRow_at:
  assumes "d_trs b = flat (qs @ (r, d) # qs')" "dw_index r \<notin> set (row_indices qs)" "list_all (\<lambda>i. i < 2 ^ 32) (dw_index r # row_indices qs)"
  shows "expandRow_to env e (JInt (int (dw_index r))) b = (if (d \<noteq> None) = (\<not> e) then icon_click env (length (flat qs)) b else Inr b)"
proof -
  let ?P = "is_row (JInt (int (dw_index r)))"
  have "\<not> ?P tr" if "tr \<in> set (flat qs)" for tr
  proof (cases tr)
    case (Item r')
    with that have "dw_index r' \<in> set (row_indices qs)"
      by (auto simp: flat_def shown_def row_indices_def split: option.splits)
    then show ?thesis using assms(2,3) index_str_inject [of "dw_index r'" "dw_index r"]
      by (auto simp: Item is_row_def list_all_iff simp del: to_str.simps)
  qed (simp add: is_row_def)
  then have "\<not> list_ex ?P (flat qs)" by (auto simp: list_ex_iff)
  moreover have "?P (Item r)" by (simp add: is_row_def)
  ultimately obtain ns where "filter (\<lambda>n. ?P (d_trs b ! n)) [0..<length (d_trs b)] = length (flat qs) # ns"
    using filter_first [of ?P "flat qs" "Item r" "tl (shown (r, d)) @ flat qs'"] by (auto simp: assms(1) shown_def)
  then show ?thesis using detail_after [of qs r d qs'] by (simp add: expandRow_to_def assms(1))
qed

lemma expandRow_undefined [simp]: "expandRow_to env e Undefined b = Inr b"
proof -
  have "filter (\<lambda>n. is_row Undefined (d_trs b ! n)) [0..<length (d_trs b)] = []"
    by (simp add: filter_empty_conv is_row_def split: body_tr.splits)
  then show ?thesis by (simp add: expandRow_to_def)
qed

definition turn_class :: "table \<Rightarrow> bool \<Rightarrow> js_error + js_string" where
  "turn_class t e = icon_class t (if e then ''detailClose'' else ''detailOpen'')"

definition index_ok :: "table \<Rightarrow> nat \<Rightarrow> bool" where
  "index_ok t i \<longleftrightarrow> i < 2 ^ 32 \<and> i < length (data_rows t)"

lemma expand_step:
  assumes "detail_ready env (d_tab b)" "d_trs b = flat (qs @ (r, d) # qs')" "dw_index r \<notin> set (row_indices qs)"
    "list_all (index_ok (d_tab b)) (dw_index r # row_indices qs)" "icon_ok (d_tab b) (r, d)" "dw_icon r \<noteq> None"
    "turn_class (d_tab b) e = Inr c"
  shows "\<exists>b' d'. expandRow_to env e (JInt (int (dw_index r))) b = Inr b' \<and> d_trs b' = flat (qs @ (r\<lparr>dw_icon := Some c\<rparr>, d') # qs') \<and>
    (d' = None) = (\<not> e) \<and> same_data (d_tab b) (d_tab b')"
proof -
  have small: "list_all (\<lambda>i. i < 2 ^ 32) (dw_index r # row_indices qs)" and i: "dw_index r < length (data_rows (d_tab b))"
    using assms(4) by (auto simp: index_ok_def list_all_iff)
  note at = expandRow_at [OF assms(2,3) small, of env e]
  have n: "length (flat qs) < length (d_trs b)" "d_trs b ! length (flat qs) = Item r" using assms(2) by (simp_all add: shown_def)
  show ?thesis
  proof (cases "(d \<noteq> None) = (\<not> e)")
    case True
    obtain b' where b': "icon_click env (length (flat qs)) b = Inr b'"
      using icon_click_returns [OF assms(1) n assms(6) i] by blast
    have ex: "expandRow_to env e (JInt (int (dw_index r))) b = Inr b'" unfolding at using True b' by simp
    obtain c' d' where e: "d_trs b' = flat (qs @ (r\<lparr>dw_icon := Some c'\<rparr>, d') # qs')" "(d' = None) = (d \<noteq> None)"
      "icon_class (d_tab b) (if d = None then ''detailClose'' else ''detailOpen'') = Inr c'" "same_data (d_tab b) (d_tab b')"
      using icon_click_effect [OF assms(2,6) b'] by blast
    have "c' = c" using e(3) True assms(7) by (cases e) (auto simp: turn_class_def split: if_splits)
    with ex e True show ?thesis by blast
  next
    case False
    then have "dw_icon r = Some c" using assms(5-7) by (cases d) (auto simp: icon_ok_def turn_class_def)
    then have "r\<lparr>dw_icon := Some c\<rparr> = r" by simp
    with False assms(2) show ?thesis unfolding at by (intro exI [of _ b] exI [of _ d]) auto
  qed
qed

lemma expand_rows:
  assumes "detail_ready env (d_tab b)" "d_trs b = flat (qs @ ps)" "distinct (row_indices (qs @ ps))"
    "list_all (index_ok (d_tab b)) (row_indices (qs @ ps))" "list_all (\<lambda>p. icon_ok (d_tab b) p \<and> dw_icon (fst p) \<noteq> None) ps"
    "turn_class (d_tab b) e = Inr c"
  shows "\<exists>b' ps'. expand_each env e (map data_index (flat ps)) b = Inr b' \<and> d_trs b' = flat (qs @ ps') \<and>
    map fst ps' = map (\<lambda>p. (fst p)\<lparr>dw_icon := Some c\<rparr>) ps \<and> list_all (\<lambda>p. (snd p = None) = (\<not> e)) ps' \<and> same_data (d_tab b) (d_tab b')"
  using assms
proof (induction ps arbitrary: b qs)
  case Nil
  then show ?case by (intro exI [of _ b] exI [of _ "[]"]) simp
next
  case (Cons p ps)
  obtain r d where p: "p = (r, d)" by fastforce
  have st: "dw_index r \<notin> set (row_indices qs)" "list_all (index_ok (d_tab b)) (dw_index r # row_indices qs)"
    "icon_ok (d_tab b) (r, d)" "dw_icon r \<noteq> None"
    using Cons.prems(3-5) by (auto simp: p)
  obtain b1 d1 where b1: "expandRow_to env e (JInt (int (dw_index r))) b = Inr b1" "(d1 = None) = (\<not> e)" "same_data (d_tab b) (d_tab b1)"
    and trs: "d_trs b1 = flat ((qs @ [(r\<lparr>dw_icon := Some c\<rparr>, d1)]) @ ps)"
    using expand_step [OF Cons.prems(1,2) [unfolded p] st Cons.prems(6)] by auto
  have idx: "row_indices ((qs @ [(r\<lparr>dw_icon := Some c\<rparr>, d1)]) @ ps) = row_indices (qs @ p # ps)" by (simp add: p)
  have t: "turn_class (d_tab b1) e = Inr c" "icon_ok (d_tab b1) = icon_ok (d_tab b)" "index_ok (d_tab b1) = index_ok (d_tab b)"
    using Cons.prems(6) icon_class_same [OF b1(3)] icon_ok_same [OF b1(3)] data_rows_same [OF b1(3)]
    by (simp_all add: turn_class_def fun_eq_iff index_ok_def)
  from Cons.IH [OF detail_ready_same [OF b1(3) Cons.prems(1)] trs _ _ _ t(1)] Cons.prems(3-5)
  obtain b' ps' where b': "expand_each env e (map data_index (flat ps)) b1 = Inr b'"
    "d_trs b' = flat ((qs @ [(r\<lparr>dw_icon := Some c\<rparr>, d1)]) @ ps')" "map fst ps' = map (\<lambda>p. (fst p)\<lparr>dw_icon := Some c\<rparr>) ps"
    "list_all (\<lambda>p. (snd p = None) = (\<not> e)) ps'" "same_data (d_tab b1) (d_tab b')"
    unfolding idx t(2,3) by auto
  have "expand_each env e (map data_index (flat (p # ps))) b = Inr b'"
    using b1(1) b'(1) by (auto simp: p shown_def data_index_def split: option.splits)
  with b' b1(2) same_data_trans [OF b1(3) b'(5)] show ?case
    by (intro exI [of _ b'] exI [of _ "(r\<lparr>dw_icon := Some c\<rparr>, d1) # ps'"]) (simp add: p)
qed

text \<open>
  C23. Opening and closing all rows.  On a table with default functions, whose rows are closed and have their icons, \<^verbatim>\<open>expandAllRows\<close> returns
  and leaves every row with a detail row after it; \<^verbatim>\<open>collapseAllRows\<close> then returns and the rows are as they were.
\<close>

theorem expand_collapse_all:
  assumes "detail_ready env (d_tab b)" "d_trs b = map Item rs" "distinct (map dw_index rs)" "list_all (\<lambda>r. index_ok (d_tab b) (dw_index r)) rs"
    "icon_class (d_tab b) ''detailOpen'' = Inr c" "list_all (\<lambda>r. dw_icon r = Some c) rs"
  shows "\<exists>b' b'' ps. expandAllRows env b = Inr b' \<and> d_trs b' = flat ps \<and> row_indices ps = map dw_index rs \<and>
    list_all (\<lambda>p. snd p \<noteq> None) ps \<and> collapseAllRows env False b' = Inr b'' \<and> d_trs b'' = d_trs b"
proof -
  let ?ps = "map (\<lambda>r. (r, None)) rs"
  obtain c' where c': "turn_class (d_tab b) True = Inr c'" using icon_class_returns [OF assms(1)] by (auto simp: turn_class_def)
  have trs: "d_trs b = flat ([] @ ?ps)" and idx: "row_indices ([] @ ?ps) = map dw_index rs"
    using assms(2) by (simp_all add: row_indices_def)
  have "list_all (\<lambda>p. icon_ok (d_tab b) p \<and> dw_icon (fst p) \<noteq> None) ?ps"
    using assms(5,6) by (auto simp: list_all_iff icon_ok_def)
  from expand_rows [OF assms(1) trs _ _ this c'] obtain b' ps where b': "expandAllRows env b = Inr b'" "d_trs b' = flat ([] @ ps)"
    "map fst ps = map (\<lambda>r. r\<lparr>dw_icon := Some c'\<rparr>) rs" "list_all (\<lambda>p. snd p \<noteq> None) ps" "same_data (d_tab b) (d_tab b')"
    unfolding idx using assms(2-4) trs by (auto simp: expandAllRows_def list.pred_map comp_def)
  have idx': "row_indices ([] @ ps) = map dw_index rs" using arg_cong [OF b'(3), of "map dw_index"] by (simp add: row_indices_def comp_def)
  have icon: "dw_icon (fst p) = Some c'" if "p \<in> set ps" for p
    using that arg_cong [OF b'(3), of set] by force
  have ok: "list_all (\<lambda>p. icon_ok (d_tab b') p \<and> dw_icon (fst p) \<noteq> None) ps"
    using icon b'(4) c' unfolding icon_ok_same [OF b'(5)] by (auto simp: list_all_iff icon_ok_def turn_class_def)
  have c: "turn_class (d_tab b') False = Inr c" "index_ok (d_tab b') = index_ok (d_tab b)"
    using assms(5) icon_class_same [OF b'(5)] data_rows_same [OF b'(5)] by (simp_all add: turn_class_def fun_eq_iff index_ok_def)
  from expand_rows [OF detail_ready_same [OF b'(5) assms(1)] b'(2) _ _ ok c(1)] obtain b'' ps' where
    b'': "collapseAllRows env False b' = Inr b''" "d_trs b'' = flat ps'" "map fst ps' = map (\<lambda>p. (fst p)\<lparr>dw_icon := Some c\<rparr>) ps"
    "list_all (\<lambda>p. snd p = None) ps'"
    unfolding idx' c(2) using assms(3,4) b'(2) by (auto simp: collapseAllRows_def list.pred_map comp_def)
  have "map fst ps' = map (\<lambda>r. r\<lparr>dw_icon := Some c\<rparr>) (map fst ps)" using b''(3) by (simp add: comp_def)
  also have "\<dots> = map (\<lambda>r. r\<lparr>dw_icon := Some c\<rparr>) rs" unfolding b'(3) by simp
  also have "\<dots> = rs" using assms(6) by (intro map_idI) (auto simp: list_all_iff)
  finally have "ps' = ?ps" using b''(4) by (intro nth_equalityI) (auto simp: list_all_length prod_eq_iff dest: map_eq_imp_length_eq)
  then have "d_trs b'' = d_trs b" using b''(2) assms(2) by simp
  with b' b''(1) idx' show ?thesis by auto
qed

text \<open>Two rows with closed details.\<close>

definition detail_table :: table where
  "detail_table = sample_table\<lparr>options := set_prop (str ''detailView'') (JBool True) DEFAULTS\<rparr>"

definition two_rows :: "js_string \<Rightarrow> drow list" where
  "two_rows c = map (\<lambda>i. \<lparr>dw_index = i, dw_cells = 2, dw_icon = Some c\<rparr>) [0, 1]"

definition two_body :: "js_string \<Rightarrow> detail_body" where
  "two_body c = \<lparr>d_tab = detail_table, d_trs = map Item (two_rows c), d_data = [0, 1]\<rparr>"

lemma detail_table_ready: "detail_ready sample_env detail_table"
proof -
  have k: "\<not> handler_key (str ''detailView'')" by (simp add: handler_key_def str_def)
  have "list_all (\<lambda>n. is_fun (lookup DEFAULTS (handler_of n))) (''all'' # raised)" using default_handlers by (simp add: list_all_iff)
  note h = handlers_set_prop [OF k this, of "JBool True"]
  have d: "is_fun (lookup DEFAULTS (str ''detailFormatter''))" "\<exists>ps. lookup DEFAULTS (str ''icons'') = JObj ps"
    unfolding default_objects by (simp_all add: lookup_Cons lookup_Nil is_fun_def cong: lookup_key_cong)
  have "getVisibleFields sample_table = Inr [S ''topic'']"
    by (simp add: getVisibleFields_def sample_table_def getFieldIndex_def lookup_Cons)
  then have "getVisibleFields detail_table = Inr [S ''topic'']" by (simp add: getVisibleFields_def detail_table_def)
  with h d show ?thesis by (simp add: detail_ready_def detail_table_def sample_env_def table_opt_def lookup_set_prop)
qed

lemma two_body_ready:
  "detail_ready sample_env (d_tab (two_body c))" "d_trs (two_body c) = map Item (two_rows c)" "distinct (map dw_index (two_rows c))"
  "list_all (\<lambda>r. index_ok (d_tab (two_body c)) (dw_index r)) (two_rows c)" "list_all (\<lambda>r. dw_icon r = Some c) (two_rows c)"
  using detail_table_ready
  by (simp_all add: two_body_def two_rows_def index_ok_def detail_table_def sample_table_def data_rows_def)

theorem expand_collapse_all_witness:
  "\<exists>c b' b''. icon_class detail_table ''detailOpen'' = Inr c \<and> expandAllRows sample_env (two_body c) = Inr b' \<and> length (d_trs b') = 4 \<and>
    collapseAllRows sample_env False b' = Inr b'' \<and> d_trs b'' = map Item (two_rows c)"
proof -
  obtain c where c: "icon_class detail_table ''detailOpen'' = Inr c" using icon_class_returns [OF detail_table_ready] by blast
  then have "icon_class (d_tab (two_body c)) ''detailOpen'' = Inr c" by (simp add: two_body_def)
  from expand_collapse_all [OF two_body_ready(1-4) this two_body_ready(5)] obtain b' b'' ps where
    b: "expandAllRows sample_env (two_body c) = Inr b'" "d_trs b' = flat ps" "row_indices ps = map dw_index (two_rows c)"
    "list_all (\<lambda>p. snd p \<noteq> None) ps" "collapseAllRows sample_env False b' = Inr b''" "d_trs b'' = map Item (two_rows c)"
    by (auto simp: two_body_def)
  have "length (flat ps) = 2 * length ps" using b(4) by (induction ps) (auto simp: shown_def)
  moreover have "length ps = 2" using arg_cong [OF b(3), of length] by (simp add: row_indices_def two_rows_def)
  ultimately show ?thesis using c b by auto
qed

theorem details_follow_icons_witness:
  "\<exists>c b' ps. detail_run sample_env (two_body c) b' \<and> d_trs b' \<noteq> d_trs (two_body c) \<and> d_trs b' = flat ps \<and> row_indices ps = [0, 1] \<and>
    list_all (icon_ok (d_tab b')) ps"
proof -
  obtain c c' where c: "icon_class detail_table ''detailOpen'' = Inr c" "turn_class (d_tab (two_body c)) True = Inr c'"
    using icon_class_returns [OF detail_table_ready] by (fastforce simp: turn_class_def two_body_def)
  let ?ps = "map (\<lambda>r. (r, None)) (two_rows c)"
  have ok: "list_all (\<lambda>r. icon_ok (d_tab (two_body c)) (r, None)) (two_rows c)"
    using c(1) by (simp add: two_rows_def two_body_def icon_ok_def)
  then have ok': "list_all (\<lambda>p. icon_ok (d_tab (two_body c)) p \<and> dw_icon (fst p) \<noteq> None) ?ps"
    by (auto simp: list_all_iff two_rows_def)
  have trs: "d_trs (two_body c) = flat ([] @ ?ps)" and idx: "row_indices ([] @ ?ps) = map dw_index (two_rows c)"
    by (simp_all add: two_body_def row_indices_def)
  from expand_rows [OF two_body_ready(1) trs _ _ ok' c(2)] obtain b' ps where
    b: "expandAllRows sample_env (two_body c) = Inr b'" "d_trs b' = flat ps" "map fst ps = map (\<lambda>r. r\<lparr>dw_icon := Some c'\<rparr>) (two_rows c)"
    "list_all (\<lambda>p. snd p \<noteq> None) ps"
    unfolding idx using two_body_ready(3,4) [of c] trs by (auto simp: expandAllRows_def list.pred_map comp_def)
  have "length (flat ps) = 2 * length ps" using b(4) by (induction ps) (auto simp: shown_def)
  moreover have "length ps = 2" using arg_cong [OF b(3), of length] by (simp add: two_rows_def)
  ultimately have "d_trs b' \<noteq> d_trs (two_body c)" using b(2) by (auto simp: two_body_def two_rows_def dest: arg_cong [of _ _ length])
  moreover have run: "detail_run sample_env (two_body c) b'" using detail_run.expand_all [OF detail_run.start b(1)] .
  moreover note details_follow_icons [OF two_body_ready(2) ok run]
  ultimately show ?thesis by (auto simp: two_rows_def)
qed

end
