(* ===== verification/JsLoop.thy ===== *)
theory JsLoop
  imports Prelude "HOL-Library.While_Combinator"
begin

text \<open>
  Loops that need not end and bodies that may throw.  A computation is a value of
  \<open>(js_error + 'a) option\<close>: \<open>None\<close> is a run that never returns, \<open>Some (Inl e)\<close> one that throws,
  \<open>Some (Inr x)\<close> one that returns.  \<open>js_while\<close> is the loop \<^verbatim>\<open>while (b) c\<close> with a body that always
  returns, \<open>js_do\<close> the loop \<^verbatim>\<open>do c while (again)\<close> whose body tells whether to go on (a \<^verbatim>\<open>break\<close> is a
  body that says no).  \<open>wp m E Q\<close> is total correctness: the run ends, with a result that satisfies
  \<open>Q\<close>, or, when \<open>E\<close> allows it, by throwing.
\<close>

section \<open>Computations\<close>

type_synonym 'a comp = "(js_error + 'a) option"

definition js_return :: "'a \<Rightarrow> 'a comp" where
  "js_return x = Some (Inr x)"

definition js_throw :: "js_error \<Rightarrow> 'a comp" where
  "js_throw e = Some (Inl e)"

definition js_bind :: "'a comp \<Rightarrow> ('a \<Rightarrow> 'b comp) \<Rightarrow> 'b comp" where
  "js_bind m f = Option.bind m (\<lambda>r. case r of Inl e \<Rightarrow> Some (Inl e) | Inr x \<Rightarrow> f x)"

lemma js_bind_simps [simp]:
  "js_bind None f = None" "js_bind (Some (Inl e)) f = Some (Inl e)" "js_bind (Some (Inr x)) f = f x"
  "js_bind (js_return x) f = f x" "js_bind (js_throw e) f = js_throw e"
  by (simp_all add: js_bind_def js_return_def js_throw_def)

definition js_while :: "('s \<Rightarrow> bool) \<Rightarrow> ('s \<Rightarrow> 's) \<Rightarrow> 's \<Rightarrow> 's comp" where
  "js_while b c s = map_option Inr (while_option b c s)"

partial_function (option) js_do :: "('s \<Rightarrow> ('s \<times> bool) comp) \<Rightarrow> 's \<Rightarrow> 's comp" where
  "js_do c s = Option.bind (c s) (\<lambda>r. case r of
       Inl e \<Rightarrow> Some (Inl e)
     | Inr (t, again) \<Rightarrow> if again then js_do c t else Some (Inr t))"

declare js_do.simps [code]

section \<open>Total correctness\<close>

definition wp :: "'a comp \<Rightarrow> bool \<Rightarrow> ('a \<Rightarrow> bool) \<Rightarrow> bool" where
  "wp m E Q \<longleftrightarrow> (case m of None \<Rightarrow> False | Some (Inl e) \<Rightarrow> E | Some (Inr x) \<Rightarrow> Q x)"

named_theorems wp_intros \<open>introduction rules for total correctness\<close>

lemma wp_return_iff [simp]: "wp (js_return x) E Q \<longleftrightarrow> Q x"
  by (simp add: wp_def js_return_def)

lemma wp_throw_iff [simp]: "wp (js_throw e) E Q \<longleftrightarrow> E"
  by (simp add: wp_def js_throw_def)

lemma wp_bind [wp_intros]:
  assumes "wp m E (\<lambda>x. wp (f x) E Q)" shows "wp (js_bind m f) E Q"
  using assms by (auto simp: wp_def js_bind_def split: option.splits sum.splits)

lemma wp_mono:
  assumes "wp m E Q" and "\<And>x. Q x \<Longrightarrow> R x" and "E \<Longrightarrow> F"
  shows "wp m F R"
  using assms by (auto simp: wp_def split: option.splits sum.splits)

lemma wp_seq:
  assumes "wp m E R" and "\<And>x. R x \<Longrightarrow> wp (f x) E Q" shows "wp (js_bind m f) E Q"
  using assms by (intro wp_bind) (rule wp_mono)

lemma wp_if: "(b \<Longrightarrow> wp m E Q) \<Longrightarrow> (\<not> b \<Longrightarrow> wp n E Q) \<Longrightarrow> wp (if b then m else n) E Q"
  by simp

lemma wp_returns: "wp m False Q \<longleftrightarrow> (\<exists>x. m = Some (Inr x) \<and> Q x)"
  by (auto simp: wp_def split: option.splits sum.splits)

lemma wp_ends: "wp m True Q \<longleftrightarrow> (\<exists>e. m = Some (Inl e)) \<or> (\<exists>x. m = Some (Inr x) \<and> Q x)"
  by (auto simp: wp_def split: option.splits sum.splits)

text \<open>The loop rules: an invariant, and a measure that every turn makes smaller.\<close>

lemma wp_while:
  fixes f :: "'s \<Rightarrow> nat"
  assumes "P s" and "\<And>s. P s \<Longrightarrow> b s \<Longrightarrow> P (c s)" and "\<And>s. P s \<Longrightarrow> b s \<Longrightarrow> f (c s) < f s"
    and "\<And>s. P s \<Longrightarrow> \<not> b s \<Longrightarrow> Q s"
  shows "wp (js_while b c s) E Q"
proof -
  obtain t where "while_option b c s = Some t"
    using measure_while_option_Some [of P b c f s] assms(1,2,3) by auto
  then show ?thesis
    using while_option_stop [of b c s t] while_option_rule [of P b c s t] assms
    by (auto simp: wp_def js_while_def)
qed

lemma js_do_bind: "js_do c s = js_bind (c s) (\<lambda>(t, again). if again then js_do c t else js_return t)"
  by (subst js_do.simps) (auto simp: js_bind_def js_return_def intro!: arg_cong2 [where f = Option.bind]
      split: sum.splits)

lemma wp_do:
  fixes f :: "'s \<Rightarrow> nat"
  assumes "P s"
    and step: "\<And>s. P s \<Longrightarrow> wp (c s) E (\<lambda>(t, again). if again then P t \<and> f t < f s else Q t)"
  shows "wp (js_do c s) E Q"
  using assms(1)
proof (induction "f s" arbitrary: s rule: less_induct)
  case less
  show ?case
  proof (subst js_do_bind, rule wp_seq [OF step [OF less.prems]], clarify)
    fix t and again :: bool
    assume t: "if again then P t \<and> f t < f s else Q t"
    show "wp (if again then js_do c t else js_return t) E Q"
      using less.hyps [of t] t by (cases again) simp_all
  qed
qed

section \<open>Arrays by their slots\<close>

text \<open>
  An array is the function from its integer keys to what they hold, so that a read outside the
  written slots is the value the function has there (\<^verbatim>\<open>undefined\<close> in a fresh array) and a write
  outside them extends it, as in the language; \<open>seg a i j\<close> is its stretch \<open>i \<le> k < j\<close>.
\<close>

type_synonym 'a slots = "int \<Rightarrow> 'a"

definition seg :: "'a slots \<Rightarrow> int \<Rightarrow> int \<Rightarrow> 'a list" where
  "seg a i j = map a [i..j - 1]"

text \<open>\<^verbatim>\<open>for (i = 0; i < n; i++)\<close> and \<^verbatim>\<open>for (i = n - 1; i >= 0; i--)\<close>.\<close>

definition for_up :: "int \<Rightarrow> (int \<Rightarrow> 's \<Rightarrow> 's) \<Rightarrow> 's \<Rightarrow> 's" where
  "for_up n f s = fold f [0..n - 1] s"

definition for_down :: "int \<Rightarrow> (int \<Rightarrow> 's \<Rightarrow> 's) \<Rightarrow> 's \<Rightarrow> 's" where
  "for_down n f s = fold f (rev [0..n - 1]) s"

lemma length_seg [simp]: "length (seg a i j) = nat (j - i)"
  by (simp add: seg_def)

lemma seg_empty [simp]: "j \<le> i \<Longrightarrow> seg a i j = []"
  by (simp add: seg_def)

lemma seg_eq_Nil [simp]: "seg a i j = [] \<longleftrightarrow> j \<le> i"
  by (auto simp: seg_def)

lemma seg_nth: "0 \<le> int k \<Longrightarrow> i + int k < j \<Longrightarrow> seg a i j ! k = a (i + int k)"
  by (simp add: seg_def)

lemma set_seg: "set (seg a i j) = a ` {i..<j}"
  by (auto simp: seg_def)

lemma seg_split: "i \<le> j \<Longrightarrow> j \<le> k \<Longrightarrow> seg a i k = seg a i j @ seg a j k"
  by (cases "j = k") (simp_all add: seg_def upto_split1 [of i j "k - 1"])

lemma seg_Cons: "i < j \<Longrightarrow> seg a i j = a i # seg a (i + 1) j"
  by (simp add: seg_def upto_rec1)

lemma seg_snoc: "i < j \<Longrightarrow> seg a i j = seg a i (j - 1) @ [a (j - 1)]"
  by (simp add: seg_def upto_rec2)

lemma seg_single [simp]: "seg a i (i + 1) = [a i]"
  by (simp add: seg_def)

lemma seg_cong: "(\<And>k. i \<le> k \<Longrightarrow> k < j \<Longrightarrow> a k = b k) \<Longrightarrow> seg a i j = seg b i j"
  by (simp add: seg_def)

lemma seg_upd_out [simp]: "k < i \<or> j \<le> k \<Longrightarrow> seg (a(k := v)) i j = seg a i j"
  by (rule seg_cong) auto

lemma seg_take: "0 \<le> n \<Longrightarrow> n \<le> j - i \<Longrightarrow> take (nat n) (seg a i j) = seg a i (i + n)"
  by (subst seg_split [of i "i + n" j]) auto

lemma seg_drop: "0 \<le> n \<Longrightarrow> n \<le> j - i \<Longrightarrow> drop (nat n) (seg a i j) = seg a (i + n) j"
  by (subst seg_split [of i "i + n" j]) auto

lemma seg_shift: "(\<And>k. 0 \<le> k \<Longrightarrow> k < n \<Longrightarrow> a (i + k) = b (j + k)) \<Longrightarrow> seg a i (i + n) = seg b j (j + n)"
  by (rule nth_equalityI) (auto simp: seg_nth)

end
