(* ===== verification/TimSort.thy ===== *)
theory TimSort
  imports JsLoop "HOL-Library.Word"
begin

text \<open>
  \<^verbatim>\<open>zrender/core/timsort\<close> (module 85 of \<^verbatim>\<open>echarts.js\<close>): the sort of the display list.  The
  comparator is a parameter: of the number it returns the code only sees how it compares with 0.
\<close>

unbundle bit_operations_syntax

section \<open>The comparator and the numbers\<close>

datatype sign = Neg | Zero | Pos | NaN

type_synonym 'a compare = "'a \<Rightarrow> 'a \<Rightarrow> sign"

definition ge0 :: "sign \<Rightarrow> bool" where
  "ge0 c \<longleftrightarrow> c = Zero \<or> c = Pos"

definition le0 :: "sign \<Rightarrow> bool" where
  "le0 c \<longleftrightarrow> c = Neg \<or> c = Zero"

text \<open>\<^verbatim>\<open>n << 1\<close>, \<^verbatim>\<open>n >> 1\<close>, \<^verbatim>\<open>n >>> 1\<close> and \<^verbatim>\<open>m | n\<close> on the 32-bit integers of the language.\<close>

definition shl1 :: "int \<Rightarrow> int" where
  "shl1 n = signed_take_bit 31 (2 * n)"

definition shr1 :: "int \<Rightarrow> int" where
  "shr1 n = signed_take_bit 31 n div 2"

definition ushr1 :: "int \<Rightarrow> int" where
  "ushr1 n = take_bit 32 n div 2"

definition bitor :: "int \<Rightarrow> int \<Rightarrow> int" where
  "bitor m n = signed_take_bit 31 (m OR n)"

definition DEFAULT_MIN_MERGE :: int where "DEFAULT_MIN_MERGE = 32"

definition DEFAULT_MIN_GALLOPING :: int where "DEFAULT_MIN_GALLOPING = 7"

definition DEFAULT_TMP_STORAGE_LENGTH :: int where "DEFAULT_TMP_STORAGE_LENGTH = 256"

definition minRunLength :: "int \<Rightarrow> int comp" where
  "minRunLength n =
     js_bind (js_while (\<lambda>(n, r). n \<ge> DEFAULT_MIN_MERGE)
                       (\<lambda>(n, r). (shr1 n, bitor r (signed_take_bit 31 (n AND 1)))) (n, 0))
       (\<lambda>(n, r). js_return (n + r))"

section \<open>Runs\<close>

function reverse_loop :: "'a slots \<Rightarrow> int \<Rightarrow> int \<Rightarrow> 'a slots" where
  "reverse_loop array lo hi =
     (if lo < hi then reverse_loop (array(lo := array hi, hi := array lo)) (lo + 1) (hi - 1)
      else array)"
  by auto
termination by (relation "measure (\<lambda>(a, lo, hi). nat (hi - lo))") auto

declare reverse_loop.simps [simp del]

definition reverseRun :: "'a slots \<Rightarrow> int \<Rightarrow> int \<Rightarrow> 'a slots" where
  "reverseRun array lo hi = reverse_loop array lo (hi - 1)"

text \<open>\<^verbatim>\<open>while (runHi < hi && more) runHi++\<close>.\<close>

function run_end :: "(int \<Rightarrow> bool) \<Rightarrow> int \<Rightarrow> int \<Rightarrow> int" where
  "run_end more runHi hi = (if runHi < hi \<and> more runHi then run_end more (runHi + 1) hi else runHi)"
  by auto
termination by (relation "measure (\<lambda>(m, r, hi). nat (hi - r))") auto

declare run_end.simps [simp del]

definition makeAscendingRun :: "'a slots \<Rightarrow> int \<Rightarrow> int \<Rightarrow> 'a compare \<Rightarrow> 'a slots \<times> int" where
  "makeAscendingRun array lo hi compare =
     (let runHi = lo + 1 in
      if runHi = hi then (array, 1)
      else if compare (array runHi) (array lo) = Neg then
        let runHi = run_end (\<lambda>r. compare (array r) (array (r - 1)) = Neg) (runHi + 1) hi in
        (reverseRun array lo runHi, runHi - lo)
      else
        let runHi = run_end (\<lambda>r. ge0 (compare (array r) (array (r - 1)))) (runHi + 1) hi in
        (array, runHi - lo))"

section \<open>Binary insertion\<close>

text \<open>The search for the place of \<open>pivot\<close>, the \<^verbatim>\<open>switch\<close> that shifts the rest up, one turn, the loop.\<close>

definition insertion_point :: "'a compare \<Rightarrow> 'a slots \<Rightarrow> 'a \<Rightarrow> int \<Rightarrow> int \<Rightarrow> int comp" where
  "insertion_point compare array pivot left right =
     js_bind (js_while (\<lambda>(left, right). left < right)
                (\<lambda>(left, right). let mid = ushr1 (left + right) in
                   if compare pivot (array mid) = Neg then (left, mid) else (mid + 1, right))
                (left, right))
       (\<lambda>(left, right). js_return left)"

function shift_loop :: "'a slots \<Rightarrow> int \<Rightarrow> int \<Rightarrow> 'a slots" where
  "shift_loop array left n =
     (if n > 0 then shift_loop (array(left + n := array (left + n - 1))) left (n - 1) else array)"
  by auto
termination by (relation "measure (\<lambda>(a, l, n). nat n)") auto

declare shift_loop.simps [simp del]

definition shift_up :: "'a slots \<Rightarrow> int \<Rightarrow> int \<Rightarrow> 'a slots" where
  "shift_up array left n =
     (let case1 = (\<lambda>a. a(left + 1 := a left));
          case2 = (\<lambda>a. case1 (a(left + 2 := a (left + 1))));
          case3 = (\<lambda>a. case2 (a(left + 3 := a (left + 2)))) in
      if n = 3 then case3 array
      else if n = 2 then case2 array
      else if n = 1 then case1 array
      else shift_loop array left n)"

definition insert_step :: "'a compare \<Rightarrow> int \<Rightarrow> 'a slots \<Rightarrow> int \<Rightarrow> 'a slots comp" where
  "insert_step compare lo array start =
     (let pivot = array start in
      js_bind (insertion_point compare array pivot lo start) (\<lambda>left.
      js_return ((shift_up array left (start - left))(left := pivot))))"

function insertion_loop :: "'a compare \<Rightarrow> int \<Rightarrow> int \<Rightarrow> 'a slots \<Rightarrow> int \<Rightarrow> 'a slots comp" where
  "insertion_loop compare lo hi array start =
     (if start < hi then
        js_bind (insert_step compare lo array start) (\<lambda>array.
        insertion_loop compare lo hi array (start + 1))
      else js_return array)"
  by auto
termination by (relation "measure (\<lambda>(c, lo, hi, a, s). nat (hi - s))") auto

declare insertion_loop.simps [simp del]

definition binaryInsertionSort ::
  "'a slots \<Rightarrow> int \<Rightarrow> int \<Rightarrow> int \<Rightarrow> 'a compare \<Rightarrow> 'a slots comp" where
  "binaryInsertionSort array lo hi start compare =
     insertion_loop compare lo hi array (if start = lo then start + 1 else start)"

section \<open>Galloping\<close>

text \<open>
  The doubling loop of both gallops: \<open>more offset\<close> is its comparison; the shift may wrap to a number
  below 1, in which case the code takes \<^verbatim>\<open>maxOffset\<close>.  The result is \<open>(lastOffset, offset)\<close>.
\<close>

definition advance :: "(int \<Rightarrow> bool) \<Rightarrow> int \<Rightarrow> (int \<times> int) comp" where
  "advance more maxOffset =
     js_bind (js_while (\<lambda>(lastOffset, offset). offset < maxOffset \<and> more offset)
                (\<lambda>(lastOffset, offset).
                   let next = shl1 offset + 1 in (offset, if next \<le> 0 then maxOffset else next))
                (0, 1))
       (\<lambda>(lastOffset, offset).
          js_return (lastOffset, if offset > maxOffset then maxOffset else offset))"

text \<open>The binary search that ends both: \<open>up m\<close> says that the value belongs after slot \<open>m\<close>.\<close>

definition bisect :: "(int \<Rightarrow> bool) \<Rightarrow> int \<Rightarrow> int \<Rightarrow> int comp" where
  "bisect up lastOffset offset =
     js_bind (js_while (\<lambda>(lastOffset, offset). lastOffset < offset)
                (\<lambda>(lastOffset, offset).
                   let m = lastOffset + ushr1 (offset - lastOffset) in
                   if up m then (m + 1, offset) else (lastOffset, m))
                (lastOffset, offset))
       (\<lambda>(lastOffset, offset). js_return offset)"

definition gallopLeft :: "'a \<Rightarrow> 'a slots \<Rightarrow> int \<Rightarrow> int \<Rightarrow> int \<Rightarrow> 'a compare \<Rightarrow> int comp" where
  "gallopLeft val array start len hint compare =
     js_bind
       (if compare val (array (start + hint)) = Pos then
          js_bind (advance (\<lambda>offset. compare val (array (start + hint + offset)) = Pos) (len - hint))
            (\<lambda>(lastOffset, offset). js_return (lastOffset + hint, offset + hint))
        else
          js_bind (advance (\<lambda>offset. le0 (compare val (array (start + hint - offset)))) (hint + 1))
            (\<lambda>(lastOffset, offset). js_return (hint - offset, hint - lastOffset)))
       (\<lambda>(lastOffset, offset).
          bisect (\<lambda>m. compare val (array (start + m)) = Pos) (lastOffset + 1) offset)"

definition gallopRight :: "'a \<Rightarrow> 'a slots \<Rightarrow> int \<Rightarrow> int \<Rightarrow> int \<Rightarrow> 'a compare \<Rightarrow> int comp" where
  "gallopRight val array start len hint compare =
     js_bind
       (if compare val (array (start + hint)) = Neg then
          js_bind (advance (\<lambda>offset. compare val (array (start + hint - offset)) = Neg) (hint + 1))
            (\<lambda>(lastOffset, offset). js_return (hint - offset, hint - lastOffset))
        else
          js_bind (advance (\<lambda>offset. ge0 (compare val (array (start + hint + offset)))) (len - hint))
            (\<lambda>(lastOffset, offset). js_return (lastOffset + hint, offset + hint)))
       (\<lambda>(lastOffset, offset).
          bisect (\<lambda>m. \<not> compare val (array (start + m)) = Neg) (lastOffset + 1) offset)"

section \<open>Merging\<close>

text \<open>
  The object \<^verbatim>\<open>new TimSort(array, compare)\<close>: its captured variables.  \<open>u\<close> is what a slot of the
  fresh array \<^verbatim>\<open>tmp\<close> reads as before it is written, \<open>z\<close> what one of \<^verbatim>\<open>runStart\<close> and
  \<^verbatim>\<open>runLength\<close> does; nothing proved depends on them.
\<close>

record 'a timsort =
  ts_array :: "'a slots"
  minGallop :: int
  ts_length :: int
  tmpStorageLength :: int
  stackLength :: int
  runStart :: "int slots"
  runLength :: "int slots"
  stackSize :: int
  tmp :: "'a slots"

definition new_TimSort :: "'a \<Rightarrow> int \<Rightarrow> 'a slots \<Rightarrow> int \<Rightarrow> 'a timsort" where
  "new_TimSort u z array len =
     \<lparr>ts_array = array, minGallop = DEFAULT_MIN_GALLOPING, ts_length = len,
      tmpStorageLength = (if len < 2 * DEFAULT_TMP_STORAGE_LENGTH then ushr1 len
                          else DEFAULT_TMP_STORAGE_LENGTH),
      stackLength = (if len < 120 then 5 else if len < 1542 then 10 else if len < 119151 then 19 else 40),
      runStart = (\<lambda>_. z), runLength = (\<lambda>_. z), stackSize = 0, tmp = (\<lambda>_. u)\<rparr>"

definition pushRun :: "'a timsort \<Rightarrow> int \<Rightarrow> int \<Rightarrow> 'a timsort" where
  "pushRun ts start len =
     ts\<lparr>runStart := (runStart ts)(stackSize ts := start),
        runLength := (runLength ts)(stackSize ts := len),
        stackSize := stackSize ts + 1\<rparr>"

text \<open>The local variables of \<^verbatim>\<open>mergeLow\<close> and \<^verbatim>\<open>mergeHigh\<close>, with the array they write.\<close>

record 'a merging =
  arr :: "'a slots"
  cursor1 :: int
  cursor2 :: int
  dest :: int
  length1 :: int
  length2 :: int
  count1 :: int
  count2 :: int
  exit :: bool
  gallop :: int

text \<open>The copying loops, one slot at a time and in the order of the code.\<close>

definition copy_up :: "'a slots \<Rightarrow> int \<Rightarrow> 'a slots \<Rightarrow> int \<Rightarrow> int \<Rightarrow> 'a slots" where
  "copy_up a d src s n = for_up n (\<lambda>i a. a(d + i := src (s + i))) a"

definition move_up :: "'a slots \<Rightarrow> int \<Rightarrow> int \<Rightarrow> int \<Rightarrow> 'a slots" where
  "move_up a d s n = for_up n (\<lambda>i a. a(d + i := a (s + i))) a"

definition move_down :: "'a slots \<Rightarrow> int \<Rightarrow> int \<Rightarrow> int \<Rightarrow> 'a slots" where
  "move_down a d s n = for_down n (\<lambda>i a. a(d + i := a (s + i))) a"

subsection \<open>mergeLow\<close>

text \<open>One turn of the first inner loop, with the value of its condition.\<close>

definition low_one :: "'a compare \<Rightarrow> 'a slots \<Rightarrow> 'a merging \<Rightarrow> 'a merging \<times> bool" where
  "low_one compare t m =
     (if compare (arr m (cursor2 m)) (t (cursor1 m)) = Neg then
        let m = m\<lparr>arr := (arr m)(dest m := arr m (cursor2 m)), dest := dest m + 1,
                  cursor2 := cursor2 m + 1, count2 := count2 m + 1, count1 := 0,
                  length2 := length2 m - 1\<rparr> in
        if length2 m = 0 then (m\<lparr>exit := True\<rparr>, False)
        else (m, bitor (count1 m) (count2 m) < gallop m)
      else
        let m = m\<lparr>arr := (arr m)(dest m := t (cursor1 m)), dest := dest m + 1,
                  cursor1 := cursor1 m + 1, count1 := count1 m + 1, count2 := 0,
                  length1 := length1 m - 1\<rparr> in
        if length1 m = 1 then (m\<lparr>exit := True\<rparr>, False)
        else (m, bitor (count1 m) (count2 m) < gallop m))"

text \<open>
  The two halves of a turn of the second inner loop: what each does once the gallop has returned
  the count \<open>c\<close>, then the half itself.  \<open>exit\<close> tells that the code left the loop.
\<close>

definition low_after1 :: "'a slots \<Rightarrow> int \<Rightarrow> 'a merging \<Rightarrow> 'a merging" where
  "low_after1 t c m =
     (let m = m\<lparr>count1 := c\<rparr>;
          m = (if c \<noteq> 0 then
                 m\<lparr>arr := copy_up (arr m) (dest m) t (cursor1 m) c, dest := dest m + c,
                   cursor1 := cursor1 m + c, length1 := length1 m - c\<rparr>
               else m) in
      if c \<noteq> 0 \<and> length1 m \<le> 1 then m\<lparr>exit := True\<rparr>
      else
        let m = m\<lparr>arr := (arr m)(dest m := arr m (cursor2 m)), dest := dest m + 1,
                  cursor2 := cursor2 m + 1, length2 := length2 m - 1\<rparr> in
        if length2 m = 0 then m\<lparr>exit := True\<rparr> else m)"

definition low_gallop1 :: "'a compare \<Rightarrow> 'a slots \<Rightarrow> 'a merging \<Rightarrow> 'a merging comp" where
  "low_gallop1 compare t m =
     js_bind (gallopRight (arr m (cursor2 m)) t (cursor1 m) (length1 m) 0 compare) (\<lambda>c.
     js_return (low_after1 t c m))"

definition low_after2 :: "'a slots \<Rightarrow> int \<Rightarrow> 'a merging \<Rightarrow> 'a merging" where
  "low_after2 t c m =
     (let m = m\<lparr>count2 := c\<rparr>;
          m = (if c \<noteq> 0 then
                 m\<lparr>arr := move_up (arr m) (dest m) (cursor2 m) c, dest := dest m + c,
                   cursor2 := cursor2 m + c, length2 := length2 m - c\<rparr>
               else m) in
      if c \<noteq> 0 \<and> length2 m = 0 then m\<lparr>exit := True\<rparr>
      else
        let m = m\<lparr>arr := (arr m)(dest m := t (cursor1 m)), dest := dest m + 1,
                  cursor1 := cursor1 m + 1, length1 := length1 m - 1\<rparr> in
        if length1 m = 1 then m\<lparr>exit := True\<rparr> else m\<lparr>gallop := gallop m - 1\<rparr>)"

definition low_gallop2 :: "'a compare \<Rightarrow> 'a slots \<Rightarrow> 'a merging \<Rightarrow> 'a merging comp" where
  "low_gallop2 compare t m =
     js_bind (gallopLeft (t (cursor1 m)) (arr m) (cursor2 m) (length2 m) 0 compare) (\<lambda>c.
     js_return (low_after2 t c m))"

text \<open>A turn of the second loop, and of the outer one (the same in both merges).\<close>

definition gallop_turn ::
  "('a merging \<Rightarrow> 'a merging comp) \<Rightarrow> ('a merging \<Rightarrow> 'a merging comp) \<Rightarrow> 'a merging \<Rightarrow>
   ('a merging \<times> bool) comp" where
  "gallop_turn half1 half2 m =
     js_bind (half1 m) (\<lambda>m.
     if exit m then js_return (m, False)
     else js_bind (half2 m) (\<lambda>m.
       if exit m then js_return (m, False)
       else js_return (m, count1 m \<ge> DEFAULT_MIN_GALLOPING \<or> count2 m \<ge> DEFAULT_MIN_GALLOPING)))"

definition merge_turn ::
  "('a merging \<Rightarrow> 'a merging \<times> bool) \<Rightarrow> ('a merging \<Rightarrow> 'a merging comp) \<Rightarrow>
   ('a merging \<Rightarrow> 'a merging comp) \<Rightarrow> 'a merging \<Rightarrow> ('a merging \<times> bool) comp" where
  "merge_turn one half1 half2 m =
     js_bind (js_do (\<lambda>m. js_return (one m)) (m\<lparr>count1 := 0, count2 := 0, exit := False\<rparr>)) (\<lambda>m.
     if exit m then js_return (m, False)
     else js_bind (js_do (gallop_turn half1 half2) m) (\<lambda>m.
       if exit m then js_return (m, False)
       else js_return (m\<lparr>gallop := (if gallop m < 0 then 0 else gallop m) + 2\<rparr>, True)))"

definition low_finish :: "'a slots \<Rightarrow> 'a merging \<Rightarrow> 'a slots comp" where
  "low_finish t m =
     (if length1 m = 1 then
        js_return ((move_up (arr m) (dest m) (cursor2 m) (length2 m))
                     (dest m + length2 m := t (cursor1 m)))
      else if length1 m = 0 then js_throw (Thrown ''Error'')
      else js_return (copy_up (arr m) (dest m) t (cursor1 m) (length1 m)))"

definition mergeLow ::
  "'a compare \<Rightarrow> 'a timsort \<Rightarrow> int \<Rightarrow> int \<Rightarrow> int \<Rightarrow> int \<Rightarrow> 'a timsort comp" where
  "mergeLow compare ts start1 len1 start2 len2 =
     (let t = copy_up (tmp ts) 0 (ts_array ts) start1 len1;
          a = (ts_array ts)(start1 := ts_array ts start2);
          m = \<lparr>arr = a, cursor1 = 0, cursor2 = start2 + 1, dest = start1 + 1, length1 = len1,
               length2 = len2 - 1, count1 = 0, count2 = 0, exit = False, gallop = minGallop ts\<rparr> in
      if length2 m = 0 then
        js_return (ts\<lparr>tmp := t, ts_array := copy_up a (dest m) t 0 len1\<rparr>)
      else if len1 = 1 then
        js_return (ts\<lparr>tmp := t,
          ts_array := (move_up a (dest m) (cursor2 m) (length2 m))(dest m + length2 m := t 0)\<rparr>)
      else
        js_bind (js_do (merge_turn (low_one compare t) (low_gallop1 compare t) (low_gallop2 compare t)) m)
          (\<lambda>m. js_bind (low_finish t m) (\<lambda>a.
             js_return (ts\<lparr>tmp := t, ts_array := a, minGallop := max 1 (gallop m)\<rparr>))))"

subsection \<open>mergeHigh\<close>

definition high_one :: "'a compare \<Rightarrow> 'a slots \<Rightarrow> 'a merging \<Rightarrow> 'a merging \<times> bool" where
  "high_one compare t m =
     (if compare (t (cursor2 m)) (arr m (cursor1 m)) = Neg then
        let m = m\<lparr>arr := (arr m)(dest m := arr m (cursor1 m)), dest := dest m - 1,
                  cursor1 := cursor1 m - 1, count1 := count1 m + 1, count2 := 0,
                  length1 := length1 m - 1\<rparr> in
        if length1 m = 0 then (m\<lparr>exit := True\<rparr>, False)
        else (m, bitor (count1 m) (count2 m) < gallop m)
      else
        let m = m\<lparr>arr := (arr m)(dest m := t (cursor2 m)), dest := dest m - 1,
                  cursor2 := cursor2 m - 1, count2 := count2 m + 1, count1 := 0,
                  length2 := length2 m - 1\<rparr> in
        if length2 m = 1 then (m\<lparr>exit := True\<rparr>, False)
        else (m, bitor (count1 m) (count2 m) < gallop m))"

definition high_after1 :: "'a slots \<Rightarrow> int \<Rightarrow> 'a merging \<Rightarrow> 'a merging" where
  "high_after1 t c m =
     (let m = m\<lparr>count1 := c\<rparr>;
          m = (if c \<noteq> 0 then
                 let d = dest m - c; c1 = cursor1 m - c in
                 m\<lparr>dest := d, cursor1 := c1, length1 := length1 m - c,
                   arr := move_down (arr m) (d + 1) (c1 + 1) c\<rparr>
               else m) in
      if c \<noteq> 0 \<and> length1 m = 0 then m\<lparr>exit := True\<rparr>
      else
        let m = m\<lparr>arr := (arr m)(dest m := t (cursor2 m)), dest := dest m - 1,
                  cursor2 := cursor2 m - 1, length2 := length2 m - 1\<rparr> in
        if length2 m = 1 then m\<lparr>exit := True\<rparr> else m)"

definition high_gallop1 :: "'a compare \<Rightarrow> 'a slots \<Rightarrow> int \<Rightarrow> 'a merging \<Rightarrow> 'a merging comp" where
  "high_gallop1 compare t start1 m =
     js_bind (gallopRight (t (cursor2 m)) (arr m) start1 (length1 m) (length1 m - 1) compare) (\<lambda>g.
     js_return (high_after1 t (length1 m - g) m))"

definition high_after2 :: "'a slots \<Rightarrow> int \<Rightarrow> 'a merging \<Rightarrow> 'a merging" where
  "high_after2 t c m =
     (let m = m\<lparr>count2 := c\<rparr>;
          m = (if c \<noteq> 0 then
                 let d = dest m - c; c2 = cursor2 m - c in
                 m\<lparr>dest := d, cursor2 := c2, length2 := length2 m - c,
                   arr := copy_up (arr m) (d + 1) t (c2 + 1) c\<rparr>
               else m) in
      if c \<noteq> 0 \<and> length2 m \<le> 1 then m\<lparr>exit := True\<rparr>
      else
        let m = m\<lparr>arr := (arr m)(dest m := arr m (cursor1 m)), dest := dest m - 1,
                  cursor1 := cursor1 m - 1, length1 := length1 m - 1\<rparr> in
        if length1 m = 0 then m\<lparr>exit := True\<rparr> else m\<lparr>gallop := gallop m - 1\<rparr>)"

definition high_gallop2 :: "'a compare \<Rightarrow> 'a slots \<Rightarrow> 'a merging \<Rightarrow> 'a merging comp" where
  "high_gallop2 compare t m =
     js_bind (gallopLeft (arr m (cursor1 m)) t 0 (length2 m) (length2 m - 1) compare) (\<lambda>g.
     js_return (high_after2 t (length2 m - g) m))"

text \<open>The copy that puts the last element of the second run before what is left of the first.\<close>

definition high_last :: "'a slots \<Rightarrow> 'a merging \<Rightarrow> 'a slots" where
  "high_last t m =
     (let d = dest m - length1 m; c1 = cursor1 m - length1 m in
      (move_down (arr m) (d + 1) (c1 + 1) (length1 m))(d := t (cursor2 m)))"

definition high_finish :: "'a slots \<Rightarrow> 'a merging \<Rightarrow> 'a slots comp" where
  "high_finish t m =
     (if length2 m = 1 then js_return (high_last t m)
      else if length2 m = 0 then js_throw (Thrown ''Error'')
      else js_return (copy_up (arr m) (dest m - (length2 m - 1)) t 0 (length2 m)))"

definition mergeHigh ::
  "'a compare \<Rightarrow> 'a timsort \<Rightarrow> int \<Rightarrow> int \<Rightarrow> int \<Rightarrow> int \<Rightarrow> 'a timsort comp" where
  "mergeHigh compare ts start1 len1 start2 len2 =
     (let t = copy_up (tmp ts) 0 (ts_array ts) start2 len2;
          a = (ts_array ts)(start2 + len2 - 1 := ts_array ts (start1 + len1 - 1));
          m = \<lparr>arr = a, cursor1 = start1 + len1 - 2, cursor2 = len2 - 1, dest = start2 + len2 - 2,
               length1 = len1 - 1, length2 = len2, count1 = 0, count2 = 0, exit = False,
               gallop = minGallop ts\<rparr> in
      if length1 m = 0 then
        js_return (ts\<lparr>tmp := t, ts_array := copy_up a (dest m - (len2 - 1)) t 0 len2\<rparr>)
      else if len2 = 1 then js_return (ts\<lparr>tmp := t, ts_array := high_last t m\<rparr>)
      else
        js_bind (js_do (merge_turn (high_one compare t) (high_gallop1 compare t start1)
                          (high_gallop2 compare t)) m)
          (\<lambda>m. js_bind (high_finish t m) (\<lambda>a.
             js_return (ts\<lparr>tmp := t, ts_array := a, minGallop := max 1 (gallop m)\<rparr>))))"

section \<open>The stack of runs\<close>

text \<open>What \<^verbatim>\<open>mergeAt(i)\<close> does to the stack before it merges: runs \<open>i\<close> and \<open>i + 1\<close> become one.\<close>

definition joinRuns :: "'a timsort \<Rightarrow> int \<Rightarrow> 'a timsort" where
  "joinRuns ts i =
     (let ts = ts\<lparr>runLength := (runLength ts)(i := runLength ts i + runLength ts (i + 1))\<rparr>;
          ts = (if i = stackSize ts - 3 then
                  ts\<lparr>runStart := (runStart ts)(i + 1 := runStart ts (i + 2)),
                     runLength := (runLength ts)(i + 1 := runLength ts (i + 2))\<rparr>
                else ts) in
      ts\<lparr>stackSize := stackSize ts - 1\<rparr>)"

definition mergeAt :: "'a compare \<Rightarrow> 'a timsort \<Rightarrow> int \<Rightarrow> 'a timsort comp" where
  "mergeAt compare ts i =
     (let start1 = runStart ts i; len1 = runLength ts i;
          start2 = runStart ts (i + 1); len2 = runLength ts (i + 1);
          ts = joinRuns ts i in
      js_bind (gallopRight (ts_array ts start2) (ts_array ts) start1 len1 0 compare) (\<lambda>k.
      let start1 = start1 + k; len1 = len1 - k in
      if len1 = 0 then js_return ts
      else js_bind (gallopLeft (ts_array ts (start1 + len1 - 1)) (ts_array ts) start2 len2 (len2 - 1)
                      compare) (\<lambda>len2.
        if len2 = 0 then js_return ts
        else if len1 \<le> len2 then mergeLow compare ts start1 len1 start2 len2
        else mergeHigh compare ts start1 len1 start2 len2)))"

definition mergeRuns :: "'a compare \<Rightarrow> 'a timsort \<Rightarrow> 'a timsort comp" where
  "mergeRuns compare ts = js_do (\<lambda>ts.
     if stackSize ts > 1 then
       let n = stackSize ts - 2; rl = runLength ts in
       if (n \<ge> 1 \<and> rl (n - 1) \<le> rl n + rl (n + 1)) \<or> (n \<ge> 2 \<and> rl (n - 2) \<le> rl n + rl (n - 1)) then
         js_bind (mergeAt compare ts (if rl (n - 1) < rl (n + 1) then n - 1 else n)) (\<lambda>ts.
         js_return (ts, True))
       else if rl n > rl (n + 1) then js_return (ts, False)
       else js_bind (mergeAt compare ts n) (\<lambda>ts. js_return (ts, True))
     else js_return (ts, False)) ts"

definition forceMergeRuns :: "'a compare \<Rightarrow> 'a timsort \<Rightarrow> 'a timsort comp" where
  "forceMergeRuns compare ts = js_do (\<lambda>ts.
     if stackSize ts > 1 then
       let n = stackSize ts - 2; rl = runLength ts in
       js_bind (mergeAt compare ts (if n > 0 \<and> rl (n - 1) < rl (n + 1) then n - 1 else n)) (\<lambda>ts.
       js_return (ts, True))
     else js_return (ts, False)) ts"

section \<open>sort\<close>

text \<open>The body of the \<^verbatim>\<open>do\<close> loop of \<^verbatim>\<open>sort\<close>, over \<open>(ts, lo, remaining)\<close>.\<close>

definition sort_turn :: "'a compare \<Rightarrow> int \<Rightarrow> int \<Rightarrow> 'a timsort \<times> int \<times> int \<Rightarrow>
    (('a timsort \<times> int \<times> int) \<times> bool) comp" where
  "sort_turn compare minRun hi = (\<lambda>(ts, lo, remaining).
     let (a, rl) = makeAscendingRun (ts_array ts) lo hi compare in
     js_bind
       (if rl < minRun then
          let force = (if remaining > minRun then minRun else remaining) in
          js_bind (binaryInsertionSort a lo (lo + force) (lo + rl) compare) (\<lambda>a.
          js_return (a, force))
        else js_return (a, rl)) (\<lambda>(a, rl).
     js_bind (mergeRuns compare (pushRun (ts\<lparr>ts_array := a\<rparr>) lo rl)) (\<lambda>ts.
     js_return ((ts, lo + rl, remaining - rl), remaining - rl \<noteq> 0))))"

text \<open>
  \<open>sort_array u z compare array len lo hi\<close> is the array after \<^verbatim>\<open>sort(array, compare, lo, hi)\<close>, where
  \<open>len\<close> is \<^verbatim>\<open>array.length\<close> and an argument that is not given is \<open>None\<close>.
\<close>

definition sort_array :: "'a \<Rightarrow> int \<Rightarrow> 'a compare \<Rightarrow> 'a slots \<Rightarrow> int \<Rightarrow> int option \<Rightarrow> int option \<Rightarrow>
    'a slots comp" where
  "sort_array u z compare array len lo hi =
     (let lo = (case lo of None \<Rightarrow> 0 | Some l \<Rightarrow> l);
          hi = (case hi of None \<Rightarrow> len | Some h \<Rightarrow> if h = 0 then len else h);
          remaining = hi - lo in
      if remaining < 2 then js_return array
      else if remaining < DEFAULT_MIN_MERGE then
        let (a, rl) = makeAscendingRun array lo hi compare in
        binaryInsertionSort a lo hi (lo + rl) compare
      else
        js_bind (minRunLength remaining) (\<lambda>minRun.
        js_bind (js_do (sort_turn compare minRun hi) (new_TimSort u z array len, lo, remaining))
          (\<lambda>(ts, lo, remaining).
        js_bind (forceMergeRuns compare ts) (\<lambda>ts. js_return (ts_array ts)))))"

end
