(* ===== verification/TimRuns.thy ===== *)
theory TimRuns
  imports TimSort
begin

text \<open>
  The contract of a comparator and what the searches of the sort find under it: the reference
  notions (ordered lists, stable rearrangements, the reference merge) and total correctness of
  \<^verbatim>\<open>gallopLeft\<close>, \<^verbatim>\<open>gallopRight\<close>, \<^verbatim>\<open>makeAscendingRun\<close> and \<^verbatim>\<open>binaryInsertionSort\<close>.  What holds for every
  comparator, even one that contradicts itself, is proved without the contract.
\<close>

section \<open>Comparators\<close>

text \<open>\<open>le compare x y\<close>: \<open>x\<close> may stand before \<open>y\<close>.\<close>

definition le :: "'a compare \<Rightarrow> 'a \<Rightarrow> 'a \<Rightarrow> bool" where
  "le compare x y \<longleftrightarrow> compare y x \<noteq> Neg"

definition ascending :: "'a compare \<Rightarrow> 'a list \<Rightarrow> bool" where
  "ascending compare xs \<longleftrightarrow> sorted_wrt (le compare) xs"

locale total_comparator =
  fixes compare :: "'a compare"
  assumes not_NaN: "compare x y \<noteq> NaN"
    and swap: "compare x y = Neg \<longleftrightarrow> compare y x = Pos"
    and le_trans: "le compare x y \<Longrightarrow> le compare y z \<Longrightarrow> le compare x z"
begin

lemma Pos_iff: "compare x y = Pos \<longleftrightarrow> compare y x = Neg"
  using swap by blast

lemma Zero_iff: "compare x y = Zero \<longleftrightarrow> le compare x y \<and> le compare y x"
  using not_NaN [of x y] swap [of y x] by (cases "compare x y") (auto simp: le_def)

lemma le0_iff: "le0 (compare x y) \<longleftrightarrow> compare x y \<noteq> Pos"
  using not_NaN [of x y] by (cases "compare x y") (auto simp: le0_def)

lemma ge0_iff: "ge0 (compare x y) \<longleftrightarrow> compare x y \<noteq> Neg"
  using not_NaN [of x y] by (cases "compare x y") (auto simp: ge0_def)

lemma le_refl: "le compare x x"
  using swap [of x x] by (auto simp: le_def)

lemma le_total: "compare y x = Neg \<Longrightarrow> le compare y x"
  using swap [of x y] by (auto simp: le_def)

lemma less_le_trans: "compare x y = Neg \<Longrightarrow> le compare y z \<Longrightarrow> compare x z = Neg"
  using le_trans [of y z x] by (auto simp: le_def)

lemma le_less_trans: "le compare x y \<Longrightarrow> compare y z = Neg \<Longrightarrow> compare x z = Neg"
  using le_trans [of z x y] by (auto simp: le_def)

lemma class_iff: "compare k x = Zero \<Longrightarrow> compare k y = Zero \<longleftrightarrow> compare x y = Zero"
  unfolding Zero_iff by (meson le_trans)

end

text \<open>
  A rearrangement keeps the elements and, under the contract, the order of the elements the
  comparator does not tell apart.
\<close>

definition rearranged :: "'a compare \<Rightarrow> 'a list \<Rightarrow> 'a list \<Rightarrow> bool" where
  "rearranged compare xs ys \<longleftrightarrow> mset ys = mset xs \<and> (total_comparator compare \<longrightarrow>
     (\<forall>k. filter (\<lambda>y. compare k y = Zero) ys = filter (\<lambda>y. compare k y = Zero) xs))"

definition ordered :: "'a compare \<Rightarrow> 'a list \<Rightarrow> bool" where
  "ordered compare xs \<longleftrightarrow> (total_comparator compare \<longrightarrow> ascending compare xs)"

lemma rearranged_refl [simp]: "rearranged compare xs xs"
  by (simp add: rearranged_def)

lemma rearranged_trans: "rearranged compare xs ys \<Longrightarrow> rearranged compare ys zs \<Longrightarrow> rearranged compare xs zs"
  by (simp add: rearranged_def)

lemma rearranged_append:
  "rearranged compare xs xs' \<Longrightarrow> rearranged compare ys ys' \<Longrightarrow> rearranged compare (xs @ ys) (xs' @ ys')"
  by (simp add: rearranged_def)

lemma rearranged_length: "rearranged compare xs ys \<Longrightarrow> length ys = length xs"
  by (metis rearranged_def size_mset)

lemma ascending_append:
  "ascending compare (xs @ ys) \<longleftrightarrow>
     ascending compare xs \<and> ascending compare ys \<and> (\<forall>x\<in>set xs. \<forall>y\<in>set ys. le compare x y)"
  by (auto simp: ascending_def sorted_wrt_append)

lemma ascending_simps [simp]:
  "ascending compare []" "ascending compare [x]"
  "ascending compare (x # xs) \<longleftrightarrow> (\<forall>y\<in>set xs. le compare x y) \<and> ascending compare xs"
  by (simp_all add: ascending_def)

lemma ascending_nth:
  "ascending compare xs \<Longrightarrow> i < j \<Longrightarrow> j < length xs \<Longrightarrow> le compare (xs ! i) (xs ! j)"
  by (simp add: ascending_def sorted_wrt_iff_nth_less)

lemma ascending_take [simp]: "ascending compare xs \<Longrightarrow> ascending compare (take n xs)"
  and ascending_drop [simp]: "ascending compare xs \<Longrightarrow> ascending compare (drop n xs)"
  by (simp_all add: ascending_def sorted_wrt_take sorted_wrt_drop)

section \<open>The searches\<close>

lemma ushr1_half: "0 \<le> n \<Longrightarrow> n < 4294967296 \<Longrightarrow> ushr1 n = n div 2"
  by (simp add: ushr1_def take_bit_int_eq_self)

lemma shl1_small: "0 \<le> n \<Longrightarrow> n < 1073741824 \<Longrightarrow> shl1 n = 2 * n"
  by (simp add: shl1_def signed_take_bit_int_eq_self)

lemma shl1_wraps: "1073741824 \<le> n \<Longrightarrow> n < 2147483648 \<Longrightarrow> shl1 n = 2 * n - 4294967296"
  using mod_add_self2 [of "2 * n - 2147483648" 4294967296]
  by (simp add: shl1_def signed_take_bit_eq_take_bit_shift take_bit_eq_mod add.commute)

text \<open>The doubling loop ends, wrapped shift or not.\<close>

lemma advance_wp:
  assumes "1 \<le> maxOffset"
  shows "wp (advance go maxOffset) E (\<lambda>(l, n). 0 \<le> l \<and> l < n \<and> n \<le> maxOffset \<and>
           (l = 0 \<or> go l) \<and> (n = maxOffset \<or> \<not> go n))"
proof -
  let ?P = "\<lambda>(l, n). 0 \<le> l \<and> l < n \<and> l < maxOffset \<and> (l = 0 \<or> go l) \<and>
              (n < 2147483648 \<or> n = maxOffset)"
  have grows: "let n' = shl1 n + 1 in (n' \<le> 0 \<or> n < n') \<and> n' < 2147483648"
    if "0 < n" "n < 2147483648" for n
    using that shl1_small [of n] shl1_wraps [of n] by (cases "n < 1073741824") (auto simp: Let_def)
  show ?thesis
    unfolding advance_def
  proof (rule wp_seq, rule wp_while [where P = ?P and f = "\<lambda>(l, n). nat (maxOffset - n)"])
    show "?P (0, 1)" using assms by simp
  next
    fix s
    assume *: "?P s" "case s of (lastOffset, offset) \<Rightarrow> offset < maxOffset \<and> go offset"
    obtain l n where s: "s = (l, n)" by (cases s)
    show "?P (case s of (lastOffset, offset) \<Rightarrow>
            let next = shl1 offset + 1 in (offset, if next \<le> 0 then maxOffset else next))"
      using * grows [of n] by (auto simp: s Let_def)
    show "(case case s of (lastOffset, offset) \<Rightarrow>
              let next = shl1 offset + 1 in (offset, if next \<le> 0 then maxOffset else next)
           of (l, n) \<Rightarrow> nat (maxOffset - n)) < (case s of (l, n) \<Rightarrow> nat (maxOffset - n))"
      using * grows [of n] by (auto simp: s Let_def)
  next
    fix s
    assume *: "?P s" "\<not> (case s of (lastOffset, offset) \<Rightarrow> offset < maxOffset \<and> go offset)"
    then show "case s of (l, n) \<Rightarrow> ?P (l, n) \<and> (n < maxOffset \<longrightarrow> \<not> go n)"
      by auto
  qed (use assms in auto)
qed

lemma bisect_wp:
  assumes "l \<le> n" "n - l < 4294967296"
  shows "wp (bisect up l n) E (\<lambda>k. l \<le> k \<and> k \<le> n \<and> (k = l \<or> up (k - 1)) \<and> (k = n \<or> \<not> up k))"
proof -
  let ?P = "\<lambda>(i, j). l \<le> i \<and> i \<le> j \<and> j \<le> n \<and> (i = l \<or> up (i - 1)) \<and> (j = n \<or> \<not> up j)"
  have mid: "i \<le> i + ushr1 (j - i) \<and> i + ushr1 (j - i) < j" if "?P (i, j)" "i < j" for i j
    using that assms ushr1_half [of "j - i"] by auto
  show ?thesis
    unfolding bisect_def
  proof (rule wp_seq, rule wp_while [where P = ?P and f = "\<lambda>(i, j). nat (j - i)"])
    show "?P (l, n)" using assms by simp
  next
    fix s
    assume *: "?P s" "case s of (i, j) \<Rightarrow> i < j"
    obtain i j where s: "s = (i, j)" by (cases s)
    show "?P (case s of (i, j) \<Rightarrow> let m = i + ushr1 (j - i) in if up m then (m + 1, j) else (i, m))"
      using * mid [of i j] by (auto simp: s Let_def)
    show "(case case s of (i, j) \<Rightarrow> let m = i + ushr1 (j - i) in if up m then (m + 1, j) else (i, m)
           of (i, j) \<Rightarrow> nat (j - i)) < (case s of (i, j) \<Rightarrow> nat (j - i))"
      using * mid [of i j] by (auto simp: s Let_def)
  next
    fix s
    assume *: "?P s" "\<not> (case s of (i, j) \<Rightarrow> i < j)"
    then show "case s of (i, j) \<Rightarrow> i = j \<and> ?P (i, j)" by auto
  qed auto
qed

text \<open>What the gallops promise of the list they search.\<close>

definition left_ok :: "'a compare \<Rightarrow> 'a \<Rightarrow> 'a list \<Rightarrow> nat \<Rightarrow> bool" where
  "left_ok compare v xs k \<longleftrightarrow> k \<le> length xs \<and> (total_comparator compare \<and> ascending compare xs \<longrightarrow>
     (\<forall>x\<in>set (take k xs). compare x v = Neg) \<and> (\<forall>x\<in>set (drop k xs). le compare v x))"

definition right_ok :: "'a compare \<Rightarrow> 'a \<Rightarrow> 'a list \<Rightarrow> nat \<Rightarrow> bool" where
  "right_ok compare v xs k \<longleftrightarrow> k \<le> length xs \<and> (total_comparator compare \<and> ascending compare xs \<longrightarrow>
     (\<forall>x\<in>set (take k xs). le compare x v) \<and> (\<forall>x\<in>set (drop k xs). compare v x = Neg))"

text \<open>A test that an ascending list turns off once is off from there on.\<close>

lemma cut_ascending:
  assumes asc: "ascending compare xs" and k: "k \<le> length xs"
    and down: "\<And>x y. le compare x y \<Longrightarrow> up y \<Longrightarrow> up x"
    and cut: "k = 0 \<or> up (xs ! (k - 1))" "k = length xs \<or> \<not> up (xs ! k)"
  shows "(\<forall>x\<in>set (take k xs). up x) \<and> (\<forall>x\<in>set (drop k xs). \<not> up x)"
proof (intro conjI ballI)
  fix x assume "x \<in> set (take k xs)"
  then obtain i where i: "i < k" "x = xs ! i" using k by (auto simp: in_set_conv_nth)
  show "up x"
  proof (cases "i = k - 1")
    case False
    then have "le compare x (xs ! (k - 1))" using ascending_nth [OF asc, of i "k - 1"] i k by simp
    then show ?thesis using down cut(1) i by auto
  qed (use cut(1) i in auto)
next
  fix x assume "x \<in> set (drop k xs)"
  then obtain i where "i < length xs - k" "x = xs ! (k + i)" using k by (auto simp: in_set_conv_nth)
  then have i: "k + i < length xs" "x = xs ! (k + i)" by simp_all
  show "\<not> up x"
  proof (cases "i = 0")
    case False
    then show ?thesis using ascending_nth [OF asc, of k "k + i"] cut(2) down i by auto
  qed (use cut(2) i in auto)
qed

lemma seg_cut:
  assumes "0 \<le> k" "k \<le> len" "k = 0 \<or> up (a (start + (k - 1)))" "k = len \<or> \<not> up (a (start + k))"
    and "ascending compare (seg a start (start + len))" "\<And>x y. le compare x y \<Longrightarrow> up y \<Longrightarrow> up x"
  shows "(\<forall>x\<in>set (take (nat k) (seg a start (start + len))). up x) \<and>
         (\<forall>x\<in>set (drop (nat k) (seg a start (start + len))). \<not> up x)"
proof (rule cut_ascending [OF assms(5)])
  show "nat k = 0 \<or> up (seg a start (start + len) ! (nat k - 1))"
    using assms(1,2,3) by (cases "k = 0") (simp_all add: seg_nth of_nat_diff)
  show "nat k = length (seg a start (start + len)) \<or> \<not> up (seg a start (start + len) ! nat k)"
    using assms(1,2,4) by (cases "k = len") (simp_all add: seg_nth)
qed (use assms in auto)

context total_comparator
begin

lemma left_okI:
  assumes "0 \<le> k" "k \<le> len" "k = 0 \<or> compare v (a (start + (k - 1))) = Pos"
    "k = len \<or> compare v (a (start + k)) \<noteq> Pos"
  shows "left_ok compare v (seg a start (start + len)) (nat k)"
proof -
  have "le compare x y \<Longrightarrow> compare v y = Pos \<Longrightarrow> compare v x = Pos" for x y
    unfolding Pos_iff by (rule le_less_trans)
  then have "ascending compare (seg a start (start + len)) \<Longrightarrow>
      (\<forall>x\<in>set (take (nat k) (seg a start (start + len))). compare v x = Pos) \<and>
      (\<forall>x\<in>set (drop (nat k) (seg a start (start + len))). \<not> compare v x = Pos)"
    using assms by (intro seg_cut [where compare = compare]) auto
  then show ?thesis
    using assms(1,2) by (auto simp: left_ok_def Pos_iff le_def)
qed

lemma right_okI:
  assumes "0 \<le> k" "k \<le> len" "k = 0 \<or> compare v (a (start + (k - 1))) \<noteq> Neg"
    "k = len \<or> compare v (a (start + k)) = Neg"
  shows "right_ok compare v (seg a start (start + len)) (nat k)"
proof -
  have "le compare x y \<Longrightarrow> compare v y \<noteq> Neg \<Longrightarrow> compare v x \<noteq> Neg" for x y
    using less_le_trans by blast
  then have "ascending compare (seg a start (start + len)) \<Longrightarrow>
      (\<forall>x\<in>set (take (nat k) (seg a start (start + len))). compare v x \<noteq> Neg) \<and>
      (\<forall>x\<in>set (drop (nat k) (seg a start (start + len))). \<not> compare v x \<noteq> Neg)"
    using assms by (intro seg_cut [where compare = compare]) auto
  then show ?thesis
    using assms(1,2) by (auto simp: right_ok_def le_def)
qed

end

lemma gallopLeft_wp:
  assumes "0 \<le> hint" "hint < len" "len \<le> 2147483648"
  shows "wp (gallopLeft v a start len hint compare) E
           (\<lambda>k. 0 \<le> k \<and> k \<le> len \<and> left_ok compare v (seg a start (start + len)) (nat k))"
proof -
  let ?up = "\<lambda>i. compare v (a (start + i)) = Pos"
  let ?cut = "\<lambda>k. 0 \<le> k \<and> k \<le> len \<and> (total_comparator compare \<longrightarrow>
                   (k = 0 \<or> ?up (k - 1)) \<and> (k = len \<or> \<not> ?up k))"
  have "wp (gallopLeft v a start len hint compare) E ?cut"
    unfolding gallopLeft_def
  proof (rule wp_bind, rule wp_if, goal_cases)
    case 1
    show ?case
      by (rule wp_seq, rule advance_wp)
        (use assms 1 in \<open>auto simp: algebra_simps intro!: wp_mono [OF bisect_wp]\<close>)
  next
    case 2
    show ?case
      by (rule wp_seq, rule advance_wp)
        (use assms 2 in \<open>auto simp: total_comparator.le0_iff algebra_simps intro!: wp_mono [OF bisect_wp]\<close>)
  qed
  then show ?thesis
  proof (rule wp_mono)
    fix k assume k: "?cut k"
    then show "0 \<le> k \<and> k \<le> len \<and> left_ok compare v (seg a start (start + len)) (nat k)"
      using total_comparator.left_okI [of compare k len v a start]
      by (cases "total_comparator compare") (auto simp: left_ok_def)
  qed
qed

lemma gallopRight_wp:
  assumes "0 \<le> hint" "hint < len" "len \<le> 2147483648"
  shows "wp (gallopRight v a start len hint compare) E
           (\<lambda>k. 0 \<le> k \<and> k \<le> len \<and> right_ok compare v (seg a start (start + len)) (nat k))"
proof -
  let ?up = "\<lambda>i. compare v (a (start + i)) \<noteq> Neg"
  let ?cut = "\<lambda>k. 0 \<le> k \<and> k \<le> len \<and> (total_comparator compare \<longrightarrow>
                   (k = 0 \<or> ?up (k - 1)) \<and> (k = len \<or> \<not> ?up k))"
  have "wp (gallopRight v a start len hint compare) E ?cut"
    unfolding gallopRight_def
  proof (rule wp_bind, rule wp_if, goal_cases)
    case 1
    show ?case
      by (rule wp_seq, rule advance_wp)
        (use assms 1 in \<open>auto simp: algebra_simps intro!: wp_mono [OF bisect_wp]\<close>)
  next
    case 2
    show ?case
      by (rule wp_seq, rule advance_wp)
        (use assms 2 in \<open>auto simp: total_comparator.ge0_iff algebra_simps intro!: wp_mono [OF bisect_wp]\<close>)
  qed
  then show ?thesis
  proof (rule wp_mono)
    fix k assume k: "?cut k"
    then show "0 \<le> k \<and> k \<le> len \<and> right_ok compare v (seg a start (start + len)) (nat k)"
      using total_comparator.right_okI [of compare k len v a start]
      by (cases "total_comparator compare") (auto simp: right_ok_def)
  qed
qed

section \<open>Runs\<close>

text \<open>Nothing changes outside the stretch \<open>lo \<le> k < hi\<close>.\<close>

definition same_outside :: "'a slots \<Rightarrow> 'a slots \<Rightarrow> int \<Rightarrow> int \<Rightarrow> bool" where
  "same_outside a b lo hi \<longleftrightarrow> (\<forall>k. k < lo \<or> hi \<le> k \<longrightarrow> b k = a k)"

lemma same_outside_refl [simp]: "same_outside a a lo hi"
  by (simp add: same_outside_def)

lemma same_outside_trans: "same_outside a b lo hi \<Longrightarrow> same_outside b c lo hi \<Longrightarrow> same_outside a c lo hi"
  by (simp add: same_outside_def)

lemma same_outside_mono: "same_outside a b i j \<Longrightarrow> lo \<le> i \<Longrightarrow> j \<le> hi \<Longrightarrow> same_outside a b lo hi"
  by (auto simp: same_outside_def)

lemma same_outside_seg: "same_outside a b lo hi \<Longrightarrow> j \<le> lo \<or> hi \<le> i \<Longrightarrow> seg b i j = seg a i j"
  by (rule seg_cong) (auto simp: same_outside_def)

text \<open>Rearranging a part of a stretch rearranges the stretch.\<close>

lemma rearranged_part:
  assumes "rearranged compare (seg a i j) (seg b i j)" "same_outside a b i j"
    "lo \<le> i" "i \<le> j" "j \<le> hi"
  shows "rearranged compare (seg a lo hi) (seg b lo hi)"
proof -
  have "seg c lo hi = seg c lo i @ seg c i j @ seg c j hi" for c :: "'a slots"
    using assms(3-5) seg_split [of lo i hi c] seg_split [of i j hi c] by simp
  then show ?thesis
    using assms(1) same_outside_seg [OF assms(2)] by (simp add: rearranged_append)
qed

lemma reverse_loop_eq: "reverse_loop a lo hi = (\<lambda>k. if lo \<le> k \<and> k \<le> hi then a (lo + hi - k) else a k)"
proof (induction a lo hi rule: reverse_loop.induct)
  case (1 a lo hi)
  show ?case
  proof (cases "lo < hi")
    case True
    then show ?thesis
      by (subst reverse_loop.simps) (auto simp: 1 fun_eq_iff)
  next
    case False
    then show ?thesis
      by (subst reverse_loop.simps) (auto simp: fun_eq_iff intro!: arg_cong [where f = a])
  qed
qed

lemma seg_reverseRun: "seg (reverseRun a lo hi) lo hi = rev (seg a lo hi)"
proof (rule nth_equalityI)
  fix k assume "k < length (seg (reverseRun a lo hi) lo hi)"
  then have k: "int k < hi - lo" by simp
  then have "nat (hi - lo) - Suc k = nat (hi - lo - 1 - int k)" by simp
  with k show "seg (reverseRun a lo hi) lo hi ! k = rev (seg a lo hi) ! k"
    by (simp add: rev_nth seg_nth reverseRun_def reverse_loop_eq algebra_simps)
qed simp

lemma reverseRun_outside: "same_outside a (reverseRun a lo hi) lo hi"
  by (simp add: same_outside_def reverseRun_def reverse_loop_eq)

lemma run_end_bounds:
  "runHi \<le> hi \<Longrightarrow> runHi \<le> run_end go runHi hi \<and> run_end go runHi hi \<le> hi \<and>
     (\<forall>r. runHi \<le> r \<and> r < run_end go runHi hi \<longrightarrow> go r)"
proof (induction go runHi hi rule: run_end.induct)
  case (1 go runHi hi)
  show ?case
  proof (cases "runHi < hi \<and> go runHi")
    case True
    then have *: "run_end go runHi hi = run_end go (runHi + 1) hi"
      by (subst run_end.simps) simp
    have "go r" if "runHi \<le> r" "r < run_end go (runHi + 1) hi" for r
      using 1 True that by (cases "r = runHi") auto
    then show ?thesis using 1 True by (simp add: *)
  next
    case False
    then have "run_end go runHi hi = runHi" by (subst run_end.simps) auto
    then show ?thesis using 1 by auto
  qed
qed

lemma run_end_go: "runHi \<le> hi \<Longrightarrow> runHi \<le> r \<Longrightarrow> r < run_end go runHi hi \<Longrightarrow> go r"
  using run_end_bounds [of runHi hi go] by blast

text \<open>Neighbours in order make an ordered stretch.\<close>

lemma sorted_wrt_seg:
  assumes "transp P" "\<And>r. lo < r \<Longrightarrow> r < hi \<Longrightarrow> P (a (r - 1)) (a r)"
  shows "sorted_wrt P (seg a lo hi)"
  unfolding sorted_wrt_iff_nth_Suc_transp [OF assms(1)]
proof (intro allI impI)
  fix i assume "Suc i < length (seg a lo hi)"
  then show "P (seg a lo hi ! i) (seg a lo hi ! Suc i)"
    using assms(2) [of "lo + int (Suc i)"] by (simp add: seg_nth)
qed

context total_comparator
begin

lemma transp_le: "transp (le compare)"
  using le_trans by (auto intro: transpI)

lemma transp_less: "transp (\<lambda>x y. compare y x = Neg)"
  using less_le_trans le_total by (auto intro!: transpI)

text \<open>Reversing a strictly descending list keeps the elements of every class in order.\<close>

lemma descending_class:
  assumes "sorted_wrt (\<lambda>x y. compare y x = Neg) xs"
  shows "length (filter (\<lambda>y. compare k y = Zero) xs) \<le> 1"
proof (rule ccontr)
  let ?f = "filter (\<lambda>y. compare k y = Zero) xs"
  assume "\<not> length ?f \<le> 1"
  then have l: "0 < (1::nat)" "1 < length ?f" by simp_all
  have s: "sorted_wrt (\<lambda>x y. compare y x = Neg) ?f"
    using assms by (rule sorted_wrt_filter)
  have "compare (?f ! 1) (?f ! 0) = Neg"
    using s l unfolding sorted_wrt_iff_nth_less by blast
  moreover have "compare k (?f ! 0) = Zero" "compare k (?f ! 1) = Zero"
    using l nth_mem [of 0 ?f] nth_mem [of 1 ?f] by (fastforce simp del: nth_mem)+
  then have "compare (?f ! 1) (?f ! 0) = Zero" using class_iff by blast
  ultimately show False by simp
qed

lemma descending_rev:
  assumes "sorted_wrt (\<lambda>x y. compare y x = Neg) xs"
  shows "ascending compare (rev xs)" "rearranged compare xs (rev xs)"
proof -
  show "ascending compare (rev xs)"
    unfolding ascending_def sorted_wrt_rev
    by (rule sorted_wrt_mono_rel [OF _ assms]) (auto intro: le_total)
  have "filter (\<lambda>y. compare k y = Zero) (rev xs) = filter (\<lambda>y. compare k y = Zero) xs" for k
    using descending_class [OF assms, of k]
    by (cases "filter (\<lambda>y. compare k y = Zero) xs") (simp_all add: rev_filter [symmetric])
  then show "rearranged compare xs (rev xs)" by (simp add: rearranged_def)
qed

end

lemma makeAscendingRun_ok:
  assumes "lo < hi" "makeAscendingRun a lo hi compare = (b, n)"
  shows "1 \<le> n" "n \<le> hi - lo" "same_outside a b lo (lo + n)"
    "rearranged compare (seg a lo (lo + n)) (seg b lo (lo + n))" "ordered compare (seg b lo (lo + n))"
proof -
  let ?down = "\<lambda>r. compare (a r) (a (r - 1)) = Neg" and ?up = "\<lambda>r. ge0 (compare (a r) (a (r - 1)))"
  let ?e = "run_end ?down (lo + 1 + 1) hi" and ?f = "run_end ?up (lo + 1 + 1) hi"
  consider (one) "lo + 1 = hi" | (down) "lo + 1 < hi" "?down (lo + 1)" | (up) "lo + 1 < hi" "\<not> ?down (lo + 1)"
    using assms(1) by linarith
  then have "1 \<le> n \<and> n \<le> hi - lo \<and> same_outside a b lo (lo + n) \<and>
    rearranged compare (seg a lo (lo + n)) (seg b lo (lo + n)) \<and> ordered compare (seg b lo (lo + n))"
  proof cases
    case one
    then show ?thesis using assms by (auto simp: makeAscendingRun_def ordered_def)
  next
    case down
    then have b: "b = reverseRun a lo ?e" "n = ?e - lo"
      using assms by (simp_all add: makeAscendingRun_def Let_def)
    have e: "lo + 1 + 1 \<le> ?e" "?e \<le> hi"
      using run_end_bounds [of "lo + 1 + 1" hi ?down] down(1) by simp_all
    have "?down r" if "lo < r" "r < ?e" for r
    proof (cases "r = lo + 1")
      case False
      then show ?thesis using run_end_go [of "lo + 1 + 1" hi r ?down] that down(1) by simp
    qed (use down in simp)
    then have "total_comparator compare \<Longrightarrow> sorted_wrt (\<lambda>x y. compare y x = Neg) (seg a lo ?e)"
      by (intro sorted_wrt_seg total_comparator.transp_less) auto
    then have "rearranged compare (seg a lo ?e) (rev (seg a lo ?e)) \<and> ordered compare (rev (seg a lo ?e))"
      using total_comparator.descending_rev [of compare "seg a lo ?e"]
      by (cases "total_comparator compare") (simp_all add: ordered_def rearranged_def)
    then show ?thesis
      using e down(1) by (simp add: b seg_reverseRun reverseRun_outside)
  next
    case up
    then have b: "b = a" "n = ?f - lo"
      using assms by (auto simp: makeAscendingRun_def Let_def)
    have e: "lo + 1 + 1 \<le> ?f" "?f \<le> hi"
      using run_end_bounds [of "lo + 1 + 1" hi ?up] up(1) by simp_all
    have "le compare (a (r - 1)) (a r)" if "lo < r" "r < ?f" for r
    proof (cases "r = lo + 1")
      case False
      then have "?up r" using run_end_go [of "lo + 1 + 1" hi r ?up] that up(1) by simp
      then show ?thesis by (auto simp: le_def ge0_def)
    qed (use up in \<open>simp add: le_def\<close>)
    then have "ordered compare (seg a lo ?f)"
      by (auto simp: ordered_def ascending_def intro!: sorted_wrt_seg total_comparator.transp_le)
    then show ?thesis using e up(1) by (simp add: b)
  qed
  then show "1 \<le> n" "n \<le> hi - lo" "same_outside a b lo (lo + n)"
    "rearranged compare (seg a lo (lo + n)) (seg b lo (lo + n))" "ordered compare (seg b lo (lo + n))"
    by simp_all
qed

section \<open>Binary insertion\<close>

lemma insertion_point_wp:
  assumes "0 \<le> lo" "lo \<le> start" "start < 2147483648"
  shows "wp (insertion_point compare a pivot lo start) E
           (\<lambda>k. lo \<le> k \<and> k \<le> start \<and> right_ok compare pivot (seg a lo start) (nat (k - lo)))"
proof -
  let ?up = "\<lambda>i. compare pivot (a i) \<noteq> Neg"
  let ?P = "\<lambda>(i, j). lo \<le> i \<and> i \<le> j \<and> j \<le> start \<and> (i = lo \<or> ?up (i - 1)) \<and> (j = start \<or> \<not> ?up j)"
  let ?c = "\<lambda>(i, j). let m = ushr1 (i + j) in if compare pivot (a m) = Neg then (i, m) else (m + 1, j)"
  have mid: "i \<le> ushr1 (i + j) \<and> ushr1 (i + j) < j" if "?P (i, j)" "i < j" for i j
    using that assms ushr1_half [of "i + j"] by auto
  have "wp (insertion_point compare a pivot lo start) E
          (\<lambda>k. lo \<le> k \<and> k \<le> start \<and> (k = lo \<or> ?up (k - 1)) \<and> (k = start \<or> \<not> ?up k))"
    unfolding insertion_point_def
  proof (rule wp_seq, rule wp_while [where P = ?P and f = "\<lambda>(i, j). nat (j - i)"])
    show "?P (lo, start)" using assms by simp
  next
    fix s
    assume *: "?P s" "case s of (i, j) \<Rightarrow> i < j"
    obtain i j where s: "s = (i, j)" by (cases s)
    show "?P (?c s)" using * mid [of i j] by (auto simp: s Let_def)
    show "(case ?c s of (i, j) \<Rightarrow> nat (j - i)) < (case s of (i, j) \<Rightarrow> nat (j - i))"
      using * mid [of i j] by (auto simp: s Let_def)
  next
    fix s
    assume *: "?P s" "\<not> (case s of (i, j) \<Rightarrow> i < j)"
    then show "case s of (i, j) \<Rightarrow> i = j \<and> ?P (i, j)" by auto
  qed auto
  then show ?thesis
  proof (rule wp_mono)
    fix k assume k: "lo \<le> k \<and> k \<le> start \<and> (k = lo \<or> ?up (k - 1)) \<and> (k = start \<or> \<not> ?up k)"
    then show "lo \<le> k \<and> k \<le> start \<and> right_ok compare pivot (seg a lo start) (nat (k - lo))"
      using total_comparator.right_okI [of compare "k - lo" "start - lo" pivot a lo]
      by (cases "total_comparator compare") (auto simp: right_ok_def)
  qed simp
qed

lemma shift_loop_eq:
  "shift_loop a left n = (\<lambda>k. if left < k \<and> k \<le> left + n then a (k - 1) else a k)"
proof (induction a left n rule: shift_loop.induct)
  case (1 a left n)
  show ?case
  proof (cases "n > 0")
    case True
    then show ?thesis
      by (subst shift_loop.simps) (auto simp: 1 fun_eq_iff intro!: arg_cong [where f = a])
  qed (subst shift_loop.simps, auto simp: fun_eq_iff)
qed

text \<open>The cases of the \<^verbatim>\<open>switch\<close> are the loop unrolled.\<close>

lemma shift_up_eq:
  "shift_up a left n = (\<lambda>k. if left < k \<and> k \<le> left + n then a (k - 1) else a k)"
proof -
  have "k = left + 1 \<or> k = left + 2 \<or> k = left + 3" if "left < k" "k \<le> left + 3" for k
    using that by linarith
  then show ?thesis
    unfolding shift_up_def Let_def shift_loop_eq
    by (auto simp: fun_eq_iff intro!: arg_cong [where f = a])
qed

text \<open>Putting \<open>v\<close> before the elements that are greater is stable.\<close>

lemma insert_before_greater:
  assumes "total_comparator compare \<Longrightarrow> \<forall>y\<in>set ys. compare v y = Neg"
  shows "rearranged compare (xs @ ys @ [v]) (xs @ v # ys)"
proof -
  have "filter (\<lambda>y. compare k y = Zero) ys = []"
    if "total_comparator compare" "compare k v = Zero" for k
    using assms [OF that(1)] total_comparator.class_iff [OF that] by (auto simp: filter_empty_conv)
  then show ?thesis by (auto simp: rearranged_def)
qed

lemma insert_step_wp:
  assumes "0 \<le> lo" "lo \<le> start" "start < 2147483648" "ordered compare (seg a lo start)"
  shows "wp (insert_step compare lo a start) E (\<lambda>b. same_outside a b lo (start + 1) \<and>
           rearranged compare (seg a lo (start + 1)) (seg b lo (start + 1)) \<and>
           ordered compare (seg b lo (start + 1)))"
  unfolding insert_step_def Let_def
proof (rule wp_seq [OF insertion_point_wp [OF assms(1-3)]])
  fix k
  let ?v = "a start" and ?xs = "seg a lo k" and ?ys = "seg a k start"
  let ?b = "(shift_up a k (start - k))(k := ?v)"
  assume k: "lo \<le> k \<and> k \<le> start \<and> right_ok compare ?v (seg a lo start) (nat (k - lo))"
  then have split: "seg a lo start = ?xs @ ?ys" using seg_split [of lo k start a] by simp
  have ok: "(\<forall>x\<in>set ?xs. le compare x ?v) \<and> (\<forall>y\<in>set ?ys. compare ?v y = Neg) \<and> ascending compare (?xs @ ?ys)"
    if "total_comparator compare"
    using k that assms(4) split seg_take [of "k - lo" start lo a] seg_drop [of "k - lo" start lo a]
    by (auto simp: right_ok_def ordered_def)
  have "seg ?b lo (start + 1) = seg ?b lo k @ ?v # seg ?b (k + 1) (start + 1)"
    using k seg_split [of lo k "start + 1" ?b] seg_Cons [of k "start + 1" ?b] by simp
  also have "seg ?b lo k = ?xs" by (rule seg_cong) (auto simp: shift_up_eq)
  also have "seg ?b (k + 1) (start + 1) = ?ys"
    using seg_shift [of "start - k" ?b "k + 1" a k] by (auto simp: shift_up_eq algebra_simps)
  finally have b: "seg ?b lo (start + 1) = ?xs @ ?v # ?ys" .
  have a: "seg a lo (start + 1) = ?xs @ ?ys @ [?v]"
    using k split seg_snoc [of lo "start + 1" a] by simp
  have "ordered compare (?xs @ ?v # ?ys)"
    using ok total_comparator.le_total by (fastforce simp: ordered_def ascending_append)
  moreover have "same_outside a ?b lo (start + 1)"
    using k by (auto simp: same_outside_def shift_up_eq)
  ultimately show "wp (js_return ?b) E (\<lambda>b. same_outside a b lo (start + 1) \<and>
      rearranged compare (seg a lo (start + 1)) (seg b lo (start + 1)) \<and>
      ordered compare (seg b lo (start + 1)))"
    using insert_before_greater [of compare ?ys ?v ?xs] ok by (simp add: a b)
qed

lemma insertion_loop_wp:
  assumes "0 \<le> lo" "lo \<le> start" "start \<le> hi" "hi \<le> 2147483648" "ordered compare (seg a lo start)"
  shows "wp (insertion_loop compare lo hi a start) E (\<lambda>b. same_outside a b lo hi \<and>
           rearranged compare (seg a lo hi) (seg b lo hi) \<and> ordered compare (seg b lo hi))"
  using assms
proof (induction compare lo hi a start rule: insertion_loop.induct)
  case (1 compare lo hi a start)
  show ?case
  proof (cases "start < hi")
    case True
    show ?thesis
    proof (subst insertion_loop.simps, simp only: True if_True, rule wp_seq [OF insert_step_wp])
      fix b
      assume b: "same_outside a b lo (start + 1) \<and>
        rearranged compare (seg a lo (start + 1)) (seg b lo (start + 1)) \<and>
        ordered compare (seg b lo (start + 1))"
      have "wp (insertion_loop compare lo hi b (start + 1)) E (\<lambda>c. same_outside b c lo hi \<and>
          rearranged compare (seg b lo hi) (seg c lo hi) \<and> ordered compare (seg c lo hi))"
        using 1 True b by simp
      moreover have "rearranged compare (seg a lo hi) (seg b lo hi)" "same_outside a b lo hi"
        using rearranged_part [of compare a lo "start + 1" b lo hi] b 1 True
          same_outside_mono [of a b lo "start + 1"] by auto
      ultimately show "wp (insertion_loop compare lo hi b (start + 1)) E (\<lambda>b. same_outside a b lo hi \<and>
          rearranged compare (seg a lo hi) (seg b lo hi) \<and> ordered compare (seg b lo hi))"
        by (auto elim!: wp_mono intro: same_outside_trans rearranged_trans)
    qed (use 1 True in auto)
  next
    case False
    then show ?thesis using 1 by (subst insertion_loop.simps) simp
  qed
qed

lemma binaryInsertionSort_wp:
  assumes "0 \<le> lo" "lo \<le> start" "start \<le> hi" "lo < hi" "hi \<le> 2147483648" "ordered compare (seg a lo start)"
  shows "wp (binaryInsertionSort a lo hi start compare) E (\<lambda>b. same_outside a b lo hi \<and>
           rearranged compare (seg a lo hi) (seg b lo hi) \<and> ordered compare (seg b lo hi))"
  unfolding binaryInsertionSort_def
  by (rule insertion_loop_wp) (use assms in \<open>auto simp: ordered_def\<close>)

lemma shr1_half: "0 \<le> n \<Longrightarrow> n < 2147483648 \<Longrightarrow> shr1 n = n div 2"
  by (simp add: shr1_def signed_take_bit_int_eq_self)

lemma minRunLength_wp:
  assumes "32 \<le> n" "n < 2147483648"
  shows "wp (minRunLength n) E (\<lambda>r. 16 \<le> r \<and> r \<le> 32)"
proof -
  let ?P = "\<lambda>(n, r). 16 \<le> n \<and> n < 2147483648 \<and> (r = 0 \<or> r = 1)"
  have b: "bitor r (signed_take_bit 31 (k AND 1)) = 0"
    if "r = 0 \<or> r = 1" "bitor r (signed_take_bit 31 (k AND 1)) \<noteq> 1" for r k :: int
    using that by (cases "even k") (auto simp: bitor_def and_one_eq odd_iff_mod_2_eq_one)
  show ?thesis
    unfolding minRunLength_def DEFAULT_MIN_MERGE_def
    by (rule wp_seq, rule wp_while [where P = ?P and f = "\<lambda>(n, r). nat n"
          and Q = "\<lambda>(n, r). n < 32 \<and> ?P (n, r)"])
      (use assms in \<open>auto simp: shr1_half intro!: b\<close>)
qed

end
