(* ===== verification/TimMerge.thy ===== *)
theory TimMerge
  imports TimRuns
begin

text \<open>
  The reference merge of two ordered lists, what the copying loops of \<^verbatim>\<open>mergeLow\<close> and \<^verbatim>\<open>mergeHigh\<close> do
  to an array, and the locale \<open>merge_loop\<close>: the nest of loops the two share ends, and ends in a
  finished state, for every invariant that its inner steps keep.
\<close>

section \<open>The reference merge\<close>

fun smerge :: "'a compare \<Rightarrow> 'a list \<Rightarrow> 'a list \<Rightarrow> 'a list" where
  "smerge compare [] ys = ys"
| "smerge compare (x # xs) [] = x # xs"
| "smerge compare (x # xs) (y # ys) =
     (if compare y x = Neg then y # smerge compare (x # xs) ys else x # smerge compare xs (y # ys))"

lemma smerge_Nil2 [simp]: "smerge compare xs [] = xs"
  by (cases xs) auto

lemma mset_smerge [simp]: "mset (smerge compare xs ys) = mset xs + mset ys"
  by (induction compare xs ys rule: smerge.induct) auto

lemma set_smerge [simp]: "set (smerge compare xs ys) = set xs \<union> set ys"
  by (simp flip: set_mset_mset)

lemma smerge_take_left:
  "\<forall>x\<in>set us. le compare x y \<Longrightarrow> smerge compare (us @ xs) (y # ys) = us @ smerge compare xs (y # ys)"
  by (induction us) (auto simp: le_def)

lemma smerge_take_right:
  "\<forall>y\<in>set vs. compare y x = Neg \<Longrightarrow> smerge compare (x # xs) (vs @ ys) = vs @ smerge compare (x # xs) ys"
  by (induction vs) auto

lemma smerge_snoc_left:
  "\<forall>y\<in>set ys. compare y x = Neg \<Longrightarrow> smerge compare (xs @ [x]) ys = smerge compare xs ys @ [x]"
proof (induction compare xs ys rule: smerge.induct)
  case (1 compare ys)
  then show ?case using smerge_take_right [of ys compare x "[]" "[]"] by simp
qed auto

lemma smerge_snoc_right:
  "\<forall>x\<in>set xs. le compare x y \<Longrightarrow> smerge compare xs (ys @ [y]) = smerge compare xs ys @ [y]"
proof (induction compare xs ys rule: smerge.induct)
  case (2 compare x xs)
  then show ?case using smerge_take_left [of "x # xs" compare y "[]" "[]"] by simp
qed auto

lemma smerge_append_left:
  "\<forall>y\<in>set ys. \<forall>x\<in>set vs. compare y x = Neg \<Longrightarrow> smerge compare (us @ vs) ys = smerge compare us ys @ vs"
proof (induction vs rule: rev_induct)
  case (snoc v vs)
  then show ?case using smerge_snoc_left [of ys compare v "us @ vs"] by simp
qed simp

lemma smerge_append_right:
  "\<forall>x\<in>set xs. \<forall>y\<in>set vs. le compare x y \<Longrightarrow> smerge compare xs (us @ vs) = smerge compare xs us @ vs"
proof (induction vs rule: rev_induct)
  case (snoc v vs)
  then show ?case using smerge_snoc_right [of xs compare v "us @ vs"] by simp
qed simp

lemma ascending_smerge:
  assumes "total_comparator compare"
  shows "ascending compare xs \<Longrightarrow> ascending compare ys \<Longrightarrow> ascending compare (smerge compare xs ys)"
  using assms
proof (induction compare xs ys rule: smerge.induct)
  case (3 compare x xs y ys)
  note trans = total_comparator.le_trans [OF 3(5)]
  show ?case
  proof (cases "compare y x = Neg")
    case True
    then have "le compare y x" using 3(5) by (rule total_comparator.le_total [rotated])
    then have "\<forall>z\<in>set (x # xs) \<union> set ys. le compare y z"
      using 3(3,4) trans [of y x] by auto
    then show ?thesis using 3 True by simp
  next
    case False
    then have "le compare x y" by (simp add: le_def)
    then have "\<forall>z\<in>set xs \<union> set (y # ys). le compare x z"
      using 3(3,4) trans [of x y] by auto
    then show ?thesis using 3 False by simp
  qed
qed simp_all

lemma filter_smerge:
  assumes "total_comparator compare"
  shows "ascending compare xs \<Longrightarrow> filter (\<lambda>z. compare k z = Zero) (smerge compare xs ys) =
    filter (\<lambda>z. compare k z = Zero) xs @ filter (\<lambda>z. compare k z = Zero) ys"
  using assms
proof (induction compare xs ys rule: smerge.induct)
  case (3 compare x xs y ys)
  show ?case
  proof (cases "compare y x = Neg")
    case True
    have "compare y z = Neg" if "z \<in> set (x # xs)" for z
      using that True 3(3) total_comparator.less_le_trans [OF 3(4) True] by auto
    then have "filter (\<lambda>z. compare k z = Zero) (x # xs) = []" if "compare k y = Zero"
      using total_comparator.class_iff [OF 3(4) that] by (fastforce simp: filter_empty_conv)
    then show ?thesis using 3 True by (cases "compare k y = Zero") simp_all
  qed (use 3 in simp)
qed simp_all

lemma rearranged_smerge:
  "(total_comparator compare \<Longrightarrow> ascending compare xs) \<Longrightarrow> rearranged compare (xs @ ys) (smerge compare xs ys)"
  by (simp add: rearranged_def filter_smerge)

section \<open>The copies\<close>

lemma for_up_step: "0 \<le> n \<Longrightarrow> for_up (n + 1) f s = f n (for_up n f s)"
  by (simp add: for_up_def upto_rec2)

lemma for_down_step: "0 \<le> n \<Longrightarrow> for_down (n + 1) f s = for_down n f (f n s)"
  by (simp add: for_down_def upto_rec2)

lemma for_none [simp]: "n \<le> 0 \<Longrightarrow> for_up n f s = s" "n \<le> 0 \<Longrightarrow> for_down n f s = s"
  by (simp_all add: for_up_def for_down_def)

definition copied :: "'a slots \<Rightarrow> int \<Rightarrow> 'a slots \<Rightarrow> int \<Rightarrow> int \<Rightarrow> 'a slots" where
  "copied a d src s n = (\<lambda>k. if d \<le> k \<and> k < d + n then src (s + (k - d)) else a k)"

lemma copied_none [simp]: "n \<le> 0 \<Longrightarrow> copied a d src s n = a"
  by (auto simp: copied_def fun_eq_iff)

lemma copy_up_eq: "copy_up a d src s n = copied a d src s n"
proof (cases "0 \<le> n")
  case True
  then show ?thesis
  proof (induction n rule: int_ge_induct)
    case (step n)
    then show ?case
      by (auto simp: copy_up_def for_up_step copied_def fun_eq_iff)
  qed (simp add: copy_up_def)
qed (simp add: copy_up_def)

lemma move_up_eq: "d \<le> s \<Longrightarrow> move_up a d s n = copied a d a s n"
proof (cases "0 \<le> n")
  case True
  assume "d \<le> s"
  from True show ?thesis
  proof (induction n rule: int_ge_induct)
    case (step n)
    then show ?case
      using \<open>d \<le> s\<close> by (auto simp: move_up_def for_up_step copied_def fun_eq_iff)
  qed (simp add: move_up_def)
qed (simp add: move_up_def)

lemma move_down_eq: "s \<le> d \<Longrightarrow> move_down a d s n = copied a d a s n"
proof (cases "0 \<le> n")
  case True
  assume "s \<le> d"
  from True show ?thesis
  proof (induction n arbitrary: a rule: int_ge_induct)
    case (step n)
    have "move_down a d s (n + 1) = move_down (a(d + n := a (s + n))) d s n"
      using step(1) by (simp add: move_down_def for_down_step)
    then show ?case
      using \<open>s \<le> d\<close> step by (auto simp: copied_def fun_eq_iff)
  qed (simp add: move_down_def)
qed (simp add: move_down_def)

lemma copied_outside: "lo \<le> d \<Longrightarrow> d + n \<le> hi \<Longrightarrow> same_outside a b lo hi \<Longrightarrow> same_outside a (copied b d src s n) lo hi"
  by (auto simp: same_outside_def copied_def)

lemma upd_outside: "lo \<le> d \<Longrightarrow> d < hi \<Longrightarrow> same_outside a b lo hi \<Longrightarrow> same_outside a (b(d := v)) lo hi"
  by (auto simp: same_outside_def)

lemma seg_copied: "0 \<le> n \<Longrightarrow> seg (copied a d src s n) d (d + n) = seg src s (s + n)"
  by (rule seg_shift) (auto simp: copied_def)

lemma seg_copied_out: "j \<le> d \<or> d + n \<le> i \<Longrightarrow> seg (copied a d src s n) i j = seg a i j"
  by (rule seg_cong) (auto simp: copied_def)

lemma seg_copied_after:
  assumes "0 \<le> n" "i \<le> d"
  shows "seg (copied a d src s n) i (d + n) = seg a i d @ seg src s (s + n)"
  using assms seg_split [of i d "d + n" "copied a d src s n"] by (simp add: seg_copied seg_copied_out)

lemma seg_copied_before:
  assumes "0 \<le> n" "d + n \<le> j"
  shows "seg (copied a d src s n) d j = seg src s (s + n) @ seg a (d + n) j"
  using assms seg_split [of d "d + n" j "copied a d src s n"] by (simp add: seg_copied seg_copied_out)

lemma seg_upd_after: "i \<le> d \<Longrightarrow> seg (a(d := v)) i (d + 1) = seg a i d @ [v]"
  using seg_snoc [of i "d + 1" "a(d := v)"] by simp

lemma seg_upd_before: "d < j \<Longrightarrow> seg (a(d := v)) d j = v # seg a (d + 1) j"
  using seg_Cons [of d j "a(d := v)"] by simp

section \<open>The nest of loops\<close>

locale merge_loop =
  fixes P Done :: "'a merging \<Rightarrow> bool" and f :: "'a merging \<Rightarrow> nat" and E :: bool
    and one :: "'a merging \<Rightarrow> 'a merging \<times> bool" and half1 half2 :: "'a merging \<Rightarrow> 'a merging comp"
  assumes one: "P m \<Longrightarrow> case one m of (n, again) \<Rightarrow>
      if exit n then Done n \<and> \<not> again else P n \<and> f n < f m"
    and half1: "P m \<Longrightarrow> wp (half1 m) E (\<lambda>n. if exit n then Done n else P n \<and> f n < f m)"
    and half2: "P m \<Longrightarrow> wp (half2 m) E (\<lambda>n. if exit n then Done n else P n \<and> f n < f m)"
    and reset: "P m \<Longrightarrow> P (m\<lparr>count1 := 0, count2 := 0, exit := False\<rparr>)"
      "f (m\<lparr>count1 := 0, count2 := 0, exit := False\<rparr>) = f m"
    and set_gallop: "P m \<Longrightarrow> P (m\<lparr>gallop := g\<rparr>)" "f (m\<lparr>gallop := g\<rparr>) = f m"
begin

lemma first_loop:
  assumes "P m"
  shows "wp (js_do (\<lambda>m. js_return (one m)) m) E (\<lambda>n. if exit n then Done n else P n \<and> f n < f m)"
proof (rule wp_do [where P = "\<lambda>n. P n \<and> f n \<le> f m" and f = f])
  fix n assume n: "P n \<and> f n \<le> f m"
  then show "wp (js_return (one n)) E (\<lambda>(t, again).
      if again then (P t \<and> f t \<le> f m) \<and> f t < f n
      else if exit t then Done t else P t \<and> f t < f m)"
    using one [of n] by (auto split: prod.splits if_splits)
qed (use assms in simp)

lemma second_loop:
  assumes "P m"
  shows "wp (js_do (gallop_turn half1 half2) m) E (\<lambda>n. if exit n then Done n else P n \<and> f n < f m)"
proof (rule wp_do [where P = "\<lambda>n. P n \<and> f n \<le> f m" and f = f])
  fix n assume n: "P n \<and> f n \<le> f m"
  show "wp (gallop_turn half1 half2 n) E (\<lambda>(t, again).
      if again then (P t \<and> f t \<le> f m) \<and> f t < f n
      else if exit t then Done t else P t \<and> f t < f m)"
    unfolding gallop_turn_def
  proof (rule wp_seq [OF half1], rule n [THEN conjunct1], rule wp_if, goal_cases)
    case (2 k)
    then have k: "P k \<and> f k < f n" by simp
    show ?case
      by (rule wp_seq [OF half2]) (use k n in auto)
  qed simp
qed (use assms in simp)

lemma all_loops:
  assumes "P m"
  shows "wp (js_do (merge_turn one half1 half2) m) E Done"
proof (rule wp_do [where P = P and f = f])
  fix m assume m: "P m"
  show "wp (merge_turn one half1 half2 m) E (\<lambda>(t, again). if again then P t \<and> f t < f m else Done t)"
    unfolding merge_turn_def
  proof (rule wp_seq [OF first_loop [OF reset(1) [OF m]]], rule wp_if, goal_cases)
    case (2 k)
    then have k: "P k" "f k < f m" by (simp_all add: reset)
    show ?case
      by (rule wp_seq [OF second_loop [OF k(1)]]) (use k in \<open>auto simp: set_gallop\<close>)
  qed simp
qed (fact assms)

end

text \<open>What a merge leaves of the object, and what it makes of the stretch it merges.\<close>

definition same_stack :: "'a timsort \<Rightarrow> 'a timsort \<Rightarrow> bool" where
  "same_stack s t \<longleftrightarrow> runStart t = runStart s \<and> runLength t = runLength s \<and> stackSize t = stackSize s"

definition merged :: "('a list \<Rightarrow> bool) \<Rightarrow> 'a timsort \<Rightarrow> int \<Rightarrow> int \<Rightarrow> 'a timsort \<Rightarrow> bool" where
  "merged R s lo hi t \<longleftrightarrow> same_stack s t \<and> same_outside (ts_array s) (ts_array t) lo hi \<and>
     R (seg (ts_array t) lo hi)"

text \<open>What is left to merge.\<close>

definition rest :: "'a merging \<Rightarrow> nat" where
  "rest m = nat (length1 m) + nat (length2 m)"

end
