(* ===== verification/TimLow.thy ===== *)
theory TimLow
  imports TimMerge
begin

text \<open>
  Total correctness of \<^verbatim>\<open>mergeLow\<close>, for every invariant that satisfies \<open>low_laws\<close>.
\<close>

section \<open>mergeLow\<close>

locale low_laws =
  fixes compare :: "'a compare" and I :: "'a list \<Rightarrow> 'a list \<Rightarrow> 'a list \<Rightarrow> bool"
    and R :: "'a list \<Rightarrow> bool" and E :: bool
  assumes take_y: "I acc (x # xs) (y # ys) \<Longrightarrow> compare y x = Neg \<Longrightarrow> I (acc @ [y]) (x # xs) ys"
    and take_x: "I acc (x # xs) (y # ys) \<Longrightarrow> compare y x \<noteq> Neg \<Longrightarrow> I (acc @ [x]) xs (y # ys)"
    and gallop_x: "I acc xs (y # ys) \<Longrightarrow> right_ok compare y xs k \<Longrightarrow> I (acc @ take k xs) (drop k xs) (y # ys)"
    and gallop_x_y: "I acc xs (y # ys) \<Longrightarrow> right_ok compare y xs k \<Longrightarrow> k < length xs \<Longrightarrow>
      I (acc @ take k xs @ [y]) (drop k xs) ys"
    and gallop_y: "I acc (x # xs) ys \<Longrightarrow> left_ok compare x ys k \<Longrightarrow> I (acc @ take k ys) (x # xs) (drop k ys)"
    and gallop_y_x: "I acc (x # xs) ys \<Longrightarrow> left_ok compare x ys k \<Longrightarrow> k < length ys \<Longrightarrow>
      I (acc @ take k ys @ [x]) xs (drop k ys)"
    and last_x: "I acc [x] ys \<Longrightarrow> R (acc @ ys @ [x])"
    and rest_xs: "I acc xs [] \<Longrightarrow> R (acc @ xs)"
    and no_x: "I acc [] (y # ys) \<Longrightarrow> E"

text \<open>
  The local variables of \<^verbatim>\<open>mergeLow\<close> between two steps: \<open>dest\<close> is \<open>length1\<close> slots behind
  \<open>cursor2\<close>, what is written is the prefix, and \<open>tmp\<close> holds the rest of the first run.
\<close>

definition low_state :: "('a list \<Rightarrow> 'a list \<Rightarrow> 'a list \<Rightarrow> bool) \<Rightarrow> 'a slots \<Rightarrow> 'a slots \<Rightarrow> int \<Rightarrow> int \<Rightarrow>
    'a merging \<Rightarrow> bool" where
  "low_state I a t lo hi m \<longleftrightarrow>
     lo \<le> dest m \<and> 0 \<le> length1 m \<and> 0 \<le> length2 m \<and> dest m + length1 m = cursor2 m \<and>
     cursor2 m + length2 m = hi \<and> hi - lo \<le> 2147483648 \<and> same_outside a (arr m) lo hi \<and>
     I (seg (arr m) lo (dest m)) (seg t (cursor1 m) (cursor1 m + length1 m)) (seg (arr m) (cursor2 m) hi)"

definition low_going :: "('a list \<Rightarrow> 'a list \<Rightarrow> 'a list \<Rightarrow> bool) \<Rightarrow> 'a slots \<Rightarrow> 'a slots \<Rightarrow> int \<Rightarrow> int \<Rightarrow>
    'a merging \<Rightarrow> bool" where
  "low_going I a t lo hi m \<longleftrightarrow> low_state I a t lo hi m \<and> 2 \<le> length1 m \<and> 1 \<le> length2 m \<and> \<not> exit m"

definition low_done :: "('a list \<Rightarrow> 'a list \<Rightarrow> 'a list \<Rightarrow> bool) \<Rightarrow> 'a slots \<Rightarrow> 'a slots \<Rightarrow> int \<Rightarrow> int \<Rightarrow>
    'a merging \<Rightarrow> bool" where
  "low_done I a t lo hi m \<longleftrightarrow> low_state I a t lo hi m \<and>
     (length1 m \<le> 1 \<and> 1 \<le> length2 m \<or> length2 m = 0 \<and> 2 \<le> length1 m)"

lemmas low_defs = low_state_def low_going_def low_done_def rest_def

lemma low_state_upd [simp]:
  "low_state I a t lo hi (m\<lparr>exit := e\<rparr>) = low_state I a t lo hi m"
  "low_state I a t lo hi (m\<lparr>gallop := g\<rparr>) = low_state I a t lo hi m"
  by (simp_all add: low_state_def)

lemma low_goingD:
  assumes "low_going I a t lo hi m"
  shows "lo \<le> dest m" "2 \<le> length1 m" "1 \<le> length2 m" "\<not> exit m" "dest m + length1 m = cursor2 m"
    "cursor2 m + length2 m = hi" "hi - lo \<le> 2147483648" "same_outside a (arr m) lo hi"
    "I (seg (arr m) lo (dest m)) (seg t (cursor1 m) (cursor1 m + length1 m)) (seg (arr m) (cursor2 m) hi)"
  using assms unfolding low_defs by auto

context low_laws
begin

lemma low_one_ok:
  assumes P: "low_going I a t lo hi m"
  shows "case low_one compare t m of (n, again) \<Rightarrow>
    if exit n then low_done I a t lo hi n \<and> \<not> again else low_going I a t lo hi n \<and> rest n < rest m"
proof -
  have xs: "seg t (cursor1 m) (cursor1 m + length1 m) = t (cursor1 m) # seg t (cursor1 m + 1) (cursor1 m + length1 m)"
    and ys: "seg (arr m) (cursor2 m) hi = arr m (cursor2 m) # seg (arr m) (cursor2 m + 1) hi"
    using P by (auto simp: low_defs intro: seg_Cons)
  let ?acc = "seg (arr m) lo (dest m)"
  show ?thesis
  proof (cases "compare (arr m (cursor2 m)) (t (cursor1 m)) = Neg")
    case True
    have "I (?acc @ [arr m (cursor2 m)]) (seg t (cursor1 m) (cursor1 m + length1 m)) (seg (arr m) (cursor2 m + 1) hi)"
      using P take_y [OF _ True, of ?acc] by (simp add: low_defs xs ys)
    then show ?thesis
      using P True by (auto simp: low_one_def low_defs Let_def seg_upd_after upd_outside)
  next
    case False
    have "I (?acc @ [t (cursor1 m)]) (seg t (cursor1 m + 1) (cursor1 m + length1 m)) (seg (arr m) (cursor2 m) hi)"
      using P take_x [OF _ False, of ?acc] by (simp add: low_defs xs ys)
    then show ?thesis
      using P False by (auto simp: low_one_def low_defs Let_def seg_upd_after upd_outside add.commute [of 2])
  qed
qed

text \<open>A gallop over the first run and the element of the second that follows it.\<close>

lemma low_after1_ok:
  assumes P: "low_going I a t lo hi m"
    and k: "0 \<le> k" "k \<le> length1 m"
      "right_ok compare (arr m (cursor2 m)) (seg t (cursor1 m) (cursor1 m + length1 m)) (nat k)"
    and n: "n = low_after1 t k m"
  shows "if exit n then low_done I a t lo hi n else low_going I a t lo hi n \<and> rest n < rest m"
proof -
  note D = low_goingD [OF P]
  let ?acc = "seg (arr m) lo (dest m)" and ?y = "arr m (cursor2 m)"
  let ?xs = "seg t (cursor1 m) (cursor1 m + length1 m)" and ?ys = "seg (arr m) (cursor2 m + 1) hi"
  let ?b = "copied (arr m) (dest m) t (cursor1 m) k"
  have ys: "seg (arr m) (cursor2 m) hi = ?y # ?ys" using D(3,6) by (intro seg_Cons) simp
  have i: "I ?acc ?xs (?y # ?ys)" using D(9) ys by simp
  have tk: "take (nat k) ?xs = seg t (cursor1 m) (cursor1 m + k)"
    and dr: "drop (nat k) ?xs = seg t (cursor1 m + k) (cursor1 m + length1 m)"
    using k seg_take [of k "cursor1 m + length1 m" "cursor1 m" t]
      seg_drop [of k "cursor1 m + length1 m" "cursor1 m" t] by simp_all
  have acc: "seg ?b lo (dest m + k) = ?acc @ take (nat k) ?xs"
    using D(1) k by (simp add: seg_copied_after tk)
  have outside: "same_outside a ?b lo hi" using D(1,3,5,6,8) k by (intro copied_outside) auto
  have same: "seg ?b (cursor2 m) hi = ?y # ?ys" "seg ?b (cursor2 m + 1) hi = ?ys" "?b (cursor2 m) = ?y"
    using D(5) k unfolding ys [symmetric] by (auto intro!: seg_copied_out) (auto simp: copied_def)
  have I1: "I (seg ?b lo (dest m + k)) (seg t (cursor1 m + k) (cursor1 m + length1 m)) (seg ?b (cursor2 m) hi)"
    unfolding same acc dr [symmetric] by (rule gallop_x [OF i k(3)])
  have I2: "k < length1 m \<Longrightarrow> I (seg ?b lo (dest m + k) @ [?y]) (seg t (cursor1 m + k) (cursor1 m + length1 m)) ?ys"
    unfolding acc dr [symmetric] using gallop_x_y [OF i k(3)] k(1) by simp
  let ?n = "m\<lparr>count1 := k, arr := ?b, dest := dest m + k, cursor1 := cursor1 m + k, length1 := length1 m - k\<rparr>"
  let ?p = "?n\<lparr>arr := ?b(dest m + k := ?y), dest := dest m + k + 1, cursor2 := cursor2 m + 1,
              length2 := length2 m - 1\<rparr>"
  define n1 p1 where "n1 = ?n" and "p1 = ?p"
  have nk: "n = (if k \<noteq> 0 \<and> length1 m - k \<le> 1 then n1\<lparr>exit := True\<rparr>
                 else if length2 m = 1 then p1\<lparr>exit := True\<rparr> else p1)"
    unfolding n n1_def p1_def using same(3)
    by (cases "k = 0") (simp_all add: low_after1_def Let_def copy_up_eq)
  have S1: "low_state I a t lo hi n1"
    using D(1,3,5,6,7) k outside I1 by (simp add: low_state_def n1_def)
  have S2: "low_state I a t lo hi p1" if "k < length1 m"
  proof -
    have "seg (?b(dest m + k := ?y)) lo (dest m + k + 1) = seg ?b lo (dest m + k) @ [?y]"
      using D(1) k by (intro seg_upd_after) simp
    moreover have "seg (?b(dest m + k := ?y)) (cursor2 m + 1) hi = ?ys"
      using D(5) k same(2) by simp
    moreover have "same_outside a (?b(dest m + k := ?y)) lo hi"
      using outside D(1,3,5,6) k by (intro upd_outside) auto
    ultimately show ?thesis
      using D(1,3,5,6,7) k I2 [OF that] by (simp add: low_state_def p1_def)
  qed
  have len: "length1 n1 = length1 m - k" "length2 n1 = length2 m" "length1 p1 = length1 m - k"
    "length2 p1 = length2 m - 1" "exit p1 = exit m"
    by (simp_all add: n1_def p1_def)
  show ?thesis
  proof (cases "k \<noteq> 0 \<and> length1 m - k \<le> 1")
    case True
    then show ?thesis using S1 len D(3) by (simp add: nk low_done_def)
  next
    case False
    then have "2 \<le> length1 m - k" using D(2) by auto
    then show ?thesis
      using False S2 len D(3,4) k(1) by (auto simp: nk low_done_def low_going_def rest_def)
  qed
qed

lemma low_gallop1_ok:
  assumes P: "low_going I a t lo hi m"
  shows "wp (low_gallop1 compare t m) E
    (\<lambda>n. if exit n then low_done I a t lo hi n else low_going I a t lo hi n \<and> rest n < rest m)"
  unfolding low_gallop1_def
proof (rule wp_seq [OF gallopRight_wp], goal_cases)
  case (4 k)
  then show ?case using low_after1_ok [OF P, of k] by simp
qed (use low_goingD [OF P] in auto)

lemma low_after2_ok:
  assumes P: "low_going I a t lo hi m"
    and k: "0 \<le> k" "k \<le> length2 m"
      "left_ok compare (t (cursor1 m)) (seg (arr m) (cursor2 m) (cursor2 m + length2 m)) (nat k)"
    and n: "n = low_after2 t k m"
  shows "if exit n then low_done I a t lo hi n else low_going I a t lo hi n \<and> rest n < rest m"
proof -
  note D = low_goingD [OF P]
  let ?acc = "seg (arr m) lo (dest m)" and ?x = "t (cursor1 m)"
  let ?xs = "seg t (cursor1 m + 1) (cursor1 m + length1 m)" and ?ys = "seg (arr m) (cursor2 m) hi"
  let ?b = "copied (arr m) (dest m) (arr m) (cursor2 m) k"
  have xs: "seg t (cursor1 m) (cursor1 m + length1 m) = ?x # ?xs" using D(2) by (intro seg_Cons) simp
  have i: "I ?acc (?x # ?xs) ?ys" using D(9) xs by simp
  note ok = k(3) [unfolded D(6)]
  have tk: "take (nat k) ?ys = seg (arr m) (cursor2 m) (cursor2 m + k)"
    and dr: "drop (nat k) ?ys = seg (arr m) (cursor2 m + k) hi"
    using k D(6) seg_take [of k hi "cursor2 m" "arr m"] seg_drop [of k hi "cursor2 m" "arr m"] by simp_all
  have acc: "seg ?b lo (dest m + k) = ?acc @ take (nat k) ?ys"
    using D(1) k by (simp add: seg_copied_after tk)
  have outside: "same_outside a ?b lo hi" using D(1,2,5,6,8) k by (intro copied_outside) auto
  have same: "seg ?b (cursor2 m + k) hi = drop (nat k) ?ys"
    unfolding dr using D(2,5) k by (intro seg_copied_out) auto
  have I1: "I (seg ?b lo (dest m + k)) (seg t (cursor1 m) (cursor1 m + length1 m)) (seg ?b (cursor2 m + k) hi)"
    unfolding same acc xs by (rule gallop_y [OF i ok])
  have I2: "k < length2 m \<Longrightarrow> I (seg ?b lo (dest m + k) @ [?x]) ?xs (seg ?b (cursor2 m + k) hi)"
    unfolding same acc using gallop_y_x [OF i ok] k(1) D(6) by auto
  have b: "move_up (arr m) (dest m) (cursor2 m) k = ?b" using D(2,5) by (intro move_up_eq) simp
  let ?n = "m\<lparr>count2 := k, arr := ?b, dest := dest m + k, cursor2 := cursor2 m + k, length2 := length2 m - k\<rparr>"
  let ?p = "?n\<lparr>arr := ?b(dest m + k := ?x), dest := dest m + k + 1, cursor1 := cursor1 m + 1,
              length1 := length1 m - 1\<rparr>"
  define n1 p1 where "n1 = ?n" and "p1 = ?p"
  have nk: "n = (if k \<noteq> 0 \<and> length2 m - k = 0 then n1\<lparr>exit := True\<rparr>
                 else if length1 m = 2 then p1\<lparr>exit := True\<rparr> else p1\<lparr>gallop := gallop m - 1\<rparr>)"
    unfolding n n1_def p1_def by (cases "k = 0") (simp_all add: low_after2_def Let_def b)
  have S1: "low_state I a t lo hi n1"
    using D(1,2,5,6,7) k outside I1 by (simp add: low_state_def n1_def)
  have S2: "low_state I a t lo hi p1" if "k < length2 m"
  proof -
    have "seg (?b(dest m + k := ?x)) lo (dest m + k + 1) = seg ?b lo (dest m + k) @ [?x]"
      using D(1) k by (intro seg_upd_after) simp
    moreover have "seg (?b(dest m + k := ?x)) (cursor2 m + k) hi = seg ?b (cursor2 m + k) hi"
      using D(2,5) by simp
    moreover have "same_outside a (?b(dest m + k := ?x)) lo hi"
      using outside D(1,2,5,6) k by (intro upd_outside) auto
    moreover have "I (seg ?b lo (dest m + k) @ [?x]) (seg t (cursor1 m + 1) (cursor1 m + 1 + (length1 m - 1)))
        (seg ?b (cursor2 m + k) hi)"
      using I2 [OF that] by simp
    ultimately show ?thesis
      using D(1,2,5,6,7) k by (simp add: low_state_def p1_def)
  qed
  have len: "length1 n1 = length1 m" "length2 n1 = length2 m - k" "length1 p1 = length1 m - 1"
    "length2 p1 = length2 m - k" "exit p1 = exit m"
    by (simp_all add: n1_def p1_def)
  show ?thesis
  proof (cases "k \<noteq> 0 \<and> length2 m - k = 0")
    case True
    then show ?thesis using S1 len D(2) by (simp add: nk low_done_def)
  next
    case False
    then have "k < length2 m" using D(3) k by auto
    then show ?thesis
      using False S2 len D(2,4) k(1) by (auto simp: nk low_done_def low_going_def rest_def)
  qed
qed

lemma low_gallop2_ok:
  assumes P: "low_going I a t lo hi m"
  shows "wp (low_gallop2 compare t m) E
    (\<lambda>n. if exit n then low_done I a t lo hi n else low_going I a t lo hi n \<and> rest n < rest m)"
  unfolding low_gallop2_def
proof (rule wp_seq [OF gallopLeft_wp], goal_cases)
  case (4 k)
  then show ?case using low_after2_ok [OF P, of k] by simp
qed (use low_goingD [OF P] in auto)

lemma low_loop: "merge_loop (low_going I a t lo hi) (low_done I a t lo hi) rest E
    (low_one compare t) (low_gallop1 compare t) (low_gallop2 compare t)"
  by unfold_locales
    (fact low_one_ok low_gallop1_ok low_gallop2_ok | simp add: low_defs)+

lemma low_finish_ok:
  assumes "low_done I a t lo hi m"
  shows "wp (low_finish t m) E (\<lambda>b. same_outside a b lo hi \<and> R (seg b lo hi))"
proof -
  note D = assms [unfolded low_defs]
  let ?acc = "seg (arr m) lo (dest m)" and ?ys = "seg (arr m) (cursor2 m) hi"
  consider (one) "length1 m = 1" | (none) "length1 m = 0" "1 \<le> length2 m" | (rest) "2 \<le> length1 m" "length2 m = 0"
    using D by fastforce
  then show ?thesis
  proof cases
    case one
    let ?b = "copied (arr m) (dest m) (arr m) (cursor2 m) (length2 m)"
    have b: "move_up (arr m) (dest m) (cursor2 m) (length2 m) = ?b"
      using D by (intro move_up_eq) auto
    have hi: "hi = dest m + length2 m + 1" and hi2: "cursor2 m + length2 m = hi"
      and le: "lo \<le> dest m" "0 \<le> length2 m" using D one by simp_all
    have "seg (?b(dest m + length2 m := t (cursor1 m))) lo (dest m + length2 m + 1) =
        ?acc @ seg (arr m) (cursor2 m) (cursor2 m + length2 m) @ [t (cursor1 m)]"
      using le by (simp add: seg_upd_after seg_copied_after)
    then have "seg (?b(dest m + length2 m := t (cursor1 m))) lo hi = ?acc @ ?ys @ [t (cursor1 m)]"
      by (simp only: hi [symmetric] hi2)
    moreover have "R (?acc @ ?ys @ [t (cursor1 m)])"
      using D one by (intro last_x) simp
    moreover have "same_outside a (?b(dest m + length2 m := t (cursor1 m))) lo hi"
      using D by (intro upd_outside copied_outside) (simp_all add: one)
    ultimately show ?thesis by (simp add: low_finish_def one b)
  next
    case none
    then have E using D no_x [of ?acc "arr m (cursor2 m)" "seg (arr m) (cursor2 m + 1) hi"]
        seg_Cons [of "cursor2 m" hi "arr m"] by auto
    then show ?thesis by (simp add: low_finish_def none)
  next
    case rest
    have hi: "hi = dest m + length1 m" using D rest by simp
    have "?ys = []" using D rest by simp
    moreover have "I ?acc (seg t (cursor1 m) (cursor1 m + length1 m)) ?ys" using D by blast
    ultimately have "R (?acc @ seg t (cursor1 m) (cursor1 m + length1 m))" by (intro rest_xs) (simp only:)
    moreover have le: "lo \<le> dest m" "same_outside a (arr m) lo hi" using D by blast+
    moreover have "seg (copied (arr m) (dest m) t (cursor1 m) (length1 m)) lo (dest m + length1 m) =
        ?acc @ seg t (cursor1 m) (cursor1 m + length1 m)"
      using le rest by (simp add: seg_copied_after)
    ultimately show ?thesis
      using rest by (simp add: low_finish_def copy_up_eq hi [symmetric] copied_outside)
  qed
qed

lemma mergeLow_wp:
  fixes ts :: "'a timsort" and start1 len1 len2 :: int
  defines "start2 \<equiv> start1 + len1"
  assumes len: "1 \<le> len1" "1 \<le> len2" "len1 + len2 \<le> 2147483648"
    and I: "I [ts_array ts start2] (seg (ts_array ts) start1 start2)
              (seg (ts_array ts) (start2 + 1) (start2 + len2))"
  shows "wp (mergeLow compare ts start1 len1 start2 len2) E (merged R ts start1 (start2 + len2))"
proof -
  let ?a = "ts_array ts" and ?hi = "start2 + len2"
  let ?t = "copied (tmp ts) 0 ?a start1 len1" and ?b = "?a(start1 := ?a start2)"
  let ?m = "\<lparr>arr = ?b, cursor1 = 0, cursor2 = start2 + 1, dest = start1 + 1, length1 = len1,
    length2 = len2 - 1, count1 = 0, count2 = 0, exit = False, gallop = minGallop ts\<rparr>"
  have t: "seg ?t 0 len1 = seg ?a start1 start2"
    using len seg_copied [of len1 "tmp ts" 0 ?a start1] by (simp add: start2_def)
  have st: "low_state I ?a ?t start1 ?hi ?m"
    using len I by (auto simp: low_state_def t same_outside_def start2_def)
  have go: "wp (js_do (merge_turn (low_one compare ?t) (low_gallop1 compare ?t) (low_gallop2 compare ?t)) ?m)
      E (low_done I ?a ?t start1 ?hi)" if "len1 \<noteq> 1" "len2 \<noteq> 1"
    by (rule merge_loop.all_loops [OF low_loop]) (use st len that in \<open>simp add: low_going_def\<close>)
  have fin: "wp (low_finish ?t m) E (\<lambda>a. wp (js_return (ts\<lparr>tmp := ?t, ts_array := a, minGallop := g\<rparr>)) E
      (merged R ts start1 ?hi))" if "low_done I ?a ?t start1 ?hi m" for m g
    using low_finish_ok [OF that] by (rule wp_mono) (simp_all add: merged_def same_stack_def)
  consider (rest) "len2 = 1" | (one) "len1 = 1" "len2 \<noteq> 1" | (more) "len1 \<noteq> 1" "len2 \<noteq> 1" by blast
  then show ?thesis
  proof cases
    case rest
    let ?c = "copied ?b (start1 + 1) ?t 0 len1"
    have "seg ?c start1 (start1 + 1 + len1) = [?a start2] @ seg ?a start1 start2"
      using len t by (simp add: seg_copied_after)
    then have "R (seg ?c start1 ?hi)"
      using rest_xs [of "[?a start2]"] I rest by (simp add: start2_def add.assoc add.commute [of 1])
    then show ?thesis
      using len rest by (auto simp: mergeLow_def Let_def copy_up_eq merged_def same_stack_def same_outside_def
          copied_def start2_def)
  next
    case one
    then have "low_done I ?a ?t start1 ?hi ?m" using st len by (simp add: low_done_def)
    from fin [OF this, unfolded low_finish_def] show ?thesis
      using one by (simp add: mergeLow_def Let_def copy_up_eq merged_def same_stack_def)
  next
    case more
    have "mergeLow compare ts start1 len1 start2 len2 =
      js_bind (js_do (merge_turn (low_one compare ?t) (low_gallop1 compare ?t) (low_gallop2 compare ?t)) ?m)
        (\<lambda>m. js_bind (low_finish ?t m) (\<lambda>a.
           js_return (ts\<lparr>tmp := ?t, ts_array := a, minGallop := max 1 (gallop m)\<rparr>)))"
      using more len by (simp add: mergeLow_def Let_def copy_up_eq)
    then show ?thesis
      by (simp only:) (rule wp_seq [OF go [OF more]], rule wp_bind, rule fin)
  qed
qed

end

end
