(* ===== verification/TimHigh.thy ===== *)
theory TimHigh
  imports TimMerge
begin

text \<open>
  Total correctness of \<^verbatim>\<open>mergeHigh\<close>, for every invariant that satisfies \<open>high_laws\<close>.
\<close>

section \<open>mergeHigh\<close>

text \<open>The mirror image: the merge is filled from the end, the second run waits in \<open>tmp\<close>.\<close>

locale high_laws =
  fixes compare :: "'a compare" and I :: "'a list \<Rightarrow> 'a list \<Rightarrow> 'a list \<Rightarrow> bool"
    and R :: "'a list \<Rightarrow> bool" and E :: bool
  assumes take_x: "I (xs @ [x]) (ys @ [y]) acc \<Longrightarrow> compare y x = Neg \<Longrightarrow> I xs (ys @ [y]) (x # acc)"
    and take_y: "I (xs @ [x]) (ys @ [y]) acc \<Longrightarrow> compare y x \<noteq> Neg \<Longrightarrow> I (xs @ [x]) ys (y # acc)"
    and gallop_x: "I xs (ys @ [y]) acc \<Longrightarrow> right_ok compare y xs k \<Longrightarrow> I (take k xs) (ys @ [y]) (drop k xs @ acc)"
    and gallop_x_y: "I xs (ys @ [y]) acc \<Longrightarrow> right_ok compare y xs k \<Longrightarrow> 0 < k \<Longrightarrow>
      I (take k xs) ys (y # drop k xs @ acc)"
    and gallop_y: "I (xs @ [x]) ys acc \<Longrightarrow> left_ok compare x ys k \<Longrightarrow> I (xs @ [x]) (take k ys) (drop k ys @ acc)"
    and gallop_y_x: "I (xs @ [x]) ys acc \<Longrightarrow> left_ok compare x ys k \<Longrightarrow> 0 < k \<Longrightarrow>
      I xs (take k ys) (x # drop k ys @ acc)"
    and last_y: "I xs [y] acc \<Longrightarrow> R (y # xs @ acc)"
    and rest_ys: "I [] ys acc \<Longrightarrow> R (ys @ acc)"
    and no_y: "I (xs @ [x]) [] acc \<Longrightarrow> E"

definition high_state :: "('a list \<Rightarrow> 'a list \<Rightarrow> 'a list \<Rightarrow> bool) \<Rightarrow> 'a slots \<Rightarrow> 'a slots \<Rightarrow> int \<Rightarrow> int \<Rightarrow>
    'a merging \<Rightarrow> bool" where
  "high_state I a t lo hi m \<longleftrightarrow>
     0 \<le> length1 m \<and> 0 \<le> length2 m \<and> length1 m = cursor1 m + 1 - lo \<and> length2 m = cursor2 m + 1 \<and>
     cursor1 m + cursor2 m + 1 = dest m \<and> dest m < hi \<and> hi - lo \<le> 2147483648 \<and>
     same_outside a (arr m) lo hi \<and>
     I (seg (arr m) lo (cursor1 m + 1)) (seg t 0 (cursor2 m + 1)) (seg (arr m) (dest m + 1) hi)"

definition high_going :: "('a list \<Rightarrow> 'a list \<Rightarrow> 'a list \<Rightarrow> bool) \<Rightarrow> 'a slots \<Rightarrow> 'a slots \<Rightarrow> int \<Rightarrow> int \<Rightarrow>
    'a merging \<Rightarrow> bool" where
  "high_going I a t lo hi m \<longleftrightarrow> high_state I a t lo hi m \<and> 1 \<le> length1 m \<and> 2 \<le> length2 m \<and> \<not> exit m"

definition high_done :: "('a list \<Rightarrow> 'a list \<Rightarrow> 'a list \<Rightarrow> bool) \<Rightarrow> 'a slots \<Rightarrow> 'a slots \<Rightarrow> int \<Rightarrow> int \<Rightarrow>
    'a merging \<Rightarrow> bool" where
  "high_done I a t lo hi m \<longleftrightarrow> high_state I a t lo hi m \<and>
     (length2 m \<le> 1 \<and> 1 \<le> length1 m \<or> length1 m = 0 \<and> 2 \<le> length2 m)"

lemmas high_defs = high_state_def high_going_def high_done_def rest_def

lemma high_state_upd [simp]:
  "high_state I a t lo hi (m\<lparr>exit := e\<rparr>) = high_state I a t lo hi m"
  "high_state I a t lo hi (m\<lparr>gallop := g\<rparr>) = high_state I a t lo hi m"
  by (simp_all add: high_state_def)

context high_laws
begin

lemma high_goingD:
  assumes "high_going I a t lo hi m"
  shows "lo \<le> cursor1 m" "1 \<le> cursor2 m" "\<not> exit m" "dest m < hi" "hi - lo \<le> 2147483648"
    "same_outside a (arr m) lo hi" "length1 m = cursor1 m + 1 - lo" "length2 m = cursor2 m + 1"
    "cursor1 m + cursor2 m + 1 = dest m"
    "I (seg (arr m) lo (cursor1 m + 1)) (seg t 0 (cursor2 m + 1)) (seg (arr m) (dest m + 1) hi)"
  using assms unfolding high_defs by auto

lemma high_one_ok:
  assumes P: "high_going I a t lo hi m"
  shows "case high_one compare t m of (n, again) \<Rightarrow>
    if exit n then high_done I a t lo hi n \<and> \<not> again else high_going I a t lo hi n \<and> rest n < rest m"
proof -
  let ?x = "arr m (cursor1 m)" and ?y = "t (cursor2 m)"
  note D = high_goingD [OF P]
  have xs: "seg (arr m) lo (cursor1 m + 1) = seg (arr m) lo (cursor1 m) @ [?x]"
    and ys: "seg t 0 (cursor2 m + 1) = seg t 0 (cursor2 m) @ [?y]"
    using D(1,2) seg_snoc [of lo "cursor1 m + 1" "arr m"] seg_snoc [of 0 "cursor2 m + 1" t] by simp_all
  note i = D(10) [unfolded xs ys]
  show ?thesis
  proof (cases "compare ?y ?x = Neg")
    case True
    from take_x [OF i True] show ?thesis
      using D(1-9) True ys by (auto simp: high_one_def high_defs Let_def seg_upd_before upd_outside)
  next
    case False
    from take_y [OF i False] show ?thesis
      using D(1-9) False xs by (auto simp: high_one_def high_defs Let_def seg_upd_before upd_outside)
  qed
qed

lemma high_after1_ok:
  assumes P: "high_going I a t lo hi m"
    and k: "0 \<le> k" "k \<le> length1 m" "right_ok compare (t (cursor2 m)) (seg (arr m) lo (lo + length1 m)) (nat k)"
    and n: "n = high_after1 t (length1 m - k) m"
  shows "if exit n then high_done I a t lo hi n else high_going I a t lo hi n \<and> rest n < rest m"
proof -
  note D = high_goingD [OF P]
  let ?y = "t (cursor2 m)" and ?ys = "seg t 0 (cursor2 m)"
  let ?xs = "seg (arr m) lo (lo + length1 m)" and ?acc = "seg (arr m) (dest m + 1) hi"
  have ys: "seg t 0 (cursor2 m + 1) = ?ys @ [?y]"
    using D(2) seg_snoc [of 0 "cursor2 m + 1" t] by simp
  have i: "I ?xs (?ys @ [?y]) ?acc" using D(7,10) ys by simp
  define c where "c = length1 m - k"
  let ?d = "dest m - c + 1" and ?s = "cursor1 m - c + 1"
  let ?b = "copied (arr m) ?d (arr m) ?s c"
  have s: "lo \<le> ?s" "lo + k = ?s" "?s + c = lo + length1 m" "?d + c = dest m + 1" "?s \<le> ?d" "?d \<le> hi" "0 \<le> c"
    using D(1,2,4,7,8,9) k by (auto simp: c_def)
  have tk: "take (nat k) ?xs = seg (arr m) lo ?s" and dr: "drop (nat k) ?xs = seg (arr m) ?s (?s + c)"
    using k s seg_take [of k "lo + length1 m" lo "arr m"] seg_drop [of k "lo + length1 m" lo "arr m"]
    by simp_all
  have acc: "seg ?b ?d hi = drop (nat k) ?xs @ ?acc"
    unfolding dr s(4) [symmetric] using D(4) s by (intro seg_copied_before) auto
  have outside: "same_outside a ?b lo hi" using D(4,6) s by (intro copied_outside) auto
  have same: "seg ?b lo ?s = take (nat k) ?xs" using s unfolding tk by (intro seg_copied_out) auto
  have I1: "I (seg ?b lo ?s) (seg t 0 (cursor2 m + 1)) (seg ?b ?d hi)"
    unfolding same acc ys by (rule gallop_x [OF i k(3)])
  have I2: "0 < k \<Longrightarrow> I (seg ?b lo ?s) ?ys (?y # seg ?b ?d hi)"
    unfolding same acc using gallop_x_y [OF i k(3)] by simp
  let ?n = "m\<lparr>count1 := c, dest := dest m - c, cursor1 := cursor1 m - c, length1 := length1 m - c, arr := ?b\<rparr>"
  let ?p = "?n\<lparr>arr := ?b(dest m - c := ?y), dest := dest m - c - 1, cursor2 := cursor2 m - 1,
              length2 := length2 m - 1\<rparr>"
  have b: "move_down (arr m) ?d ?s c = ?b" using s by (intro move_down_eq) auto
  define n1 p1 where "n1 = ?n" and "p1 = ?p"
  have nc: "n = (if c \<noteq> 0 \<and> k = 0 then n1\<lparr>exit := True\<rparr>
                 else if length2 m = 2 then p1\<lparr>exit := True\<rparr> else p1)"
  proof -
    have kc: "k = length1 m - c" by (simp add: c_def)
    show ?thesis
      unfolding n c_def [symmetric] n1_def p1_def kc
      by (cases "c = 0") (simp_all add: high_after1_def Let_def b)
  qed
  have S1: "high_state I a t lo hi n1"
    using D(2,4,5,7,8,9) s(1,7) outside I1 by (simp add: high_state_def n1_def)
  have S2: "high_state I a t lo hi p1" if "0 < k"
  proof -
    have "seg (?b(dest m - c := ?y)) (dest m - c) hi = ?y # seg ?b ?d hi"
      using D(4) s(7) by (intro seg_upd_before) simp
    moreover have "seg (?b(dest m - c := ?y)) lo ?s = seg ?b lo ?s"
      using D(2,9) by simp
    moreover have "same_outside a (?b(dest m - c := ?y)) lo hi"
      using outside D(2,4,9) s(1,7) by (intro upd_outside) auto
    ultimately show ?thesis
      using D(2,4,5,7,8,9) s(1,7) I2 [OF that] by (simp add: high_state_def p1_def)
  qed
  have len: "length1 n1 = k" "length2 n1 = length2 m" "length1 p1 = k" "length2 p1 = length2 m - 1"
    "exit p1 = exit m"
    by (simp_all add: n1_def p1_def c_def)
  show ?thesis
  proof (cases "c \<noteq> 0 \<and> k = 0")
    case True
    then show ?thesis using S1 len D(2,8) by (simp add: nc high_done_def)
  next
    case False
    then have "0 < k" using D(1,7) k by (auto simp: c_def)
    then show ?thesis
      using False S2 len D(2,3,8) k(2) by (auto simp: nc high_done_def high_going_def rest_def)
  qed
qed

lemma high_gallop1_ok:
  assumes P: "high_going I a t lo hi m"
  shows "wp (high_gallop1 compare t lo m) E
    (\<lambda>n. if exit n then high_done I a t lo hi n else high_going I a t lo hi n \<and> rest n < rest m)"
  unfolding high_gallop1_def
proof (rule wp_seq [OF gallopRight_wp], goal_cases)
  case (4 k)
  then show ?case using high_after1_ok [OF P, of k] by simp
qed (use high_goingD [OF P] in auto)

lemma high_after2_ok:
  assumes P: "high_going I a t lo hi m"
    and k: "0 \<le> k" "k \<le> length2 m" "left_ok compare (arr m (cursor1 m)) (seg t 0 (0 + length2 m)) (nat k)"
    and n: "n = high_after2 t (length2 m - k) m"
  shows "if exit n then high_done I a t lo hi n else high_going I a t lo hi n \<and> rest n < rest m"
proof -
  note D = high_goingD [OF P]
  let ?x = "arr m (cursor1 m)" and ?xs = "seg (arr m) lo (cursor1 m)"
  let ?ys = "seg t 0 (0 + length2 m)" and ?acc = "seg (arr m) (dest m + 1) hi"
  have xs: "seg (arr m) lo (cursor1 m + 1) = ?xs @ [?x]"
    using D(1) seg_snoc [of lo "cursor1 m + 1" "arr m"] by simp
  have i: "I (?xs @ [?x]) ?ys ?acc" using D(8,10) xs by simp
  define c where "c = length2 m - k"
  let ?d = "dest m - c + 1" and ?s = "cursor2 m - c + 1"
  let ?b = "copied (arr m) ?d t ?s c"
  have s: "0 \<le> ?s" "k = ?s" "?s + c = length2 m" "?d + c = dest m + 1" "cursor1 m + 1 \<le> ?d" "?d \<le> hi" "0 \<le> c"
    using D(1,2,4,7,8,9) k by (auto simp: c_def)
  have tk: "take (nat k) ?ys = seg t 0 ?s" and dr: "drop (nat k) ?ys = seg t ?s (?s + c)"
    using k s seg_take [of k "length2 m" 0 t] seg_drop [of k "length2 m" 0 t] by simp_all
  have acc: "seg ?b ?d hi = drop (nat k) ?ys @ ?acc"
    unfolding dr s(4) [symmetric] using D(4) s by (intro seg_copied_before) auto
  have outside: "same_outside a ?b lo hi" using D(1,4,6) s by (intro copied_outside) auto
  have same: "seg ?b lo (cursor1 m + 1) = ?xs @ [?x]" "seg ?b lo (cursor1 m) = ?xs" "?b (cursor1 m) = ?x"
    using s unfolding xs [symmetric] by (auto intro!: seg_copied_out) (auto simp: copied_def)
  have I1: "I (seg ?b lo (cursor1 m + 1)) (seg t 0 ?s) (seg ?b ?d hi)"
    unfolding same acc tk [symmetric] by (rule gallop_y [OF i k(3)])
  have I2: "0 < k \<Longrightarrow> I (seg ?b lo (cursor1 m)) (seg t 0 ?s) (?x # seg ?b ?d hi)"
    unfolding same acc tk [symmetric] using gallop_y_x [OF i k(3)] by simp
  let ?n = "m\<lparr>count2 := c, dest := dest m - c, cursor2 := cursor2 m - c, length2 := length2 m - c, arr := ?b\<rparr>"
  let ?p = "?n\<lparr>arr := ?b(dest m - c := ?x), dest := dest m - c - 1, cursor1 := cursor1 m - 1,
              length1 := length1 m - 1\<rparr>"
  define n1 p1 where "n1 = ?n" and "p1 = ?p"
  have nc: "n = (if c \<noteq> 0 \<and> k \<le> 1 then n1\<lparr>exit := True\<rparr>
                 else if length1 m = 1 then p1\<lparr>exit := True\<rparr> else p1\<lparr>gallop := gallop m - 1\<rparr>)"
    unfolding n c_def [symmetric] n1_def p1_def using c_def same(3)
    by (cases "c = 0") (simp_all add: high_after2_def Let_def copy_up_eq)
  have S1: "high_state I a t lo hi n1"
    using D(1,4,5,7,8,9) s(1,7) outside I1 by (simp add: high_state_def n1_def)
  have S2: "high_state I a t lo hi p1" if "0 < k"
  proof -
    have "seg (?b(dest m - c := ?x)) (dest m - c) hi = ?x # seg ?b ?d hi"
      using D(4) s(7) by (intro seg_upd_before) simp
    moreover have "seg (?b(dest m - c := ?x)) lo (cursor1 m) = seg ?b lo (cursor1 m)"
      using s(5) by simp
    moreover have "same_outside a (?b(dest m - c := ?x)) lo hi"
      using outside D(1,4) s(5,7) by (intro upd_outside) auto
    ultimately show ?thesis
      using D(1,4,5,7,8,9) s(1,7) I2 [OF that] by (simp add: high_state_def p1_def)
  qed
  have len: "length1 n1 = length1 m" "length2 n1 = k" "length1 p1 = length1 m - 1" "length2 p1 = k"
    "exit p1 = exit m"
    by (simp_all add: n1_def p1_def c_def)
  show ?thesis
  proof (cases "c \<noteq> 0 \<and> k \<le> 1")
    case True
    then show ?thesis using S1 len D(1,7) by (simp add: nc high_done_def)
  next
    case False
    then have "2 \<le> k" using D(2,8) k by (auto simp: c_def)
    then show ?thesis
      using False S2 len D(1,3,7) k(2) by (auto simp: nc high_done_def high_going_def rest_def)
  qed
qed

lemma high_gallop2_ok:
  assumes P: "high_going I a t lo hi m"
  shows "wp (high_gallop2 compare t m) E
    (\<lambda>n. if exit n then high_done I a t lo hi n else high_going I a t lo hi n \<and> rest n < rest m)"
  unfolding high_gallop2_def
proof (rule wp_seq [OF gallopLeft_wp], goal_cases)
  case (4 k)
  then show ?case using high_after2_ok [OF P, of k] by simp
qed (use high_goingD [OF P] in auto)

lemma high_loop: "merge_loop (high_going I a t lo hi) (high_done I a t lo hi) rest E
    (high_one compare t) (high_gallop1 compare t lo) (high_gallop2 compare t)"
  by unfold_locales
    (fact high_one_ok high_gallop1_ok high_gallop2_ok | simp add: high_defs)+

lemma high_last_ok:
  assumes "high_state I a t lo hi m" "length2 m = 1"
  shows "same_outside a (high_last t m) lo hi \<and> R (seg (high_last t m) lo hi)"
proof -
  have D: "0 \<le> length1 m" "length1 m = cursor1 m + 1 - lo" "cursor2 m = 0" "dest m = cursor1 m + 1" "dest m < hi"
    "same_outside a (arr m) lo hi"
    and i: "I (seg (arr m) lo (cursor1 m + 1)) (seg t 0 (cursor2 m + 1)) (seg (arr m) (dest m + 1) hi)"
    using assms unfolding high_state_def by auto
  have y: "seg t 0 (cursor2 m + 1) = [t (cursor2 m)]" using D(3) seg_single [of t 0] by simp
  let ?b = "copied (arr m) (lo + 1) (arr m) lo (length1 m)"
  have b: "high_last t m = ?b(lo := t (cursor2 m))"
    using D by (simp add: high_last_def Let_def move_down_eq)
  have "seg ?b (lo + 1) hi = seg (arr m) lo (lo + length1 m) @ seg (arr m) (lo + 1 + length1 m) hi"
    using D by (intro seg_copied_before) auto
  then have "seg (high_last t m) lo hi = t (cursor2 m) # seg (arr m) lo (cursor1 m + 1) @ seg (arr m) (dest m + 1) hi"
    using D by (simp add: b seg_upd_before)
  moreover have "same_outside a (high_last t m) lo hi"
    unfolding b using D by (intro upd_outside copied_outside) auto
  ultimately show ?thesis using last_y [OF i [unfolded y]] by simp
qed

lemma high_finish_ok:
  assumes "high_done I a t lo hi m"
  shows "wp (high_finish t m) E (\<lambda>b. same_outside a b lo hi \<and> R (seg b lo hi))"
proof -
  note D = assms [unfolded high_defs]
  consider (one) "length2 m = 1" | (none) "length2 m = 0" "1 \<le> length1 m" | (rest) "2 \<le> length2 m" "length1 m = 0"
    using D by fastforce
  then show ?thesis
  proof cases
    case one
    then show ?thesis using high_last_ok [of a t lo hi m] assms by (simp add: high_finish_def high_done_def)
  next
    case none
    have "I (seg (arr m) lo (cursor1 m) @ [arr m (cursor1 m)]) [] (seg (arr m) (dest m + 1) hi)"
      using D none seg_snoc [of lo "cursor1 m + 1" "arr m"] by auto
    then have E by (rule no_y)
    then show ?thesis by (simp add: high_finish_def none)
  next
    case rest
    have cur: "cursor1 m + 1 = lo" "dest m + 1 = lo + length2 m" "dest m < hi" "same_outside a (arr m) lo hi"
      and i: "I [] (seg t 0 (length2 m)) (seg (arr m) (dest m + 1) hi)"
      using D rest by auto
    let ?b = "copied (arr m) lo t 0 (length2 m)"
    have "seg ?b lo hi = seg t 0 (length2 m) @ seg (arr m) (dest m + 1) hi"
      using cur rest seg_copied_before [of "length2 m" lo hi "arr m" t 0] by simp
    moreover have "same_outside a ?b lo hi" using cur by (intro copied_outside) auto
    moreover have "dest m - (length2 m - 1) = lo" using cur by simp
    ultimately show ?thesis
      using rest rest_ys [OF i] by (simp add: high_finish_def copy_up_eq)
  qed
qed

lemma mergeHigh_wp:
  fixes ts :: "'a timsort" and start1 len1 len2 :: int
  defines "start2 \<equiv> start1 + len1"
  assumes len: "1 \<le> len1" "1 \<le> len2" "len1 + len2 \<le> 2147483648"
    and I: "I (seg (ts_array ts) start1 (start2 - 1)) (seg (ts_array ts) start2 (start2 + len2))
              [ts_array ts (start2 - 1)]"
  shows "wp (mergeHigh compare ts start1 len1 start2 len2) E (merged R ts start1 (start2 + len2))"
proof -
  let ?a = "ts_array ts" and ?hi = "start2 + len2"
  let ?t = "copied (tmp ts) 0 ?a start2 len2" and ?b = "?a(?hi - 1 := ?a (start2 - 1))"
  let ?m = "\<lparr>arr = ?b, cursor1 = start1 + len1 - 2, cursor2 = len2 - 1, dest = ?hi - 2, length1 = len1 - 1,
    length2 = len2, count1 = 0, count2 = 0, exit = False, gallop = minGallop ts\<rparr>"
  have t: "seg ?t 0 len2 = seg ?a start2 ?hi"
    using len seg_copied [of len2 "tmp ts" 0 ?a start2] by simp
  have acc: "seg ?b (?hi - 1) ?hi = [?a (start2 - 1)]"
    using seg_upd_before [of "?hi - 1" ?hi ?a] by simp
  have xs: "seg ?b start1 (start2 - 1) = seg ?a start1 (start2 - 1)" using len by simp
  have out: "same_outside ?a ?b start1 ?hi" using len by (intro upd_outside) (auto simp: start2_def)
  have st: "high_state I ?a ?t start1 ?hi ?m"
    using len I [folded t acc] out xs by (simp add: high_state_def start2_def add.assoc)
  have go: "wp (js_do (merge_turn (high_one compare ?t) (high_gallop1 compare ?t start1) (high_gallop2 compare ?t)) ?m)
      E (high_done I ?a ?t start1 ?hi)" if "len1 \<noteq> 1" "len2 \<noteq> 1"
    by (rule merge_loop.all_loops [OF high_loop]) (use st len that in \<open>simp add: high_going_def\<close>)
  have fin: "wp (high_finish ?t m) E (\<lambda>a. wp (js_return (ts\<lparr>tmp := ?t, ts_array := a, minGallop := g\<rparr>)) E
      (merged R ts start1 ?hi))" if "high_done I ?a ?t start1 ?hi m" for m g
    using high_finish_ok [OF that] by (rule wp_mono) (simp_all add: merged_def same_stack_def)
  consider (rest) "len1 = 1" | (one) "len2 = 1" "len1 \<noteq> 1" | (more) "len1 \<noteq> 1" "len2 \<noteq> 1" by blast
  then show ?thesis
  proof cases
    case rest
    let ?c = "copied ?b start1 ?t 0 len2"
    have e: "start1 + len2 = ?hi - 1" by (simp add: start2_def rest)
    have "seg ?c start1 ?hi = seg ?t 0 (0 + len2) @ seg ?b (start1 + len2) ?hi"
      using len rest by (intro seg_copied_before) (auto simp: start2_def)
    then have "seg ?c start1 ?hi = seg ?a start2 ?hi @ [?a (start2 - 1)]"
      unfolding e acc by (simp only: add_0 t)
    moreover have "I [] (seg ?a start2 ?hi) [?a (start2 - 1)]" using I rest by (simp add: start2_def)
    ultimately have "R (seg ?c start1 ?hi)" using rest_ys by (simp only:)
    moreover have "same_outside ?a ?c start1 ?hi" using len rest out by (intro copied_outside) (auto simp: start2_def)
    moreover have "?hi - 2 - (len2 - 1) = start1" by (simp add: start2_def rest)
    ultimately show ?thesis
      using rest by (simp add: mergeHigh_def Let_def copy_up_eq merged_def same_stack_def start2_def)
  next
    case one
    then have "same_outside ?a (high_last ?t ?m) start1 ?hi \<and> R (seg (high_last ?t ?m) start1 ?hi)"
      by (intro high_last_ok [OF st]) simp
    then show ?thesis
      using one len by (simp add: mergeHigh_def Let_def copy_up_eq merged_def same_stack_def start2_def)
  next
    case more
    have "mergeHigh compare ts start1 len1 start2 len2 =
      js_bind (js_do (merge_turn (high_one compare ?t) (high_gallop1 compare ?t start1) (high_gallop2 compare ?t)) ?m)
        (\<lambda>m. js_bind (high_finish ?t m) (\<lambda>a.
           js_return (ts\<lparr>tmp := ?t, ts_array := a, minGallop := max 1 (gallop m)\<rparr>)))"
      using more len by (simp add: mergeHigh_def Let_def copy_up_eq start2_def)
    then show ?thesis
      by (simp only:) (rule wp_seq [OF go [OF more]], rule wp_bind, rule fin)
  qed
qed

end

end
