(* ===== verification/TimProps.thy ===== *)
theory TimProps
  imports TimLow TimHigh
begin

text \<open>
  The merges satisfy their laws, \<^verbatim>\<open>mergeAt\<close> keeps the stack of runs well formed, and \<^verbatim>\<open>sort\<close> sorts: for
  every comparator it ends and, unless it throws, returns the same elements; for one that keeps the
  contract it does not throw and the result is the stable sort.
\<close>

section \<open>The invariants of the merges\<close>

text \<open>
  What \<^verbatim>\<open>mergeAt\<close> has made sure of: both runs ascend, the first element of the second run is below
  all of the first, the last of the first above all of the second.
\<close>

definition mergeable :: "'a compare \<Rightarrow> 'a list \<Rightarrow> 'a list \<Rightarrow> bool" where
  "mergeable compare X Y \<longleftrightarrow> total_comparator compare \<and> ascending compare X \<and> ascending compare Y \<and>
     X \<noteq> [] \<and> Y \<noteq> [] \<and> (\<forall>x\<in>set X. compare (hd Y) x = Neg) \<and> (\<forall>y\<in>set Y. compare y (last X) = Neg)"

definition merge_result :: "'a compare \<Rightarrow> 'a list \<Rightarrow> 'a list \<Rightarrow> 'a list \<Rightarrow> bool" where
  "merge_result compare X Y Z \<longleftrightarrow>
     mset Z = mset X + mset Y \<and> (mergeable compare X Y \<longrightarrow> Z = smerge compare X Y)"

definition low_inv :: "'a compare \<Rightarrow> 'a list \<Rightarrow> 'a list \<Rightarrow> 'a list \<Rightarrow> 'a list \<Rightarrow> 'a list \<Rightarrow> bool" where
  "low_inv compare X Y acc xs ys \<longleftrightarrow> mset acc + mset xs + mset ys = mset X + mset Y \<and>
     (mergeable compare X Y \<longrightarrow> acc @ smerge compare xs ys = smerge compare X Y \<and>
        ascending compare xs \<and> ascending compare ys \<and>
        (\<forall>y\<in>set ys. xs \<noteq> [] \<and> compare y (last xs) = Neg))"

definition high_inv :: "'a compare \<Rightarrow> 'a list \<Rightarrow> 'a list \<Rightarrow> 'a list \<Rightarrow> 'a list \<Rightarrow> 'a list \<Rightarrow> bool" where
  "high_inv compare X Y xs ys acc \<longleftrightarrow> mset xs + mset ys + mset acc = mset X + mset Y \<and>
     (mergeable compare X Y \<longrightarrow> smerge compare xs ys @ acc = smerge compare X Y \<and>
        ascending compare xs \<and> ascending compare ys \<and>
        (\<forall>x\<in>set xs. ys \<noteq> [] \<and> compare (hd ys) x = Neg))"

lemma mset_take_drop: "mset xs = mset (take k xs) + mset (drop k xs)"
  by (metis append_take_drop_id mset_append)

text \<open>Where the gallops stop in runs that are mergeable.\<close>

lemma right_stops:
  assumes "total_comparator compare" "ascending compare xs" "right_ok compare y xs k"
  shows "\<forall>x\<in>set (take k xs). le compare x y" "\<forall>x\<in>set (drop k xs). compare y x = Neg"
    "xs \<noteq> [] \<Longrightarrow> compare y (last xs) = Neg \<Longrightarrow> k < length xs"
    "xs \<noteq> [] \<Longrightarrow> le compare (hd xs) y \<Longrightarrow> 0 < k"
proof -
  show take: "\<forall>x\<in>set (take k xs). le compare x y" and drop: "\<forall>x\<in>set (drop k xs). compare y x = Neg"
    using assms by (auto simp: right_ok_def)
  show "k < length xs" if "xs \<noteq> []" "compare y (last xs) = Neg"
    using take that by (cases "length xs \<le> k") (auto simp: le_def)
  show "0 < k" if "xs \<noteq> []" "le compare (hd xs) y"
    using drop that by (cases "k = 0") (auto simp: le_def)
qed

lemma left_stops:
  assumes "total_comparator compare" "ascending compare xs" "left_ok compare v xs k"
  shows "\<forall>x\<in>set (take k xs). compare x v = Neg" "\<forall>x\<in>set (drop k xs). le compare v x"
    "xs \<noteq> [] \<Longrightarrow> compare (hd xs) v = Neg \<Longrightarrow> 0 < k"
proof -
  show take: "\<forall>x\<in>set (take k xs). compare x v = Neg" and drop: "\<forall>x\<in>set (drop k xs). le compare v x"
    using assms by (auto simp: left_ok_def)
  show "0 < k" if "xs \<noteq> []" "compare (hd xs) v = Neg"
    using drop that by (cases "k = 0") (auto simp: le_def)
qed

lemma mergeableD: "mergeable compare X Y \<Longrightarrow> total_comparator compare"
  by (simp add: mergeable_def)

lemma low_invI:
  assumes "mset acc + mset xs + mset ys = mset X + mset Y"
    and "mergeable compare X Y \<Longrightarrow> acc @ smerge compare xs ys = smerge compare X Y \<and>
        ascending compare xs \<and> ascending compare ys \<and> (\<forall>y\<in>set ys. xs \<noteq> [] \<and> compare y (last xs) = Neg)"
  shows "low_inv compare X Y acc xs ys"
  using assms by (simp add: low_inv_def)

lemma low_inv_gallop_x:
  assumes I: "low_inv compare X Y acc xs (y # ys)" and ok: "right_ok compare y xs k"
  shows "low_inv compare X Y (acc @ take k xs) (drop k xs) (y # ys)"
    "k < length xs \<Longrightarrow> low_inv compare X Y (acc @ take k xs @ [y]) (drop k xs) ys"
proof -
  have m: "mset acc + mset xs + mset (y # ys) = mset X + mset Y" using I by (simp add: low_inv_def)
  have *: "acc @ take k xs @ smerge compare (drop k xs) (y # ys) = smerge compare X Y \<and> k < length xs \<and>
      ascending compare (drop k xs) \<and> ascending compare (y # ys) \<and>
      (\<forall>z\<in>set (y # ys). compare z (last xs) = Neg) \<and> compare y (hd (drop k xs)) = Neg"
    if "mergeable compare X Y"
  proof -
    note J = I [unfolded low_inv_def, THEN conjunct2, rule_format, OF that]
    note st = right_stops [OF mergeableD [OF that] _ ok]
    have k: "k < length xs" using J st(3) by simp
    then have "hd (drop k xs) \<in> set (drop k xs)" by simp
    then show ?thesis
      using J k st(1,2) smerge_take_left [of "take k xs" compare y "drop k xs" ys] by (simp add: append_assoc)
  qed
  show "low_inv compare X Y (acc @ take k xs) (drop k xs) (y # ys)"
    by (rule low_invI) (use m * mset_take_drop [of xs k] in \<open>auto simp: ac_simps\<close>)
  show "low_inv compare X Y (acc @ take k xs @ [y]) (drop k xs) ys" if k: "k < length xs"
  proof (rule low_invI, goal_cases)
    case 2
    obtain z zs where "drop k xs = z # zs" using k by (cases "drop k xs") auto
    then show ?case using * [OF 2] by (auto simp: last_drop [symmetric])
  qed (use m mset_take_drop [of xs k] in \<open>auto simp: ac_simps\<close>)
qed

lemma low_inv_gallop_y:
  assumes I: "low_inv compare X Y acc (x # xs) ys" and ok: "left_ok compare x ys k"
  shows "low_inv compare X Y (acc @ take k ys) (x # xs) (drop k ys)"
    "k < length ys \<Longrightarrow> low_inv compare X Y (acc @ take k ys @ [x]) xs (drop k ys)"
proof -
  have m: "mset acc + mset (x # xs) + mset ys = mset X + mset Y" using I by (simp add: low_inv_def)
  have *: "acc @ take k ys @ smerge compare (x # xs) (drop k ys) = smerge compare X Y \<and>
      ascending compare (x # xs) \<and> ascending compare (drop k ys) \<and>
      (\<forall>y\<in>set (drop k ys). compare y (last (x # xs)) = Neg \<and> compare y x \<noteq> Neg)"
    if "mergeable compare X Y"
  proof -
    note J = I [unfolded low_inv_def, THEN conjunct2, rule_format, OF that]
    note st = left_stops [OF mergeableD [OF that] _ ok]
    have "\<forall>y\<in>set (drop k ys). compare y (last (x # xs)) = Neg" using J in_set_dropD by fast
    moreover have "\<forall>y\<in>set (drop k ys). compare y x \<noteq> Neg" using J st(2) by (simp add: le_def)
    moreover have "smerge compare (x # xs) ys = take k ys @ smerge compare (x # xs) (drop k ys)"
      using J st(1) smerge_take_right [of "take k ys" compare x xs "drop k ys"] by simp
    ultimately show ?thesis using J by auto
  qed
  show "low_inv compare X Y (acc @ take k ys) (x # xs) (drop k ys)"
    by (rule low_invI) (use m * mset_take_drop [of ys k] in \<open>auto simp: ac_simps\<close>)
  show "low_inv compare X Y (acc @ take k ys @ [x]) xs (drop k ys)" if k: "k < length ys"
  proof (rule low_invI, goal_cases)
    case 2
    obtain z zs where z: "drop k ys = z # zs" using k by (cases "drop k ys") auto
    then have "xs \<noteq> []" using * [OF 2] by (cases xs) auto
    then show ?case using * [OF 2] z by (auto split: if_splits)
  qed (use m mset_take_drop [of ys k] in \<open>auto simp: ac_simps\<close>)
qed

interpretation low: low_laws compare "low_inv compare X Y" "merge_result compare X Y"
  "\<not> mergeable compare X Y" for compare X Y
proof (unfold_locales, goal_cases)
  case (1 acc x xs y ys)
  then show ?case by (auto simp: low_inv_def add_mset_commute)
next
  case (2 acc x xs y ys)
  then show ?case by (auto simp: low_inv_def add_mset_commute split: if_splits)
next
  case (7 acc x ys)
  then show ?case
    using smerge_take_right [of ys compare x "[]" "[]"] by (auto simp: low_inv_def merge_result_def)
next
  case (9 acc y ys)
  then show ?case by (auto simp: low_inv_def)
next
  case (8 acc xs)
  then show ?case by (auto simp: low_inv_def merge_result_def)
qed (simp_all add: low_inv_gallop_x low_inv_gallop_y)

lemma high_invI:
  assumes "mset xs + mset ys + mset acc = mset X + mset Y"
    and "mergeable compare X Y \<Longrightarrow> smerge compare xs ys @ acc = smerge compare X Y \<and>
        ascending compare xs \<and> ascending compare ys \<and> (\<forall>x\<in>set xs. ys \<noteq> [] \<and> compare (hd ys) x = Neg)"
  shows "high_inv compare X Y xs ys acc"
  using assms by (simp add: high_inv_def)

lemma high_inv_gallop_x:
  assumes I: "high_inv compare X Y xs (ys @ [y]) acc" and ok: "right_ok compare y xs k"
  shows "high_inv compare X Y (take k xs) (ys @ [y]) (drop k xs @ acc)"
    "high_inv compare X Y (take k xs) ys (y # drop k xs @ acc)"
proof -
  have m: "mset xs + mset (ys @ [y]) + mset acc = mset X + mset Y" using I by (simp add: high_inv_def)
  have *: "smerge compare (take k xs) (ys @ [y]) @ drop k xs @ acc = smerge compare X Y \<and>
      smerge compare (take k xs) (ys @ [y]) = smerge compare (take k xs) ys @ [y] \<and>
      ascending compare xs \<and> ascending compare (ys @ [y]) \<and> (\<forall>x\<in>set xs. compare (hd (ys @ [y])) x = Neg) \<and>
      (\<forall>x\<in>set (take k xs). ys \<noteq> [])"
    if "mergeable compare X Y"
  proof -
    note J = I [unfolded high_inv_def, THEN conjunct2, rule_format, OF that]
    note st = right_stops [OF mergeableD [OF that] _ ok]
    have "le compare z y" if "z \<in> set (ys @ [y])" for z
      using that J total_comparator.le_refl [OF mergeableD [OF \<open>mergeable compare X Y\<close>]]
      by (auto simp: ascending_append)
    then have "\<forall>z\<in>set (ys @ [y]). \<forall>x\<in>set (drop k xs). compare z x = Neg"
      using J st(2) total_comparator.le_less_trans [OF mergeableD [OF that]] by blast
    then have "smerge compare (take k xs @ drop k xs) (ys @ [y]) = smerge compare (take k xs) (ys @ [y]) @ drop k xs"
      by (rule smerge_append_left)
    moreover have "smerge compare (take k xs) (ys @ [y]) = smerge compare (take k xs) ys @ [y]"
      using st(1) J by (intro smerge_snoc_right) auto
    moreover have "\<forall>x\<in>set (take k xs). ys \<noteq> []"
    proof (cases ys)
      case Nil
      then have "\<forall>x\<in>set (take k xs). compare y x = Neg" using J in_set_takeD by fastforce
      then show ?thesis using st(1) J by (auto simp: le_def)
    qed simp
    ultimately show ?thesis using J by auto
  qed
  show "high_inv compare X Y (take k xs) (ys @ [y]) (drop k xs @ acc)"
    by (rule high_invI) (use m * mset_take_drop [of xs k] in \<open>auto simp: ac_simps dest: in_set_takeD\<close>)
  show "high_inv compare X Y (take k xs) ys (y # drop k xs @ acc)"
    by (rule high_invI) (use m * mset_take_drop [of xs k] in
        \<open>auto simp: ac_simps ascending_append hd_append dest: in_set_takeD split: if_splits\<close>)
qed

lemma high_inv_gallop_y:
  assumes I: "high_inv compare X Y (xs @ [x]) ys acc" and ok: "left_ok compare x ys k"
  shows "high_inv compare X Y (xs @ [x]) (take k ys) (drop k ys @ acc)"
    "high_inv compare X Y xs (take k ys) (x # drop k ys @ acc)"
proof -
  have m: "mset (xs @ [x]) + mset ys + mset acc = mset X + mset Y" using I by (simp add: high_inv_def)
  have *: "smerge compare (xs @ [x]) (take k ys) @ drop k ys @ acc = smerge compare X Y \<and>
      smerge compare (xs @ [x]) (take k ys) = smerge compare xs (take k ys) @ [x] \<and>
      ascending compare (xs @ [x]) \<and> ascending compare (take k ys) \<and> take k ys \<noteq> [] \<and>
      (\<forall>z\<in>set (xs @ [x]). compare (hd (take k ys)) z = Neg)"
    if "mergeable compare X Y"
  proof -
    note J = I [unfolded high_inv_def, THEN conjunct2, rule_format, OF that]
    note st = left_stops [OF mergeableD [OF that] _ ok]
    have k: "0 < k" "ys \<noteq> []" using st(3) J by auto
    have "le compare z x" if "z \<in> set (xs @ [x])" for z
      using that J total_comparator.le_refl [OF mergeableD [OF \<open>mergeable compare X Y\<close>]]
      by (auto simp: ascending_append)
    then have "\<forall>z\<in>set (xs @ [x]). \<forall>y\<in>set (drop k ys). le compare z y"
      using J st(2) total_comparator.le_trans [OF mergeableD [OF that]] by blast
    then have "smerge compare (xs @ [x]) (take k ys @ drop k ys) = smerge compare (xs @ [x]) (take k ys) @ drop k ys"
      by (rule smerge_append_right)
    moreover have "smerge compare (xs @ [x]) (take k ys) = smerge compare xs (take k ys) @ [x]"
      using st(1) J by (intro smerge_snoc_left) auto
    ultimately show ?thesis using J k by auto
  qed
  show "high_inv compare X Y (xs @ [x]) (take k ys) (drop k ys @ acc)"
    by (rule high_invI) (use m * mset_take_drop [of ys k] in \<open>auto simp: ac_simps\<close>)
  show "high_inv compare X Y xs (take k ys) (x # drop k ys @ acc)"
    by (rule high_invI) (use m * mset_take_drop [of ys k] in \<open>auto simp: ac_simps ascending_append\<close>)
qed

lemma high_inv_take_x:
  assumes I: "high_inv compare X Y (xs @ [x]) (ys @ [y]) acc" and lt: "compare y x = Neg"
  shows "high_inv compare X Y xs (ys @ [y]) (x # acc)"
proof (rule high_invI, goal_cases)
  case 2
  note J = I [unfolded high_inv_def, THEN conjunct2, rule_format, OF 2]
  have "\<forall>z\<in>set (ys @ [y]). compare z x = Neg"
    using J lt total_comparator.le_less_trans [OF mergeableD [OF 2], of _ y x] by (auto simp: ascending_append)
  then have "smerge compare (xs @ [x]) (ys @ [y]) = smerge compare xs (ys @ [y]) @ [x]"
    by (rule smerge_snoc_left)
  then show ?case using J by (auto simp: ascending_append)
qed (use I in \<open>auto simp: high_inv_def ac_simps add_mset_commute\<close>)

lemma high_inv_take_y:
  assumes I: "high_inv compare X Y (xs @ [x]) (ys @ [y]) acc" and lt: "compare y x \<noteq> Neg"
  shows "high_inv compare X Y (xs @ [x]) ys (y # acc)"
proof (rule high_invI, goal_cases)
  case 2
  note J = I [unfolded high_inv_def, THEN conjunct2, rule_format, OF 2]
  have "le compare x y" using lt by (simp add: le_def)
  then have "\<forall>z\<in>set (xs @ [x]). le compare z y"
    using J total_comparator.le_trans [OF mergeableD [OF 2], of _ x y] by (auto simp: ascending_append)
  then have "smerge compare (xs @ [x]) (ys @ [y]) = smerge compare (xs @ [x]) ys @ [y]"
    by (rule smerge_snoc_right)
  moreover have "ys \<noteq> []" using J lt by auto
  ultimately show ?case using J by (auto simp: ascending_append)
qed (use I in \<open>auto simp: high_inv_def ac_simps add_mset_commute\<close>)

interpretation high: high_laws compare "high_inv compare X Y" "merge_result compare X Y"
  "\<not> mergeable compare X Y" for compare X Y
proof (unfold_locales, goal_cases)
  case (7 xs y acc)
  have "smerge compare xs [y] = y # xs" if "\<forall>x\<in>set xs. compare y x = Neg"
    using that by (cases xs) auto
  then show ?case using 7 by (auto simp: high_inv_def merge_result_def)
next
  case (8 ys acc)
  then show ?case by (auto simp: high_inv_def merge_result_def)
next
  case (9 xs x acc)
  then show ?case by (auto simp: high_inv_def)
qed (simp_all add: high_inv_take_x high_inv_take_y high_inv_gallop_x high_inv_gallop_y)

text \<open>Both merges, started on the two runs.\<close>

lemma low_inv_start:
  "Y \<noteq> [] \<Longrightarrow> low_inv compare X Y [hd Y] X (tl Y)"
  by (cases X; cases Y) (auto simp: low_inv_def mergeable_def)

lemma high_inv_start:
  assumes "X \<noteq> []" shows "high_inv compare X Y (butlast X) Y [last X]"
proof (rule high_invI, goal_cases)
  case 1
  then show ?case using assms by (metis add.assoc add.commute append_butlast_last_id mset_append)
next
  case 2
  have X: "X = butlast X @ [last X]" using assms by simp
  have "smerge compare (butlast X @ [last X]) Y = smerge compare (butlast X) Y @ [last X]"
    using 2 by (intro smerge_snoc_left) (simp add: mergeable_def)
  then show ?case using 2 X unfolding mergeable_def by (metis ascending_append in_set_butlastD)
qed

lemma mergeLow_ok:
  fixes ts :: "'a timsort" and start1 len1 len2 :: int
  defines "X \<equiv> seg (ts_array ts) start1 (start1 + len1)"
    and "Y \<equiv> seg (ts_array ts) (start1 + len1) (start1 + len1 + len2)"
  assumes "1 \<le> len1" "1 \<le> len2" "len1 + len2 \<le> 2147483648"
  shows "wp (mergeLow compare ts start1 len1 (start1 + len1) len2) (\<not> mergeable compare X Y)
           (merged (merge_result compare X Y) ts start1 (start1 + len1 + len2))"
proof (rule low.mergeLow_wp)
  have "Y = ts_array ts (start1 + len1) # seg (ts_array ts) (start1 + len1 + 1) (start1 + len1 + len2)"
    unfolding Y_def using assms by (intro seg_Cons) simp
  then show "low_inv compare X Y [ts_array ts (start1 + len1)] (seg (ts_array ts) start1 (start1 + len1))
      (seg (ts_array ts) (start1 + len1 + 1) (start1 + len1 + len2))"
    using low_inv_start [of Y compare X] by (simp add: X_def)
qed (use assms in simp_all)

lemma mergeHigh_ok:
  fixes ts :: "'a timsort" and start1 len1 len2 :: int
  defines "X \<equiv> seg (ts_array ts) start1 (start1 + len1)"
    and "Y \<equiv> seg (ts_array ts) (start1 + len1) (start1 + len1 + len2)"
  assumes "1 \<le> len1" "1 \<le> len2" "len1 + len2 \<le> 2147483648"
  shows "wp (mergeHigh compare ts start1 len1 (start1 + len1) len2) (\<not> mergeable compare X Y)
           (merged (merge_result compare X Y) ts start1 (start1 + len1 + len2))"
proof (rule high.mergeHigh_wp)
  have "X = seg (ts_array ts) start1 (start1 + len1 - 1) @ [ts_array ts (start1 + len1 - 1)]"
    unfolding X_def using assms by (intro seg_snoc) simp
  then show "high_inv compare X Y (seg (ts_array ts) start1 (start1 + len1 - 1))
      (seg (ts_array ts) (start1 + len1) (start1 + len1 + len2)) [ts_array ts (start1 + len1 - 1)]"
    using high_inv_start [of X compare Y] by (simp add: Y_def)
qed (use assms in simp_all)

end
