(* ===== verification/TimStack.thy ===== *)
theory TimStack
  imports TimProps
begin

text \<open>
  The stack of runs: \<^verbatim>\<open>mergeAt\<close>, \<^verbatim>\<open>mergeRuns\<close> and \<^verbatim>\<open>forceMergeRuns\<close> keep it well formed, and
  \<^verbatim>\<open>sort\<close> is a stable sort.
\<close>

section \<open>Trimming before a merge\<close>

lemma trim_mergeable:
  assumes t: "total_comparator compare" and asc: "ascending compare X" "ascending compare Y"
    and ne: "X \<noteq> []" "Y \<noteq> []"
    and k: "right_ok compare (hd Y) X k" "k < length X" and m: "left_ok compare (last X) Y m" "0 < m"
  shows "mergeable compare (drop k X) (take m Y)"
  using right_stops(2) [OF t asc(1) k(1)] left_stops(1) [OF t asc(2) m(1)] assms
  by (auto simp: mergeable_def)

lemma ascending_le_last: "total_comparator compare \<Longrightarrow> ascending compare X \<Longrightarrow> x \<in> set X \<Longrightarrow> le compare x (last X)"
  by (induction X) (auto simp: total_comparator.le_refl)

lemma ascending_hd_le: "total_comparator compare \<Longrightarrow> ascending compare X \<Longrightarrow> x \<in> set X \<Longrightarrow> le compare (hd X) x"
  by (cases X) (auto simp: total_comparator.le_refl)

lemma trim_ascending:
  assumes t: "total_comparator compare" and asc: "ascending compare X" "ascending compare Y"
    and k: "right_ok compare (hd Y) X k" and m: "left_ok compare (last X) Y m"
  shows "ascending compare (take k X @ smerge compare (drop k X) (take m Y) @ drop m Y)"
proof -
  note tr = total_comparator.le_trans [OF t]
  have "ascending compare (take k X @ drop k X)" "ascending compare (take m Y @ drop m Y)"
    using asc by simp_all
  then have 3: "\<forall>x\<in>set (take k X). \<forall>y\<in>set (drop k X). le compare x y"
    "\<forall>x\<in>set (take m Y). \<forall>y\<in>set (drop m Y). le compare x y"
    unfolding ascending_append by simp_all
  have 1: "le compare x y" if "x \<in> set (take k X)" "y \<in> set Y" for x y
    using that right_stops(1) [OF t asc(1) k] ascending_hd_le [OF t asc(2), of y] tr [of x "hd Y" y] by blast
  have 2: "le compare x y" if "x \<in> set X" "y \<in> set (drop m Y)" for x y
    using that left_stops(2) [OF t asc(2) m] ascending_le_last [OF t asc(1), of x] tr [of x "last X" y] by blast
  show ?thesis
    using asc 1 2 3 ascending_smerge [OF t, of "drop k X" "take m Y"]
    by (auto simp: ascending_append dest: in_set_takeD in_set_dropD)
qed

text \<open>Runs that need no merge: one of the gallops found nothing to do.\<close>

lemma trim_none:
  assumes t: "total_comparator compare" and asc: "ascending compare X" "ascending compare Y"
    and "right_ok compare (hd Y) X (length X) \<or> left_ok compare (last X) Y 0"
  shows "ascending compare (X @ Y)"
proof (cases "right_ok compare (hd Y) X (length X)")
  case True
  have "le compare x y" if "x \<in> set X" "y \<in> set Y" for x y
    using that right_stops(1) [OF t asc(1) True] ascending_hd_le [OF t asc(2), of y]
      total_comparator.le_trans [OF t, of x "hd Y" y] by auto
  then show ?thesis using asc by (simp add: ascending_append)
next
  case False
  then have "left_ok compare (last X) Y 0" using assms(4) by simp
  then have "le compare x y" if "x \<in> set X" "y \<in> set Y" for x y
    using that left_stops(2) [OF t asc(2)] ascending_le_last [OF t asc(1), of x]
      total_comparator.le_trans [OF t, of x "last X" y] by fastforce
  then show ?thesis using asc by (simp add: ascending_append)
qed

section \<open>One merge of the stack\<close>

text \<open>The merging part of \<^verbatim>\<open>mergeAt\<close>, after it has updated the stack.\<close>

definition merge_runs_at :: "'a compare \<Rightarrow> 'a timsort \<Rightarrow> int \<Rightarrow> int \<Rightarrow> int \<Rightarrow> 'a timsort comp" where
  "merge_runs_at compare ts start1 len1 len2 =
     (let start2 = start1 + len1 in
      js_bind (gallopRight (ts_array ts start2) (ts_array ts) start1 len1 0 compare) (\<lambda>k.
      let start1 = start1 + k; len1 = len1 - k in
      if len1 = 0 then js_return ts
      else js_bind (gallopLeft (ts_array ts (start1 + len1 - 1)) (ts_array ts) start2 len2 (len2 - 1)
                      compare) (\<lambda>len2.
        if len2 = 0 then js_return ts
        else if len1 \<le> len2 then mergeLow compare ts start1 len1 start2 len2
        else mergeHigh compare ts start1 len1 start2 len2)))"

text \<open>The two stretches, merged.\<close>

definition joined :: "'a compare \<Rightarrow> 'a timsort \<Rightarrow> int \<Rightarrow> int \<Rightarrow> 'a timsort \<Rightarrow> bool" where
  "joined compare s lo hi t \<longleftrightarrow> same_stack s t \<and> same_outside (ts_array s) (ts_array t) lo hi \<and>
     rearranged compare (seg (ts_array s) lo hi) (seg (ts_array t) lo hi) \<and>
     ordered compare (seg (ts_array t) lo hi)"

lemma joined_merge:
  assumes XY: "ordered compare X" "ordered compare Y"
    and X: "X = seg (ts_array ts) lo mid" and Y: "Y = seg (ts_array ts) mid hi"
    and k: "0 \<le> k" "lo + k < mid" "right_ok compare (hd Y) X (nat k)"
    and m: "0 < m" "mid + m \<le> hi" "left_ok compare (last X) Y (nat m)"
    and merged: "merged (merge_result compare (drop (nat k) X) (take (nat m) Y)) ts (lo + k) (mid + m) t"
  shows "joined compare ts lo hi t"
proof -
  let ?a = "ts_array ts" and ?b = "ts_array t" and ?X2 = "drop (nat k) X" and ?Y1 = "take (nat m) Y"
  let ?Z = "seg ?b (lo + k) (mid + m)"
  have mg: "same_stack ts t" "same_outside ?a ?b (lo + k) (mid + m)" "mset ?Z = mset ?X2 + mset ?Y1"
    "mergeable compare ?X2 ?Y1 \<Longrightarrow> ?Z = smerge compare ?X2 ?Y1"
    using merged by (auto simp: merged_def merge_result_def)
  have Z: "?Z = smerge compare ?X2 ?Y1" if "total_comparator compare"
    by (rule mg(4), rule trim_mergeable) (use that XY X Y k m in \<open>auto simp: ordered_def\<close>)
  have "seg ?b lo hi = seg ?b lo (lo + k) @ ?Z @ seg ?b (mid + m) hi"
    using k m seg_split [of lo "lo + k" hi ?b] seg_split [of "lo + k" "mid + m" hi ?b] by simp
  also have "seg ?b lo (lo + k) = take (nat k) X"
    unfolding X using same_outside_seg [OF mg(2)] k seg_take [of k mid lo ?a] by simp
  also have "seg ?b (mid + m) hi = drop (nat m) Y"
    unfolding Y using same_outside_seg [OF mg(2)] m seg_drop [of m hi mid ?a] by simp
  finally have b: "seg ?b lo hi = take (nat k) X @ ?Z @ drop (nat m) Y" .
  have a: "seg ?a lo hi = take (nat k) X @ (?X2 @ ?Y1) @ drop (nat m) Y"
    using k m seg_split [of lo mid hi ?a] by (simp add: X Y)
  have "rearranged compare (?X2 @ ?Y1) ?Z"
  proof (cases "total_comparator compare")
    case True
    then show ?thesis using XY by (simp add: Z rearranged_smerge ordered_def)
  qed (simp add: rearranged_def mg(3))
  then have "rearranged compare (seg ?a lo hi) (seg ?b lo hi)"
    unfolding a b by (intro rearranged_append rearranged_refl)
  moreover have "ordered compare (seg ?b lo hi)"
    using XY k m trim_ascending [of compare X Y "nat k" "nat m"] by (simp add: b Z ordered_def)
  ultimately show ?thesis
    using mg k m same_outside_mono [OF mg(2), of lo hi] by (simp add: joined_def)
qed

lemma merge_runs_at_wp:
  fixes ts :: "'a timsort" and start1 len1 len2 :: int
  defines "lo \<equiv> start1" and "hi \<equiv> start1 + len1 + len2"
  assumes len: "1 \<le> len1" "1 \<le> len2" "len1 + len2 \<le> 2147483648"
    and X: "ordered compare (seg (ts_array ts) start1 (start1 + len1))"
    and Y: "ordered compare (seg (ts_array ts) (start1 + len1) (start1 + len1 + len2))"
  shows "wp (merge_runs_at compare ts start1 len1 len2) (\<not> total_comparator compare) (joined compare ts lo hi)"
proof -
  let ?a = "ts_array ts" and ?s2 = "start1 + len1"
  let ?X = "seg ?a start1 ?s2" and ?Y = "seg ?a ?s2 (?s2 + len2)"
  have hdY: "hd ?Y = ?a ?s2" using seg_Cons [of ?s2 "?s2 + len2" ?a] len by simp
  have lastX: "last ?X = ?a (?s2 - 1)" using seg_snoc [of start1 ?s2 ?a] len by simp
  have none: "joined compare ts lo hi ts"
    if "right_ok compare (hd ?Y) ?X (length ?X) \<or> left_ok compare (last ?X) ?Y 0"
  proof -
    have "ordered compare (?X @ ?Y)" using trim_none [OF _ _ _ that] X Y by (simp add: ordered_def)
    then show ?thesis using seg_split [of start1 ?s2 hi ?a] len by (simp add: joined_def same_stack_def lo_def hi_def)
  qed
  show ?thesis
    unfolding merge_runs_at_def Let_def
  proof (rule wp_seq [OF gallopRight_wp], goal_cases)
    case (4 k)
    then have k: "0 \<le> k" "k \<le> len1" "right_ok compare (hd ?Y) ?X (nat k)" by (auto simp: hdY)
    show ?case
    proof (rule wp_if)
      assume "len1 - k = 0"
      then show "wp (js_return ts) (\<not> total_comparator compare) (joined compare ts lo hi)"
        using none k by simp
    next
      assume "len1 - k \<noteq> 0"
      then have k1: "k < len1" using k by simp
      show "wp (js_bind (gallopLeft (?a (start1 + k + (len1 - k) - 1)) ?a ?s2 len2 (len2 - 1) compare) (\<lambda>len2.
        if len2 = 0 then js_return ts
        else if len1 - k \<le> len2 then mergeLow compare ts (start1 + k) (len1 - k) ?s2 len2
        else mergeHigh compare ts (start1 + k) (len1 - k) ?s2 len2)) (\<not> total_comparator compare) (joined compare ts lo hi)"
      proof (rule wp_seq [OF gallopLeft_wp], goal_cases)
        case (4 m)
        then have m: "0 \<le> m" "m \<le> len2" "left_ok compare (last ?X) ?Y (nat m)" by (auto simp: lastX)
        show ?case
        proof (cases "m = 0")
          case True
          then show ?thesis using none m by simp
        next
          case False
          let ?X2 = "seg ?a (start1 + k) ?s2" and ?Y1 = "seg ?a ?s2 (?s2 + m)"
          have XY: "?X2 = drop (nat k) ?X" "?Y1 = take (nat m) ?Y"
            using k k1 m seg_drop [of k ?s2 start1 ?a] seg_take [of m "?s2 + len2" ?s2 ?a] by simp_all
          have fin: "joined compare ts lo hi t"
            if "merged (merge_result compare ?X2 ?Y1) ts (start1 + k) (?s2 + m) t" for t
            unfolding lo_def hi_def
            by (rule joined_merge [OF X Y refl refl, where k = k and m = m])
              (use that False k k1 m in \<open>auto simp: XY\<close>)
          have thr: "\<not> mergeable compare ?X2 ?Y1 \<Longrightarrow> \<not> total_comparator compare"
            unfolding XY using trim_mergeable [of compare ?X ?Y "nat k" "nat m"] False X Y k k1 m len
            by (auto simp: ordered_def)
          have "len1 - k + m \<le> 2147483648" using k m len by simp
          then show ?thesis
            using False k1 m mergeLow_ok [where ?len1.0 = "len1 - k" and ?len2.0 = m and ts = ts and ?start1.0 = "start1 + k" and compare = compare]
              mergeHigh_ok [where ?len1.0 = "len1 - k" and ?len2.0 = m and ts = ts and ?start1.0 = "start1 + k" and compare = compare]
            by (auto intro: wp_mono [OF _ fin thr])
        qed
      qed (use len in auto)
    qed
  qed (use len in auto)
qed

lemma mergeAt_eq:
  "runStart ts (i + 1) = runStart ts i + runLength ts i \<Longrightarrow> mergeAt compare ts i =
     merge_runs_at compare (joinRuns ts i) (runStart ts i) (runLength ts i) (runLength ts (i + 1))"
  by (simp add: mergeAt_def merge_runs_at_def Let_def)

text \<open>
  A well-formed stack: its runs are not empty, in order, and follow each other from \<open>base\<close> to
  \<open>upper\<close>.
\<close>

definition stack_ok :: "'a compare \<Rightarrow> 'a timsort \<Rightarrow> int \<Rightarrow> int \<Rightarrow> bool" where
  "stack_ok compare ts base upper \<longleftrightarrow> 0 \<le> stackSize ts \<and>
     (if stackSize ts = 0 then base = upper else runStart ts 0 = base) \<and>
     (\<forall>i. 0 \<le> i \<and> i < stackSize ts \<longrightarrow>
        1 \<le> runLength ts i \<and> base \<le> runStart ts i \<and> runStart ts i + runLength ts i \<le> upper \<and>
        runStart ts i + runLength ts i = (if i + 1 < stackSize ts then runStart ts (i + 1) else upper) \<and>
        ordered compare (seg (ts_array ts) (runStart ts i) (runStart ts i + runLength ts i)))"

lemma stack_okD:
  assumes "stack_ok compare ts base upper" "0 \<le> i" "i < stackSize ts"
  shows "1 \<le> runLength ts i" "base \<le> runStart ts i" "runStart ts i + runLength ts i \<le> upper"
    "i + 1 < stackSize ts \<Longrightarrow> runStart ts (i + 1) = runStart ts i + runLength ts i"
    "i + 1 = stackSize ts \<Longrightarrow> runStart ts i + runLength ts i = upper"
    "ordered compare (seg (ts_array ts) (runStart ts i) (runStart ts i + runLength ts i))"
  using assms by (auto simp: stack_ok_def)

text \<open>Runs below a run end where it starts, or before.\<close>

lemma stack_below:
  assumes "stack_ok compare ts base upper" "0 \<le> i" "i < j" "j < stackSize ts"
  shows "runStart ts i + runLength ts i \<le> runStart ts j"
  using assms(3,4)
proof (induction j rule: int_gr_induct)
  case base
  then show ?case using stack_okD(4) [OF assms(1,2)] by simp
next
  case (step j)
  then show ?case
    using stack_okD(1,4) [OF assms(1), of j] assms(2) by simp
qed

lemma joinRuns_simps [simp]:
  "ts_array (joinRuns ts i) = ts_array ts" "stackSize (joinRuns ts i) = stackSize ts - 1"
  "j \<noteq> i + 1 \<Longrightarrow> runStart (joinRuns ts i) j = runStart ts j"
  "i = stackSize ts - 3 \<Longrightarrow> runStart (joinRuns ts i) (i + 1) = runStart ts (i + 2)"
  "j \<noteq> i \<Longrightarrow> j \<noteq> i + 1 \<Longrightarrow> runLength (joinRuns ts i) j = runLength ts j"
  "runLength (joinRuns ts i) i = runLength ts i + runLength ts (i + 1)"
  "i = stackSize ts - 3 \<Longrightarrow> runLength (joinRuns ts i) (i + 1) = runLength ts (i + 2)"
  by (simp_all add: joinRuns_def Let_def)

text \<open>The stack after runs \<open>i\<close> and \<open>i + 1\<close> have been joined and their stretch put in order.\<close>

lemma stack_ok_join:
  assumes ok: "stack_ok compare ts base upper"
    and i: "0 \<le> i" "i = stackSize ts - 2 \<or> i = stackSize ts - 3"
    and e: "e = runStart ts i + runLength ts i + runLength ts (i + 1)"
    and t: "same_stack (joinRuns ts i) t" "same_outside (ts_array ts) (ts_array t) (runStart ts i) e"
      "ordered compare (seg (ts_array t) (runStart ts i) e)"
  shows "stack_ok compare t base upper" "e \<le> upper"
proof -
  note D = stack_okD [OF ok]
  have lt: "i < stackSize ts" "0 \<le> i + 1" "i + 1 < stackSize ts" using i by auto
  note A = D [OF i(1) lt(1)] and B = D [OF lt(2,3)]
  have s2: "runStart ts (i + 1) = runStart ts i + runLength ts i" using A(4) lt(3) by simp
  have stack: "runStart t = runStart (joinRuns ts i)" "runLength t = runLength (joinRuns ts i)"
    "stackSize t = stackSize ts - 1"
    using t(1) by (auto simp: same_stack_def)
  show upper: "e \<le> upper" using B(3) by (simp add: e s2)
  have "1 \<le> runLength t j \<and> base \<le> runStart t j \<and> runStart t j + runLength t j \<le> upper \<and>
      runStart t j + runLength t j = (if j + 1 < stackSize t then runStart t (j + 1) else upper) \<and>
      ordered compare (seg (ts_array t) (runStart t j) (runStart t j + runLength t j))"
    if j: "0 \<le> j" "j < stackSize t" for j
  proof -
    consider (below) "j < i" | (at) "j = i" | (above) "j = i + 1" "i = stackSize ts - 3"
      using j i by (fastforce simp: stack)
    then show ?thesis
    proof cases
      case below
      then have b: "j < stackSize ts" using lt by simp
      have "runStart ts j + runLength ts j \<le> runStart ts i" using stack_below [OF ok j(1) below lt(1)] .
      then have "seg (ts_array t) (runStart ts j) (runStart ts j + runLength ts j) =
          seg (ts_array ts) (runStart ts j) (runStart ts j + runLength ts j)"
        using same_outside_seg [OF t(2)] by simp
      then show ?thesis using D [OF j(1) b] below i by (auto simp: stack)
    next
      case at
      have n: "runStart ts i + (runLength ts i + runLength ts (i + 1)) = e" by (simp add: e)
      have "e = (if i + 1 < stackSize ts - 1 then runStart (joinRuns ts i) (i + 1) else upper)"
      proof (cases "i = stackSize ts - 3")
        case True
        have "runStart ts (i + 2) = e" using B(4) True s2 by (simp add: e)
        then show ?thesis unfolding joinRuns_simps(4) [OF True] using True by simp
      next
        case False
        then show ?thesis using i B(5) s2 by (simp add: e add.assoc)
      qed
      then show ?thesis using A(1,2) B(1) t(3) upper by (simp add: at stack n)
    next
      case above
      have k: "0 \<le> i + 2" "i + 2 < stackSize ts" using above i by auto
      have "e = runStart ts (i + 2)" using B(4) k by (simp add: e s2 add.commute [of 2])
      then have "seg (ts_array t) (runStart ts (i + 2)) (runStart ts (i + 2) + runLength ts (i + 2)) =
          seg (ts_array ts) (runStart ts (i + 2)) (runStart ts (i + 2) + runLength ts (i + 2))"
        using same_outside_seg [OF t(2)] by simp
      then show ?thesis
        unfolding above(1) stack joinRuns_simps(4,7) [OF above(2)] using D [OF k] above(2) by simp
    qed
  qed
  moreover have "0 \<le> stackSize t" "stackSize t \<noteq> 0" "runStart t 0 = base"
    using ok lt i(1) by (auto simp: stack stack_ok_def)
  ultimately show "stack_ok compare t base upper"
    unfolding stack_ok_def by (simp only: if_False) blast
qed

lemma mergeAt_wp:
  assumes ok: "stack_ok compare ts base upper" and upper: "upper - base \<le> 2147483648"
    and i: "0 \<le> i" "i = stackSize ts - 2 \<or> i = stackSize ts - 3"
  shows "wp (mergeAt compare ts i) (\<not> total_comparator compare) (\<lambda>t. stack_ok compare t base upper \<and>
    stackSize t = stackSize ts - 1 \<and> same_outside (ts_array ts) (ts_array t) base upper \<and>
    rearranged compare (seg (ts_array ts) base upper) (seg (ts_array t) base upper))"
proof -
  have lt: "i < stackSize ts" "0 \<le> i + 1" "i + 1 < stackSize ts" using i by auto
  note A = stack_okD [OF ok i(1) lt(1)] and B = stack_okD [OF ok lt(2,3)]
  have s2: "runStart ts (i + 1) = runStart ts i + runLength ts i" using A(4) lt(3) by simp
  let ?s = "runStart ts i" and ?e = "runStart ts i + runLength ts i + runLength ts (i + 1)"
  show ?thesis
    unfolding mergeAt_eq [OF s2]
  proof (rule wp_mono [OF merge_runs_at_wp])
    fix t assume t: "joined compare (joinRuns ts i) ?s ?e t"
    then have t': "same_stack (joinRuns ts i) t" "same_outside (ts_array ts) (ts_array t) ?s ?e"
      "ordered compare (seg (ts_array t) ?s ?e)"
      and re: "rearranged compare (seg (ts_array ts) ?s ?e) (seg (ts_array t) ?s ?e)"
      by (simp_all add: joined_def)
    note S = stack_ok_join [OF ok i refl t']
    have "same_outside (ts_array ts) (ts_array t) base upper"
      using same_outside_mono [OF t'(2)] A(2) S(2) by simp
    moreover have "rearranged compare (seg (ts_array ts) base upper) (seg (ts_array t) base upper)"
      using rearranged_part [OF re t'(2)] A(1,2) B(1) S(2) by simp
    moreover have "stackSize t = stackSize ts - 1" using t'(1) by (simp add: same_stack_def)
    ultimately show "stack_ok compare t base upper \<and> stackSize t = stackSize ts - 1 \<and>
      same_outside (ts_array ts) (ts_array t) base upper \<and>
      rearranged compare (seg (ts_array ts) base upper) (seg (ts_array t) base upper)"
      using S(1) by simp
  qed (use A B s2 upper in auto)
qed

section \<open>The loops over the stack\<close>

text \<open>A run of merges: the stack stays well formed and the stretch is rearranged.\<close>

definition settled :: "'a compare \<Rightarrow> 'a slots \<Rightarrow> int \<Rightarrow> int \<Rightarrow> 'a timsort \<Rightarrow> bool" where
  "settled compare a base upper t \<longleftrightarrow> stack_ok compare t base upper \<and>
     same_outside a (ts_array t) base upper \<and>
     rearranged compare (seg a base upper) (seg (ts_array t) base upper)"

lemma mergeAt_settled:
  assumes "settled compare a base upper ts" "upper - base \<le> 2147483648"
    "0 \<le> i" "i = stackSize ts - 2 \<or> i = stackSize ts - 3"
  shows "wp (mergeAt compare ts i) (\<not> total_comparator compare)
    (\<lambda>t. settled compare a base upper t \<and> stackSize t = stackSize ts - 1)"
  by (rule wp_mono [OF mergeAt_wp])
    (use assms in \<open>auto simp: settled_def intro: same_outside_trans rearranged_trans\<close>)

lemma mergeRuns_wp:
  assumes "settled compare a base upper ts" "upper - base \<le> 2147483648" "1 \<le> stackSize ts"
  shows "wp (mergeRuns compare ts) (\<not> total_comparator compare)
    (\<lambda>t. settled compare a base upper t \<and> 1 \<le> stackSize t)"
  unfolding mergeRuns_def
proof (rule wp_do [where P = "\<lambda>t. settled compare a base upper t \<and> 1 \<le> stackSize t" and f = "\<lambda>t. nat (stackSize t)"])
  fix t :: "'a timsort"
  assume t: "settled compare a base upper t \<and> 1 \<le> stackSize t"
  have step: "wp (js_bind (mergeAt compare t i) (\<lambda>ts. js_return (ts, True))) (\<not> total_comparator compare)
      (\<lambda>(s, again). if again then (settled compare a base upper s \<and> 1 \<le> stackSize s) \<and> nat (stackSize s) < nat (stackSize t)
        else settled compare a base upper s \<and> 1 \<le> stackSize s)"
    if "0 \<le> i" "i = stackSize t - 2 \<or> i = stackSize t - 3" for i
    by (rule wp_seq [OF mergeAt_settled]) (use t that assms in auto)
  show "wp (if stackSize t > 1 then
       let n = stackSize t - 2; rl = runLength t in
       if (n \<ge> 1 \<and> rl (n - 1) \<le> rl n + rl (n + 1)) \<or> (n \<ge> 2 \<and> rl (n - 2) \<le> rl n + rl (n - 1)) then
         js_bind (mergeAt compare t (if rl (n - 1) < rl (n + 1) then n - 1 else n)) (\<lambda>ts. js_return (ts, True))
       else if rl n > rl (n + 1) then js_return (t, False)
       else js_bind (mergeAt compare t n) (\<lambda>ts. js_return (ts, True))
     else js_return (t, False)) (\<not> total_comparator compare)
      (\<lambda>(s, again). if again then (settled compare a base upper s \<and> 1 \<le> stackSize s) \<and> nat (stackSize s) < nat (stackSize t)
        else settled compare a base upper s \<and> 1 \<le> stackSize s)"
    unfolding Let_def by (intro wp_if step) (use t in auto)
qed (use assms in simp)

lemma forceMergeRuns_wp:
  assumes "settled compare a base upper ts" "upper - base \<le> 2147483648" "1 \<le> stackSize ts"
  shows "wp (forceMergeRuns compare ts) (\<not> total_comparator compare)
    (\<lambda>t. settled compare a base upper t \<and> stackSize t = 1)"
  unfolding forceMergeRuns_def
proof (rule wp_do [where P = "\<lambda>t. settled compare a base upper t \<and> 1 \<le> stackSize t" and f = "\<lambda>t. nat (stackSize t)"])
  fix t :: "'a timsort"
  assume t: "settled compare a base upper t \<and> 1 \<le> stackSize t"
  have step: "wp (js_bind (mergeAt compare t i) (\<lambda>ts. js_return (ts, True))) (\<not> total_comparator compare)
      (\<lambda>(s, again). if again then (settled compare a base upper s \<and> 1 \<le> stackSize s) \<and> nat (stackSize s) < nat (stackSize t)
        else settled compare a base upper s \<and> stackSize s = 1)"
    if "0 \<le> i" "i = stackSize t - 2 \<or> i = stackSize t - 3" for i
    by (rule wp_seq [OF mergeAt_settled]) (use t that assms in auto)
  show "wp (if stackSize t > 1 then
       let n = stackSize t - 2; rl = runLength t in
       js_bind (mergeAt compare t (if n > 0 \<and> rl (n - 1) < rl (n + 1) then n - 1 else n)) (\<lambda>ts. js_return (ts, True))
     else js_return (t, False)) (\<not> total_comparator compare)
      (\<lambda>(s, again). if again then (settled compare a base upper s \<and> 1 \<le> stackSize s) \<and> nat (stackSize s) < nat (stackSize t)
        else settled compare a base upper s \<and> stackSize s = 1)"
    unfolding Let_def by (intro wp_if step) (use t in auto)
qed (use assms in simp)

section \<open>The sort\<close>

lemma pushRun_settled:
  assumes s: "settled compare a base lo ts" and n: "1 \<le> n" and base: "base \<le> lo"
    and b: "same_outside (ts_array ts) b lo (lo + n)"
      "rearranged compare (seg (ts_array ts) lo (lo + n)) (seg b lo (lo + n))" "ordered compare (seg b lo (lo + n))"
  shows "settled compare a base (lo + n) (pushRun (ts\<lparr>ts_array := b\<rparr>) lo n)"
    "1 \<le> stackSize (pushRun (ts\<lparr>ts_array := b\<rparr>) lo n)"
proof -
  let ?t = "pushRun (ts\<lparr>ts_array := b\<rparr>) lo n" and ?k = "stackSize ts"
  have ok: "stack_ok compare ts base lo" and out: "same_outside a (ts_array ts) base lo"
    and re: "rearranged compare (seg a base lo) (seg (ts_array ts) base lo)"
    using s by (auto simp: settled_def)
  have t: "runStart ?t = (runStart ts)(?k := lo)" "runLength ?t = (runLength ts)(?k := n)"
    "stackSize ?t = ?k + 1" "ts_array ?t = b"
    by (simp_all add: pushRun_def)
  have k: "0 \<le> ?k" using ok by (simp add: stack_ok_def)
  show "1 \<le> stackSize ?t" using k t by simp
  have "1 \<le> runLength ?t i \<and> base \<le> runStart ?t i \<and> runStart ?t i + runLength ?t i \<le> lo + n \<and>
      runStart ?t i + runLength ?t i = (if i + 1 < stackSize ?t then runStart ?t (i + 1) else lo + n) \<and>
      ordered compare (seg (ts_array ?t) (runStart ?t i) (runStart ?t i + runLength ?t i))"
    if i: "0 \<le> i" "i < stackSize ?t" for i
  proof (cases "i = ?k")
    case True
    then show ?thesis using n base b(3) by (simp add: t)
  next
    case False
    then have lt: "i < ?k" using i(2) by (simp add: t)
    note D = stack_okD [OF ok i(1) lt]
    have "seg b (runStart ts i) (runStart ts i + runLength ts i) =
        seg (ts_array ts) (runStart ts i) (runStart ts i + runLength ts i)"
      using D(3) by (intro same_outside_seg [OF b(1)]) simp
    then show ?thesis using D False lt n by (cases "i + 1 = ?k") (auto simp: t)
  qed
  moreover have "0 \<le> stackSize ?t" "stackSize ?t \<noteq> 0" "runStart ?t 0 = base"
    using ok k by (auto simp: t stack_ok_def)
  ultimately have "stack_ok compare ?t base (lo + n)"
    unfolding stack_ok_def by (simp only: if_False) blast
  moreover have "same_outside a b base (lo + n)"
    using out b(1) base n by (auto simp: same_outside_def)
  moreover have "rearranged compare (seg a base (lo + n)) (seg b base (lo + n))"
  proof -
    have "rearranged compare (seg a base (lo + n)) (seg (ts_array ts) base (lo + n))"
      using rearranged_part [OF re out, of base "lo + n"] base n by simp
    moreover have "rearranged compare (seg (ts_array ts) base (lo + n)) (seg b base (lo + n))"
      using rearranged_part [OF b(2,1), of base "lo + n"] base n by simp
    ultimately show ?thesis by (rule rearranged_trans)
  qed
  ultimately show "settled compare a base (lo + n) ?t" by (simp add: settled_def t)
qed

text \<open>A run made ascending and, if short, extended by insertion to \<open>force\<close> elements.\<close>

lemma next_run_wp:
  assumes lo: "0 \<le> lo" "lo < hi" "hi < 2147483648" and min: "1 \<le> minRun"
    and rem: "remaining = hi - lo"
    and r: "makeAscendingRun a lo hi compare = (b, rl)"
  shows "wp (if rl < minRun then
          let force = (if remaining > minRun then minRun else remaining) in
          js_bind (binaryInsertionSort b lo (lo + force) (lo + rl) compare) (\<lambda>a. js_return (a, force))
        else js_return (b, rl)) E (\<lambda>(c, n). 1 \<le> n \<and> n \<le> hi - lo \<and> same_outside a c lo (lo + n) \<and>
          rearranged compare (seg a lo (lo + n)) (seg c lo (lo + n)) \<and> ordered compare (seg c lo (lo + n)))"
proof -
  note R = makeAscendingRun_ok [OF lo(2) r]
  show ?thesis
  proof (rule wp_if, goal_cases)
    case 1
    define f where "f = (if remaining > minRun then minRun else remaining)"
    have f: "rl \<le> f" "f \<le> hi - lo" "1 \<le> f" using 1 R(1,2) rem min lo by (auto simp: f_def)
    show ?case
      unfolding Let_def f_def [symmetric]
    proof (rule wp_seq [OF binaryInsertionSort_wp], goal_cases)
      case (7 c)
      have "rearranged compare (seg a lo (lo + f)) (seg b lo (lo + f))"
        using rearranged_part [OF R(4,3), of lo "lo + f"] R(1) f by simp
      moreover have "same_outside a b lo (lo + f)" using same_outside_mono [OF R(3)] f by simp
      ultimately show ?case
        using 7 f by (auto intro: rearranged_trans same_outside_trans)
    qed (use lo R f in auto)
  qed (use R in simp)
qed

lemma sort_turn_wp:
  assumes s: "settled compare a base lo ts" and lo: "0 \<le> base" "base \<le> lo" "lo < hi" "hi < 2147483648"
    and min: "1 \<le> minRun" and rem: "remaining = hi - lo"
  shows "wp (sort_turn compare minRun hi (ts, lo, remaining)) (\<not> total_comparator compare)
    (\<lambda>((t, l, r), again). again = (r \<noteq> 0) \<and> settled compare a base l t \<and> 1 \<le> stackSize t \<and>
       lo < l \<and> l \<le> hi \<and> r = hi - l)"
proof -
  obtain b rl where r: "makeAscendingRun (ts_array ts) lo hi compare = (b, rl)" by force
  have lo0: "0 \<le> lo" using lo by simp
  show ?thesis
    unfolding sort_turn_def prod.case r Let_def
  proof (rule wp_seq, rule next_run_wp [unfolded Let_def, OF lo0 lo(3,4) min rem r], clarify, goal_cases)
    case (1 c n)
    note P = pushRun_settled [OF s 1(1) lo(2) 1(3-5)]
    show ?case
      by (rule wp_seq [OF mergeRuns_wp [OF P(1) _ P(2)]]) (use 1 lo rem in auto)
  qed
qed

text \<open>The bounds \<^verbatim>\<open>sort\<close> works with when its last arguments are \<open>lo\<close> and \<open>hi\<close>.\<close>

definition sort_lo :: "int option \<Rightarrow> int" where
  "sort_lo lo = (case lo of None \<Rightarrow> 0 | Some l \<Rightarrow> l)"

definition sort_hi :: "int \<Rightarrow> int option \<Rightarrow> int" where
  "sort_hi len hi = (case hi of None \<Rightarrow> len | Some h \<Rightarrow> if h = 0 then len else h)"

lemma new_TimSort_settled: "settled compare a lo lo (new_TimSort u z a len)"
  by (auto simp: settled_def stack_ok_def new_TimSort_def)

lemma sort_loop_wp:
  assumes lo: "0 \<le> lo" "lo < hi" "hi < 2147483648" and min: "1 \<le> minRun"
  shows "wp (js_do (sort_turn compare minRun hi) (new_TimSort u z a len, lo, hi - lo)) (\<not> total_comparator compare)
    (\<lambda>(t, l, r). settled compare a lo hi t \<and> 1 \<le> stackSize t)"
proof (rule wp_do [where P = "\<lambda>(t, l, r). settled compare a lo l t \<and> lo \<le> l \<and> l < hi \<and> r = hi - l"
      and f = "\<lambda>(t, l, r). nat r"])
  fix s :: "'a timsort \<times> int \<times> int"
  assume s: "case s of (t, l, r) \<Rightarrow> settled compare a lo l t \<and> lo \<le> l \<and> l < hi \<and> r = hi - l"
  obtain t l r where tlr: "s = (t, l, r)" by (cases s)
  show "wp (sort_turn compare minRun hi s) (\<not> total_comparator compare) (\<lambda>(x, again).
     if again then (case x of (t, l, r) \<Rightarrow> settled compare a lo l t \<and> lo \<le> l \<and> l < hi \<and> r = hi - l) \<and>
       (case x of (t, l, r) \<Rightarrow> nat r) < (case s of (t, l, r) \<Rightarrow> nat r)
     else case x of (t, l, r) \<Rightarrow> settled compare a lo hi t \<and> 1 \<le> stackSize t)"
    unfolding tlr by (rule wp_mono [OF sort_turn_wp]) (use s lo min in \<open>auto simp: tlr\<close>)
qed (use lo in \<open>simp add: new_TimSort_settled\<close>)

lemma sort_wp:
  assumes "0 \<le> sort_lo lo" "sort_hi len hi < 2147483648"
  shows "wp (sort_array u z compare a len lo hi) (\<not> total_comparator compare) (\<lambda>b.
    same_outside a b (sort_lo lo) (sort_hi len hi) \<and>
    rearranged compare (seg a (sort_lo lo) (sort_hi len hi)) (seg b (sort_lo lo) (sort_hi len hi)) \<and>
    ordered compare (seg b (sort_lo lo) (sort_hi len hi)))"
proof -
  define l h where "l = sort_lo lo" and "h = sort_hi len hi"
  have b: "0 \<le> l" "h < 2147483648" using assms by (auto simp: l_def h_def)
  let ?post = "\<lambda>b. same_outside a b l h \<and> rearranged compare (seg a l h) (seg b l h) \<and> ordered compare (seg b l h)"
  obtain c rl where r: "makeAscendingRun a l h compare = (c, rl)" by force
  have small: "wp (binaryInsertionSort c l h (l + rl) compare) (\<not> total_comparator compare) ?post" if "l < h"
  proof -
    note R = makeAscendingRun_ok [OF that r]
    have "rearranged compare (seg a l h) (seg c l h)" "same_outside a c l h"
      using rearranged_part [OF R(4,3), of l h] same_outside_mono [OF R(3), of l h] R(1,2) by simp_all
    then show ?thesis
      by (intro wp_mono [OF binaryInsertionSort_wp])
        (use b R that in \<open>auto intro: rearranged_trans same_outside_trans\<close>)
  qed
  have big: "wp (js_bind (minRunLength (h - l)) (\<lambda>minRun.
      js_bind (js_do (sort_turn compare minRun h) (new_TimSort u z a len, l, h - l)) (\<lambda>(ts, lo, remaining).
      js_bind (forceMergeRuns compare ts) (\<lambda>ts. js_return (ts_array ts))))) (\<not> total_comparator compare) ?post"
    if "32 \<le> h - l"
  proof (rule wp_seq [OF minRunLength_wp], goal_cases)
    case (3 minRun)
    have end1: "?post (ts_array t)" if "settled compare a l h t \<and> stackSize t = 1" for t
      using that stack_okD [of compare t l h 0] by (auto simp: settled_def stack_ok_def)
    show ?case
      by (rule wp_seq [OF sort_loop_wp], goal_cases)
        (use 3 that b end1 in \<open>auto intro!: wp_seq [OF forceMergeRuns_wp]\<close>)
  qed (use that b in auto)
  show ?thesis
    unfolding sort_array_def Let_def sort_lo_def [symmetric] sort_hi_def [symmetric]
      l_def [symmetric] h_def [symmetric] r prod.case
  proof (intro wp_if small big, goal_cases)
    case 1
    then have "l < h \<Longrightarrow> h = l + 1" by simp
    then have "ordered compare (seg a l h)" by (cases "l < h") (auto simp: ordered_def)
    then show ?case by simp
  qed (auto simp: DEFAULT_MIN_MERGE_def)
qed

section \<open>The reference sort\<close>

primrec stable_sort :: "'a compare \<Rightarrow> 'a list \<Rightarrow> 'a list" where
  "stable_sort compare [] = []"
| "stable_sort compare (x # xs) = smerge compare [x] (stable_sort compare xs)"

lemma stable_sort_ok:
  assumes "total_comparator compare"
  shows "ascending compare (stable_sort compare xs)"
    "filter (\<lambda>z. compare k z = Zero) (stable_sort compare xs) = filter (\<lambda>z. compare k z = Zero) xs"
  by (induction xs) (simp_all add: ascending_smerge [OF assms] filter_smerge [OF assms])

text \<open>An ascending list is determined by its classes.\<close>

lemma ascending_unique:
  assumes t: "total_comparator compare"
  shows "ascending compare xs \<Longrightarrow> ascending compare ys \<Longrightarrow>
    (\<forall>k. filter (\<lambda>z. compare k z = Zero) xs = filter (\<lambda>z. compare k z = Zero) ys) \<Longrightarrow> xs = ys"
proof (induction xs arbitrary: ys)
  case Nil
  then have "\<forall>k. filter (\<lambda>z. compare k z = Zero) ys = []" by simp
  then have "y \<notin> set ys" for y
    using total_comparator.le_refl [OF t, of y] total_comparator.Zero_iff [OF t, of y y]
    by (auto simp: filter_empty_conv)
  then show ?case by (cases ys) auto
next
  case (Cons x xs)
  note Z = total_comparator.Zero_iff [OF t] and refl = total_comparator.le_refl [OF t]
  have mem: "z \<in> set (x # xs) \<longleftrightarrow> z \<in> set ys" for z
  proof -
    have "z \<in> set vs \<longleftrightarrow> z \<in> set (filter (\<lambda>w. compare z w = Zero) vs)" for vs
      using Z [of z z] refl [of z] by auto
    then show ?thesis using Cons.prems(3) by metis
  qed
  then obtain y zs where ys: "ys = y # zs" by (cases ys) auto
  have "le compare x y" using mem [of y] ys Cons.prems(1) refl [of x] by auto
  moreover have "le compare y x" using mem [of x] ys Cons.prems(2) refl [of y] by auto
  ultimately have c: "compare x y = Zero" "compare x x = Zero" using Z refl by auto
  have "filter (\<lambda>z. compare x z = Zero) (x # xs) = filter (\<lambda>z. compare x z = Zero) (y # zs)"
    using Cons.prems(3) ys by blast
  then have xy: "x = y" using c by simp
  have "filter (\<lambda>z. compare k z = Zero) xs = filter (\<lambda>z. compare k z = Zero) zs" for k
    using Cons.prems(3) [rule_format, of k] xy ys by (simp split: if_splits)
  then show ?case using Cons xy ys by simp
qed

section \<open>Comparators by number\<close>

text \<open>The sign of the number a comparator returns.\<close>

definition sign_of :: "'a :: linordered_idom \<Rightarrow> sign" where
  "sign_of n = (if n < 0 then Neg else if n = 0 then Zero else Pos)"

lemma sign_of_simps [simp]:
  "sign_of n = Neg \<longleftrightarrow> n < 0" "sign_of n = Zero \<longleftrightarrow> n = 0" "sign_of n = Pos \<longleftrightarrow> 0 < n" "sign_of n \<noteq> NaN"
  by (auto simp: sign_of_def)

interpretation key: total_comparator "\<lambda>x y. sign_of (f x - f y)" for f :: "'a \<Rightarrow> int"
  by unfold_locales (auto simp: le_def)

text \<open>
  \<^verbatim>\<open>prioritySortFunc\<close>: the constructor \<^verbatim>\<open>ECharts\<close> sorts the registered visual functions and data
  processors by it, whole array.
\<close>

record 'f registered =
  prio :: int
  func :: 'f

definition prioritySortFunc :: "'f registered compare" where
  "prioritySortFunc a b = sign_of (prio a - prio b)"

interpretation priority: total_comparator prioritySortFunc
  using key.total_comparator_axioms [of prio] by (simp add: prioritySortFunc_def [abs_def])

text \<open>The sort of a total preorder is the reference sort.\<close>

lemma sort_reference:
  assumes "total_comparator compare" "0 \<le> sort_lo lo" "sort_hi len hi < 2147483648"
  obtains b where "sort_array u z compare a len lo hi = Some (Inr b)"
    "seg b (sort_lo lo) (sort_hi len hi) = stable_sort compare (seg a (sort_lo lo) (sort_hi len hi))"
    "same_outside a b (sort_lo lo) (sort_hi len hi)"
proof -
  let ?seg = "\<lambda>a. seg a (sort_lo lo) (sort_hi len hi)"
  obtain b where b: "sort_array u z compare a len lo hi = Some (Inr b)"
    and out: "same_outside a b (sort_lo lo) (sort_hi len hi)"
    and re: "rearranged compare (?seg a) (?seg b)" and asc: "ascending compare (?seg b)"
    using sort_wp [OF assms(2,3), of u z compare a] assms(1) by (auto simp: wp_returns ordered_def)
  have "?seg b = stable_sort compare (?seg a)"
    by (rule ascending_unique [OF assms(1) asc])
      (use re assms(1) stable_sort_ok [OF assms(1)] in \<open>auto simp: rearranged_def\<close>)
  then show ?thesis using b out that by blast
qed

section \<open>What sort does\<close>

text \<open>
  C5. The sort always ends: for every comparator, even one that returns NaN or contradicts itself,
  and every array and bounds below 2^31, \<^verbatim>\<open>sort\<close> returns an array with the same elements in the
  sorted stretch and the same slots outside it, or throws; it can throw only if the comparator is
  not a total order.
\<close>

theorem sort_ends:
  assumes "0 \<le> sort_lo lo" "sort_hi len hi < 2147483648"
  shows "\<exists>r. sort_array u z compare a len lo hi = Some r \<and> (case r of
      Inl e \<Rightarrow> \<not> total_comparator compare
    | Inr b \<Rightarrow> mset (seg b (sort_lo lo) (sort_hi len hi)) = mset (seg a (sort_lo lo) (sort_hi len hi)) \<and>
        (\<forall>k. k < sort_lo lo \<or> sort_hi len hi \<le> k \<longrightarrow> b k = a k))"
  using sort_wp [OF assms, of u z compare a]
  by (auto simp: wp_def rearranged_def same_outside_def split: option.splits sum.splits)

theorem sort_ends_witness:
  "\<exists>r. sort_array 0 0 (\<lambda>x y. NaN) (\<lambda>i. 7 - i :: int) 3 None None = Some r \<and> (case r of
      Inl e \<Rightarrow> \<not> total_comparator (\<lambda>(x :: int) (y :: int). NaN) | Inr b \<Rightarrow> mset (seg b 0 3) = {#5, 6, 7#})"
  using sort_ends [of None 3 None 0 0 "\<lambda>x y. NaN" "\<lambda>i. 7 - i :: int"]
  by (auto simp: sort_lo_def sort_hi_def seg_def upto_rec1 split: sum.splits)

text \<open>
  C2. With a comparator that is a total preorder the sort never throws and equals the reference
  sort: the stretch comes out in ascending order, and the elements the comparator does not tell
  apart keep the order they had; nothing outside the stretch changes.
\<close>

theorem sort_stable:
  assumes "total_comparator compare" "0 \<le> sort_lo lo" "sort_hi len hi < 2147483648"
  shows "\<exists>b. sort_array u z compare a len lo hi = Some (Inr b) \<and>
    seg b (sort_lo lo) (sort_hi len hi) = stable_sort compare (seg a (sort_lo lo) (sort_hi len hi)) \<and>
    sorted_wrt (\<lambda>x y. compare x y \<noteq> Pos) (seg b (sort_lo lo) (sort_hi len hi)) \<and>
    (\<forall>k. k < sort_lo lo \<or> sort_hi len hi \<le> k \<longrightarrow> b k = a k)"
proof -
  obtain b where b: "sort_array u z compare a len lo hi = Some (Inr b)"
    "seg b (sort_lo lo) (sort_hi len hi) = stable_sort compare (seg a (sort_lo lo) (sort_hi len hi))"
    "same_outside a b (sort_lo lo) (sort_hi len hi)"
    using assms by (rule sort_reference)
  moreover have "sorted_wrt (\<lambda>x y. compare x y \<noteq> Pos) (seg b (sort_lo lo) (sort_hi len hi))"
    using stable_sort_ok(1) [OF assms(1)]
    by (simp add: b(2) ascending_def le_def [abs_def] total_comparator.Pos_iff [OF assms(1)])
  ultimately show ?thesis by (auto simp: same_outside_def)
qed

theorem sort_stable_witness:
  "\<exists>b. sort_array \<lparr>prio = 0, func = 0 :: int\<rparr> 0 prioritySortFunc
          (\<lambda>i. \<lparr>prio = (if i = 0 then 5 else 1), func = i\<rparr>) 3 None None = Some (Inr b) \<and>
     map func (seg b 0 3) = [1, 2, 0]"
  using sort_stable [OF priority.total_comparator_axioms, of None 3 None "\<lparr>prio = 0, func = 0 :: int\<rparr>" 0
      "\<lambda>i. \<lparr>prio = (if i = 0 then 5 else 1), func = i\<rparr>"]
  by (auto simp: sort_lo_def sort_hi_def seg_def upto_rec1 prioritySortFunc_def)

end
