(* ===== verification/Scene.thy ===== *)
theory Scene
  imports TimStack Complex_Main "HOL-Library.Product_Lexorder"
begin

text \<open>
  The scene graph of zrender: \<^verbatim>\<open>zrender/container/Group\<close> (module 30 of \<^verbatim>\<open>echarts.js\<close>) and
  \<^verbatim>\<open>zrender/Storage\<close> (module 84), with the methods of \<^verbatim>\<open>Element\<close> on visibility and clip paths.  Elements are objects on an explicit heap, because groups, their
  children, the roots and the clip paths point at each other.  One storage is modelled, so that the
  field \<^verbatim>\<open>__storage\<close> of a group is a flag.  Transforms, animators and the handle \<^verbatim>\<open>__zr\<close> are not
  part of the model: \<^verbatim>\<open>update\<close> only computes transforms, \<^verbatim>\<open>beforeUpdate\<close> and \<^verbatim>\<open>afterUpdate\<close> do nothing.
  The recursive methods take the depth of the call stack; a deeper recursion is the engine's
  \<^verbatim>\<open>RangeError\<close> (\<open>OutOfFuel\<close>).
\<close>

section \<open>Elements and the scene\<close>

type_synonym addr = nat

record element =
  el_id :: js_string
  el_name :: js_string
  isGroup :: bool
  children :: "addr list"
  el_parent :: "addr option"
  in_storage :: bool
  is_dirty :: bool
  ignore :: bool
  el_zlevel :: rat
  el_z :: rat
  el_z2 :: rat
  clipPath :: "addr option"
  clipPaths :: "addr list option"
  clipTarget :: "addr option"

record scene =
  objs :: "addr \<rightharpoonup> element"
  elements :: "(js_string \<rightharpoonup> addr) option"
  roots :: "addr list option"
  displayList :: "addr list"
  displayListLen :: nat

definition new_Storage :: "(addr \<rightharpoonup> element) \<Rightarrow> scene" where
  "new_Storage h = \<lparr>objs = h, elements = Some Map.empty, roots = Some [], displayList = [], displayListLen = 0\<rparr>"

definition obj :: "scene \<Rightarrow> addr \<Rightarrow> js_error + element" where
  "obj s a = deref (objs s a)"

definition modify :: "scene \<Rightarrow> addr \<Rightarrow> (element \<Rightarrow> element) \<Rightarrow> js_error + scene" where
  "modify s a f = ebind (obj s a) (\<lambda>e. Inr (s\<lparr>objs := (objs s)(a \<mapsto> f e)\<rparr>))"

text \<open>\<^verbatim>\<open>for (var i = 0; i < array.length; i++)\<close> over an array the body does not change.\<close>

primrec each :: "('a \<Rightarrow> 's \<Rightarrow> 'e + 's) \<Rightarrow> 'a list \<Rightarrow> 's \<Rightarrow> 'e + 's" where
  "each f [] s = Inr s"
| "each f (x # xs) s = ebind (f x s) (each f xs)"

text \<open>\<^verbatim>\<open>util.indexOf\<close> on an array of objects.\<close>

primrec indexOf :: "'a list \<Rightarrow> 'a \<Rightarrow> int" where
  "indexOf [] v = -1"
| "indexOf (x # xs) v = (if x = v then 0 else let i = indexOf xs v in if i < 0 then i else i + 1)"

definition splice_out :: "int \<Rightarrow> 'a list \<Rightarrow> 'a list" where
  "splice_out i xs = take (nat i) xs @ drop (nat i + 1) xs"

definition splice_in :: "int \<Rightarrow> 'a \<Rightarrow> 'a list \<Rightarrow> 'a list" where
  "splice_in i x xs = take (nat i) xs @ x # drop (nat i) xs"

section \<open>The map of the storage\<close>

definition get :: "scene \<Rightarrow> js_string \<Rightarrow> js_error + addr option" where
  "get s i = ebind (deref (elements s)) (\<lambda>m. Inr (m i))"

definition addToMap :: "addr \<Rightarrow> scene \<Rightarrow> js_error + scene" where
  "addToMap a s =
     ebind (modify s a (\<lambda>e. e\<lparr>in_storage := in_storage e \<or> isGroup e, is_dirty := True\<rparr>)) (\<lambda>s.
     ebind (obj s a) (\<lambda>e.
     ebind (deref (elements s)) (\<lambda>m.
     Inr (s\<lparr>elements := Some (m(el_id e \<mapsto> a))\<rparr>))))"

definition delFromMap :: "js_string \<Rightarrow> scene \<Rightarrow> js_error + scene" where
  "delFromMap i s =
     ebind (deref (elements s)) (\<lambda>m.
     case m i of
       None \<Rightarrow> Inr s
     | Some a \<Rightarrow> modify (s\<lparr>elements := Some (m(i := None))\<rparr>) a
                   (\<lambda>e. e\<lparr>in_storage := in_storage e \<and> \<not> isGroup e\<rparr>))"

section \<open>Groups\<close>

fun addChildrenToStorage :: "nat \<Rightarrow> addr \<Rightarrow> scene \<Rightarrow> js_error + scene" where
  "addChildrenToStorage 0 g s = Inl OutOfFuel"
| "addChildrenToStorage (Suc n) g s =
     ebind (obj s g) (\<lambda>e.
     each (\<lambda>c s. ebind (addToMap c s) (\<lambda>s. ebind (obj s c) (\<lambda>e.
             if isGroup e then addChildrenToStorage n c s else Inr s))) (children e) s)"

fun delChildrenFromStorage :: "nat \<Rightarrow> addr \<Rightarrow> scene \<Rightarrow> js_error + scene" where
  "delChildrenFromStorage 0 g s = Inl OutOfFuel"
| "delChildrenFromStorage (Suc n) g s =
     ebind (obj s g) (\<lambda>e.
     each (\<lambda>c s. ebind (obj s c) (\<lambda>e. ebind (delFromMap (el_id e) s) (\<lambda>s.
             if isGroup e then delChildrenFromStorage n c s else Inr s))) (children e) s)"

text \<open>What \<^verbatim>\<open>remove\<close>, \<^verbatim>\<open>removeAll\<close> and \<^verbatim>\<open>delRoot\<close> do with an element that leaves the storage.\<close>

definition dropFromStorage :: "nat \<Rightarrow> addr \<Rightarrow> scene \<Rightarrow> js_error + scene" where
  "dropFromStorage n c s =
     ebind (obj s c) (\<lambda>e. ebind (delFromMap (el_id e) s) (\<lambda>s.
     if isGroup e then delChildrenFromStorage n c s else Inr s))"

definition group_remove :: "nat \<Rightarrow> addr \<Rightarrow> addr \<Rightarrow> scene \<Rightarrow> js_error + scene" where
  "group_remove n g child s =
     ebind (obj s g) (\<lambda>e.
     let idx = indexOf (children e) child in
     if idx < 0 then Inr s
     else
       ebind (modify s g (\<lambda>e. e\<lparr>children := splice_out idx (children e)\<rparr>)) (\<lambda>s.
       ebind (modify s child (\<lambda>e. e\<lparr>el_parent := None\<rparr>)) (\<lambda>s.
       if in_storage e then dropFromStorage n child s else Inr s)))"

text \<open>An element whose parent is no group (the owner of a clip path) has no \<^verbatim>\<open>remove\<close>.\<close>

definition doAdd :: "nat \<Rightarrow> addr \<Rightarrow> addr \<Rightarrow> scene \<Rightarrow> js_error + scene" where
  "doAdd n g child s =
     ebind (obj s child) (\<lambda>c.
     ebind (case el_parent c of
              None \<Rightarrow> Inr s
            | Some p \<Rightarrow> ebind (obj s p) (\<lambda>e.
                if isGroup e then group_remove n p child s else Inl TypeError)) (\<lambda>s.
     ebind (modify s child (\<lambda>e. e\<lparr>el_parent := Some g\<rparr>)) (\<lambda>s.
     ebind (obj s g) (\<lambda>e. ebind (obj s child) (\<lambda>c.
     if in_storage e \<and> \<not> in_storage c then
       ebind (addToMap child s) (\<lambda>s. if isGroup c then addChildrenToStorage n child s else Inr s)
     else Inr s)))))"

definition add :: "nat \<Rightarrow> addr \<Rightarrow> addr option \<Rightarrow> scene \<Rightarrow> js_error + scene" where
  "add n g child s =
     (case child of
        None \<Rightarrow> Inr s
      | Some c \<Rightarrow>
          if c = g then Inr s
          else ebind (obj s c) (\<lambda>e.
            if el_parent e = Some g then Inr s
            else ebind (modify s g (\<lambda>e. e\<lparr>children := children e @ [c]\<rparr>)) (doAdd n g c)))"

definition addBefore :: "nat \<Rightarrow> addr \<Rightarrow> addr option \<Rightarrow> addr option \<Rightarrow> scene \<Rightarrow> js_error + scene" where
  "addBefore n g child nextSibling s =
     (case (child, nextSibling) of
        (Some c, Some sib) \<Rightarrow>
          if c = g then Inr s
          else ebind (obj s c) (\<lambda>e. ebind (obj s sib) (\<lambda>e'.
            if el_parent e = Some g \<or> el_parent e' \<noteq> Some g then Inr s
            else ebind (obj s g) (\<lambda>ge.
              let idx = indexOf (children ge) sib in
              if idx \<ge> 0 then
                ebind (modify s g (\<lambda>e. e\<lparr>children := splice_in idx c (children e)\<rparr>)) (doAdd n g c)
              else Inr s)))
      | _ \<Rightarrow> Inr s)"

definition removeAll :: "nat \<Rightarrow> addr \<Rightarrow> scene \<Rightarrow> js_error + scene" where
  "removeAll n g s =
     ebind (obj s g) (\<lambda>e.
     ebind (each (\<lambda>c s. ebind (if in_storage e then dropFromStorage n c s else Inr s) (\<lambda>s.
                    modify s c (\<lambda>e. e\<lparr>el_parent := None\<rparr>))) (children e) s) (\<lambda>s.
     modify s g (\<lambda>e. e\<lparr>children := []\<rparr>)))"

definition group_children :: "addr \<Rightarrow> scene \<Rightarrow> js_error + addr list" where
  "group_children g s = ebind (obj s g) (\<lambda>e. Inr (children e))"

definition childAt :: "addr \<Rightarrow> int \<Rightarrow> scene \<Rightarrow> js_error + addr option" where
  "childAt g i s = ebind (obj s g) (\<lambda>e.
     Inr (if 0 \<le> i \<and> i < int (length (children e)) then Some (children e ! nat i) else None))"

definition childCount :: "addr \<Rightarrow> scene \<Rightarrow> js_error + int" where
  "childCount g s = ebind (obj s g) (\<lambda>e. Inr (int (length (children e))))"

fun first_named :: "js_string \<Rightarrow> addr list \<Rightarrow> scene \<Rightarrow> js_error + addr option" where
  "first_named nm [] s = Inr None"
| "first_named nm (c # cs) s = ebind (obj s c) (\<lambda>e. if el_name e = nm then Inr (Some c) else first_named nm cs s)"

definition childOfName :: "addr \<Rightarrow> js_string \<Rightarrow> scene \<Rightarrow> js_error + addr option" where
  "childOfName g nm s = ebind (obj s g) (\<lambda>e. first_named nm (children e) s)"

text \<open>
  Callbacks are functions on the scene.  They may change the children, so the loops read the array
  again in every turn; a callback that keeps adding children makes them endless, hence the fuel.
\<close>

fun each_from :: "nat \<Rightarrow> (addr \<Rightarrow> nat \<Rightarrow> scene \<Rightarrow> js_error + scene) \<Rightarrow> addr \<Rightarrow> nat \<Rightarrow> scene \<Rightarrow> js_error + scene" where
  "each_from 0 cb g i s = Inl OutOfFuel"
| "each_from (Suc n) cb g i s =
     ebind (obj s g) (\<lambda>e.
     if i < length (children e) then
       ebind (cb (children e ! i) i s) (each_from n cb g (Suc i))
     else Inr s)"

definition eachChild :: "nat \<Rightarrow> (addr \<Rightarrow> nat \<Rightarrow> scene \<Rightarrow> js_error + scene) \<Rightarrow> addr \<Rightarrow> scene \<Rightarrow> js_error + scene" where
  "eachChild n cb g s = each_from n cb g 0 s"

fun traverse_from :: "nat \<Rightarrow> (addr \<Rightarrow> scene \<Rightarrow> js_error + scene) \<Rightarrow> addr \<Rightarrow> nat \<Rightarrow> scene \<Rightarrow> js_error + scene" where
  "traverse_from 0 cb g i s = Inl OutOfFuel"
| "traverse_from (Suc n) cb g i s =
     ebind (obj s g) (\<lambda>e.
     if i < length (children e) then
       let c = children e ! i in
       ebind (cb c s) (\<lambda>s. ebind (obj s c) (\<lambda>e.
       ebind (if isGroup e then traverse_from n cb c 0 s else Inr s) (traverse_from n cb g (Suc i))))
     else Inr s)"

definition group_traverse :: "nat \<Rightarrow> (addr \<Rightarrow> scene \<Rightarrow> js_error + scene) \<Rightarrow> addr \<Rightarrow> scene \<Rightarrow> js_error + scene" where
  "group_traverse n cb g s = traverse_from n cb g 0 s"

definition group_dirty :: "addr \<Rightarrow> scene \<Rightarrow> js_error + scene" where
  "group_dirty g s = modify s g (\<lambda>e. e\<lparr>is_dirty := True\<rparr>)"

definition hide :: "addr \<Rightarrow> scene \<Rightarrow> js_error + scene" where
  "hide a s = modify s a (\<lambda>e. e\<lparr>ignore := True\<rparr>)"

definition show_el :: "addr \<Rightarrow> scene \<Rightarrow> js_error + scene" where
  "show_el a s = modify s a (\<lambda>e. e\<lparr>ignore := False\<rparr>)"

text \<open>\<^verbatim>\<open>setClipPath\<close> takes the previous clip path off, \<^verbatim>\<open>dirty\<close> marks the element.\<close>

definition removeClipPath :: "addr \<Rightarrow> scene \<Rightarrow> js_error + scene" where
  "removeClipPath a s =
     ebind (obj s a) (\<lambda>e. case clipPath e of
       None \<Rightarrow> Inr s
     | Some c \<Rightarrow>
         ebind (modify s c (\<lambda>ce. ce\<lparr>clipTarget := None\<rparr>)) (\<lambda>s.
         modify s a (\<lambda>e. e\<lparr>clipPath := None, is_dirty := True\<rparr>)))"

definition setClipPath :: "addr \<Rightarrow> addr \<Rightarrow> scene \<Rightarrow> js_error + scene" where
  "setClipPath a c s =
     ebind (obj s a) (\<lambda>e.
     ebind (if clipPath e \<noteq> None \<and> clipPath e \<noteq> Some c then removeClipPath a s else Inr s) (\<lambda>s.
     ebind (modify s a (\<lambda>e. e\<lparr>clipPath := Some c\<rparr>)) (\<lambda>s.
     ebind (modify s c (\<lambda>ce. ce\<lparr>clipTarget := Some a\<rparr>)) (\<lambda>s.
     modify s a (\<lambda>e. e\<lparr>is_dirty := True\<rparr>)))))"

section \<open>The storage\<close>

text \<open>A root that is no group is a shape; its \<^verbatim>\<open>traverse\<close> calls back once.\<close>

fun roots_from :: "nat \<Rightarrow> (addr \<Rightarrow> scene \<Rightarrow> js_error + scene) \<Rightarrow> nat \<Rightarrow> scene \<Rightarrow> js_error + scene" where
  "roots_from 0 cb i s = Inl OutOfFuel"
| "roots_from (Suc n) cb i s =
     ebind (deref (roots s)) (\<lambda>rs.
     if i < length rs then
       ebind (obj s (rs ! i)) (\<lambda>e.
       ebind (if isGroup e then group_traverse n cb (rs ! i) s else cb (rs ! i) s) (roots_from n cb (Suc i)))
     else Inr s)"

definition storage_traverse :: "nat \<Rightarrow> (addr \<Rightarrow> scene \<Rightarrow> js_error + scene) \<Rightarrow> scene \<Rightarrow> js_error + scene" where
  "storage_traverse n cb s = roots_from n cb 0 s"

definition addRoot :: "nat \<Rightarrow> addr \<Rightarrow> scene \<Rightarrow> js_error + scene" where
  "addRoot n a s =
     ebind (obj s a) (\<lambda>e. ebind (get s (el_id e)) (\<lambda>old.
     if old \<noteq> None then Inr s
     else
       ebind (if isGroup e then addChildrenToStorage n a s else Inr s) (\<lambda>s.
       ebind (addToMap a s) (\<lambda>s.
       ebind (deref (roots s)) (\<lambda>rs. Inr (s\<lparr>roots := Some (rs @ [a])\<rparr>))))))"

text \<open>The argument of \<^verbatim>\<open>delRoot\<close>: nothing, an array, the id of an element or the element.\<close>

datatype root_arg = NoRoot | Roots "root_arg list" | RootId js_string | RootEl addr

definition delAllRoots :: "nat \<Rightarrow> scene \<Rightarrow> js_error + scene" where
  "delAllRoots n s =
     ebind (deref (roots s)) (\<lambda>rs.
     ebind (each (\<lambda>r s. ebind (obj s r) (\<lambda>e. if isGroup e then delChildrenFromStorage n r s else Inr s)) rs s) (\<lambda>s.
     Inr (s\<lparr>elements := Some Map.empty, roots := Some [], displayList := [], displayListLen := 0\<rparr>)))"

text \<open>\<^verbatim>\<open>util.indexOf\<close> is -1 on the \<^verbatim>\<open>null\<close> that \<^verbatim>\<open>dispose\<close> leaves.\<close>

definition delOneRoot :: "nat \<Rightarrow> addr \<Rightarrow> scene \<Rightarrow> js_error + scene" where
  "delOneRoot n a s =
     (case roots s of
        None \<Rightarrow> Inr s
      | Some rs \<Rightarrow>
          let idx = indexOf rs a in
          if idx \<ge> 0 then
            ebind (obj s a) (\<lambda>e. ebind (delFromMap (el_id e) s) (\<lambda>s.
            let s = s\<lparr>roots := Some (splice_out idx rs)\<rparr> in
            if isGroup e then delChildrenFromStorage n a s else Inr s))
          else Inr s)"

fun delRoot :: "nat \<Rightarrow> root_arg \<Rightarrow> scene \<Rightarrow> js_error + scene"
  and delRoots :: "nat \<Rightarrow> root_arg list \<Rightarrow> scene \<Rightarrow> js_error + scene" where
  "delRoot n NoRoot s = delAllRoots n s"
| "delRoot n (Roots xs) s = delRoots n xs s"
| "delRoot n (RootId i) s =
     ebind (get s i) (\<lambda>el. case el of
       None \<Rightarrow> Inr s
     | Some a \<Rightarrow> delOneRoot n a s)"
| "delRoot n (RootEl a) s = delOneRoot n a s"
| "delRoots n [] s = Inr s"
| "delRoots n (x # xs) s = ebind (delRoot n x s) (delRoots n xs)"

definition dispose :: "scene \<Rightarrow> scene" where
  "dispose s = s\<lparr>elements := None, roots := None\<rparr>"

section \<open>The display list\<close>

text \<open>
  The levels are finite doubles, as rational numbers: the difference of two doubles is rounded, but to a
  number of the same sign, which is all the sort reads of it.
\<close>

definition shapeCompareFunc :: "element \<Rightarrow> element \<Rightarrow> sign" where
  "shapeCompareFunc a b =
     (if el_zlevel a = el_zlevel b then
        if el_z a = el_z b then sign_of (el_z2 a - el_z2 b)
        else sign_of (el_z a - el_z b)
      else sign_of (el_zlevel a - el_zlevel b))"

text \<open>\<^verbatim>\<open>this._displayList[this._displayListLen++] = el\<close>.\<close>

definition push_display :: "addr \<Rightarrow> scene \<Rightarrow> scene" where
  "push_display a s =
     (let i = displayListLen s; xs = displayList s in
      s\<lparr>displayList := (if i < length xs then xs[i := a] else xs @ [a]), displayListLen := i + 1\<rparr>)"

fun updateAndAddDisplayable ::
  "nat \<Rightarrow> addr \<Rightarrow> addr list option \<Rightarrow> bool \<Rightarrow> scene \<Rightarrow> js_error + scene" where
  "updateAndAddDisplayable 0 el cps includeIgnore s = Inl OutOfFuel"
| "updateAndAddDisplayable (Suc n) el cps includeIgnore s =
     ebind (obj s el) (\<lambda>e.
     if ignore e \<and> \<not> includeIgnore then Inr s
     else
       ebind (case clipPath e of
                None \<Rightarrow> Inr (s, cps)
              | Some c \<Rightarrow> ebind (modify s c (\<lambda>ce. ce\<lparr>el_parent := Some el\<rparr>)) (\<lambda>s.
                  Inr (s, Some (case cps of None \<Rightarrow> [c] | Some cs \<Rightarrow> cs @ [c])))) (\<lambda>(s, cps).
       if isGroup e then
         ebind (each (\<lambda>c s.
                  ebind (obj s el) (\<lambda>e.
                  ebind (if is_dirty e then modify s c (\<lambda>ce. ce\<lparr>is_dirty := True\<rparr>)
                         else ebind (obj s c) (\<lambda>_. Inr s)) (\<lambda>s.
                  updateAndAddDisplayable n c cps includeIgnore s))) (children e) s) (\<lambda>s.
         modify s el (\<lambda>e. e\<lparr>is_dirty := False\<rparr>))
       else
         ebind (modify s el (\<lambda>e. e\<lparr>clipPaths := cps\<rparr>)) (\<lambda>s.
         Inr (push_display el s))))"

text \<open>An array as its slots; \<open>u\<close> stands for \<^verbatim>\<open>undefined\<close>.\<close>

definition slots_of :: "'a \<Rightarrow> 'a list \<Rightarrow> 'a slots" where
  "slots_of u xs = (\<lambda>i. if 0 \<le> i \<and> i < int (length xs) then xs ! nat i else u)"

definition display_compare :: "scene \<Rightarrow> addr compare" where
  "display_compare s a b = shapeCompareFunc (the (objs s a)) (the (objs s b))"

definition updateDisplayList :: "bool \<Rightarrow> nat \<Rightarrow> bool \<Rightarrow> scene \<Rightarrow> scene comp" where
  "updateDisplayList canvasSupported n includeIgnore s =
     js_bind (Some (ebind (deref (roots s)) (\<lambda>rs.
                each (\<lambda>r. updateAndAddDisplayable n r None includeIgnore) rs (s\<lparr>displayListLen := 0\<rparr>)))) (\<lambda>s.
     let s = s\<lparr>displayList := take (displayListLen s) (displayList s)\<rparr>; xs = displayList s in
     if canvasSupported then
       js_bind (sort_array 0 0 (display_compare s) (slots_of 0 xs) (int (length xs)) None None) (\<lambda>b.
       js_return (s\<lparr>displayList := seg b 0 (int (length xs))\<rparr>))
     else js_return s)"

definition getDisplayList :: "bool \<Rightarrow> nat \<Rightarrow> bool \<Rightarrow> bool \<Rightarrow> scene \<Rightarrow> (scene \<times> addr list) comp" where
  "getDisplayList canvasSupported n upd includeIgnore s =
     js_bind (if upd then updateDisplayList canvasSupported n includeIgnore s else js_return s) (\<lambda>s.
     js_return (s, displayList s))"

section \<open>The display list is the stable sort of the tree\<close>

lemma total_comparator_on:
  assumes "total_comparator c" shows "total_comparator (\<lambda>a b. c (f a) (f b))"
proof
  fix a b d
  show "c (f a) (f b) \<noteq> NaN" "(c (f a) (f b) = Neg) = (c (f b) (f a) = Pos)"
    using total_comparator.not_NaN [OF assms] total_comparator.swap [OF assms] by blast+
  show "le (\<lambda>a b. c (f a) (f b)) a d"
    if "le (\<lambda>a b. c (f a) (f b)) a b" "le (\<lambda>a b. c (f a) (f b)) b d"
    using that total_comparator.le_trans [OF assms, of "f a" "f b" "f d"] by (simp add: le_def)
qed

interpretation shape: total_comparator shapeCompareFunc
  by unfold_locales (auto simp: shapeCompareFunc_def le_def split: if_splits)

interpretation display: total_comparator "display_compare s" for s
  using total_comparator_on [OF shape.total_comparator_axioms, of "\<lambda>a. the (objs s a)"]
  by (simp add: display_compare_def [abs_def])

text \<open>The fields no update of the display list touches.\<close>

definition fixed :: "element \<Rightarrow> bool \<times> addr list \<times> bool \<times> rat \<times> rat \<times> rat \<times> addr option" where
  "fixed e = (isGroup e, children e, ignore e, el_zlevel e, el_z e, el_z2 e, clipPath e)"

definition kept :: "scene \<Rightarrow> scene \<Rightarrow> bool" where
  "kept s t \<longleftrightarrow> (\<forall>a. map_option fixed (objs t a) = map_option fixed (objs s a))"

lemma kept_refl [simp]: "kept s s"
  by (simp add: kept_def)

lemma kept_trans: "kept s t \<Longrightarrow> kept t u \<Longrightarrow> kept s u"
  by (simp add: kept_def)

lemma kept_obj:
  assumes "kept s t" "objs s a = Some e"
  obtains e' where "objs t a = Some e'" "fixed e' = fixed e"
  using assms by (auto simp: kept_def dest!: spec [of _ a])

lemma kept_None: "kept s t \<Longrightarrow> objs t a = None \<longleftrightarrow> objs s a = None"
  by (auto simp: kept_def dest!: spec [of _ a])

text \<open>
  An element whose subtree is less than \<open>n\<close> levels deep and has no dangling pointer, and the shapes of
  that subtree in the order of a depth first walk, ignored parts left out.
\<close>

fun shallow :: "nat \<Rightarrow> scene \<Rightarrow> addr \<Rightarrow> bool" where
  "shallow 0 s a \<longleftrightarrow> False"
| "shallow (Suc n) s a \<longleftrightarrow> (case objs s a of
       None \<Rightarrow> False
     | Some e \<Rightarrow> (case clipPath e of None \<Rightarrow> True | Some c \<Rightarrow> objs s c \<noteq> None) \<and>
         (isGroup e \<longrightarrow> list_all (shallow n s) (children e)))"

fun shapes :: "nat \<Rightarrow> bool \<Rightarrow> scene \<Rightarrow> addr \<Rightarrow> addr list" where
  "shapes 0 inc s a = []"
| "shapes (Suc n) inc s a = (case objs s a of
       None \<Rightarrow> []
     | Some e \<Rightarrow>
         if ignore e \<and> \<not> inc then []
         else if isGroup e then concat (map (shapes n inc s) (children e))
         else [a])"

lemma kept_shallow: "kept s t \<Longrightarrow> shallow n t a = shallow n s a"
proof (induction n arbitrary: a)
  case (Suc n)
  show ?case
  proof (cases "objs s a")
    case None
    then show ?thesis using kept_None [OF Suc.prems, of a] by simp
  next
    case (Some e)
    from Suc.prems Some obtain e' where e': "objs t a = Some e'" "fixed e' = fixed e" by (rule kept_obj)
    moreover have "shallow n t = shallow n s" using Suc by (intro ext) simp
    ultimately show ?thesis
      using Some kept_None [OF Suc.prems] by (simp add: fixed_def split: option.splits)
  qed
qed simp

lemma kept_shapes: "kept s t \<Longrightarrow> shapes n inc t a = shapes n inc s a"
proof (induction n arbitrary: a)
  case (Suc n)
  show ?case
  proof (cases "objs s a")
    case None
    then show ?thesis using kept_None [OF Suc.prems, of a] by simp
  next
    case (Some e)
    from Suc.prems Some obtain e' where e': "objs t a = Some e'" "fixed e' = fixed e" by (rule kept_obj)
    moreover have "shapes n inc t = shapes n inc s" using Suc by (intro ext) simp
    ultimately show ?thesis using Some by (simp add: fixed_def)
  qed
qed simp

text \<open>The part of the array that is in use, and what a step of the walk leaves behind.\<close>

definition shown :: "scene \<Rightarrow> addr list" where
  "shown s = take (displayListLen s) (displayList s)"

definition room :: "scene \<Rightarrow> bool" where
  "room s \<longleftrightarrow> displayListLen s \<le> length (displayList s)"

definition walked :: "scene \<Rightarrow> scene \<Rightarrow> addr list \<Rightarrow> bool" where
  "walked s t xs \<longleftrightarrow> kept s t \<and> elements t = elements s \<and> roots t = roots s \<and> room t \<and> shown t = shown s @ xs"

lemma walked_trans: "walked s t xs \<Longrightarrow> walked t u ys \<Longrightarrow> walked s u (xs @ ys)"
  by (auto simp: walked_def intro: kept_trans)

lemma walked_refl: "room s \<Longrightarrow> walked s s []"
  by (simp add: walked_def)

lemma walked_push: "room s \<Longrightarrow> walked s (push_display a s) [a]"
  by (auto simp: walked_def push_display_def room_def shown_def Let_def kept_def take_Suc_conv_app_nth)

lemma modify_walked:
  assumes "objs s a = Some e" "\<And>e. fixed (f e) = fixed e" "room s"
  shows "\<exists>t. modify s a f = Inr t \<and> walked s t []"
  using assms by (auto simp: modify_def obj_def walked_def kept_def room_def shown_def)

lemma each_walked:
  assumes "\<And>x t. x \<in> set xs \<Longrightarrow> kept s t \<Longrightarrow> room t \<Longrightarrow> \<exists>u. f x t = Inr u \<and> walked t u (g x)"
    and "room s"
  shows "\<exists>t. each f xs s = Inr t \<and> walked s t (concat (map g xs))"
  using assms
proof (induction xs arbitrary: s)
  case (Cons x xs)
  obtain t where t: "f x s = Inr t" "walked s t (g x)" using Cons.prems(1) [of x s] Cons.prems(2) by auto
  have "\<exists>u. each f xs t = Inr u \<and> walked t u (concat (map g xs))"
  proof (rule Cons.IH)
    fix y u assume "y \<in> set xs" "kept t u" "room u"
    moreover have "kept s t" using t(2) by (simp add: walked_def)
    ultimately show "\<exists>v. f y u = Inr v \<and> walked u v (g y)"
      using Cons.prems(1) [of y u] kept_trans [of s t u] by simp
  qed (use t in \<open>simp add: walked_def\<close>)
  then show ?case using t walked_trans by fastforce
qed (simp add: walked_refl)

lemma update_walked:
  "shallow n s a \<Longrightarrow> room s \<Longrightarrow>
     \<exists>t. updateAndAddDisplayable n a cps inc s = Inr t \<and> walked s t (shapes n inc s a)"
proof (induction n arbitrary: a cps s)
  case (Suc n)
  obtain e where e: "objs s a = Some e" using Suc.prems by (auto split: option.splits)
  show ?case
  proof (cases "ignore e \<and> \<not> inc")
    case True
    then show ?thesis using e Suc.prems by (auto simp: obj_def walked_refl)
  next
    case False
    define step where "step = (case clipPath e of
        None \<Rightarrow> Inr (s, cps)
      | Some c \<Rightarrow> ebind (modify s c (\<lambda>ce. ce\<lparr>el_parent := Some a\<rparr>)) (\<lambda>s.
          Inr (s, Some (case cps of None \<Rightarrow> [c] | Some cs \<Rightarrow> cs @ [c]))))"
    have "\<exists>t cps'. step = Inr (t, cps') \<and> walked s t []"
    proof (cases "clipPath e")
      case None
      then show ?thesis using Suc.prems by (simp add: step_def walked_refl)
    next
      case (Some c)
      then obtain ce where "objs s c = Some ce" using Suc.prems e by auto
      then obtain t where "modify s c (\<lambda>ce. ce\<lparr>el_parent := Some a\<rparr>) = Inr t" "walked s t []"
        using modify_walked [of s c ce "\<lambda>ce. ce\<lparr>el_parent := Some a\<rparr>"] Suc.prems(2)
        by (auto simp: fixed_def)
      then show ?thesis by (simp add: step_def Some)
    qed
    then obtain t cps' where t: "step = Inr (t, cps')" "walked s t []" by blast
    have kt: "kept s t" and rt: "room t" using t(2) by (simp_all add: walked_def)
    obtain e' where e': "objs t a = Some e'" "fixed e' = fixed e" using kt e by (rule kept_obj)
    define f where "f = (\<lambda>c s. ebind (obj s a) (\<lambda>e.
        ebind (if is_dirty e then modify s c (\<lambda>ce. ce\<lparr>is_dirty := True\<rparr>)
               else ebind (obj s c) (\<lambda>_. Inr s)) (\<lambda>s. updateAndAddDisplayable n c cps' inc s)))"
    have eq: "updateAndAddDisplayable (Suc n) a cps inc s =
      (if isGroup e then
         ebind (each f (children e) t) (\<lambda>s. modify s a (\<lambda>e. e\<lparr>is_dirty := False\<rparr>))
       else ebind (modify t a (\<lambda>e. e\<lparr>clipPaths := cps'\<rparr>)) (\<lambda>s. Inr (push_display a s)))"
      using False e t(1) by (auto simp: obj_def f_def step_def)
    show ?thesis
    proof (cases "isGroup e")
      case True
      have "\<exists>u. each f (children e) t = Inr u \<and> walked t u (concat (map (shapes n inc s) (children e)))"
      proof (rule each_walked [OF _ rt])
        fix c v assume c: "c \<in> set (children e)" and v: "kept t v" "room v"
        have kv: "kept s v" using kt v(1) by (rule kept_trans)
        have sh: "shallow n s c" using Suc.prems(1) e True c by (simp add: list_all_iff)
        then obtain ce where "objs s c = Some ce" by (cases n) (auto split: option.splits)
        with kv obtain ce' where ce: "objs v c = Some ce'" by (rule kept_obj)
        obtain ev where ev: "objs v a = Some ev" using kv e by (rule kept_obj)
        obtain w where w: "(if is_dirty ev then modify v c (\<lambda>ce. ce\<lparr>is_dirty := True\<rparr>)
            else ebind (obj v c) (\<lambda>_. Inr v)) = Inr w" "walked v w []"
          using modify_walked [OF ce, of "\<lambda>ce. ce\<lparr>is_dirty := True\<rparr>"] v(2) ce walked_refl [OF v(2)]
          by (cases "is_dirty ev") (auto simp: fixed_def obj_def)
        then have kw: "kept s w" "room w" using kept_trans [OF kv] by (auto simp: walked_def)
        obtain x where x: "updateAndAddDisplayable n c cps' inc w = Inr x" "walked w x (shapes n inc w c)"
          using Suc.IH [of w c cps'] sh kw kept_shallow [OF kw(1)] by auto
        have "f c v = Inr x" using ev w(1) x(1) by (simp add: f_def obj_def)
        moreover have "walked v x (shapes n inc s c)"
          using walked_trans [OF w(2) x(2)] kept_shapes [OF kw(1)] by simp
        ultimately show "\<exists>u. f c v = Inr u \<and> walked v u (shapes n inc s c)" by blast
      qed
      then obtain u where u: "each f (children e) t = Inr u" "walked t u (concat (map (shapes n inc s) (children e)))"
        by blast
      have ku: "kept s u" and ru: "room u" using u(2) kept_trans [OF kt] by (auto simp: walked_def)
      obtain eu where "objs u a = Some eu" using ku e by (rule kept_obj)
      then obtain x where "modify u a (\<lambda>e. e\<lparr>is_dirty := False\<rparr>) = Inr x" "walked u x []"
        using modify_walked [of u a eu "\<lambda>e. e\<lparr>is_dirty := False\<rparr>"] ru by (auto simp: fixed_def)
      then show ?thesis
        using eq True False e u walked_trans [OF t(2) u(2)] walked_trans by fastforce
    next
      case g: False
      obtain u where u: "modify t a (\<lambda>e. e\<lparr>clipPaths := cps'\<rparr>) = Inr u" "walked t u []"
        using modify_walked [OF e'(1), of "\<lambda>e. e\<lparr>clipPaths := cps'\<rparr>"] rt by (auto simp: fixed_def)
      then have "walked u (push_display a u) [a]" by (intro walked_push) (simp add: walked_def)
      then have "walked s (push_display a u) [a]"
        using walked_trans [OF walked_trans [OF t(2) u(2)]] by simp
      then show ?thesis using eq g False e u by auto
    qed
  qed
qed simp

lemma seg_slots_of: "seg (slots_of u xs) 0 (int (length xs)) = xs"
  by (rule nth_equalityI) (auto simp: seg_nth slots_of_def)

lemma kept_display_compare: "kept s t \<Longrightarrow> display_compare t = display_compare s"
proof (intro ext)
  fix a b assume k: "kept s t"
  have same: "el_zlevel (the (objs t a)) = el_zlevel (the (objs s a)) \<and> el_z (the (objs t a)) = el_z (the (objs s a)) \<and>
      el_z2 (the (objs t a)) = el_z2 (the (objs s a))" for a
  proof (cases "objs s a")
    case None
    then show ?thesis using kept_None [OF k, of a] by simp
  next
    case (Some e)
    with k obtain e' where "objs t a = Some e'" "fixed e' = fixed e" by (rule kept_obj)
    then show ?thesis using Some by (simp add: fixed_def)
  qed
  show "display_compare t a b = display_compare s a b"
    by (simp add: display_compare_def shapeCompareFunc_def same)
qed

definition demo_element :: element where
  "demo_element = \<lparr>el_id = [103], el_name = [], isGroup = True, children = [], el_parent = None,
     in_storage = False, is_dirty = True, ignore = False, el_zlevel = 0, el_z = 0, el_z2 = 0,
     clipPath = None, clipPaths = None, clipTarget = None\<rparr>"

definition demo_scene :: scene where
  "demo_scene = new_Storage [1 \<mapsto> demo_element, 2 \<mapsto> demo_element\<lparr>el_id := [97], isGroup := False, el_z := 1\<rparr>,
     3 \<mapsto> demo_element\<lparr>el_id := [98], isGroup := False\<rparr>]"

lemmas demo_defs = demo_scene_def new_Storage_def demo_element_def

text \<open>The order the elements are drawn in: by the levels of the canvas, then by \<^verbatim>\<open>z\<close>, then by \<^verbatim>\<open>z2\<close>.\<close>

definition draw_rank :: "scene \<Rightarrow> addr \<Rightarrow> rat \<times> rat \<times> rat" where
  "draw_rank s a = (let e = the (objs s a) in (el_zlevel e, el_z e, el_z2 e))"

lemma display_compare_rank: "display_compare s a b = Neg \<longleftrightarrow> draw_rank s a < draw_rank s b"
  by (auto simp: display_compare_def shapeCompareFunc_def draw_rank_def Let_def)

text \<open>The reference sort is the library's stable sort by rank.\<close>

lemma insort_rank: "smerge (display_compare s) [a] xs = insort_key (draw_rank s) a xs"
  by (induction xs) (auto simp: display_compare_rank)

lemma stable_sort_rank: "stable_sort (display_compare s) xs = sort_key (draw_rank s) xs"
  by (induction xs) (simp_all add: insort_rank)

text \<open>
  C3. The display list: on a scene whose trees have no dangling pointer and are less deep than the
  call stack, \<^verbatim>\<open>getDisplayList(true)\<close> returns the shapes of the trees, ignored parts left out, in the
  order of a depth first walk, stably sorted by \<^verbatim>\<open>zlevel\<close>, then \<^verbatim>\<open>z\<close>, then \<^verbatim>\<open>z2\<close>; the roots stay.
\<close>

theorem display_list_sorted:
  assumes "roots s = Some rs" "list_all (shallow n s) rs"
    "length (concat (map (shapes n includeIgnore s) rs)) < 2147483648"
  shows "\<exists>t. getDisplayList True n True includeIgnore s =
      Some (Inr (t, sort_key (draw_rank s) (concat (map (shapes n includeIgnore s) rs)))) \<and>
    roots t = roots s \<and> elements t = elements s"
proof -
  let ?xs = "concat (map (shapes n includeIgnore s) rs)" and ?s = "s\<lparr>displayListLen := 0\<rparr>"
  have k: "kept s ?s" by (simp add: kept_def)
  have "\<exists>t. each (\<lambda>r. updateAndAddDisplayable n r None includeIgnore) rs ?s = Inr t \<and> walked ?s t ?xs"
  proof (rule each_walked)
    fix r t assume r: "r \<in> set rs" and t: "kept ?s t" "room t"
    have kt: "kept s t" using k t(1) by (rule kept_trans)
    then show "\<exists>u. updateAndAddDisplayable n r None includeIgnore t = Inr u \<and> walked t u (shapes n includeIgnore s r)"
      using update_walked [of n t r None includeIgnore] r t(2) assms(2) kept_shallow [OF kt] kept_shapes [OF kt]
      by (auto simp: list_all_iff)
  qed (simp add: room_def)
  then obtain t where t: "each (\<lambda>r. updateAndAddDisplayable n r None includeIgnore) rs ?s = Inr t" "walked ?s t ?xs"
    by blast
  have sh: "take (displayListLen t) (displayList t) = ?xs" using t(2) by (simp add: walked_def shown_def)
  define t' where "t' = t\<lparr>displayList := ?xs\<rparr>"
  have "kept s t" using t(2) k by (auto simp: walked_def intro: kept_trans)
  then have kt: "kept s t'" by (simp add: kept_def t'_def)
  obtain b where b: "sort_array 0 0 (display_compare t') (slots_of 0 ?xs) (int (length ?xs)) None None = Some (Inr b)"
    "seg b 0 (int (length ?xs)) = stable_sort (display_compare t') ?xs"
    by (rule sort_reference [OF display.total_comparator_axioms [of t'], of None "int (length ?xs)" None 0 0 "slots_of 0 ?xs"])
      (use assms(3) in \<open>auto simp: sort_lo_def sort_hi_def seg_slots_of\<close>)
  have "updateDisplayList True n includeIgnore s =
      Some (Inr (t'\<lparr>displayList := stable_sort (display_compare s) ?xs\<rparr>))"
    using t(1) sh b kept_display_compare [OF kt] assms(1)
    by (simp add: updateDisplayList_def Let_def t'_def js_return_def del: length_take)
  then show ?thesis
    using t(2) by (auto simp: getDisplayList_def js_return_def t'_def walked_def stable_sort_rank)
qed

theorem display_list_sorted_witness:
  "\<exists>t. getDisplayList True 3 True False
      (demo_scene\<lparr>roots := Some [1], objs := (objs demo_scene)(1 \<mapsto> demo_element\<lparr>children := [2, 3]\<rparr>)\<rparr>) =
    Some (Inr (t, [3, 2]))"
proof -
  let ?s = "demo_scene\<lparr>roots := Some [1], objs := (objs demo_scene)(1 \<mapsto> demo_element\<lparr>children := [2, 3]\<rparr>)\<rparr>"
  have xs: "concat (map (shapes 3 False ?s) [1]) = [2, 3]"
    by (simp add: demo_defs numeral_3_eq_3)
  have "sort_key (draw_rank ?s) [2, 3] = [3, 2]"
    by (simp add: draw_rank_def demo_defs)
  moreover have "list_all (shallow 3 ?s) [1]" by (simp add: demo_defs numeral_3_eq_3)
  ultimately show ?thesis
    using display_list_sorted [of ?s "[1]" 3 False, unfolded xs] by auto
qed

end
