(* ===== verification/SceneLinks.thy ===== *)
theory SceneLinks
  imports Scene
begin

text \<open>
  The links of the scene graph.  An update of the display list makes the owner of a clip path its parent, even when the
  clip path is also the child of a group; so the links are stated of the elements that are at no time a clip
  path: such a child of a group is an element whose parent is that group, and it is there once.  Every
  operation of \<^verbatim>\<open>Group\<close>, \<^verbatim>\<open>Element\<close> and \<^verbatim>\<open>Storage\<close> that returns keeps this.
\<close>

section \<open>Well-formed links\<close>

definition clip_of :: "scene \<Rightarrow> addr \<Rightarrow> bool" where
  "clip_of s c \<longleftrightarrow> (\<exists>a e. objs s a = Some e \<and> clipPath e = Some c)"

definition link_ok :: "scene \<Rightarrow> addr \<Rightarrow> addr \<Rightarrow> bool" where
  "link_ok s g c \<longleftrightarrow> (\<exists>e. objs s c = Some e \<and> el_parent e = Some g)"

text \<open>\<open>K\<close> has every clip path; the others among some children.\<close>

definition clips_in :: "addr set \<Rightarrow> scene \<Rightarrow> bool" where
  "clips_in K s \<longleftrightarrow> (\<forall>c. clip_of s c \<longrightarrow> c \<in> K)"

definition free :: "addr set \<Rightarrow> addr list \<Rightarrow> addr list" where
  "free K cs = filter (\<lambda>c. c \<notin> K) cs"

text \<open>The links are in order, but for those in \<open>P\<close>: what holds in the middle of an operation.\<close>

definition links_but :: "addr set \<Rightarrow> (addr \<Rightarrow> addr \<Rightarrow> bool) \<Rightarrow> scene \<Rightarrow> bool" where
  "links_but K P s \<longleftrightarrow> clips_in K s \<and> (\<forall>g e. objs s g = Some e \<longrightarrow>
     distinct (free K (children e)) \<and> (children e \<noteq> [] \<longrightarrow> isGroup e) \<and>
     (\<forall>c\<in>set (free K (children e)). P g c \<or> link_ok s g c))"

definition links_ok :: "addr set \<Rightarrow> scene \<Rightarrow> bool" where
  "links_ok K s \<longleftrightarrow> links_but K (\<lambda>g c. False) s"

lemma free_simps [simp]:
  "free K [] = []" "free K (xs @ ys) = free K xs @ free K ys" "free K (c # cs) = (if c \<in> K then free K cs else c # free K cs)"
  "set (free K cs) = set cs - K"
  by (auto simp: free_def)

lemma links_butI:
  assumes "clips_in K s"
    "\<And>g e. objs s g = Some e \<Longrightarrow> distinct (free K (children e))"
    "\<And>g e. objs s g = Some e \<Longrightarrow> children e \<noteq> [] \<Longrightarrow> isGroup e"
    "\<And>g e c. objs s g = Some e \<Longrightarrow> c \<in> set (children e) \<Longrightarrow> c \<notin> K \<Longrightarrow> \<not> P g c \<Longrightarrow> link_ok s g c"
  shows "links_but K P s"
  unfolding links_but_def using assms by (simp; blast)

lemma links_butD:
  assumes "links_but K P s" "objs s g = Some e"
  shows "distinct (free K (children e))" "children e \<noteq> [] \<Longrightarrow> isGroup e"
    "c \<in> set (children e) \<Longrightarrow> c \<notin> K \<Longrightarrow> \<not> P g c \<Longrightarrow> link_ok s g c"
  using assms by (auto simp: links_but_def)

lemma links_but_clips: "links_but K P s \<Longrightarrow> clips_in K s"
  by (simp add: links_but_def)

text \<open>The fields the links are made of.\<close>

definition links :: "element \<Rightarrow> bool \<times> addr list \<times> addr option \<times> addr option" where
  "links e = (isGroup e, children e, el_parent e, clipPath e)"

definition same_links :: "scene \<Rightarrow> scene \<Rightarrow> bool" where
  "same_links s t \<longleftrightarrow> (\<forall>a. map_option links (objs t a) = map_option links (objs s a))"

lemma same_links_refl [simp]: "same_links s s"
  by (simp add: same_links_def)

lemma same_links_trans: "same_links s t \<Longrightarrow> same_links t u \<Longrightarrow> same_links s u"
  by (simp add: same_links_def)

lemma same_links_sym: "same_links s t \<Longrightarrow> same_links t s"
  by (simp add: same_links_def)

lemma same_links_roots [simp]:
  "same_links s (t\<lparr>roots := r\<rparr>) = same_links s t" "same_links (s\<lparr>roots := r\<rparr>) t = same_links s t"
  by (simp_all add: same_links_def)

lemma same_links_obj:
  assumes "same_links s t" "objs s a = Some e"
  obtains e' where "objs t a = Some e'" "links e' = links e"
  using assms by (auto simp: same_links_def dest!: spec [of _ a])

lemma same_links_clip: "same_links s t \<Longrightarrow> clip_of t c \<longleftrightarrow> clip_of s c"
proof -
  have "clip_of v c" if uv: "same_links u v" and u: "clip_of u c" for u v
  proof -
    obtain a e where a: "objs u a = Some e" "clipPath e = Some c" using u by (auto simp: clip_of_def)
    obtain e' where "objs v a = Some e'" "links e' = links e" using uv a(1) by (rule same_links_obj)
    then show ?thesis using a(2) by (auto simp: clip_of_def links_def)
  qed
  then show "same_links s t \<Longrightarrow> clip_of t c \<longleftrightarrow> clip_of s c" using same_links_sym by blast
qed

lemma same_links_link: "same_links s t \<Longrightarrow> link_ok s g c \<Longrightarrow> link_ok t g c"
  by (auto simp: link_ok_def links_def elim: same_links_obj)

lemma same_links_but:
  assumes "same_links s t" "links_but K P s" shows "links_but K P t"
proof (rule links_butI)
  show "clips_in K t" using links_but_clips [OF assms(2)] same_links_clip [OF assms(1)] by (simp add: clips_in_def)
next
  fix g e assume g: "objs t g = Some e"
  obtain e0 where e0: "objs s g = Some e0" "links e0 = links e"
    using same_links_sym [OF assms(1)] g by (rule same_links_obj)
  note D = links_butD [OF assms(2) e0(1)]
  show "distinct (free K (children e))" "children e \<noteq> [] \<Longrightarrow> isGroup e" using D(1,2) e0(2) by (simp_all add: links_def)
  show "link_ok t g c" if "c \<in> set (children e)" "c \<notin> K" "\<not> P g c" for c
    using D(3) [of c] that e0(2) same_links_link [OF assms(1)] by (simp add: links_def)
qed

section \<open>Operations that leave the links alone\<close>

lemma modify_Inr: "modify s a f = Inr t \<longleftrightarrow> (\<exists>e. objs s a = Some e \<and> t = s\<lparr>objs := (objs s)(a \<mapsto> f e)\<rparr>)"
  by (cases "objs s a") (auto simp: modify_def obj_def)

lemma obj_Inr: "obj s a = Inr e \<longleftrightarrow> objs s a = Some e"
  by (cases "objs s a") (auto simp: obj_def)

lemma deref_Inr: "deref x = Inr y \<longleftrightarrow> x = Some y"
  by (cases x) auto

lemma modify_same_links:
  "modify s a f = Inr t \<Longrightarrow> (\<And>e. links (f e) = links e) \<Longrightarrow> same_links s t"
  by (auto simp: modify_Inr same_links_def)

lemma same_objs_links: "objs t = objs s \<Longrightarrow> same_links s t"
  by (simp add: same_links_def)

lemma each_same_links:
  assumes "each f xs s = Inr t" "\<And>x s t. x \<in> set xs \<Longrightarrow> f x s = Inr t \<Longrightarrow> same_links s t"
  shows "same_links s t"
  using assms
proof (induction xs arbitrary: s)
  case (Cons x xs)
  then obtain u where "f x s = Inr u" "each f xs u = Inr t" by (auto elim: ebind_InrE)
  then show ?case using Cons same_links_trans [of s u t] by auto
qed simp

lemma addToMap_links:
  assumes "addToMap a s = Inr t" shows "same_links s t"
proof -
  obtain u where u: "modify s a (\<lambda>e. e\<lparr>in_storage := in_storage e \<or> isGroup e, is_dirty := True\<rparr>) = Inr u"
    and t: "objs t = objs u"
    using assms by (auto simp: addToMap_def elim!: ebind_InrE)
  show ?thesis
    using modify_same_links [OF u] same_objs_links [OF t] same_links_trans by (auto simp: links_def)
qed

lemma delFromMap_links:
  assumes "delFromMap i s = Inr t" shows "same_links s t"
proof -
  obtain m where m: "elements s = Some m" using assms by (auto simp: delFromMap_def deref_Inr elim: ebind_InrE)
  show ?thesis
  proof (cases "m i")
    case None
    then show ?thesis using assms m by (simp add: delFromMap_def)
  next
    case (Some a)
    then have "modify (s\<lparr>elements := Some (m(i := None))\<rparr>) a (\<lambda>e. e\<lparr>in_storage := in_storage e \<and> \<not> isGroup e\<rparr>) = Inr t"
      using assms m by (simp add: delFromMap_def)
    then have "same_links (s\<lparr>elements := Some (m(i := None))\<rparr>) t"
      by (rule modify_same_links) (simp add: links_def)
    then show ?thesis by (simp add: same_links_def)
  qed
qed

lemma addChildrenToStorage_links: "addChildrenToStorage n g s = Inr t \<Longrightarrow> same_links s t"
proof (induction n arbitrary: g s t)
  case (Suc n)
  from Suc.prems show ?case
    by (simp, elim ebind_InrE, elim each_same_links)
      (auto elim!: ebind_InrE dest!: addToMap_links Suc.IH elim: same_links_trans split: if_splits)
qed simp

lemma delChildrenFromStorage_links: "delChildrenFromStorage n g s = Inr t \<Longrightarrow> same_links s t"
proof (induction n arbitrary: g s t)
  case (Suc n)
  from Suc.prems show ?case
    by (simp, elim ebind_InrE, elim each_same_links)
      (auto elim!: ebind_InrE dest!: delFromMap_links Suc.IH elim: same_links_trans split: if_splits)
qed simp

lemma dropFromStorage_links: "dropFromStorage n c s = Inr t \<Longrightarrow> same_links s t"
  by (auto simp: dropFromStorage_def elim!: ebind_InrE split: if_splits
      dest!: delFromMap_links delChildrenFromStorage_links elim: same_links_trans)

lemma addRoot_links: "addRoot n a s = Inr t \<Longrightarrow> same_links s t"
  by (auto simp: addRoot_def elim!: ebind_InrE split: if_splits
      dest!: addChildrenToStorage_links addToMap_links)
    (rule same_links_trans)

lemma delOneRoot_links: "delOneRoot n a s = Inr t \<Longrightarrow> same_links s t"
  by (auto simp: delOneRoot_def Let_def elim!: ebind_InrE split: if_splits option.splits
      dest!: delFromMap_links delChildrenFromStorage_links)
    (rule same_links_trans)

lemma delAllRoots_links:
  assumes "delAllRoots n s = Inr t" shows "same_links s t"
proof -
  obtain rs u where u: "each (\<lambda>r s. ebind (obj s r) (\<lambda>e. if isGroup e then delChildrenFromStorage n r s else Inr s)) rs s = Inr u"
    and t: "objs t = objs u"
    using assms by (auto simp: delAllRoots_def elim!: ebind_InrE)
  from u have "same_links s u"
    by (rule each_same_links) (auto elim!: ebind_InrE intro: delChildrenFromStorage_links split: if_splits)
  then show ?thesis using t by (simp add: same_links_def)
qed

lemma delRoot_links:
  "delRoot n x s = Inr t \<Longrightarrow> same_links s t"
  "delRoots n xs s = Inr t \<Longrightarrow> same_links s t"
  by (induction n x s and n xs s arbitrary: t and t rule: delRoot_delRoots.induct)
    (auto elim!: ebind_InrE split: option.splits intro: delAllRoots_links delOneRoot_links same_links_trans)

section \<open>Operations that change the links\<close>

lemma clip_of_update:
  assumes "objs s a = Some e" "clipPath e' = clipPath e"
  shows "clip_of (s\<lparr>objs := (objs s)(a \<mapsto> e')\<rparr>) c \<longleftrightarrow> clip_of s c"
  unfolding clip_of_def using assms by (simp, metis option.inject)

lemma clips_in_update:
  assumes "clips_in K s" "objs s a = Some e" "clipPath e' = clipPath e"
  shows "clips_in K (s\<lparr>objs := (objs s)(a \<mapsto> e')\<rparr>)"
  using assms(1) clip_of_update [OF assms(2,3)] by (simp add: clips_in_def)

text \<open>Another list of children for \<open>g\<close>: its members must be linked already, or be exempt.\<close>

lemma children_but:
  assumes "links_but K P s" "objs s g = Some e"
    "distinct (free K cs)" "cs \<noteq> [] \<Longrightarrow> isGroup e"
    "\<And>g c. P g c \<Longrightarrow> Q g c" "\<And>c. c \<in> set cs \<Longrightarrow> c \<notin> K \<Longrightarrow> \<not> Q g c \<Longrightarrow> c \<in> set (children e)"
  shows "links_but K Q (s\<lparr>objs := (objs s)(g \<mapsto> e\<lparr>children := cs\<rparr>)\<rparr>)" (is "links_but K Q ?t")
proof (rule links_butI)
  show "clips_in K ?t" by (rule clips_in_update [OF links_but_clips [OF assms(1)] assms(2)]) simp
next
  have link: "link_ok ?t h c" if "link_ok s h c" for h c using that assms(2) by (auto simp: link_ok_def)
  fix h f assume f: "objs ?t h = Some f"
  show "distinct (free K (children f))" "children f \<noteq> [] \<Longrightarrow> isGroup f"
    using f assms(3,4) links_butD(1,2) [OF assms(1), of h f] by (auto split: if_splits)
  show "link_ok ?t h c" if c: "c \<in> set (children f)" "c \<notin> K" "\<not> Q h c" for c
  proof -
    have P: "\<not> P h c" using c(3) assms(5) by blast
    have "link_ok s h c"
    proof (cases "h = g")
      case True
      then show ?thesis using links_butD(3) [OF assms(1,2) _, of c] f c P assms(6) by auto
    next
      case False
      then show ?thesis using links_butD(3) [OF assms(1), of h f c] f c P by simp
    qed
    then show ?thesis by (rule link)
  qed
qed

text \<open>Another parent for \<open>c\<close>: the groups that still have it as a child must be exempt or that parent.\<close>

lemma parent_but:
  assumes "links_but K P s" "objs s c = Some e"
    "\<And>g f. objs s g = Some f \<Longrightarrow> c \<in> set (children f) \<Longrightarrow> c \<notin> K \<Longrightarrow> \<not> Q g c \<Longrightarrow> p = Some g"
    "\<And>g d. P g d \<Longrightarrow> d \<noteq> c \<Longrightarrow> Q g d"
  shows "links_but K Q (s\<lparr>objs := (objs s)(c \<mapsto> e\<lparr>el_parent := p\<rparr>)\<rparr>)" (is "links_but K Q ?t")
proof (rule links_butI)
  show "clips_in K ?t" by (rule clips_in_update [OF links_but_clips [OF assms(1)] assms(2)]) simp
next
  fix h f assume f: "objs ?t h = Some f"
  obtain f0 where f0: "objs s h = Some f0" "children f0 = children f" "isGroup f0 = isGroup f"
    using f assms(2) by (cases "h = c") auto
  note D = links_butD [OF assms(1) f0(1)]
  show "distinct (free K (children f))" "children f \<noteq> [] \<Longrightarrow> isGroup f" using D(1,2) f0 by simp_all
  show "link_ok ?t h d" if d: "d \<in> set (children f)" "d \<notin> K" "\<not> Q h d" for d
  proof (cases "d = c")
    case True
    then have "p = Some h" using assms(3) [OF f0(1)] d f0(2) by simp
    then show ?thesis using True by (simp add: link_ok_def)
  next
    case False
    then have "link_ok s h d" using D(3) [of d] d f0(2) assms(4) by auto
    then show ?thesis using False by (auto simp: link_ok_def)
  qed
qed

lemma indexOf_take_drop:
  "indexOf xs v \<ge> 0 \<Longrightarrow> xs = take (nat (indexOf xs v)) xs @ v # drop (nat (indexOf xs v) + 1) xs"
  "indexOf xs v < 0 \<longleftrightarrow> v \<notin> set xs"
  by (induction xs) (auto simp: Let_def nat_add_distrib split: if_splits)

lemma splice_out_distinct:
  assumes "distinct (free K xs)" "indexOf xs v \<ge> 0"
  shows "distinct (free K (splice_out (indexOf xs v) xs))" "set (splice_out (indexOf xs v) xs) \<subseteq> set xs"
    "v \<notin> K \<Longrightarrow> v \<notin> set (splice_out (indexOf xs v) xs)"
proof -
  define ys zs where "ys = take (nat (indexOf xs v)) xs" and "zs = drop (nat (indexOf xs v) + 1) xs"
  then have "splice_out (indexOf xs v) xs = ys @ zs" "xs = ys @ v # zs"
    using indexOf_take_drop(1) [OF assms(2)] by (simp_all add: splice_out_def)
  then show "distinct (free K (splice_out (indexOf xs v) xs))" "set (splice_out (indexOf xs v) xs) \<subseteq> set xs"
    "v \<notin> K \<Longrightarrow> v \<notin> set (splice_out (indexOf xs v) xs)"
    using assms(1) by (auto split: if_splits)
qed

text \<open>\<^verbatim>\<open>remove\<close> takes the child out of the group, or does nothing.\<close>

definition put :: "scene \<Rightarrow> addr \<Rightarrow> element \<Rightarrow> scene" where
  "put s a e = s\<lparr>objs := (objs s)(a \<mapsto> e)\<rparr>"

lemma modify_put: "modify s a f = Inr t \<longleftrightarrow> (\<exists>e. objs s a = Some e \<and> t = put s a (f e))"
  by (simp add: modify_Inr put_def)

lemma objs_put [simp]: "objs (put s a e) = (objs s)(a \<mapsto> e)"
  by (simp add: put_def)

lemma group_remove_cases:
  assumes "group_remove n g c s = Inr t"
  obtains (absent) e where "objs s g = Some e" "c \<notin> set (children e)" "t = s"
  | (present) e ce cs where "objs s g = Some e" "indexOf (children e) c \<ge> 0"
      "cs = splice_out (indexOf (children e) c) (children e)"
      "objs (put s g (e\<lparr>children := cs\<rparr>)) c = Some ce"
      "same_links (put (put s g (e\<lparr>children := cs\<rparr>)) c (ce\<lparr>el_parent := None\<rparr>)) t"
proof -
  obtain e where e: "objs s g = Some e" using assms by (auto simp: group_remove_def obj_Inr elim: ebind_InrE)
  show thesis
  proof (cases "indexOf (children e) c < 0")
    case True
    then have "c \<notin> set (children e)" by (simp add: indexOf_take_drop(2))
    moreover have "t = s" using assms e True by (simp add: group_remove_def obj_def)
    ultimately show thesis using e by (intro absent)
  next
    case False
    define cs where "cs = splice_out (indexOf (children e) c) (children e)"
    define s1 where "s1 = put s g (e\<lparr>children := cs\<rparr>)"
    have "modify s g (\<lambda>e. e\<lparr>children := splice_out (indexOf (children e) c) (children e)\<rparr>) = Inr s1"
      using e by (simp add: modify_put s1_def cs_def)
    then have "ebind (modify s1 c (\<lambda>e. e\<lparr>el_parent := None\<rparr>))
        (\<lambda>s. if in_storage e then dropFromStorage n c s else Inr s) = Inr t"
      using assms e False by (simp add: group_remove_def obj_def modify_def Let_def s1_def cs_def put_def)
    then obtain u where "modify s1 c (\<lambda>e. e\<lparr>el_parent := None\<rparr>) = Inr u" "same_links u t"
      by (rule ebind_InrE) (use dropFromStorage_links in \<open>auto split: if_splits\<close>)
    then obtain ce where "objs s1 c = Some ce" "same_links (put s1 c (ce\<lparr>el_parent := None\<rparr>)) t"
      by (auto simp only: modify_put)
    then show thesis using False unfolding s1_def by (intro present [OF e _ cs_def]) simp_all
  qed
qed

lemma group_remove_but:
  assumes "group_remove n g c s = Inr t" "links_but K P s" "\<not> P g c"
  shows "links_but K P t"
  using assms(1)
proof (cases rule: group_remove_cases)
  case absent
  then show ?thesis using assms(2) by simp
next
  case (present e ce cs)
  let ?s1 = "put s g (e\<lparr>children := cs\<rparr>)"
  note D = links_butD [OF assms(2) present(1)]
  have c: "c \<in> set (children e)" using present(2) indexOf_take_drop(2) [of "children e" c] by force
  have S: "distinct (free K cs)" "set cs \<subseteq> set (children e)" "c \<notin> K \<Longrightarrow> c \<notin> set cs"
    using splice_out_distinct [OF D(1) present(2)] present(3) by simp_all
  have g: "isGroup e" using D(2) c by (cases "children e") simp_all
  have P1: "links_but K P ?s1" unfolding put_def
    using assms(2) present(1) by (rule children_but) (use S g in auto)
  have "links_but K P (put ?s1 c (ce\<lparr>el_parent := None\<rparr>))"
    unfolding put_def [of ?s1] using P1 present(4)
  proof (rule parent_but)
    fix h f assume f: "objs ?s1 h = Some f" "c \<in> set (children f)" "c \<notin> K" "\<not> P h c"
    have "children f = cs" if "h = g" using f(1) that by auto
    then have "h \<noteq> g" using f(2,3) S(3) by auto
    moreover from this have "link_ok s h c" using f links_butD(3) [OF assms(2), of h f c] by simp
    ultimately show "None = Some h" using D(3) [OF c f(3) assms(3)] by (auto simp: link_ok_def)
  qed simp
  then show ?thesis using present(5) same_links_but by blast
qed

lemma group_remove_parent:
  assumes "group_remove n g c s = Inr t" "objs s c = Some ce" "el_parent ce = Some g"
    "objs t c = Some ce'" "el_parent ce' = Some h" "objs t h = Some f"
  shows "c \<notin> set (children f)"
  using assms(1)
proof (cases rule: group_remove_cases)
  case absent
  then show ?thesis using assms by simp
next
  case (present e ce cs)
  then show ?thesis using assms(4,5) by (auto simp: links_def elim!: same_links_obj [of _ t c])
qed

text \<open>
  \<^verbatim>\<open>_doAdd\<close> finds the child in the array already, with its old parent; when it is done, the old parent
  has lost the child and the new one is its parent.
\<close>

lemma doAdd_ok:
  assumes "doAdd n g c s = Inr t" "links_but K (\<lambda>h d. h = g \<and> d = c) s"
    "objs s c = Some ce" "el_parent ce \<noteq> Some g"
  shows "links_ok K t"
proof -
  obtain s1 where s1: "(case el_parent ce of None \<Rightarrow> Inr s
      | Some p \<Rightarrow> ebind (obj s p) (\<lambda>e. if isGroup e then group_remove n p c s else Inl TypeError)) = Inr s1"
    and r1: "ebind (modify s1 c (\<lambda>e. e\<lparr>el_parent := Some g\<rparr>)) (\<lambda>s.
       ebind (obj s g) (\<lambda>e. ebind (obj s c) (\<lambda>ce.
       if in_storage e \<and> \<not> in_storage ce then
         ebind (addToMap c s) (\<lambda>s. if isGroup ce then addChildrenToStorage n c s else Inr s)
       else Inr s))) = Inr t"
    using assms(1,3) unfolding doAdd_def obj_def by (auto elim!: ebind_InrE)
  obtain s2 where s2: "modify s1 c (\<lambda>e. e\<lparr>el_parent := Some g\<rparr>) = Inr s2"
    and r2: "ebind (obj s2 g) (\<lambda>e. ebind (obj s2 c) (\<lambda>ce.
       if in_storage e \<and> \<not> in_storage ce then
         ebind (addToMap c s2) (\<lambda>s. if isGroup ce then addChildrenToStorage n c s else Inr s)
       else Inr s2)) = Inr t"
    using r1 by (rule ebind_InrE)
  have "same_links s2 t"
    using r2 by (auto elim!: ebind_InrE split: if_splits dest!: addToMap_links addChildrenToStorage_links)
      (rule same_links_trans)
  from s2 obtain e where e: "objs s1 c = Some e" "s2 = put s1 c (e\<lparr>el_parent := Some g\<rparr>)"
    by (auto simp only: modify_put)
  have rm: "group_remove n p c s = Inr s1" if "el_parent ce = Some p" for p
    using s1 that by (auto elim!: ebind_InrE split: if_splits)
  have but: "links_but K (\<lambda>h d. h = g \<and> d = c) s1"
    using s1 assms(2,4) group_remove_but [OF rm] by (cases "el_parent ce") auto
  have none: "s1 = s" if "el_parent ce = None" using s1 that by simp
  have only: "h = g" if h: "objs s1 h = Some f" "c \<in> set (children f)" "c \<notin> K" for h f
  proof (rule ccontr)
    assume "h \<noteq> g"
    then have "link_ok s1 h c" using links_butD(3) [OF but h(1)] h(2,3) by simp
    then obtain "el_parent e = Some h" using e(1) by (auto simp: link_ok_def)
    then show False
      using h e(1) none assms(3) group_remove_parent [OF rm assms(3) _ e(1) _ h(1)] by (cases "el_parent ce") auto
  qed
  have "links_but K (\<lambda>g c. False) s2"
    unfolding e(2) put_def using but e(1)
    by (rule parent_but) (use only in auto)
  then show ?thesis using \<open>same_links s2 t\<close> same_links_but unfolding links_ok_def by blast
qed

text \<open>The group takes a new child into its array, at any place, and \<^verbatim>\<open>_doAdd\<close> does the rest.\<close>

lemma new_child_ok:
  assumes "links_ok K s" "objs s g = Some e" "isGroup e" "objs s c = Some ce" "el_parent ce \<noteq> Some g"
    "c \<noteq> g" "children e = xs @ ys"
    "doAdd n g c (put s g (e\<lparr>children := xs @ c # ys\<rparr>)) = Inr t"
  shows "links_ok K t"
proof (rule doAdd_ok [OF assms(8)])
  note D = links_butD [OF assms(1) [unfolded links_ok_def] assms(2)]
  have "c \<notin> set (children e) \<or> c \<in> K" using D(3) [of c] assms(4,5) by (auto simp: link_ok_def)
  then have "distinct (free K (xs @ c # ys))" using D(1) assms(7) by auto
  then show "links_but K (\<lambda>h d. h = g \<and> d = c) (put s g (e\<lparr>children := xs @ c # ys\<rparr>))"
    unfolding put_def
    by (intro children_but [OF assms(1) [unfolded links_ok_def] assms(2)]) (use assms(3,7) in auto)
  show "objs (put s g (e\<lparr>children := xs @ c # ys\<rparr>)) c = Some ce" using assms(4,6) by simp
qed (use assms(5) in simp)

definition is_group :: "scene \<Rightarrow> addr \<Rightarrow> bool" where
  "is_group s g \<longleftrightarrow> (case objs s g of Some e \<Rightarrow> isGroup e | None \<Rightarrow> False)"

lemma add_ok:
  assumes "add n g child s = Inr t" "links_ok K s" "is_group s g" shows "links_ok K t"
proof (cases child)
  case (Some c)
  obtain e where e: "objs s g = Some e" "isGroup e"
    using assms(3) by (auto simp: is_group_def split: option.splits)
  show ?thesis
  proof (cases "c = g")
    case False
    then obtain ce where ce: "objs s c = Some ce"
      using assms(1) Some by (auto simp: add_def obj_Inr elim!: ebind_InrE)
    show ?thesis
    proof (cases "el_parent ce = Some g")
      case no: False
      have "doAdd n g c (put s g (e\<lparr>children := children e @ [c]\<rparr>)) = Inr t"
        using assms(1) Some False no e ce by (simp add: add_def obj_def modify_def put_def)
      then show ?thesis using new_child_ok [OF assms(2) e ce no False, of "children e" "[]"] by simp
    qed (use assms Some False ce in \<open>simp add: add_def obj_def\<close>)
  qed (use assms Some in \<open>simp add: add_def\<close>)
qed (use assms in \<open>simp add: add_def\<close>)

lemma addBefore_ok:
  assumes "addBefore n g child sib s = Inr t" "links_ok K s" "is_group s g" shows "links_ok K t"
proof (cases "t = s")
  case False
  then obtain c b where cb: "child = Some c" "sib = Some b" "c \<noteq> g"
    using assms(1) by (auto simp: addBefore_def split: option.splits if_splits)
  obtain e where e: "objs s g = Some e" "isGroup e"
    using assms(3) by (auto simp: is_group_def split: option.splits)
  obtain ce be where ce: "objs s c = Some ce" "objs s b = Some be"
    using assms(1) cb by (auto simp: addBefore_def obj_Inr elim!: ebind_InrE)
  have no: "el_parent ce \<noteq> Some g"
    using assms(1) cb ce False by (auto simp: addBefore_def obj_def)
  define i where "i = indexOf (children e) b"
  have "doAdd n g c (put s g (e\<lparr>children := take (nat i) (children e) @ c # drop (nat i) (children e)\<rparr>)) = Inr t"
    using assms(1) cb ce e no False
    by (auto simp: addBefore_def obj_def modify_def put_def splice_in_def i_def Let_def split: if_splits)
  then show ?thesis by (rule new_child_ok [OF assms(2) e ce(1) no cb(3), rotated]) simp
qed (use assms in simp)

lemma each_keeps:
  assumes "each f xs s = Inr t" "I s" "\<And>x s t. x \<in> set xs \<Longrightarrow> f x s = Inr t \<Longrightarrow> I s \<Longrightarrow> I t"
  shows "I t"
  using assms
proof (induction xs arbitrary: s)
  case (Cons x xs)
  from Cons.prems(1) obtain u where "f x s = Inr u" "each f xs u = Inr t" by (auto elim: ebind_InrE)
  then show ?case using Cons by auto
qed simp

text \<open>\<^verbatim>\<open>removeAll\<close> unlinks the children one by one and empties the array at the end.\<close>

definition unlinking :: "addr set \<Rightarrow> addr \<Rightarrow> addr list \<Rightarrow> scene \<Rightarrow> bool" where
  "unlinking K g cs s \<longleftrightarrow> links_but K (\<lambda>h c. h = g) s \<and>
     (\<forall>c\<in>set (free K cs). \<exists>ce. objs s c = Some ce \<and> (el_parent ce = None \<or> el_parent ce = Some g))"

lemma unlinking_same: "same_links s t \<Longrightarrow> unlinking K g cs s \<Longrightarrow> unlinking K g cs t"
  unfolding unlinking_def by (fastforce intro: same_links_but elim: same_links_obj simp: links_def)

lemma unlinking_step:
  assumes "modify s c (\<lambda>e. e\<lparr>el_parent := None\<rparr>) = Inr t" "unlinking K g cs s" "c \<in> set cs"
  shows "unlinking K g cs t"
proof -
  obtain ce where ce: "objs s c = Some ce" and t: "t = s\<lparr>objs := (objs s)(c \<mapsto> ce\<lparr>el_parent := None\<rparr>)\<rparr>"
    using assms(1) by (auto simp: modify_Inr)
  have p: "el_parent ce = None \<or> el_parent ce = Some g" if "c \<notin> K"
  proof -
    have "c \<in> set (free K cs)" using assms(3) that by simp
    then obtain ce' where "objs s c = Some ce'" "el_parent ce' = None \<or> el_parent ce' = Some g"
      using assms(2) unfolding unlinking_def by blast
    then show ?thesis using ce by simp
  qed
  have but: "links_but K (\<lambda>h c. h = g) s" using assms(2) by (simp add: unlinking_def)
  have "links_but K (\<lambda>h c. h = g) t"
    unfolding t using but ce
    by (rule parent_but) (use ce p links_butD(3) [OF but, of _ _ c] in \<open>auto simp: link_ok_def\<close>)
  then show ?thesis using assms(2) t by (auto simp: unlinking_def)
qed

lemma removeAll_ok:
  assumes "removeAll n g s = Inr t" "links_ok K s" shows "links_ok K t"
proof -
  obtain e u where e: "objs s g = Some e"
    and u: "each (\<lambda>c s. ebind (if in_storage e then dropFromStorage n c s else Inr s) (\<lambda>s.
                    modify s c (\<lambda>e. e\<lparr>el_parent := None\<rparr>))) (children e) s = Inr u"
    and t: "modify u g (\<lambda>e. e\<lparr>children := []\<rparr>) = Inr t"
    using assms(1) by (auto simp: removeAll_def obj_Inr elim!: ebind_InrE)
  from u have "unlinking K g (children e) u"
  proof (rule each_keeps)
    show "unlinking K g (children e) s"
      using assms(2) e unfolding unlinking_def links_ok_def links_but_def link_ok_def by blast
  next
    fix c v w assume c: "c \<in> set (children e)" "unlinking K g (children e) v"
      "ebind (if in_storage e then dropFromStorage n c v else Inr v) (\<lambda>s. modify s c (\<lambda>e. e\<lparr>el_parent := None\<rparr>)) = Inr w"
    from c(3) obtain x where "(if in_storage e then dropFromStorage n c v else Inr v) = Inr x"
      and x: "modify x c (\<lambda>e. e\<lparr>el_parent := None\<rparr>) = Inr w" by (rule ebind_InrE)
    then have "same_links v x" using dropFromStorage_links by (auto split: if_splits)
    then show "unlinking K g (children e) w" using unlinking_step [OF x unlinking_same [OF _ c(2)] c(1)] by simp
  qed
  then have but: "links_but K (\<lambda>h c. h = g) u" by (simp add: unlinking_def)
  obtain ue where ue: "objs u g = Some ue" "t = put u g (ue\<lparr>children := []\<rparr>)" using t by (auto simp only: modify_put)
  show ?thesis unfolding links_ok_def
  proof (rule links_butI)
    show "clips_in K t"
      unfolding ue(2) put_def by (rule clips_in_update [OF links_but_clips [OF but] ue(1)]) simp
  next
    fix h f assume f: "objs t h = Some f"
    have g: "children f = []" if "h = g" using f ue(2) that by auto
    have u: "objs u h = Some f" if "h \<noteq> g" using f ue(2) that by simp
    show "distinct (free K (children f))" "children f \<noteq> [] \<Longrightarrow> isGroup f"
      using g links_butD(1,2) [OF but u] by (cases "h = g", simp_all)+
    show "link_ok t h c" if c: "c \<in> set (children f)" "c \<notin> K" for c
    proof -
      have "link_ok u h c" using g c links_butD(3) [OF but u] by (cases "h = g") simp_all
      then show ?thesis using ue by (auto simp: link_ok_def)
    qed
  qed
qed

text \<open>An update of the display list makes the owner of a clip path its parent.\<close>

lemma clip_parent_ok:
  assumes "modify s c (\<lambda>e. e\<lparr>el_parent := Some a\<rparr>) = Inr t" "objs s a = Some e" "clipPath e = Some c" "links_ok K s"
  shows "links_ok K t"
proof -
  obtain ce where ce: "objs s c = Some ce" "t = s\<lparr>objs := (objs s)(c \<mapsto> ce\<lparr>el_parent := Some a\<rparr>)\<rparr>"
    using assms(1) by (auto simp: modify_Inr)
  have but: "links_but K (\<lambda>g c. False) s" using assms(4) by (simp add: links_ok_def)
  have "c \<in> K" using links_but_clips [OF but] assms(2,3) by (auto simp: clips_in_def clip_of_def)
  then show ?thesis unfolding links_ok_def ce(2) using but ce(1) by (intro parent_but) auto
qed

lemma same_links_ok: "same_links s t \<Longrightarrow> links_ok K s \<Longrightarrow> links_ok K t"
  unfolding links_ok_def by (rule same_links_but)

lemma modify_ok: "modify s a f = Inr t \<Longrightarrow> (\<And>e. links (f e) = links e) \<Longrightarrow> links_ok K s \<Longrightarrow> links_ok K t"
  using modify_same_links same_links_ok by blast

lemma push_display_ok [simp]: "links_ok K (push_display a s) = links_ok K s"
proof -
  have "same_links s (push_display a s)" by (simp add: same_links_def push_display_def Let_def)
  then show ?thesis using same_links_ok same_links_sym by blast
qed

lemma update_keeps_links: "updateAndAddDisplayable n a cps inc s = Inr t \<Longrightarrow> links_ok K s \<Longrightarrow> links_ok K t"
proof (induction n arbitrary: a cps s t)
  case (Suc n)
  obtain e where e: "objs s a = Some e" using Suc.prems(1) by (auto simp: obj_Inr elim!: ebind_InrE)
  show ?case
  proof (cases "ignore e \<and> \<not> inc")
    case True
    then show ?thesis using Suc.prems e by (simp add: obj_def)
  next
    case False
    obtain s1 cps' where s1: "(case clipPath e of
                None \<Rightarrow> Inr (s, cps)
              | Some c \<Rightarrow> ebind (modify s c (\<lambda>ce. ce\<lparr>el_parent := Some a\<rparr>)) (\<lambda>s.
                  Inr (s, Some (case cps of None \<Rightarrow> [c] | Some cs \<Rightarrow> cs @ [c])))) = Inr (s1, cps')"
      and t: "(if isGroup e then
         ebind (each (\<lambda>c s. ebind (obj s a) (\<lambda>e.
                  ebind (if is_dirty e then modify s c (\<lambda>ce. ce\<lparr>is_dirty := True\<rparr>)
                         else ebind (obj s c) (\<lambda>_. Inr s)) (\<lambda>s.
                  updateAndAddDisplayable n c cps' inc s))) (children e) s1) (\<lambda>s.
         modify s a (\<lambda>e. e\<lparr>is_dirty := False\<rparr>))
       else
         ebind (modify s1 a (\<lambda>e. e\<lparr>clipPaths := cps'\<rparr>)) (\<lambda>s.
         Inr (push_display a s))) = Inr t"
      using Suc.prems(1) e False by (simp add: obj_def) (elim ebind_InrE, auto)
    have ok1: "links_ok K s1"
      using s1 Suc.prems(2) e clip_parent_ok by (auto split: option.splits elim!: ebind_InrE)
    show ?thesis
    proof (cases "isGroup e")
      case True
      then obtain u where u: "each (\<lambda>c s. ebind (obj s a) (\<lambda>e.
                  ebind (if is_dirty e then modify s c (\<lambda>ce. ce\<lparr>is_dirty := True\<rparr>)
                         else ebind (obj s c) (\<lambda>_. Inr s)) (\<lambda>s.
                  updateAndAddDisplayable n c cps' inc s))) (children e) s1 = Inr u"
        and m: "modify u a (\<lambda>e. e\<lparr>is_dirty := False\<rparr>) = Inr t"
        using t by (simp only: if_True) (elim ebind_InrE)
      from u ok1 have "links_ok K u"
        by (rule each_keeps)
          (auto elim!: ebind_InrE split: if_splits intro: Suc.IH dest!: modify_ok simp: links_def)
      then show ?thesis using modify_ok [OF m] by (simp add: links_def)
    next
      case g: False
      then obtain u where "modify s1 a (\<lambda>e. e\<lparr>clipPaths := cps'\<rparr>) = Inr u" "t = push_display a u"
        using t by (auto elim!: ebind_InrE)
      then show ?thesis using modify_ok [of s1 a _ u] ok1 by (simp add: links_def)
    qed
  qed
qed simp

lemma clip_change_ok:
  assumes "modify s a f = Inr t" "links_ok K s"
    "\<And>e. (isGroup (f e), children (f e), el_parent (f e)) = (isGroup e, children e, el_parent e)"
    "\<And>c e. clipPath (f e) = Some c \<Longrightarrow> c \<in> K"
  shows "links_ok K t"
proof -
  obtain e where e: "objs s a = Some e" "t = put s a (f e)" using assms(1) by (auto simp only: modify_put)
  have but: "links_but K (\<lambda>g c. False) s" using assms(2) by (simp add: links_ok_def)
  show ?thesis unfolding links_ok_def
  proof (rule links_butI)
    show "clips_in K t"
      using links_but_clips [OF but] e(2) assms(4) by (auto simp: clips_in_def clip_of_def split: if_splits)
  next
    fix h k assume k: "objs t h = Some k"
    then obtain k0 where k0: "objs s h = Some k0" "isGroup k0 = isGroup k" "children k0 = children k"
      using e assms(3) [of e] by (cases "h = a") auto
    note D = links_butD [OF but k0(1)]
    show "distinct (free K (children k))" "children k \<noteq> [] \<Longrightarrow> isGroup k" using D(1,2) k0 by simp_all
    show "link_ok t h c" if c: "c \<in> set (children k)" "c \<notin> K" for c
    proof -
      have "link_ok s h c" using D(3) c k0(3) by simp
      then show ?thesis using e assms(3) [of e] by (cases "c = a") (auto simp: link_ok_def)
    qed
  qed
qed

lemma removeClipPath_ok:
  assumes "removeClipPath a s = Inr t" "links_ok K s"
  shows "links_ok K t"
proof -
  consider "t = s" | c u where "modify s c (\<lambda>ce. ce\<lparr>clipTarget := None\<rparr>) = Inr u"
      "modify u a (\<lambda>e. e\<lparr>clipPath := None, is_dirty := True\<rparr>) = Inr t"
    using assms(1) by (auto simp: removeClipPath_def elim!: ebind_InrE split: option.splits)
  then show ?thesis
  proof cases
    case (2 c u)
    have "links_ok K u" using modify_ok [OF 2(1) _ assms(2)] by (simp add: links_def)
    then show ?thesis by (rule clip_change_ok [OF 2(2)]) simp_all
  qed (use assms in simp)
qed

lemma setClipPath_ok:
  assumes "setClipPath a c s = Inr t" "links_ok K s" "c \<in> K" shows "links_ok K t"
proof -
  obtain u v w and e :: element where u: "(if clipPath e \<noteq> None \<and> clipPath e \<noteq> Some c then removeClipPath a s else Inr s) = Inr u"
    and v: "modify u a (\<lambda>e. e\<lparr>clipPath := Some c\<rparr>) = Inr v"
    and w: "modify v c (\<lambda>ce. ce\<lparr>clipTarget := Some a\<rparr>) = Inr w"
    and t: "modify w a (\<lambda>e. e\<lparr>is_dirty := True\<rparr>) = Inr t"
    using assms(1) unfolding setClipPath_def by (elim ebind_InrE)
  have ok: "links_ok K u" using u assms(2) removeClipPath_ok [of a s u] by (auto split: if_splits)
  from v ok have "links_ok K v" by (rule clip_change_ok) (use assms(3) in auto)
  then have "links_ok K w" using modify_ok [OF w] by (simp add: links_def)
  then show ?thesis using modify_ok [OF t] by (simp add: links_def)
qed

section \<open>Runs of operations\<close>

datatype op = Add addr "addr option" | AddBefore addr "addr option" "addr option"
  | Remove addr addr | RemoveAll addr | AddRoot addr | DelRoot root_arg | Hide addr | Show addr | Dirty addr
  | Display bool bool | SetClipPath addr addr | RemoveClipPath addr

text \<open>Only a group has the methods of \<^verbatim>\<open>Group\<close>; the call on another element raises.\<close>

definition on_group :: "scene \<Rightarrow> addr \<Rightarrow> js_error + 'a \<Rightarrow> js_error + 'a" where
  "on_group s g r = (if is_group s g then r else Inl TypeError)"

definition do_op :: "nat \<Rightarrow> op \<Rightarrow> scene \<Rightarrow> scene comp" where
  "do_op n p s = (case p of
     Add g c \<Rightarrow> Some (on_group s g (add n g c s))
   | AddBefore g c b \<Rightarrow> Some (on_group s g (addBefore n g c b s))
   | Remove g c \<Rightarrow> Some (on_group s g (group_remove n g c s))
   | RemoveAll g \<Rightarrow> Some (on_group s g (removeAll n g s))
   | AddRoot a \<Rightarrow> Some (addRoot n a s)
   | DelRoot x \<Rightarrow> Some (delRoot n x s)
   | Hide a \<Rightarrow> Some (hide a s)
   | Show a \<Rightarrow> Some (show_el a s)
   | Dirty g \<Rightarrow> Some (group_dirty g s)
   | Display canvas inc \<Rightarrow> js_bind (getDisplayList canvas n True inc s) (\<lambda>(s, xs). js_return s)
   | SetClipPath a c \<Rightarrow> Some (setClipPath a c s)
   | RemoveClipPath a \<Rightarrow> Some (removeClipPath a s))"

text \<open>A sequence of operations in their order, and the elements it makes clip paths.\<close>

primrec run :: "nat \<Rightarrow> op list \<Rightarrow> scene \<Rightarrow> scene comp" where
  "run n [] s = js_return s"
| "run n (p # ps) s = js_bind (do_op n p s) (run n ps)"

fun clip_args :: "op list \<Rightarrow> addr set" where
  "clip_args [] = {}"
| "clip_args (SetClipPath a c # ps) = insert c (clip_args ps)"
| "clip_args (p # ps) = clip_args ps"

lemma clip_args_Cons: "clip_args (p # ps) = (case p of SetClipPath a c \<Rightarrow> {c} | _ \<Rightarrow> {}) \<union> clip_args ps"
  by (cases p) auto

lemma js_bind_InrE:
  assumes "js_bind x f = Some (Inr y)" obtains v where "x = Some (Inr v)" "f v = Some (Inr y)"
proof (cases x)
  case (Some r)
  then show thesis using assms that by (cases r) (auto simp: js_bind_def)
qed (use assms in \<open>simp add: js_bind_def\<close>)

lemma display_ok:
  assumes "getDisplayList canvas n upd inc s = Some (Inr (t, xs))" "links_ok K s" shows "links_ok K t"
proof -
  have same: "links_ok K v \<Longrightarrow> objs w = objs v \<Longrightarrow> links_ok K w" for v w
    using same_objs_links same_links_ok by blast
  have "links_ok K u" if u: "updateDisplayList canvas n inc s = Some (Inr u)" for u
  proof -
    obtain rs v where v: "each (\<lambda>r. updateAndAddDisplayable n r None inc) rs (s\<lparr>displayListLen := 0\<rparr>) = Inr v"
      and uv: "objs u = objs v"
      using u by (auto simp: updateDisplayList_def js_return_def Let_def elim!: js_bind_InrE ebind_InrE split: if_splits)
    from v have "links_ok K v"
      by (rule each_keeps) (auto intro: same [OF assms(2)] update_keeps_links)
    then show ?thesis using uv by (rule same)
  qed
  then show ?thesis
    using assms by (auto simp: getDisplayList_def js_return_def elim!: js_bind_InrE split: if_splits)
qed

lemma do_op_ok:
  assumes "do_op n p s = Some (Inr t)" "clip_args [p] \<subseteq> K" "links_ok K s" shows "links_ok K t"
proof (cases p)
  case (Remove g c)
  then show ?thesis using assms group_remove_but [of n g c s t K "\<lambda>g c. False"]
    by (simp add: do_op_def on_group_def links_ok_def split: if_splits)
next
  case (Display canvas inc)
  then show ?thesis using assms(1,3) display_ok
    by (auto simp: do_op_def js_return_def elim!: js_bind_InrE)
qed (use assms add_ok addBefore_ok removeAll_ok setClipPath_ok removeClipPath_ok
      same_links_ok [OF addRoot_links] same_links_ok [OF delRoot_links(1)] modify_ok [of s]
    in \<open>force simp: do_op_def on_group_def hide_def show_el_def group_dirty_def links_def split: if_splits\<close>)+

text \<open>
  C4. The links of the scene graph are well formed at every moment.  Take any sequence of operations of
  \<^verbatim>\<open>Group\<close>, \<^verbatim>\<open>Element\<close> and \<^verbatim>\<open>Storage\<close> that return, on any arguments, and a set \<open>K\<close> with the clip paths of
  the first scene and every argument of \<^verbatim>\<open>setClipPath\<close> in the sequence.  Then at the end every child of a group
  that is not in \<open>K\<close> is an element whose parent is that group, it is there once, only groups have
  children, and every clip path is in \<open>K\<close>.  Nothing is said of the parents of clip paths: an update of the
  display list overwrites them, also those of a clip path that is a child.
\<close>

theorem links_kept:
  assumes "run n ps s = Some (Inr t)" "links_ok K s" "clip_args ps \<subseteq> K"
  shows "links_ok K t"
  using assms
proof (induction ps arbitrary: s)
  case (Cons p ps)
  from Cons.prems(1) obtain u where u: "do_op n p s = Some (Inr u)" "run n ps u = Some (Inr t)"
    by (auto elim: js_bind_InrE)
  have "clip_args [p] \<subseteq> K" "clip_args ps \<subseteq> K" using Cons.prems(3) clip_args_Cons [of p] by auto
  then show ?case using Cons.IH [OF u(2)] do_op_ok [OF u(1)] Cons.prems(2) by blast
qed (simp add: js_return_def)

text \<open>
  In the run of the witness element 3 becomes a child of the group, then the clip path of element 2, and the
  update of the display list makes element 2 its parent; element 2 keeps its own link.
\<close>

lemmas run_defs = do_op_def on_group_def is_group_def demo_defs add_def addBefore_def doAdd_def modify_def obj_def
  splice_in_def setClipPath_def addRoot_def addToMap_def getDisplayList_def updateDisplayList_def js_bind_def
  js_return_def push_display_def group_children_def get_def

theorem links_kept_witness:
  "\<exists>t. run (Suc (Suc (Suc 0))) [Add 1 (Some 2), AddBefore 1 (Some 3) (Some 2), SetClipPath 2 3, AddRoot 1, Display False False]
       demo_scene = Some (Inr t) \<and>
     group_children 1 t = Inr [3, 2] \<and> map_option el_parent (objs t 3) = Some (Some 2) \<and> links_ok {3} t"
proof -
  let ?n = "Suc (Suc (Suc 0))"
  let ?ps = "[Add 1 (Some 2), AddBefore 1 (Some 3) (Some 2), SetClipPath 2 3, AddRoot 1, Display False False]"
  define t where "t = projr (the (run ?n ?ps demo_scene))"
  have t: "run ?n ?ps demo_scene = Some (Inr t)" unfolding t_def by (simp add: run_defs)
  have "group_children 1 t = Inr [3, 2]" "map_option el_parent (objs t 3) = Some (Some 2)"
    unfolding t_def by (simp_all add: run_defs)
  moreover have "links_ok {3} demo_scene"
    by (simp add: links_ok_def links_but_def clips_in_def clip_of_def demo_defs)
  ultimately show ?thesis using t links_kept [OF t, of "{3}"] by auto
qed

end
