(* ===== verification/Spec2Isabelle.thy ===== *)
theory Spec2Isabelle
  imports Base64 LRU DataDiffer TopoTravel BaseStrings Cookies Forms Pages TableCorners TableToggle TableLayout TableDetail SceneLinks
begin

text \<open>
  A model of the JavaScript of the CloudMQ console (\<^verbatim>\<open>cloudmq-web/src/main/webapp/static\<close>) with the
  theorems that make it correct.

  \<^bold>\<open>The program.\<close>  The console's pages load \<^verbatim>\<open>common/util.js\<close>, \<^verbatim>\<open>config.js\<close>, \<^verbatim>\<open>ajax.data.controller.js\<close> and
  \<^verbatim>\<open>web.data.common.js\<close>: a handler reads the page, calls \<^verbatim>\<open>ajaxDataController\<close>, which opens a loading
  layer and sends a request; the callbacks of the request show messages, build markup, write cookies
  (\<^verbatim>\<open>jquery.cookie.js\<close>) and go to other pages.  Lists of users, topics and groups are shown by
  \<^verbatim>\<open>bootstrap-table.js\<close>, with the options of \<^verbatim>\<open>user.list.ops.js\<close>; charts by \<^verbatim>\<open>gmq-echarts.js\<close> on echarts
  3.2.2.  \<^verbatim>\<open>base.js\<close> adds string and date methods, \<^verbatim>\<open>Base64.js\<close> encodes texts.

  \<^bold>\<open>The language.\<close>  \<open>Prelude\<close>, \<open>JsValue\<close>, \<open>JsString\<close> and \<open>Regex\<close> hold what the scripts use of JavaScript: strings as
  lists of UTF-16 code units, values as a datatype, numbers as doubles with their rounding, property reads
  that throw on \<^verbatim>\<open>null\<close> and \<^verbatim>\<open>undefined\<close> (\<open>js_error + 'a\<close>), objects as association lists in creation order,
  \<^verbatim>\<open>$.extend\<close>, string methods, number parsing and printing, \<^verbatim>\<open>JSON.stringify\<close>, a matcher for regular
  expressions by derivatives.  Letters change case as ASCII letters do.

  \<^bold>\<open>The components.\<close>
  \<^item> \<open>Base64\<close>: \<^verbatim>\<open>Base64.js\<close> on its bit arrays; round trip, agreement with RFC 4648 over UTF-8 for each code
    unit, reading of standard UTF-8, and what it writes for supplementary characters (CESU-8, not UTF-8).  The contract of a
    codec is the locale \<open>codec\<close> of \<open>Prelude\<close>, interpreted here and in \<open>Cookies\<close>.
  \<^item> \<open>LRU\<close>, \<open>DataDiffer\<close>, \<open>TopoTravel\<close>: three modules of echarts.  The cache is a doubly linked list on an explicit
    heap that refines a bounded recency list (locale \<open>lru_cache\<close>); the differ reports exactly the updates,
    removals and additions of keyed arrays; the travel calls every component after its dependencies and
    throws exactly when one to be visited depends on a cycle.
  \<^item> \<open>JsLoop\<close>, \<open>TimSort\<close>, \<open>TimRuns\<close>, \<open>TimMerge\<close>, \<open>TimLow\<close>, \<open>TimHigh\<close>, \<open>TimProps\<close>, \<open>TimStack\<close>: the sort of zrender (\<^verbatim>\<open>zrender/core/timsort\<close>).
    \<open>JsLoop\<close> has loops over arrays that may throw or not end, with a weakest precondition for total correctness; \<open>TimSort\<close> the
    module itself, its galloping with 32-bit shifts; the others its correctness, bottom up: runs and searches (locale
    \<open>total_comparator\<close>), the loop both merges share (locale \<open>merge_loop\<close>), the merge from the low end (\<open>low_laws\<close>) and from
    the high end (\<open>high_laws\<close>), their composition, the stack of runs.  With a comparator that is a total preorder the sort returns
    the reference stable sort and never throws; with any comparator it ends.
  \<^item> \<open>Scene\<close>, \<open>SceneLinks\<close>: groups, roots, clip paths and the display list of zrender (\<^verbatim>\<open>Group\<close>, \<^verbatim>\<open>Storage\<close>, parts of \<^verbatim>\<open>Element\<close>), objects on a
    heap.  The display list is the stable sort of a depth first walk by \<^verbatim>\<open>zlevel\<close>, \<^verbatim>\<open>z\<close> and \<^verbatim>\<open>z2\<close>, by the theorem on the sort; the
    links between groups and children stay well formed in every run of operations, but for elements that are used as clip
    paths, whose parent the display list overwrites.  The three levels are rational numbers, not \<^verbatim>\<open>NaN\<close>.
  \<^item> \<open>BaseStrings\<close>, \<open>Cookies\<close>: \<^verbatim>\<open>base.js\<close> and \<^verbatim>\<open>jquery.cookie.js\<close>; termination of \<^verbatim>\<open>firstIndexOf\<close>, time stamps, the round
    trip of a cookie.
  \<^item> \<open>Console\<close>, \<open>Forms\<close>, \<open>Pages\<close>: the console's own scripts as actions over the state of the page, with a step relation for what
    user and server do; loading layers belong to requests under way, where requests go, what the forms accept, the
    static charts.
  \<^item> \<open>TableTools\<close>, \<open>TableOptions\<close>, \<open>TablePages\<close>, \<open>TableState\<close>, \<open>TableBody\<close>, \<open>TableMethods\<close>: \<^verbatim>\<open>bootstrap-table.js\<close>.  Rows and arrays are objects
    in a store, so that \<^verbatim>\<open>this.data\<close> and \<^verbatim>\<open>this.options.data\<close> can be the same array.  \<open>TableMethods\<close> has every handler in
    full, with the search, the pages, the sort and the rendering it ends with.
  \<^item> \<open>TableProps\<close>, \<open>TableSpec\<close>, \<open>TableCorners\<close>: what is proved of the table.  Every operation keeps the rows on display among the rows of
    the table; the row methods of a table with default behaviour return and refine the list operations; pages
    partition the rows; the page bar is complete; filters; and the cases in which the table loses a row, a
    sort or its loading message.
  \<^item> \<open>TableHeader\<close>, \<open>TableColumns\<close>, \<open>TableMenu\<close>, \<open>TableToggle\<close>, \<open>TableLayout\<close>: the columns of \<^verbatim>\<open>bootstrap-table.js\<close>.  \<open>TableHeader\<close> has \<^verbatim>\<open>initTable\<close>,
    \<^verbatim>\<open>initHeader\<close>, \<^verbatim>\<open>initToolbar\<close>, the menu of columns, the methods that show and hide columns, rows and cells, the footer and the
    container; a column that \<^verbatim>\<open>this.columns\<close> and \<^verbatim>\<open>options.columns\<close> share is one object.  The header follows the columns
    (\<open>TableColumns\<close>); the menu follows them too and its clicks keep the minimum of columns (\<open>TableMenu\<close>); \<^verbatim>\<open>toggleColumn\<close> returns
    (\<open>TableToggle\<close>); rows read from the markup are laid out as HTML lays out a table (\<open>TableLayout\<close>).
  \<^item> \<open>TableDetail\<close>: clicks on cells and on the icons of detail rows, and the methods that open and close them.  The body refines a
    list of rows with optional details; its icons tell the truth in every run, and closing all rows undoes opening them.

  \<^bold>\<open>Parameters.\<close>  Code outside the repository and code the engine chooses is an argument: the cookie store of the browser (reading and
    assigning \<^verbatim>\<open>document.cookie\<close>, with the laws of RFC 6265 as \<open>session_store\<close>) and the JSON parser in \<open>Cookies\<close>, the constructor and the
    methods in the plugin function of the table, the
    dependency getter in \<open>TopoTravel\<close>, page functions (\<open>caller\<close>), global names, the engine's sort and its collation
    (\<open>env\<close>) in the table.  The sort is assumed to return the elements it was given.  \<open>default_call\<close> gives the functions of the
    table's own default options.

  \<^bold>\<open>Termination.\<close>  Loops over data are structural recursion; \<open>travel_loop\<close>, \<open>replace_lit\<close> and the matcher have
  measures; \<^verbatim>\<open>firstIndexOf\<close>, which may not return, is a partial function.  The digits of a double are found within 2200
  steps of the exponent and 17 digits, which covers the whole range of doubles.  The loops of the sort are the partial
  function \<open>js_do\<close>, and that they end is proved; the recursive methods of the scene take the depth of the call stack, and a tree
  less deep than it is walked to the end.

  \<^bold>\<open>Not modelled.\<close>  Of the table: the sizes of elements and their fitting (\<^verbatim>\<open>fitHeader\<close>, \<^verbatim>\<open>fitFooter\<close>, \<^verbatim>\<open>resetWidth\<close>), the binding of the events of
  columns in the body, the opening of nested tables by a timer, \<^verbatim>\<open>destroy\<close>.  Of the scene: transforms, bounding rectangles and animators.  The rest of jQuery,
  bootstrap, echarts and layer, third-party libraries the scripts only call; the windows of \<^verbatim>\<open>base.js\<close>, which only build elements;
  the Java modules, which the console reaches through requests.
\<close>

end
